(* ===== verification/Prelude.thy ===== *)
theory Prelude
  imports Main "HOL-Library.AList" "HOL-Library.List_Lexorder" "HOL-Library.Char_ord"
begin

text \<open>
  What every component shares: Python exceptions as values, the little of \<^verbatim>\<open>str\<close> the
  package relies on (ASCII classes, decimal rendering), dictionaries as association
  lists in insertion order, sorted duplicate-free tuples, and two interfaces
  (\<open>machine\<close>, \<open>tally\<close>) that lift a fact about one call to a whole history of calls.

  A Python \<^verbatim>\<open>str\<close> is a HOL \<^typ>\<open>string\<close>: a list of code points below 256. Every check the
  package makes on a string tells ASCII from the rest and never looks inside the rest,
  so code points 128 to 255 stand for all non-ASCII ones.
\<close>

named_theorems py_defs "definitions that only name a check of the source"
named_theorems wf_rules "facts that establish well-formedness of a component's state"

section \<open>Exceptions and results\<close>

text \<open>
  The exception classes the package raises or catches, all of them subclasses of \<^verbatim>\<open>Exception\<close>, so
  that \<^verbatim>\<open>except Exception\<close> catches every \<open>Inl\<close>. A function of the source that may raise returns
  \<open>'a res\<close>; messages are not modelled, since no caller reads them.
\<close>

datatype py_exc =
    ValueError | JSONDecodeError | TypeError | KeyError | AttributeError | OverflowError
  | OSError | FileExistsError | RuntimeError | RecursionError | OtherException

type_synonym 'a res = "py_exc + 'a"

definition is_ok :: "'a res \<Rightarrow> bool" where
  "is_ok r = (case r of Inl _ \<Rightarrow> False | Inr _ \<Rightarrow> True)"

lemma is_ok_simps [simp]: "is_ok (Inl e) = False" "is_ok (Inr x) = True"
  by (simp_all add: is_ok_def)

definition res_bind :: "'e + 'a \<Rightarrow> ('a \<Rightarrow> 'e + 'b) \<Rightarrow> 'e + 'b" where
  "res_bind r f = (case r of Inl e \<Rightarrow> Inl e | Inr x \<Rightarrow> f x)"

lemma res_bind_simps [simp]:
  "res_bind (Inl e) f = Inl e" "res_bind (Inr x) f = f x"
  by (simp_all add: res_bind_def)

lemma res_bind_Inr [simp]: "res_bind r f = Inr y \<longleftrightarrow> (\<exists>x. r = Inr x \<and> f x = Inr y)"
  by (cases r) auto

lemma guard_Inr [simp]:
  "(if c then Inl e else r) = Inr y \<longleftrightarrow> \<not> c \<and> r = Inr y"
  "(if c then r else Inl e) = Inr y \<longleftrightarrow> c \<and> r = Inr y"
  by auto

lemma res_bind_cong [fundef_cong]:
  "r = r' \<Longrightarrow> (\<And>x. r' = Inr x \<Longrightarrow> f x = f' x) \<Longrightarrow> res_bind r f = res_bind r' f'"
  by (cases r') auto

text \<open>A comprehension that raises at the first element that raises.\<close>

primrec res_map :: "('a \<Rightarrow> 'e + 'b) \<Rightarrow> 'a list \<Rightarrow> 'e + 'b list" where
  "res_map f [] = Inr []"
| "res_map f (x # xs) = res_bind (f x) (\<lambda>y. res_bind (res_map f xs) (\<lambda>ys. Inr (y # ys)))"

lemma res_map_Inr: "res_map f xs = Inr ys \<longleftrightarrow> list_all2 (\<lambda>x y. f x = Inr y) xs ys"
proof (induction xs arbitrary: ys)
  case Nil
  then show ?case by auto
next
  case (Cons x xs)
  then show ?case by (cases ys) auto
qed

lemma res_map_cong [fundef_cong]:
  "xs = ys \<Longrightarrow> (\<And>x. x \<in> set ys \<Longrightarrow> f x = g x) \<Longrightarrow> res_map f xs = res_map g ys"
  by (induction xs arbitrary: ys) auto

lemma res_map_iff:
  assumes "\<And>x y. f x = Inr y \<longleftrightarrow> x = g y \<and> P y"
  shows "res_map f xs = Inr ys \<longleftrightarrow> xs = map g ys \<and> (\<forall>y \<in> set ys. P y)"
proof (induction xs arbitrary: ys)
  case Nil
  then show ?case by auto
next
  case (Cons x xs)
  then show ?case by (cases ys) (auto simp: assms)
qed

section \<open>Characters, ASCII and decimal numbers\<close>

definition code :: "char \<Rightarrow> nat" where
  "code c = of_char c"

definition is_ascii :: "string \<Rightarrow> bool" where
  "is_ascii s = list_all (\<lambda>c. code c < 128) s"

text \<open>\<^verbatim>\<open>str.isprintable\<close> on ASCII characters: space to tilde.\<close>

definition is_printable :: "string \<Rightarrow> bool" where
  "is_printable s = list_all (\<lambda>c. 32 \<le> code c \<and> code c \<le> 126) s"

definition is_digit :: "char \<Rightarrow> bool" where
  "is_digit c = (48 \<le> code c \<and> code c \<le> 57)"

text \<open>The class \<^verbatim>\<open>[0-9a-f]\<close> of the package's regular expressions.\<close>

definition is_hex :: "char \<Rightarrow> bool" where
  "is_hex c = (is_digit c \<or> (97 \<le> code c \<and> code c \<le> 102))"

definition digit :: "nat \<Rightarrow> char" where
  "digit d = char_of (48 + d)"

lemma code_digit [simp]: "d < 10 \<Longrightarrow> code (digit d) = 48 + d"
  by (simp add: code_def digit_def)

lemma digit_is_digit [simp]: "d < 10 \<Longrightarrow> is_digit (digit d)"
  by (simp add: is_digit_def)

text \<open>\<^verbatim>\<open>str(n)\<close> of a non-negative integer, and \<^verbatim>\<open>int(s)\<close> of a string of digits.\<close>

fun dec :: "nat \<Rightarrow> string" where
  "dec n = (if n < 10 then [digit n] else dec (n div 10) @ [digit (n mod 10)])"

declare dec.simps [simp del]

definition undec :: "string \<Rightarrow> nat" where
  "undec s = foldl (\<lambda>a c. 10 * a + (code c - 48)) 0 s"

lemma undec_snoc [simp]: "undec (s @ [c]) = 10 * undec s + (code c - 48)"
  by (simp add: undec_def)

lemma undec_dec [simp]: "undec (dec n) = n"
proof (induction n rule: dec.induct)
  case (1 n)
  show ?case
  proof (cases "n < 10")
    case True
    then show ?thesis by (simp add: dec.simps [of n] undec_def)
  next
    case False
    with "1.IH" have "undec (dec n) = 10 * (n div 10) + n mod 10"
      by (simp add: dec.simps [of n])
    then show ?thesis by simp
  qed
qed

lemma dec_eq_iff [simp]: "dec m = dec n \<longleftrightarrow> m = n"
  by (metis undec_dec)

lemma dec_not_Nil [simp]: "dec n \<noteq> []"
  by (subst dec.simps) simp

lemma dec_digits: "list_all is_digit (dec n)"
proof (induction n rule: dec.induct)
  case (1 n)
  then show ?case by (cases "n < 10") (simp_all add: dec.simps [of n])
qed

lemma dec_head: "0 < n \<Longrightarrow> hd (dec n) \<noteq> CHR ''0''"
proof (induction n rule: dec.induct)
  case (1 n)
  show ?case
  proof (cases "n < 10")
    case True
    have "code (CHR ''0'') = 48" by (simp add: code_def)
    moreover from True have "code (hd (dec n)) = 48 + n" by (simp add: dec.simps [of n])
    ultimately show ?thesis using "1.prems" by (metis add_cancel_right_right less_numeral_extra(3))
  next
    case False
    then have "0 < n div 10" by simp
    with "1.IH" False have "hd (dec (n div 10)) \<noteq> CHR ''0''" by blast
    with False show ?thesis by (simp add: dec.simps [of n])
  qed
qed

lemma dec_zero [simp]: "dec 0 = ''0''"
  by code_simp

lemma length_dec: "n < 10 ^ Suc k \<Longrightarrow> length (dec n) \<le> Suc k"
proof (induction k arbitrary: n)
  case 0
  then show ?case by (simp add: dec.simps [of n])
next
  case (Suc k)
  show ?case
  proof (cases "n < 10")
    case True
    then show ?thesis by (simp add: dec.simps [of n])
  next
    case False
    from Suc.prems have "n div 10 < 10 ^ Suc k" by (simp add: div_less_iff_less_mult mult.commute)
    from Suc.IH [OF this] False show ?thesis by (simp add: dec.simps [of n])
  qed
qed

section \<open>Sorted tuples without duplicates\<close>

text \<open>
  \<^verbatim>\<open>tuple(sorted(set(xs))) == xs\<close>, the test every roster of the package goes through.
\<close>

definition is_sorted_unique :: "'a::linorder list \<Rightarrow> bool" where
  "is_sorted_unique xs = (sort (remdups xs) = xs)"

lemma is_sorted_unique_iff: "is_sorted_unique xs \<longleftrightarrow> sorted_wrt (<) xs"
proof
  assume "is_sorted_unique xs"
  then have "sort (remdups xs) = xs" by (simp add: is_sorted_unique_def)
  then have "sorted xs \<and> distinct xs"
    by (metis distinct_remdups distinct_sort sorted_sort)
  then show "sorted_wrt (<) xs" by (simp add: strict_sorted_iff)
next
  assume "sorted_wrt (<) xs"
  then have "sorted xs" "distinct xs" by (simp_all add: strict_sorted_iff)
  then show "is_sorted_unique xs"
    by (simp add: is_sorted_unique_def distinct_remdups_id sort_key_id_if_sorted)
qed

lemma is_sorted_unique_distinct: "is_sorted_unique xs \<Longrightarrow> distinct xs"
  by (simp add: is_sorted_unique_iff strict_sorted_iff)

lemma is_sorted_unique_set_eq:
  "is_sorted_unique xs \<Longrightarrow> is_sorted_unique ys \<Longrightarrow> set xs = set ys \<Longrightarrow> xs = ys"
  by (simp add: is_sorted_unique_iff strict_sorted_equal)

section \<open>Dictionaries\<close>

text \<open>
  A Python dictionary is an association list in insertion order; \<^verbatim>\<open>d[k] = v\<close> is
  \<open>AList.update\<close> (in place, or appended), \<^verbatim>\<open>del d[k]\<close> is \<open>AList.delete\<close>,
  \<^verbatim>\<open>d.get(k)\<close> is \<open>map_of\<close> and \<^verbatim>\<open>len(d)\<close> is \<open>length\<close>. The keys of a dictionary the
  program built are distinct.
\<close>

type_synonym ('k, 'v) dict = "('k \<times> 'v) list"

abbreviation dict_keys :: "('k, 'v) dict \<Rightarrow> 'k list" where
  "dict_keys d \<equiv> map fst d"

abbreviation dict_ok :: "('k, 'v) dict \<Rightarrow> bool" where
  "dict_ok d \<equiv> distinct (map fst d)"

lemma dict_ok_update [simp]: "dict_ok d \<Longrightarrow> dict_ok (AList.update k v d)"
  by (rule distinct_update)

lemma dict_ok_delete [simp]: "dict_ok d \<Longrightarrow> dict_ok (AList.delete k d)"
  by (rule distinct_delete)

lemma map_of_update [simp]: "map_of (AList.update k v d) = (map_of d)(k \<mapsto> v)"
  by (rule update_conv')

lemma map_of_del [simp]: "map_of (AList.delete k d) = (map_of d)(k := None)"
  by (rule delete_conv')

lemma length_update_new: "map_of d k = None \<Longrightarrow> length (AList.update k v d) = Suc (length d)"
  by (induction d) (auto split: if_splits)

lemma length_update_old:
  "map_of d k = Some w \<Longrightarrow> length (AList.update k v d) = length d"
  by (induction d) (auto split: if_splits)

lemma length_delete_old:
  "dict_ok d \<Longrightarrow> map_of d k = Some w \<Longrightarrow> Suc (length (AList.delete k d)) = length d"
proof (induction d)
  case Nil
  then show ?case by simp
next
  case (Cons p d)
  obtain k' v' where p: "p = (k', v')" by (cases p)
  show ?case
  proof (cases "k' = k")
    case True
    with Cons.prems p have "k \<notin> fst ` set d" by auto
    with True p show ?thesis by simp
  next
    case False
    with Cons p show ?thesis by simp
  qed
qed

lemma dict_empty_iff: "map_of d = Map.empty \<longleftrightarrow> d = []"
  by (cases d) auto

lemma dict_ok_fold_delete: "dict_ok d \<Longrightarrow> dict_ok (fold AList.delete ks d)"
  by (induction ks arbitrary: d) simp_all

lemma map_of_fold_delete:
  "map_of (fold AList.delete ks d) k = (if k \<in> set ks then None else map_of d k)"
  by (induction ks arbitrary: d) auto

lemma length_fold_delete: "length (fold AList.delete ks d) \<le> length d"
  by (induction ks arbitrary: d) (auto intro: order_trans [OF _ length_delete_le])

text \<open>A law on every entry of a dict.\<close>

definition entries_ok :: "('k \<Rightarrow> 'v \<Rightarrow> bool) \<Rightarrow> ('k, 'v) dict \<Rightarrow> bool" where
  "entries_ok P d \<longleftrightarrow> (\<forall>k v. map_of d k = Some v \<longrightarrow> P k v)"

lemma entries_ok_simps [simp]:
  "entries_ok P []"
  "entries_ok P d \<Longrightarrow> P k v \<Longrightarrow> entries_ok P (AList.update k v d)"
  "entries_ok P d \<Longrightarrow> entries_ok P (AList.delete k d)"
  by (simp_all add: entries_ok_def del: split_paired_All)

lemma entries_okD: "entries_ok P d \<Longrightarrow> map_of d k = Some v \<Longrightarrow> P k v"
  by (simp add: entries_ok_def)

lemma entries_ok_mono: "entries_ok P d \<Longrightarrow> (\<And>k v. P k v \<Longrightarrow> Q k v) \<Longrightarrow> entries_ok Q d"
  by (simp add: entries_ok_def del: split_paired_All)

text \<open>How many items of a list satisfy a predicate.\<close>

definition how_many :: "('a \<Rightarrow> bool) \<Rightarrow> 'a list \<Rightarrow> nat" where
  "how_many P xs = length (filter P xs)"

lemma how_many_simps [simp]:
  "how_many P [] = 0" "how_many P (xs @ [x]) = how_many P xs + (if P x then 1 else 0)"
  by (simp_all add: how_many_def)

section \<open>Dictionaries built from lists\<close>

text \<open>\<^verbatim>\<open>{key(m): m for m in ms}\<close>\<close>

definition dict_of :: "('m \<Rightarrow> 'k) \<Rightarrow> 'm list \<Rightarrow> ('k, 'm) dict" where
  "dict_of key ms = foldl (\<lambda>d m. AList.update (key m) m d) [] ms"

lemma dict_of_snoc: "dict_of key (ms @ [m]) = AList.update (key m) m (dict_of key ms)"
  by (simp add: dict_of_def)

lemma dict_of_keys: "fst ` set (dict_of key ms) = key ` set ms"
proof (induction ms rule: rev_induct)
  case Nil
  then show ?case by (simp add: dict_of_def)
next
  case (snoc m ms)
  then show ?case by (simp add: dict_of_snoc dom_update)
qed

lemma dict_of_ok: "dict_ok (dict_of key ms)"
proof (induction ms rule: rev_induct)
  case Nil
  then show ?case by (simp add: dict_of_def)
next
  case (snoc m ms)
  then show ?case by (simp add: dict_of_snoc)
qed

lemma length_dict_of: "length (dict_of key ms) = length ms \<longleftrightarrow> distinct (map key ms)"
proof -
  have "length (dict_of key ms) = card (key ` set ms)"
    using distinct_card [OF dict_of_ok, of key ms] dict_of_keys [of key ms] by simp
  also have "\<dots> = card (set (map key ms))" by simp
  finally show ?thesis
    by (metis card_distinct distinct_card length_map)
qed

lemma dict_of_lookup:
  "distinct (map key ms) \<Longrightarrow> m \<in> set ms \<Longrightarrow> map_of (dict_of key ms) (key m) = Some m"
proof (induction ms rule: rev_induct)
  case Nil
  then show ?case by simp
next
  case (snoc x ms)
  show ?case
  proof (cases "m = x")
    case False
    with snoc have "key m \<noteq> key x" by (auto simp: rev_image_eqI)
    with False snoc show ?thesis by (simp add: dict_of_snoc)
  qed (simp add: dict_of_snoc)
qed

text \<open>Each expected key is carried by exactly one element, and no other key by any.\<close>

definition exactly_one_each :: "('m \<Rightarrow> 'k) \<Rightarrow> 'm list \<Rightarrow> 'k set \<Rightarrow> bool" where
  "exactly_one_each key ms ks \<longleftrightarrow>
     (\<forall>k. length (filter (\<lambda>m. key m = k) ms) = (if k \<in> ks then 1 else 0))"

lemma exactly_one_each_iff:
  "exactly_one_each key ms ks \<longleftrightarrow> distinct (map key ms) \<and> key ` set ms = ks"
proof
  assume ex: "exactly_one_each key ms ks"
  have "distinct (map key ms)"
  proof (rule ccontr)
    assume "\<not> distinct (map key ms)"
    then obtain xs ys zs k where "map key ms = xs @ [k] @ ys @ [k] @ zs"
      using not_distinct_decomp by blast
    moreover have "length (filter (\<lambda>m. key m = k) ms) = length (filter (\<lambda>x. x = k) (map key ms))"
      by (simp add: filter_map comp_def)
    ultimately have "2 \<le> length (filter (\<lambda>m. key m = k) ms)" by simp
    with ex show False unfolding exactly_one_each_def
      by (metis One_nat_def Suc_1 not_less_eq_eq order_refl zero_order(1) not_numeral_le_zero)
  qed
  moreover have "k \<in> key ` set ms \<longleftrightarrow> k \<in> ks" for k
  proof -
    have "k \<in> key ` set ms \<longleftrightarrow> filter (\<lambda>m. key m = k) ms \<noteq> []"
      by (auto simp: filter_empty_conv)
    also have "\<dots> \<longleftrightarrow> length (filter (\<lambda>m. key m = k) ms) \<noteq> 0" by simp
    also have "\<dots> \<longleftrightarrow> k \<in> ks" using ex by (simp add: exactly_one_each_def)
    finally show ?thesis .
  qed
  ultimately show "distinct (map key ms) \<and> key ` set ms = ks" by blast
next
  assume "distinct (map key ms) \<and> key ` set ms = ks"
  then have d: "distinct (map key ms)" and ks: "ks = key ` set ms" by auto
  have "length (filter (\<lambda>m. key m = k) ms) = (if k \<in> key ` set ms then 1 else 0)" for k
    using d by (induction ms) (auto simp: filter_empty_conv)
  with ks show "exactly_one_each key ms ks" unfolding exactly_one_each_def by simp
qed

lemma dict_of_exact:
  "length (dict_of key ms) = length ms \<and> set (dict_keys (dict_of key ms)) = ks \<longleftrightarrow>
     exactly_one_each key ms ks"
  by (simp add: length_dict_of exactly_one_each_iff dict_of_keys)

section \<open>Operations that raise nothing but ValueError\<close>

definition only_value_error :: "'a res \<Rightarrow> bool" where
  "only_value_error r = (\<forall>e. r = Inl e \<longrightarrow> e = ValueError)"

lemma only_value_error_intros [intro!, simp]:
  "only_value_error (Inr x)" "only_value_error (Inl ValueError)"
  by (simp_all add: only_value_error_def)

lemma only_value_error_bind:
  "only_value_error r \<Longrightarrow> (\<And>x. only_value_error (f x)) \<Longrightarrow> only_value_error (res_bind r f)"
  by (cases r) (auto simp: only_value_error_def)

lemma only_value_error_if:
  "only_value_error r \<Longrightarrow> only_value_error r' \<Longrightarrow> only_value_error (if c then r else r')"
  by simp

lemma only_value_error_map:
  "(\<And>x. only_value_error (f x)) \<Longrightarrow> only_value_error (res_map f xs)"
  by (induction xs) (auto intro!: only_value_error_bind)

section \<open>Histories of calls\<close>

text \<open>
  A component is a state and a handler; a history is the list of calls it served. An
  invariant that every call keeps holds after every history.
\<close>

definition run :: "('s \<Rightarrow> 'e \<Rightarrow> 's) \<Rightarrow> 'e list \<Rightarrow> 's \<Rightarrow> 's" where
  "run step es s = foldl step s es"

lemma run_simps [simp]:
  "run step [] s = s" "run step (e # es) s = run step es (step s e)"
  "run step (es @ fs) s = run step fs (run step es s)"
  by (simp_all add: run_def)

locale machine =
  fixes step :: "'s \<Rightarrow> 'e \<Rightarrow> 's" and ok :: "'e \<Rightarrow> bool" and inv :: "'s \<Rightarrow> bool"
  assumes step_keeps: "inv s \<Longrightarrow> ok e \<Longrightarrow> inv (step s e)"
begin

lemma run_keeps: "inv s \<Longrightarrow> list_all ok es \<Longrightarrow> inv (run step es s)"
  by (induction es arbitrary: s) (simp_all add: step_keeps)

end

text \<open>
  A component that counts what becomes of each call: a call adds its weight to the total of
  the counters, so the total is the weight of the history.
\<close>

locale tally =
  fixes step :: "'s \<Rightarrow> 'e \<Rightarrow> 's" and weight :: "'e \<Rightarrow> nat" and total :: "'s \<Rightarrow> nat"
  assumes step_counts: "total (step s e) = total s + weight e"
begin

lemma run_counts: "total (run step es s) = total s + sum_list (map weight es)"
  by (induction es arbitrary: s) (simp_all add: step_counts)

end

end
