(* ===== verification/Py_Values.thy ===== *)
theory Py_Values
  imports Complex_Main Prelude
begin

text \<open>
  The data the package passes around: its string-valued enums, its frozen value classes,
  and \<open>pyval\<close>, the Python values a constructor of the package may be handed. JSON payloads
  are the \<open>pyval\<close>s built from \<open>PNone\<close>, \<open>PBool\<close>, \<open>PInt\<close>, \<open>PFloat\<close>, \<open>PStr\<close>,
  \<open>PList\<close> and \<open>PDict\<close>.
\<close>

section \<open>Enums of schema.py\<close>

datatype observation_event =
    PRESERVE_STARTED | PRESERVE_COMPLETED | TRANSFER_STARTED | TRANSFER_COMPLETED
  | TRANSFER_FAILED | TRANSFER_CANCELLED | RESTORE_STARTED | RESTORE_COMPLETED
  | RECOVERY_REQUEUED | RECOVERY_ADMITTED | FIRST_COMPUTE

datatype transfer_direction = D2H | H2D

datatype compute_kind = PREFILL | DECODE

datatype recovery_requeue_reason =
    LORA_CAPACITY | PREFILL_THROTTLED | TOKEN_BUDGET | ENCODER_BUDGET
  | BLOCK_CAPACITY | UNCLASSIFIED

datatype transfer_terminal_reason =
    SUBMISSION_REJECTED | BACKEND_FAILURE | INVALID_MEASUREMENT
  | REQUEST_CANCELLED | WORKER_GENERATION_CHANGED | HOST_SHUTDOWN

primrec event_value :: "observation_event \<Rightarrow> string" where
  "event_value PRESERVE_STARTED = ''preserve_started''"
| "event_value PRESERVE_COMPLETED = ''preserve_completed''"
| "event_value TRANSFER_STARTED = ''transfer_started''"
| "event_value TRANSFER_COMPLETED = ''transfer_completed''"
| "event_value TRANSFER_FAILED = ''transfer_failed''"
| "event_value TRANSFER_CANCELLED = ''transfer_cancelled''"
| "event_value RESTORE_STARTED = ''restore_started''"
| "event_value RESTORE_COMPLETED = ''restore_completed''"
| "event_value RECOVERY_REQUEUED = ''recovery_requeued''"
| "event_value RECOVERY_ADMITTED = ''recovery_admitted''"
| "event_value FIRST_COMPUTE = ''first_compute''"

primrec direction_value :: "transfer_direction \<Rightarrow> string" where
  "direction_value D2H = ''d2h''"
| "direction_value H2D = ''h2d''"

primrec kind_value :: "compute_kind \<Rightarrow> string" where
  "kind_value PREFILL = ''prefill''"
| "kind_value DECODE = ''decode''"

primrec requeue_value :: "recovery_requeue_reason \<Rightarrow> string" where
  "requeue_value LORA_CAPACITY = ''lora_capacity''"
| "requeue_value PREFILL_THROTTLED = ''prefill_throttled''"
| "requeue_value TOKEN_BUDGET = ''token_budget''"
| "requeue_value ENCODER_BUDGET = ''encoder_budget''"
| "requeue_value BLOCK_CAPACITY = ''block_capacity''"
| "requeue_value UNCLASSIFIED = ''unclassified''"

primrec terminal_value :: "transfer_terminal_reason \<Rightarrow> string" where
  "terminal_value SUBMISSION_REJECTED = ''submission_rejected''"
| "terminal_value BACKEND_FAILURE = ''backend_failure''"
| "terminal_value INVALID_MEASUREMENT = ''invalid_measurement''"
| "terminal_value REQUEST_CANCELLED = ''request_cancelled''"
| "terminal_value WORKER_GENERATION_CHANGED = ''worker_generation_changed''"
| "terminal_value HOST_SHUTDOWN = ''host_shutdown''"

section \<open>Enums of the other modules\<close>

text \<open>host\_facts.py, correlated.py, descriptors.py and normalization.py, in this order.\<close>

datatype host_fact_event =
    HF_TRANSFER_RECEIPT | HF_RECOVERY_REQUEUED | HF_RECOVERY_ADMITTED | HF_FIRST_COMPUTE

primrec host_fact_event_value :: "host_fact_event \<Rightarrow> string" where
  "host_fact_event_value HF_TRANSFER_RECEIPT = ''transfer_receipt''"
| "host_fact_event_value HF_RECOVERY_REQUEUED = ''recovery_requeued''"
| "host_fact_event_value HF_RECOVERY_ADMITTED = ''recovery_admitted''"
| "host_fact_event_value HF_FIRST_COMPUTE = ''first_compute''"

datatype correlated_event =
    CE_RECOVERY_REQUEUED | CE_RESTORE_SUBMITTED | CE_RESTORE_COMPLETED
  | CE_TRANSFER_RECEIPT | CE_RECOVERY_ADMITTED | CE_FIRST_COMPUTE

primrec correlated_event_value :: "correlated_event \<Rightarrow> string" where
  "correlated_event_value CE_RECOVERY_REQUEUED = ''recovery_requeued''"
| "correlated_event_value CE_RESTORE_SUBMITTED = ''restore_submitted''"
| "correlated_event_value CE_RESTORE_COMPLETED = ''restore_completed''"
| "correlated_event_value CE_TRANSFER_RECEIPT = ''transfer_receipt''"
| "correlated_event_value CE_RECOVERY_ADMITTED = ''recovery_admitted''"
| "correlated_event_value CE_FIRST_COMPUTE = ''first_compute''"

datatype evidence_label = EXISTING_SERVER_PROBE | REAL_ONLINE | REPLAY | SIMULATION_MODEL

primrec evidence_value :: "evidence_label \<Rightarrow> string" where
  "evidence_value EXISTING_SERVER_PROBE = ''existing-server-probe''"
| "evidence_value REAL_ONLINE = ''real-online''"
| "evidence_value REPLAY = ''replay''"
| "evidence_value SIMULATION_MODEL = ''simulation/model''"

datatype source_host = VLLM | VLLM_ASCEND

primrec source_host_value :: "source_host \<Rightarrow> string" where
  "source_host_value VLLM = ''vllm''"
| "source_host_value VLLM_ASCEND = ''vllm-ascend''"

datatype transfer_operation = D2H_PRESERVE | H2D_RESTORE

primrec operation_value :: "transfer_operation \<Rightarrow> string" where
  "operation_value D2H_PRESERVE = ''d2h_preserve''"
| "operation_value H2D_RESTORE = ''h2d_restore''"

section \<open>Frozen value classes\<close>

text \<open>
  Immutable dataclasses are datatypes; Python equality and hashing of a frozen dataclass
  is field by field, so HOL equality is the source's.
\<close>

datatype observation_identity = ObservationIdentity
  (id_request_id: string) (id_worker_generation: int) (id_rank: int)
  (id_recovery_epoch: "int option")

datatype transfer_identity = TransferIdentity (transfer_value: string)

datatype receipt_identity = ReceiptIdentity (receipt_value: string)

datatype worker_receipt = WorkerReceipt (wr_rank: int) (wr_generation: string)

datatype job_receipt = JobReceipt (jr_job_id: int) (jr_workers: "worker_receipt list")

datatype descriptor_region = DescriptorRegion
  (dr_src_offset: int) (dr_dst_offset: int) (dr_size: int)
  (dr_direction: transfer_direction) (dr_src_region_id: int) (dr_dst_region_id: int)

text \<open>
  \<^verbatim>\<open>@dataclass(order=True)\<close> compares the tuples of the fields: the four ordered classes of
  the source are linear orders.
\<close>

instantiation transfer_identity :: linorder
begin

definition less_eq_transfer_identity :: "transfer_identity \<Rightarrow> transfer_identity \<Rightarrow> bool" where
  "less_eq_transfer_identity a b = (transfer_value a \<le> transfer_value b)"

definition less_transfer_identity :: "transfer_identity \<Rightarrow> transfer_identity \<Rightarrow> bool" where
  "less_transfer_identity a b = (transfer_value a < transfer_value b)"

instance
  by standard
    (auto simp: less_eq_transfer_identity_def less_transfer_identity_def
      intro: transfer_identity.expand)

end

instantiation receipt_identity :: linorder
begin

definition less_eq_receipt_identity :: "receipt_identity \<Rightarrow> receipt_identity \<Rightarrow> bool" where
  "less_eq_receipt_identity a b = (receipt_value a \<le> receipt_value b)"

definition less_receipt_identity :: "receipt_identity \<Rightarrow> receipt_identity \<Rightarrow> bool" where
  "less_receipt_identity a b = (receipt_value a < receipt_value b)"

instance
  by standard
    (auto simp: less_eq_receipt_identity_def less_receipt_identity_def
      intro: receipt_identity.expand)

end

instantiation worker_receipt :: linorder
begin

definition less_worker_receipt :: "worker_receipt \<Rightarrow> worker_receipt \<Rightarrow> bool" where
  "less_worker_receipt a b =
     (wr_rank a < wr_rank b \<or> (wr_rank a = wr_rank b \<and> wr_generation a < wr_generation b))"

definition less_eq_worker_receipt :: "worker_receipt \<Rightarrow> worker_receipt \<Rightarrow> bool" where
  "less_eq_worker_receipt a b =
     (wr_rank a < wr_rank b \<or> (wr_rank a = wr_rank b \<and> wr_generation a \<le> wr_generation b))"

instance
  by standard
    (auto simp: less_eq_worker_receipt_def less_worker_receipt_def
      intro: worker_receipt.expand)

end

instantiation job_receipt :: linorder
begin

definition less_job_receipt :: "job_receipt \<Rightarrow> job_receipt \<Rightarrow> bool" where
  "less_job_receipt a b =
     (jr_job_id a < jr_job_id b \<or> (jr_job_id a = jr_job_id b \<and> jr_workers a < jr_workers b))"

definition less_eq_job_receipt :: "job_receipt \<Rightarrow> job_receipt \<Rightarrow> bool" where
  "less_eq_job_receipt a b =
     (jr_job_id a < jr_job_id b \<or> (jr_job_id a = jr_job_id b \<and> jr_workers a \<le> jr_workers b))"

instance
  by standard
    (auto simp: less_eq_job_receipt_def less_job_receipt_def intro: job_receipt.expand)

end

section \<open>Python values\<close>

text \<open>
  A finite float is the rational it denotes. \<open>POther\<close> is an object of any class the package
  does not know, told apart by a number.
\<close>

datatype py_float = Finite rat | PosInf | NegInf | NotANumber

datatype pyval =
    PNone | PBool bool | PInt int | PFloat py_float | PStr string
  | PList "pyval list" | PTuple "pyval list" | PDict "(string \<times> pyval) list"
  | PEvent observation_event | PDirection transfer_direction | PComputeKind compute_kind
  | PRequeueReason recovery_requeue_reason | PTerminalReason transfer_terminal_reason
  | PHostFactEvent host_fact_event | PCorrelatedEvent correlated_event
  | PEvidenceLabel evidence_label | POperation transfer_operation | PSourceHost source_host
  | PIdentity observation_identity | PTransfer transfer_identity | PReceipt receipt_identity
  | PWorker worker_receipt | PJob job_receipt | PRegion descriptor_region
  | PPath string | POther nat

text \<open>
  The enums derive from \<^verbatim>\<open>str\<close>: a member compares, hashes and serialises as its value, though
  its \<^verbatim>\<open>type\<close> is not \<^verbatim>\<open>str\<close>.
\<close>

fun str_of :: "pyval \<Rightarrow> string option" where
  "str_of (PStr s) = Some s"
| "str_of (PEvent e) = Some (event_value e)"
| "str_of (PDirection d) = Some (direction_value d)"
| "str_of (PComputeKind k) = Some (kind_value k)"
| "str_of (PRequeueReason r) = Some (requeue_value r)"
| "str_of (PTerminalReason r) = Some (terminal_value r)"
| "str_of (PHostFactEvent e) = Some (host_fact_event_value e)"
| "str_of (PCorrelatedEvent e) = Some (correlated_event_value e)"
| "str_of (PEvidenceLabel l) = Some (evidence_value l)"
| "str_of (POperation p) = Some (operation_value p)"
| "str_of (PSourceHost h) = Some (source_host_value h)"
| "str_of _ = None"

text \<open>\<^verbatim>\<open>Enum(value)\<close>: the member with that value, or ValueError.\<close>

definition enum_lookup :: "'e list \<Rightarrow> ('e \<Rightarrow> string) \<Rightarrow> pyval \<Rightarrow> 'e res" where
  "enum_lookup members value_of v =
     (case str_of v of
        None \<Rightarrow> Inl ValueError
      | Some s \<Rightarrow>
          (case List.find (\<lambda>e. value_of e = s) members of
             None \<Rightarrow> Inl ValueError
           | Some e \<Rightarrow> Inr e))"

locale str_enum =
  fixes members :: "'e list" and value_of :: "'e \<Rightarrow> string"
  assumes all_members: "e \<in> set members"
    and values_differ: "value_of e = value_of e' \<Longrightarrow> e = e'"
begin

lemma lookup_iff: "enum_lookup members value_of v = Inr e \<longleftrightarrow> str_of v = Some (value_of e)"
proof
  assume "enum_lookup members value_of v = Inr e"
  then show "str_of v = Some (value_of e)"
    by (auto simp: enum_lookup_def find_Some_iff split: option.splits)
next
  assume s: "str_of v = Some (value_of e)"
  have "List.find (\<lambda>e'. value_of e' = value_of e) members \<noteq> None"
    using all_members [of e] by (auto simp: find_None_iff)
  then obtain e' where "List.find (\<lambda>e'. value_of e' = value_of e) members = Some e'" by auto
  moreover from this have "value_of e' = value_of e" by (auto simp: find_Some_iff)
  ultimately show "enum_lookup members value_of v = Inr e"
    using s by (auto simp: enum_lookup_def dest: values_differ)
qed

lemma lookup_value: "enum_lookup members value_of (PStr (value_of e)) = Inr e"
  by (simp add: lookup_iff)

lemma lookup_fails: "enum_lookup members value_of v = Inl x \<Longrightarrow> x = ValueError"
  by (auto simp: enum_lookup_def split: option.splits)

lemma value_eq_iff: "value_of e = value_of e' \<longleftrightarrow> e = e'"
  by (auto dest: values_differ)

end

definition observation_events :: "observation_event list" where
  "observation_events =
     [PRESERVE_STARTED, PRESERVE_COMPLETED, TRANSFER_STARTED, TRANSFER_COMPLETED,
      TRANSFER_FAILED, TRANSFER_CANCELLED, RESTORE_STARTED, RESTORE_COMPLETED,
      RECOVERY_REQUEUED, RECOVERY_ADMITTED, FIRST_COMPUTE]"

definition to_event :: "pyval \<Rightarrow> observation_event res" where
  "to_event = enum_lookup observation_events event_value"

definition to_direction :: "pyval \<Rightarrow> transfer_direction res" where
  "to_direction = enum_lookup [D2H, H2D] direction_value"

definition to_kind :: "pyval \<Rightarrow> compute_kind res" where
  "to_kind = enum_lookup [PREFILL, DECODE] kind_value"

definition to_requeue :: "pyval \<Rightarrow> recovery_requeue_reason res" where
  "to_requeue = enum_lookup
     [LORA_CAPACITY, PREFILL_THROTTLED, TOKEN_BUDGET, ENCODER_BUDGET, BLOCK_CAPACITY,
      UNCLASSIFIED] requeue_value"

definition to_terminal :: "pyval \<Rightarrow> transfer_terminal_reason res" where
  "to_terminal = enum_lookup
     [SUBMISSION_REJECTED, BACKEND_FAILURE, INVALID_MEASUREMENT, REQUEST_CANCELLED,
      WORKER_GENERATION_CHANGED, HOST_SHUTDOWN] terminal_value"

definition to_host_fact_event :: "pyval \<Rightarrow> host_fact_event res" where
  "to_host_fact_event = enum_lookup
     [HF_TRANSFER_RECEIPT, HF_RECOVERY_REQUEUED, HF_RECOVERY_ADMITTED, HF_FIRST_COMPUTE]
     host_fact_event_value"

definition to_correlated_event :: "pyval \<Rightarrow> correlated_event res" where
  "to_correlated_event = enum_lookup
     [CE_RECOVERY_REQUEUED, CE_RESTORE_SUBMITTED, CE_RESTORE_COMPLETED, CE_TRANSFER_RECEIPT,
      CE_RECOVERY_ADMITTED, CE_FIRST_COMPUTE] correlated_event_value"

definition to_evidence :: "pyval \<Rightarrow> evidence_label res" where
  "to_evidence = enum_lookup
     [EXISTING_SERVER_PROBE, REAL_ONLINE, REPLAY, SIMULATION_MODEL] evidence_value"

definition to_operation :: "pyval \<Rightarrow> transfer_operation res" where
  "to_operation = enum_lookup [D2H_PRESERVE, H2D_RESTORE] operation_value"

interpretation event_enum: str_enum observation_events event_value
proof
  fix e e' :: observation_event
  show "e \<in> set observation_events" by (cases e) (simp_all add: observation_events_def)
  show "event_value e = event_value e' \<Longrightarrow> e = e'" by (cases e; cases e') simp_all
qed

interpretation direction_enum: str_enum "[D2H, H2D]" direction_value
proof
  fix e e' :: transfer_direction
  show "e \<in> set [D2H, H2D]" by (cases e) simp_all
  show "direction_value e = direction_value e' \<Longrightarrow> e = e'" by (cases e; cases e') simp_all
qed

interpretation kind_enum: str_enum "[PREFILL, DECODE]" kind_value
proof
  fix e e' :: compute_kind
  show "e \<in> set [PREFILL, DECODE]" by (cases e) simp_all
  show "kind_value e = kind_value e' \<Longrightarrow> e = e'" by (cases e; cases e') simp_all
qed

interpretation requeue_enum: str_enum
  "[LORA_CAPACITY, PREFILL_THROTTLED, TOKEN_BUDGET, ENCODER_BUDGET, BLOCK_CAPACITY,
    UNCLASSIFIED]" requeue_value
proof
  fix e e' :: recovery_requeue_reason
  show "e \<in> set [LORA_CAPACITY, PREFILL_THROTTLED, TOKEN_BUDGET, ENCODER_BUDGET,
      BLOCK_CAPACITY, UNCLASSIFIED]" by (cases e) simp_all
  show "requeue_value e = requeue_value e' \<Longrightarrow> e = e'" by (cases e; cases e') simp_all
qed

interpretation terminal_enum: str_enum
  "[SUBMISSION_REJECTED, BACKEND_FAILURE, INVALID_MEASUREMENT, REQUEST_CANCELLED,
    WORKER_GENERATION_CHANGED, HOST_SHUTDOWN]" terminal_value
proof
  fix e e' :: transfer_terminal_reason
  show "e \<in> set [SUBMISSION_REJECTED, BACKEND_FAILURE, INVALID_MEASUREMENT,
      REQUEST_CANCELLED, WORKER_GENERATION_CHANGED, HOST_SHUTDOWN]" by (cases e) simp_all
  show "terminal_value e = terminal_value e' \<Longrightarrow> e = e'" by (cases e; cases e') simp_all
qed

interpretation host_fact_enum: str_enum
  "[HF_TRANSFER_RECEIPT, HF_RECOVERY_REQUEUED, HF_RECOVERY_ADMITTED, HF_FIRST_COMPUTE]"
  host_fact_event_value
proof
  fix e e' :: host_fact_event
  show "e \<in> set [HF_TRANSFER_RECEIPT, HF_RECOVERY_REQUEUED, HF_RECOVERY_ADMITTED,
      HF_FIRST_COMPUTE]" by (cases e) simp_all
  show "host_fact_event_value e = host_fact_event_value e' \<Longrightarrow> e = e'"
    by (cases e; cases e') simp_all
qed

interpretation correlated_enum: str_enum
  "[CE_RECOVERY_REQUEUED, CE_RESTORE_SUBMITTED, CE_RESTORE_COMPLETED, CE_TRANSFER_RECEIPT,
    CE_RECOVERY_ADMITTED, CE_FIRST_COMPUTE]" correlated_event_value
proof
  fix e e' :: correlated_event
  show "e \<in> set [CE_RECOVERY_REQUEUED, CE_RESTORE_SUBMITTED, CE_RESTORE_COMPLETED,
      CE_TRANSFER_RECEIPT, CE_RECOVERY_ADMITTED, CE_FIRST_COMPUTE]" by (cases e) simp_all
  show "correlated_event_value e = correlated_event_value e' \<Longrightarrow> e = e'"
    by (cases e; cases e') simp_all
qed

interpretation evidence_enum: str_enum
  "[EXISTING_SERVER_PROBE, REAL_ONLINE, REPLAY, SIMULATION_MODEL]" evidence_value
proof
  fix e e' :: evidence_label
  show "e \<in> set [EXISTING_SERVER_PROBE, REAL_ONLINE, REPLAY, SIMULATION_MODEL]"
    by (cases e) simp_all
  show "evidence_value e = evidence_value e' \<Longrightarrow> e = e'" by (cases e; cases e') simp_all
qed

interpretation operation_enum: str_enum "[D2H_PRESERVE, H2D_RESTORE]" operation_value
proof
  fix e e' :: transfer_operation
  show "e \<in> set [D2H_PRESERVE, H2D_RESTORE]" by (cases e) simp_all
  show "operation_value e = operation_value e' \<Longrightarrow> e = e'" by (cases e; cases e') simp_all
qed

lemmas enum_iff =
  event_enum.lookup_iff [folded to_event_def]
  direction_enum.lookup_iff [folded to_direction_def]
  kind_enum.lookup_iff [folded to_kind_def]
  requeue_enum.lookup_iff [folded to_requeue_def]
  terminal_enum.lookup_iff [folded to_terminal_def]
  host_fact_enum.lookup_iff [folded to_host_fact_event_def]
  correlated_enum.lookup_iff [folded to_correlated_event_def]
  evidence_enum.lookup_iff [folded to_evidence_def]
  operation_enum.lookup_iff [folded to_operation_def]

lemmas enum_value_eq =
  event_enum.value_eq_iff direction_enum.value_eq_iff kind_enum.value_eq_iff
  requeue_enum.value_eq_iff terminal_enum.value_eq_iff host_fact_enum.value_eq_iff
  correlated_enum.value_eq_iff evidence_enum.value_eq_iff operation_enum.value_eq_iff

end
