(* ===== verification/Schema.thy ===== *)
theory Schema
  imports Py_Values
begin

text \<open>
  schema.py: the closed vocabulary of lifecycle observations. The constructors run the
  source's \<^verbatim>\<open>__post_init__\<close> checks on arbitrary Python values and return the typed record or
  the exception. \<open>lifecycle\<close> is the abstract contract: one constructor per event with exactly
  the fields that event carries; \<open>observation_iff\<close> shows the closed schema is this sum type.
\<close>

section \<open>Bounds and scalar checks\<close>

definition MAX_RUNTIME_REQUEST_ID_BYTES :: nat where
  "MAX_RUNTIME_REQUEST_ID_BYTES = 128"

definition MAX_TRANSFER_ASSOCIATIONS :: nat where
  "MAX_TRANSFER_ASSOCIATIONS = 4096"

definition UINT32_MAX :: int where
  "UINT32_MAX = 2 ^ 32 - 1"

definition UINT64_MAX :: int where
  "UINT64_MAX = 2 ^ 64 - 1"

text \<open>\<^verbatim>\<open>type(value) is int\<close>: a bool is no int here.\<close>

definition require_uint :: "pyval \<Rightarrow> int \<Rightarrow> int res" where
  "require_uint v maximum =
     (case v of
        PInt n \<Rightarrow> if 0 \<le> n \<and> n \<le> maximum then Inr n else Inl ValueError
      | _ \<Rightarrow> Inl ValueError)"

definition require_positive_uint :: "pyval \<Rightarrow> int \<Rightarrow> int res" where
  "require_positive_uint v maximum =
     res_bind (require_uint v maximum)
       (\<lambda>result. if result = 0 then Inl ValueError else Inr result)"

definition require_printable_ascii :: "pyval \<Rightarrow> nat \<Rightarrow> string res" where
  "require_printable_ascii v max_bytes =
     (case v of
        PStr s \<Rightarrow>
          if \<not> is_ascii s then Inl ValueError
          else if s = [] \<or> max_bytes < length s \<or> \<not> is_printable s then Inl ValueError
          else Inr s
      | _ \<Rightarrow> Inl ValueError)"

text \<open>
  The regular expression \<^verbatim>\<open>[0-9a-f]{32}:[tk]:(0|[1-9][0-9]{0,19})\<close>, matched against the whole
  string; the result is its groups.
\<close>

definition sequence_ok :: "string \<Rightarrow> bool" where
  "sequence_ok s =
     (s = ''0'' \<or>
      (case s of
         [] \<Rightarrow> False
       | c # cs \<Rightarrow> is_digit c \<and> c \<noteq> CHR ''0'' \<and> length cs \<le> 19 \<and> list_all is_digit cs))"

fun scoped_tail :: "string \<Rightarrow> (char \<times> string) option" where
  "scoped_tail (c1 # kind # c2 # sq) =
     (if c1 = CHR '':'' \<and> (kind = CHR ''t'' \<or> kind = CHR ''k'') \<and> c2 = CHR '':'' \<and> sequence_ok sq
      then Some (kind, sq) else None)"
| "scoped_tail _ = None"

definition scoped_id_match :: "string \<Rightarrow> (string \<times> char \<times> string) option" where
  "scoped_id_match v =
     (if length (take 32 v) = 32 \<and> list_all is_hex (take 32 v)
      then map_option (Pair (take 32 v)) (scoped_tail (drop 32 v))
      else None)"

definition require_scoped_id :: "pyval \<Rightarrow> char \<Rightarrow> string res" where
  "require_scoped_id v kind =
     (case v of
        PStr s \<Rightarrow>
          (case scoped_id_match s of
             None \<Rightarrow> Inl ValueError
           | Some (_, k, sq) \<Rightarrow>
               if k \<noteq> kind \<or> UINT64_MAX < int (undec sq) then Inl ValueError else Inr s)
      | _ \<Rightarrow> Inl ValueError)"

text \<open>A field that may be \<^verbatim>\<open>None\<close> is checked only when it is not.\<close>

definition optional :: "(pyval \<Rightarrow> 'a res) \<Rightarrow> pyval \<Rightarrow> 'a option res" where
  "optional f v = (if v = PNone then Inr None else res_bind (f v) (\<lambda>x. Inr (Some x)))"

text \<open>
  A keyword call \<^verbatim>\<open>Class(**kw)\<close>: an unknown or a missing parameter is a TypeError; the other
  parameters take their defaults.
\<close>

definition check_kwargs :: "string list \<Rightarrow> string list \<Rightarrow> (string \<times> pyval) list \<Rightarrow> unit res" where
  "check_kwargs required defaulted kw =
     (if \<not> list_all (\<lambda>p. fst p \<in> set (required @ defaulted)) kw
         \<or> \<not> list_all (\<lambda>k. k \<in> fst ` set kw) required
      then Inl TypeError else Inr ())"

definition kwarg :: "(string \<times> pyval) list \<Rightarrow> string \<Rightarrow> pyval \<Rightarrow> pyval" where
  "kwarg kw k dflt = (case map_of kw k of None \<Rightarrow> dflt | Some v \<Rightarrow> v)"

section \<open>Identities\<close>

definition observation_identity ::
  "pyval \<Rightarrow> pyval \<Rightarrow> pyval \<Rightarrow> pyval \<Rightarrow> observation_identity res" where
  "observation_identity request_id worker_generation rank recovery_epoch =
     res_bind (require_printable_ascii request_id MAX_RUNTIME_REQUEST_ID_BYTES) (\<lambda>r.
     res_bind (require_uint worker_generation UINT64_MAX) (\<lambda>g.
     res_bind (require_uint rank UINT32_MAX) (\<lambda>k.
     res_bind (optional (\<lambda>v. require_positive_uint v UINT64_MAX) recovery_epoch) (\<lambda>e.
     Inr (ObservationIdentity r g k e)))))"

definition observation_identity_kw :: "(string \<times> pyval) list \<Rightarrow> observation_identity res" where
  "observation_identity_kw kw =
     res_bind
       (check_kwargs [''request_id'', ''worker_generation'', ''rank''] [''recovery_epoch''] kw)
       (\<lambda>_. observation_identity (kwarg kw ''request_id'' PNone)
          (kwarg kw ''worker_generation'' PNone) (kwarg kw ''rank'' PNone)
          (kwarg kw ''recovery_epoch'' PNone))"

definition opt_int :: "int option \<Rightarrow> pyval" where
  "opt_int x = (case x of None \<Rightarrow> PNone | Some n \<Rightarrow> PInt n)"

definition identity_to_payload :: "observation_identity \<Rightarrow> pyval" where
  "identity_to_payload i = PDict
     [(''rank'', PInt (id_rank i)), (''recovery_epoch'', opt_int (id_recovery_epoch i)),
      (''request_id'', PStr (id_request_id i)),
      (''worker_generation'', PInt (id_worker_generation i))]"

definition transfer_identity :: "pyval \<Rightarrow> transfer_identity res" where
  "transfer_identity v =
     res_bind (require_scoped_id v (CHR ''t'')) (\<lambda>s. Inr (TransferIdentity s))"

definition receipt_identity :: "pyval \<Rightarrow> receipt_identity res" where
  "receipt_identity v =
     res_bind (require_scoped_id v (CHR ''k'')) (\<lambda>s. Inr (ReceiptIdentity s))"

text \<open>\<^verbatim>\<open>value.partition(":")[0]\<close>\<close>

definition before_colon :: "string \<Rightarrow> string" where
  "before_colon s = takeWhile (\<lambda>c. c \<noteq> CHR '':'') s"

definition transfer_process_uuid :: "transfer_identity \<Rightarrow> string" where
  "transfer_process_uuid t = before_colon (transfer_value t)"

definition receipt_process_uuid :: "receipt_identity \<Rightarrow> string" where
  "receipt_process_uuid r = before_colon (receipt_value r)"

section \<open>Observations\<close>

record obs_args =
  a_event :: pyval
  a_identity :: pyval
  a_observed_at_ns :: pyval
  a_transfer :: pyval
  a_direction :: pyval
  a_receipt :: pyval
  a_associated_transfers :: pyval
  a_compute_kind :: pyval
  a_requeue_reason :: pyval
  a_terminal_reason :: pyval
  a_bytes_moved :: pyval
  a_block_count :: pyval
  a_duration_ns :: pyval
  a_device_duration_ns :: pyval

record kv_observation =
  ob_event :: observation_event
  ob_identity :: observation_identity
  ob_observed_at_ns :: int
  ob_transfer :: "transfer_identity option"
  ob_direction :: "transfer_direction option"
  ob_receipt :: "receipt_identity option"
  ob_associated_transfers :: "transfer_identity list"
  ob_compute_kind :: "compute_kind option"
  ob_requeue_reason :: "recovery_requeue_reason option"
  ob_terminal_reason :: "transfer_terminal_reason option"
  ob_bytes_moved :: "int option"
  ob_block_count :: "int option"
  ob_duration_ns :: "int option"
  ob_device_duration_ns :: "int option"

datatype obs_field =
    F_transfer | F_direction | F_receipt | F_associated_transfers | F_compute_kind
  | F_requeue_reason | F_terminal_reason | F_bytes_moved | F_block_count | F_duration_ns
  | F_device_duration_ns

text \<open>\<^verbatim>\<open>getattr(self, name) not in (None, ())\<close>\<close>

primrec present :: "kv_observation \<Rightarrow> obs_field \<Rightarrow> bool" where
  "present ob F_transfer = (ob_transfer ob \<noteq> None)"
| "present ob F_direction = (ob_direction ob \<noteq> None)"
| "present ob F_receipt = (ob_receipt ob \<noteq> None)"
| "present ob F_associated_transfers = (ob_associated_transfers ob \<noteq> [])"
| "present ob F_compute_kind = (ob_compute_kind ob \<noteq> None)"
| "present ob F_requeue_reason = (ob_requeue_reason ob \<noteq> None)"
| "present ob F_terminal_reason = (ob_terminal_reason ob \<noteq> None)"
| "present ob F_bytes_moved = (ob_bytes_moved ob \<noteq> None)"
| "present ob F_block_count = (ob_block_count ob \<noteq> None)"
| "present ob F_duration_ns = (ob_duration_ns ob \<noteq> None)"
| "present ob F_device_duration_ns = (ob_device_duration_ns ob \<noteq> None)"

definition obs_fields :: "obs_field list" where
  "obs_fields =
     [F_transfer, F_direction, F_receipt, F_associated_transfers, F_compute_kind,
      F_requeue_reason, F_terminal_reason, F_bytes_moved, F_block_count, F_duration_ns,
      F_device_duration_ns]"

definition populated :: "kv_observation \<Rightarrow> obs_field set" where
  "populated ob = set (filter (present ob) obs_fields)"

primrec shapes :: "observation_event \<Rightarrow> obs_field set" where
  "shapes PRESERVE_STARTED = {F_transfer, F_direction, F_block_count}"
| "shapes PRESERVE_COMPLETED =
     {F_transfer, F_direction, F_bytes_moved, F_block_count, F_duration_ns}"
| "shapes TRANSFER_STARTED = {F_transfer, F_direction, F_bytes_moved}"
| "shapes TRANSFER_COMPLETED = {F_transfer, F_direction, F_bytes_moved, F_duration_ns}"
| "shapes TRANSFER_FAILED = {F_transfer, F_direction, F_terminal_reason}"
| "shapes TRANSFER_CANCELLED = {F_transfer, F_direction, F_terminal_reason}"
| "shapes RESTORE_STARTED = {F_transfer, F_direction, F_block_count}"
| "shapes RESTORE_COMPLETED =
     {F_transfer, F_direction, F_receipt, F_bytes_moved, F_block_count, F_duration_ns}"
| "shapes RECOVERY_REQUEUED = {F_requeue_reason}"
| "shapes RECOVERY_ADMITTED = {F_associated_transfers}"
| "shapes FIRST_COMPUTE = {F_receipt, F_associated_transfers, F_compute_kind}"

definition FAILURE_REASONS :: "transfer_terminal_reason set" where
  "FAILURE_REASONS = {SUBMISSION_REJECTED, BACKEND_FAILURE, INVALID_MEASUREMENT}"

definition CANCELLATION_REASONS :: "transfer_terminal_reason set" where
  "CANCELLATION_REASONS = {REQUEST_CANCELLED, WORKER_GENERATION_CHANGED, HOST_SHUTDOWN}"

definition validate_event_shape :: "kv_observation \<Rightarrow> unit res" where
  "validate_event_shape ob =
     (let ev = ob_event ob;
          has_device_duration = F_device_duration_ns \<in> populated ob;
          fields = populated ob - {F_device_duration_ns}
      in
        if has_device_duration \<and>
           ev \<notin> {PRESERVE_COMPLETED, TRANSFER_COMPLETED, RESTORE_COMPLETED}
        then Inl ValueError
        else if fields \<noteq> shapes ev then Inl ValueError
        else if ev \<in> {PRESERVE_STARTED, PRESERVE_COMPLETED} \<and> ob_direction ob \<noteq> Some D2H
        then Inl ValueError
        else if ev \<in> {RESTORE_STARTED, RESTORE_COMPLETED} \<and> ob_direction ob \<noteq> Some H2D
        then Inl ValueError
        else if ev = RESTORE_COMPLETED \<and>
           (case (ob_receipt ob, ob_transfer ob) of
              (Some r, Some t) \<Rightarrow> receipt_process_uuid r \<noteq> transfer_process_uuid t
            | _ \<Rightarrow> False)
        then Inl ValueError
        else if ev = TRANSFER_FAILED \<and> ob_terminal_reason ob \<notin> Some ` FAILURE_REASONS
        then Inl ValueError
        else if ev = TRANSFER_CANCELLED \<and> ob_terminal_reason ob \<notin> Some ` CANCELLATION_REASONS
        then Inl ValueError
        else if ev \<in> {RECOVERY_REQUEUED, RECOVERY_ADMITTED, FIRST_COMPUTE} \<and>
           id_recovery_epoch (ob_identity ob) = None
        then Inl ValueError
        else if ev = FIRST_COMPUTE \<and>
           (case ob_receipt ob of
              Some r \<Rightarrow>
                \<not> list_all (\<lambda>t. transfer_process_uuid t = receipt_process_uuid r)
                    (ob_associated_transfers ob)
            | None \<Rightarrow> False)
        then Inl ValueError
        else Inr ())"

text \<open>\<^verbatim>\<open>type(x) is C\<close> tests of the constructor.\<close>

definition as_event :: "pyval \<Rightarrow> observation_event res" where
  [py_defs]: "as_event v = (case v of PEvent e \<Rightarrow> Inr e | _ \<Rightarrow> Inl ValueError)"

definition as_identity :: "pyval \<Rightarrow> observation_identity res" where
  [py_defs]: "as_identity v = (case v of PIdentity i \<Rightarrow> Inr i | _ \<Rightarrow> Inl ValueError)"

definition as_transfer :: "pyval \<Rightarrow> transfer_identity res" where
  [py_defs]: "as_transfer v = (case v of PTransfer t \<Rightarrow> Inr t | _ \<Rightarrow> Inl ValueError)"

definition as_receipt :: "pyval \<Rightarrow> receipt_identity res" where
  [py_defs]: "as_receipt v = (case v of PReceipt r \<Rightarrow> Inr r | _ \<Rightarrow> Inl ValueError)"

definition as_direction :: "pyval \<Rightarrow> transfer_direction res" where
  [py_defs]: "as_direction v = (case v of PDirection d \<Rightarrow> Inr d | _ \<Rightarrow> Inl ValueError)"

definition as_kind :: "pyval \<Rightarrow> compute_kind res" where
  [py_defs]: "as_kind v = (case v of PComputeKind k \<Rightarrow> Inr k | _ \<Rightarrow> Inl ValueError)"

definition as_requeue :: "pyval \<Rightarrow> recovery_requeue_reason res" where
  [py_defs]: "as_requeue v = (case v of PRequeueReason r \<Rightarrow> Inr r | _ \<Rightarrow> Inl ValueError)"

definition as_terminal :: "pyval \<Rightarrow> transfer_terminal_reason res" where
  [py_defs]: "as_terminal v = (case v of PTerminalReason r \<Rightarrow> Inr r | _ \<Rightarrow> Inl ValueError)"

definition as_associations :: "pyval \<Rightarrow> transfer_identity list res" where
  "as_associations v =
     (case v of
        PTuple xs \<Rightarrow>
          if MAX_TRANSFER_ASSOCIATIONS < length xs then Inl ValueError
          else res_bind (res_map as_transfer xs)
            (\<lambda>ts. if is_sorted_unique ts then Inr ts else Inl ValueError)
      | _ \<Rightarrow> Inl ValueError)"

definition kv_transfer_observation :: "obs_args \<Rightarrow> kv_observation res" where
  "kv_transfer_observation a =
     res_bind (as_event (a_event a)) (\<lambda>event.
     res_bind (as_identity (a_identity a)) (\<lambda>identity.
     res_bind (require_uint (a_observed_at_ns a) UINT64_MAX) (\<lambda>observed.
     res_bind (optional as_transfer (a_transfer a)) (\<lambda>transfer.
     res_bind (optional as_direction (a_direction a)) (\<lambda>direction.
     res_bind (optional as_receipt (a_receipt a)) (\<lambda>receipt.
     res_bind (as_associations (a_associated_transfers a)) (\<lambda>associated.
     res_bind (optional as_kind (a_compute_kind a)) (\<lambda>kind.
     res_bind (optional as_requeue (a_requeue_reason a)) (\<lambda>requeue.
     res_bind (optional as_terminal (a_terminal_reason a)) (\<lambda>terminal.
     res_bind (optional (\<lambda>v. require_positive_uint v UINT64_MAX) (a_bytes_moved a)) (\<lambda>bytes.
     res_bind (optional (\<lambda>v. require_positive_uint v UINT32_MAX) (a_block_count a)) (\<lambda>blocks.
     res_bind (optional (\<lambda>v. require_uint v UINT64_MAX) (a_duration_ns a)) (\<lambda>duration.
     res_bind (optional (\<lambda>v. require_positive_uint v UINT64_MAX) (a_device_duration_ns a))
       (\<lambda>device.
     let ob = \<lparr>ob_event = event, ob_identity = identity, ob_observed_at_ns = observed,
       ob_transfer = transfer, ob_direction = direction, ob_receipt = receipt,
       ob_associated_transfers = associated, ob_compute_kind = kind,
       ob_requeue_reason = requeue, ob_terminal_reason = terminal, ob_bytes_moved = bytes,
       ob_block_count = blocks, ob_duration_ns = duration, ob_device_duration_ns = device\<rparr>
     in res_bind (validate_event_shape ob) (\<lambda>_. Inr ob)))))))))))))))"

text \<open>The keyword call; \<open>now\<close> is the clock the default of \<^verbatim>\<open>observed_at_ns\<close> reads.\<close>

definition obs_defaults :: "int \<Rightarrow> obs_args" where
  "obs_defaults now =
     \<lparr>a_event = PNone, a_identity = PNone, a_observed_at_ns = PInt now, a_transfer = PNone,
      a_direction = PNone, a_receipt = PNone, a_associated_transfers = PTuple [],
      a_compute_kind = PNone, a_requeue_reason = PNone, a_terminal_reason = PNone,
      a_bytes_moved = PNone, a_block_count = PNone, a_duration_ns = PNone,
      a_device_duration_ns = PNone\<rparr>"

definition kv_transfer_observation_kw :: "int \<Rightarrow> (string \<times> pyval) list \<Rightarrow> kv_observation res" where
  "kv_transfer_observation_kw now kw =
     res_bind
       (check_kwargs [''event'', ''identity'']
          [''observed_at_ns'', ''transfer'', ''direction'', ''receipt'',
           ''associated_transfers'', ''compute_kind'', ''requeue_reason'',
           ''terminal_reason'', ''bytes_moved'', ''block_count'', ''duration_ns'',
           ''device_duration_ns''] kw)
       (\<lambda>_. kv_transfer_observation
          \<lparr>a_event = kwarg kw ''event'' PNone,
           a_identity = kwarg kw ''identity'' PNone,
           a_observed_at_ns = kwarg kw ''observed_at_ns'' (PInt now),
           a_transfer = kwarg kw ''transfer'' PNone,
           a_direction = kwarg kw ''direction'' PNone,
           a_receipt = kwarg kw ''receipt'' PNone,
           a_associated_transfers = kwarg kw ''associated_transfers'' (PTuple []),
           a_compute_kind = kwarg kw ''compute_kind'' PNone,
           a_requeue_reason = kwarg kw ''requeue_reason'' PNone,
           a_terminal_reason = kwarg kw ''terminal_reason'' PNone,
           a_bytes_moved = kwarg kw ''bytes_moved'' PNone,
           a_block_count = kwarg kw ''block_count'' PNone,
           a_duration_ns = kwarg kw ''duration_ns'' PNone,
           a_device_duration_ns = kwarg kw ''device_duration_ns'' PNone\<rparr>)"

definition some_entries :: "(string \<times> pyval option) list \<Rightarrow> (string \<times> pyval) list" where
  "some_entries xs = List.map_filter (\<lambda>(k, v). map_option (Pair k) v) xs"

definition EVENT_SCHEMA :: string where
  "EVENT_SCHEMA = ''vllm-hust.kv-transfer-event.v2''"

definition observation_to_payload :: "kv_observation \<Rightarrow> pyval" where
  "observation_to_payload ob = PDict
     ([(''schema'', PStr EVENT_SCHEMA),
       (''event'', PStr (event_value (ob_event ob))),
       (''identity'', identity_to_payload (ob_identity ob)),
       (''observed_at_ns'', PInt (ob_observed_at_ns ob))] @
      some_entries
       [(''transfer_id'', map_option (PStr \<circ> transfer_value) (ob_transfer ob)),
        (''direction'', map_option (PStr \<circ> direction_value) (ob_direction ob)),
        (''receipt_id'', map_option (PStr \<circ> receipt_value) (ob_receipt ob)),
        (''associated_transfer_ids'',
           if ob_associated_transfers ob \<noteq> []
           then Some (PList (map (PStr \<circ> transfer_value) (ob_associated_transfers ob)))
           else None),
        (''compute_kind'', map_option (PStr \<circ> kind_value) (ob_compute_kind ob)),
        (''requeue_reason'', map_option (PStr \<circ> requeue_value) (ob_requeue_reason ob)),
        (''terminal_reason'', map_option (PStr \<circ> terminal_value) (ob_terminal_reason ob)),
        (''bytes_moved'', map_option PInt (ob_bytes_moved ob)),
        (''block_count'', map_option PInt (ob_block_count ob)),
        (''duration_ns'', map_option PInt (ob_duration_ns ob)),
        (''device_duration_ns'', map_option PInt (ob_device_duration_ns ob))])"

section \<open>Scoped identifiers\<close>

lemma digit_code [simp]: "is_digit c \<Longrightarrow> digit (code c - 48) = c"
  by (simp add: is_digit_def digit_def code_def)

lemma code_digit_less: "is_digit c \<Longrightarrow> code c - 48 < 10"
  unfolding is_digit_def by arith

lemma digit_zero [simp]: "digit 0 = CHR ''0''"
  by code_simp

lemma digit_code_pos: "is_digit c \<Longrightarrow> c \<noteq> CHR ''0'' \<Longrightarrow> 0 < code c - 48"
  using digit_code [of c] by (cases "code c - 48 = 0") (metis digit_zero, simp)

lemma undec_pos:
  "list_all is_digit s \<Longrightarrow> s \<noteq> [] \<Longrightarrow> hd s \<noteq> CHR ''0'' \<Longrightarrow> 0 < undec s"
proof (induction s rule: rev_induct)
  case Nil
  then show ?case by simp
next
  case (snoc c s)
  show ?case
  proof (cases "s = []")
    case True
    with snoc.prems have "0 < code c - 48" by (intro digit_code_pos) simp_all
    with True show ?thesis by (simp add: undec_def)
  next
    case False
    with snoc show ?thesis by simp
  qed
qed

lemma dec_undec:
  "list_all is_digit s \<Longrightarrow> s \<noteq> [] \<Longrightarrow> hd s \<noteq> CHR ''0'' \<Longrightarrow> dec (undec s) = s"
proof (induction s rule: rev_induct)
  case Nil
  then show ?case by simp
next
  case (snoc c s)
  from snoc.prems have c: "is_digit c" by simp
  note lt = code_digit_less [OF c]
  show ?case
  proof (cases "s = []")
    case True
    with c lt show ?thesis by (simp add: undec_def dec.simps [of "code c - 48"])
  next
    case False
    with snoc.prems have pos: "0 < undec s" by (intro undec_pos) simp_all
    let ?n = "10 * undec s + (code c - 48)"
    from pos lt have "\<not> ?n < 10" "?n div 10 = undec s" "?n mod 10 = code c - 48" by simp_all
    with False snoc c show ?thesis by (simp add: dec.simps [of ?n])
  qed
qed

lemma UINT_bounds [simp]:
  "UINT64_MAX = 18446744073709551615" "UINT32_MAX = 4294967295"
  by (simp_all add: UINT64_MAX_def UINT32_MAX_def)

lemma sequence_ok_dec: "int n \<le> UINT64_MAX \<Longrightarrow> sequence_ok (dec n)"
proof -
  assume "int n \<le> UINT64_MAX"
  then have "n < 10 ^ Suc 19" by simp
  then have len: "length (dec n) \<le> Suc 19" by (rule length_dec)
  show ?thesis
  proof (cases "n = 0")
    case True
    then show ?thesis by (simp add: sequence_ok_def)
  next
    case False
    then have "hd (dec n) \<noteq> CHR ''0''" by (intro dec_head) simp
    with len dec_digits [of n] show ?thesis
      by (cases "dec n") (simp_all add: sequence_ok_def)
  qed
qed

lemma sequence_ok_canonical: "sequence_ok s \<Longrightarrow> dec (undec s) = s"
proof (cases "s = ''0''")
  case True
  then show ?thesis using undec_dec [of 0] by simp
next
  case False
  assume "sequence_ok s"
  with False show ?thesis by (intro dec_undec) (auto simp: sequence_ok_def split: list.splits)
qed

text \<open>What a process-scoped identifier is: a process uuid, a kind and a uint64 in decimal.\<close>

definition scoped_id :: "string \<Rightarrow> char \<Rightarrow> nat \<Rightarrow> string" where
  "scoped_id process kind sq = process @ '':'' @ [kind] @ '':'' @ dec sq"

definition process_uuid_ok :: "string \<Rightarrow> bool" where
  "process_uuid_ok p = (length p = 32 \<and> list_all is_hex p)"

definition valid_scoped :: "char \<Rightarrow> string \<Rightarrow> bool" where
  "valid_scoped kind s =
     (\<exists>p n. process_uuid_ok p \<and> int n \<le> UINT64_MAX \<and> s = scoped_id p kind n)"

lemma scoped_tail_iff:
  "scoped_tail r = Some (kind, sq) \<longleftrightarrow>
     r = CHR '':'' # kind # CHR '':'' # sq \<and> (kind = CHR ''t'' \<or> kind = CHR ''k'') \<and>
     sequence_ok sq"
  by (cases r rule: scoped_tail.cases) (auto split: if_splits)

lemma scoped_id_match_iff:
  "scoped_id_match s = Some (p, kind, sq) \<longleftrightarrow>
     s = p @ CHR '':'' # kind # CHR '':'' # sq \<and> process_uuid_ok p \<and>
     (kind = CHR ''t'' \<or> kind = CHR ''k'') \<and> sequence_ok sq"
proof
  assume m: "scoped_id_match s = Some (p, kind, sq)"
  then have "scoped_tail (drop 32 s) = Some (kind, sq)" "p = take 32 s" "process_uuid_ok p"
    by (auto simp: scoped_id_match_def process_uuid_ok_def simp del: length_take split: if_splits)
  then show "s = p @ CHR '':'' # kind # CHR '':'' # sq \<and> process_uuid_ok p \<and>
     (kind = CHR ''t'' \<or> kind = CHR ''k'') \<and> sequence_ok sq"
    unfolding scoped_tail_iff by (metis append_take_drop_id)
next
  assume "s = p @ CHR '':'' # kind # CHR '':'' # sq \<and> process_uuid_ok p \<and>
     (kind = CHR ''t'' \<or> kind = CHR ''k'') \<and> sequence_ok sq"
  then have s: "s = p @ CHR '':'' # kind # CHR '':'' # sq" and p: "process_uuid_ok p"
    and k: "kind = CHR ''t'' \<or> kind = CHR ''k''" "sequence_ok sq" by simp_all
  from p have "length p = 32" by (simp add: process_uuid_ok_def)
  with s have "take 32 s = p" "drop 32 s = CHR '':'' # kind # CHR '':'' # sq" by simp_all
  with p k show "scoped_id_match s = Some (p, kind, sq)"
    unfolding scoped_id_match_def process_uuid_ok_def by (simp del: scoped_tail.simps add: scoped_tail_iff)
qed

lemma require_scoped_id_iff:
  assumes "kind = CHR ''t'' \<or> kind = CHR ''k''"
  shows "require_scoped_id v kind = Inr s \<longleftrightarrow> v = PStr s \<and> valid_scoped kind s"
proof
  assume r: "require_scoped_id v kind = Inr s"
  then obtain p sq where v: "v = PStr s" and m: "scoped_id_match s = Some (p, kind, sq)"
    and le: "int (undec sq) \<le> UINT64_MAX"
    by (auto simp: require_scoped_id_def split: pyval.splits option.splits if_splits)
  from m have "s = p @ CHR '':'' # kind # CHR '':'' # sq" "process_uuid_ok p" "sequence_ok sq"
    by (simp_all add: scoped_id_match_iff)
  with le have "process_uuid_ok p \<and> int (undec sq) \<le> UINT64_MAX \<and>
      s = scoped_id p kind (undec sq)"
    by (simp add: scoped_id_def sequence_ok_canonical)
  with v show "v = PStr s \<and> valid_scoped kind s" unfolding valid_scoped_def by blast
next
  assume "v = PStr s \<and> valid_scoped kind s"
  then obtain p n where "v = PStr s" "process_uuid_ok p" "int n \<le> UINT64_MAX"
    "s = scoped_id p kind n" unfolding valid_scoped_def by blast
  with assms have "scoped_id_match s = Some (p, kind, dec n)"
    unfolding scoped_id_match_iff by (simp add: scoped_id_def sequence_ok_dec)
  with \<open>v = PStr s\<close> \<open>int n \<le> UINT64_MAX\<close> show "require_scoped_id v kind = Inr s"
    by (simp add: require_scoped_id_def)
qed

lemma hex_not_colon: "is_hex c \<Longrightarrow> c \<noteq> CHR '':''"
  by (auto simp: is_hex_def is_digit_def code_def)

lemma before_colon_scoped: "process_uuid_ok p \<Longrightarrow> before_colon (scoped_id p kind n) = p"
proof -
  assume "process_uuid_ok p"
  then have "\<forall>c \<in> set p. c \<noteq> CHR '':''"
    by (auto simp: process_uuid_ok_def list_all_iff dest: hex_not_colon)
  then show ?thesis by (simp add: before_colon_def scoped_id_def takeWhile_append2)
qed

lemma scoped_id_inject:
  "process_uuid_ok p \<Longrightarrow> process_uuid_ok q \<Longrightarrow>
     scoped_id p kind m = scoped_id q kind' n \<longleftrightarrow> p = q \<and> kind = kind' \<and> m = n"
  by (auto simp: scoped_id_def process_uuid_ok_def)

definition valid_transfer :: "transfer_identity \<Rightarrow> bool" where
  "valid_transfer t = valid_scoped (CHR ''t'') (transfer_value t)"

definition valid_receipt :: "receipt_identity \<Rightarrow> bool" where
  "valid_receipt r = valid_scoped (CHR ''k'') (receipt_value r)"

lemma transfer_identity_iff:
  "transfer_identity v = Inr t \<longleftrightarrow> v = PStr (transfer_value t) \<and> valid_transfer t"
  by (cases t) (auto simp: transfer_identity_def require_scoped_id_iff valid_transfer_def)

lemma receipt_identity_iff:
  "receipt_identity v = Inr r \<longleftrightarrow> v = PStr (receipt_value r) \<and> valid_receipt r"
  by (cases r) (auto simp: receipt_identity_def require_scoped_id_iff valid_receipt_def)

lemma require_uint_iff:
  "require_uint v m = Inr n \<longleftrightarrow> v = PInt n \<and> 0 \<le> n \<and> n \<le> m"
  by (auto simp: require_uint_def split: pyval.splits)

lemma require_positive_uint_iff:
  "require_positive_uint v m = Inr n \<longleftrightarrow> v = PInt n \<and> 0 < n \<and> n \<le> m"
proof (cases "require_uint v m")
  case (Inl e)
  then have "\<not> (v = PInt n \<and> 0 \<le> n \<and> n \<le> m)"
    unfolding require_uint_iff [symmetric] by simp
  with Inl show ?thesis by (auto simp: require_positive_uint_def)
next
  case (Inr k)
  then have "v = PInt k \<and> 0 \<le> k \<and> k \<le> m" by (simp only: require_uint_iff)
  with Inr show ?thesis by (auto simp: require_positive_uint_def)
qed

definition valid_request_id :: "string \<Rightarrow> bool" where
  "valid_request_id s = (s \<noteq> [] \<and> length s \<le> 128 \<and> is_printable s)"

lemma printable_ascii: "is_printable s \<Longrightarrow> is_ascii s"
  by (auto simp: is_printable_def is_ascii_def list_all_iff)

lemma require_request_id_iff:
  "require_printable_ascii v MAX_RUNTIME_REQUEST_ID_BYTES = Inr s \<longleftrightarrow>
     v = PStr s \<and> valid_request_id s"
  by (auto simp: require_printable_ascii_def valid_request_id_def MAX_RUNTIME_REQUEST_ID_BYTES_def
      printable_ascii split: pyval.splits if_splits)

lemma optional_iff:
  assumes "\<And>x. f v = Inr x \<longleftrightarrow> v = g x \<and> P x" and "\<And>x. g x \<noteq> PNone"
  shows "optional f v = Inr y \<longleftrightarrow>
     v = (case y of None \<Rightarrow> PNone | Some x \<Rightarrow> g x) \<and> (\<forall>x. y = Some x \<longrightarrow> P x)"
proof (cases "v = PNone")
  case True
  with assms(2) show ?thesis by (auto simp: optional_def split: option.splits dest: sym)
next
  case False
  with assms(1) show ?thesis by (auto simp: optional_def split: option.splits)
qed

definition valid_identity :: "observation_identity \<Rightarrow> bool" where
  "valid_identity i \<longleftrightarrow>
     valid_request_id (id_request_id i) \<and>
     0 \<le> id_worker_generation i \<and> id_worker_generation i \<le> UINT64_MAX \<and>
     0 \<le> id_rank i \<and> id_rank i \<le> UINT32_MAX \<and>
     (\<forall>e. id_recovery_epoch i = Some e \<longrightarrow> 0 < e \<and> e \<le> UINT64_MAX)"

lemma optional_uint:
  "optional (\<lambda>v. require_uint v m) v = Inr y \<longleftrightarrow>
     v = opt_int y \<and> (\<forall>x. y = Some x \<longrightarrow> 0 \<le> x \<and> x \<le> m)"
  unfolding opt_int_def by (rule optional_iff) (auto simp: require_uint_iff)

lemma optional_positive_uint:
  "optional (\<lambda>v. require_positive_uint v m) v = Inr y \<longleftrightarrow>
     v = opt_int y \<and> (\<forall>x. y = Some x \<longrightarrow> 0 < x \<and> x \<le> m)"
  unfolding opt_int_def by (rule optional_iff) (auto simp: require_positive_uint_iff)

lemma observation_identity_iff:
  "observation_identity rid gen rank ep = Inr i \<longleftrightarrow>
     rid = PStr (id_request_id i) \<and> gen = PInt (id_worker_generation i) \<and>
     rank = PInt (id_rank i) \<and> ep = opt_int (id_recovery_epoch i) \<and> valid_identity i"
  by (cases i)
    (auto simp: observation_identity_def require_request_id_iff require_uint_iff
      optional_positive_uint valid_identity_def)

section \<open>The abstract contract: one constructor per event\<close>

text \<open>
  The table of docs/observation\_core.md as a sum type: each event carries exactly its
  fields. \<open>embed\<close> reads a value of the table as the record the code builds.
\<close>

datatype lifecycle =
    Preserve_Started transfer_identity int
  | Preserve_Completed transfer_identity int int int "int option"
  | Transfer_Started transfer_identity transfer_direction int
  | Transfer_Completed transfer_identity transfer_direction int int "int option"
  | Transfer_Failed transfer_identity transfer_direction transfer_terminal_reason
  | Transfer_Cancelled transfer_identity transfer_direction transfer_terminal_reason
  | Restore_Started transfer_identity int
  | Restore_Completed transfer_identity receipt_identity int int int "int option"
  | Recovery_Requeued recovery_requeue_reason
  | Recovery_Admitted "transfer_identity list"
  | First_Compute receipt_identity "transfer_identity list" compute_kind

definition bare :: "observation_event \<Rightarrow> observation_identity \<Rightarrow> int \<Rightarrow> kv_observation" where
  "bare ev i t =
     \<lparr>ob_event = ev, ob_identity = i, ob_observed_at_ns = t, ob_transfer = None,
      ob_direction = None, ob_receipt = None, ob_associated_transfers = [],
      ob_compute_kind = None, ob_requeue_reason = None, ob_terminal_reason = None,
      ob_bytes_moved = None, ob_block_count = None, ob_duration_ns = None,
      ob_device_duration_ns = None\<rparr>"

primrec embed :: "observation_identity \<Rightarrow> int \<Rightarrow> lifecycle \<Rightarrow> kv_observation" where
  "embed i t (Preserve_Started tr blocks) =
     (bare PRESERVE_STARTED i t)
       \<lparr>ob_transfer := Some tr, ob_direction := Some D2H, ob_block_count := Some blocks\<rparr>"
| "embed i t (Preserve_Completed tr bytes blocks duration device) =
     (bare PRESERVE_COMPLETED i t)
       \<lparr>ob_transfer := Some tr, ob_direction := Some D2H, ob_bytes_moved := Some bytes,
        ob_block_count := Some blocks, ob_duration_ns := Some duration,
        ob_device_duration_ns := device\<rparr>"
| "embed i t (Transfer_Started tr dir bytes) =
     (bare TRANSFER_STARTED i t)
       \<lparr>ob_transfer := Some tr, ob_direction := Some dir, ob_bytes_moved := Some bytes\<rparr>"
| "embed i t (Transfer_Completed tr dir bytes duration device) =
     (bare TRANSFER_COMPLETED i t)
       \<lparr>ob_transfer := Some tr, ob_direction := Some dir, ob_bytes_moved := Some bytes,
        ob_duration_ns := Some duration, ob_device_duration_ns := device\<rparr>"
| "embed i t (Transfer_Failed tr dir reason) =
     (bare TRANSFER_FAILED i t)
       \<lparr>ob_transfer := Some tr, ob_direction := Some dir, ob_terminal_reason := Some reason\<rparr>"
| "embed i t (Transfer_Cancelled tr dir reason) =
     (bare TRANSFER_CANCELLED i t)
       \<lparr>ob_transfer := Some tr, ob_direction := Some dir, ob_terminal_reason := Some reason\<rparr>"
| "embed i t (Restore_Started tr blocks) =
     (bare RESTORE_STARTED i t)
       \<lparr>ob_transfer := Some tr, ob_direction := Some H2D, ob_block_count := Some blocks\<rparr>"
| "embed i t (Restore_Completed tr receipt bytes blocks duration device) =
     (bare RESTORE_COMPLETED i t)
       \<lparr>ob_transfer := Some tr, ob_direction := Some H2D, ob_receipt := Some receipt,
        ob_bytes_moved := Some bytes, ob_block_count := Some blocks,
        ob_duration_ns := Some duration, ob_device_duration_ns := device\<rparr>"
| "embed i t (Recovery_Requeued reason) =
     (bare RECOVERY_REQUEUED i t)\<lparr>ob_requeue_reason := Some reason\<rparr>"
| "embed i t (Recovery_Admitted ts) =
     (bare RECOVERY_ADMITTED i t)\<lparr>ob_associated_transfers := ts\<rparr>"
| "embed i t (First_Compute receipt ts kind) =
     (bare FIRST_COMPUTE i t)
       \<lparr>ob_receipt := Some receipt, ob_associated_transfers := ts,
        ob_compute_kind := Some kind\<rparr>"

text \<open>What the table asks beyond the presence of the fields.\<close>

primrec lifecycle_ok :: "observation_identity \<Rightarrow> lifecycle \<Rightarrow> bool" where
  "lifecycle_ok i (Preserve_Started tr blocks) = True"
| "lifecycle_ok i (Preserve_Completed tr bytes blocks duration device) = True"
| "lifecycle_ok i (Transfer_Started tr dir bytes) = True"
| "lifecycle_ok i (Transfer_Completed tr dir bytes duration device) = True"
| "lifecycle_ok i (Transfer_Failed tr dir reason) = (reason \<in> FAILURE_REASONS)"
| "lifecycle_ok i (Transfer_Cancelled tr dir reason) = (reason \<in> CANCELLATION_REASONS)"
| "lifecycle_ok i (Restore_Started tr blocks) = True"
| "lifecycle_ok i (Restore_Completed tr receipt bytes blocks duration device) =
     (receipt_process_uuid receipt = transfer_process_uuid tr)"
| "lifecycle_ok i (Recovery_Requeued reason) = (id_recovery_epoch i \<noteq> None)"
| "lifecycle_ok i (Recovery_Admitted ts) = (id_recovery_epoch i \<noteq> None \<and> ts \<noteq> [])"
| "lifecycle_ok i (First_Compute receipt ts kind) =
     (id_recovery_epoch i \<noteq> None \<and> ts \<noteq> [] \<and>
      (\<forall>t \<in> set ts. transfer_process_uuid t = receipt_process_uuid receipt))"

lemma all_obs_field:
  "(\<forall>f. P f) \<longleftrightarrow>
     P F_transfer \<and> P F_direction \<and> P F_receipt \<and> P F_associated_transfers \<and>
     P F_compute_kind \<and> P F_requeue_reason \<and> P F_terminal_reason \<and> P F_bytes_moved \<and>
     P F_block_count \<and> P F_duration_ns \<and> P F_device_duration_ns" (is "_ \<longleftrightarrow> ?all")
proof
  assume ?all
  then have "P f" for f by (cases f) simp_all
  then show "\<forall>f. P f" ..
qed simp

lemma mem_populated: "f \<in> populated ob \<longleftrightarrow> present ob f"
  by (cases f) (simp_all add: populated_def obs_fields_def)

lemma embed_simps [simp]:
  "ob_identity (embed i t l) = i" "ob_observed_at_ns (embed i t l) = t"
  by (cases l; simp add: bare_def)+

lemma fields_shape:
  "populated ob - {F_device_duration_ns} = shapes ev \<longleftrightarrow>
     (ob_transfer ob \<noteq> None) = (F_transfer \<in> shapes ev) \<and>
     (ob_direction ob \<noteq> None) = (F_direction \<in> shapes ev) \<and>
     (ob_receipt ob \<noteq> None) = (F_receipt \<in> shapes ev) \<and>
     (ob_associated_transfers ob \<noteq> []) = (F_associated_transfers \<in> shapes ev) \<and>
     (ob_compute_kind ob \<noteq> None) = (F_compute_kind \<in> shapes ev) \<and>
     (ob_requeue_reason ob \<noteq> None) = (F_requeue_reason \<in> shapes ev) \<and>
     (ob_terminal_reason ob \<noteq> None) = (F_terminal_reason \<in> shapes ev) \<and>
     (ob_bytes_moved ob \<noteq> None) = (F_bytes_moved \<in> shapes ev) \<and>
     (ob_block_count ob \<noteq> None) = (F_block_count \<in> shapes ev) \<and>
     (ob_duration_ns ob \<noteq> None) = (F_duration_ns \<in> shapes ev)"
  by (cases ev) (simp_all add: set_eq_iff mem_populated all_obs_field)

text \<open>The shape check, one conjunct per check of the code.\<close>

lemma shape_iff:
  "validate_event_shape ob = Inr () \<longleftrightarrow>
     (ob_device_duration_ns ob \<noteq> None \<longrightarrow>
        ob_event ob \<in> {PRESERVE_COMPLETED, TRANSFER_COMPLETED, RESTORE_COMPLETED}) \<and>
     populated ob - {F_device_duration_ns} = shapes (ob_event ob) \<and>
     (ob_event ob \<in> {PRESERVE_STARTED, PRESERVE_COMPLETED} \<longrightarrow> ob_direction ob = Some D2H) \<and>
     (ob_event ob \<in> {RESTORE_STARTED, RESTORE_COMPLETED} \<longrightarrow> ob_direction ob = Some H2D) \<and>
     (ob_event ob = RESTORE_COMPLETED \<longrightarrow>
        (\<forall>r t. ob_receipt ob = Some r \<longrightarrow> ob_transfer ob = Some t \<longrightarrow>
           receipt_process_uuid r = transfer_process_uuid t)) \<and>
     (ob_event ob = TRANSFER_FAILED \<longrightarrow> ob_terminal_reason ob \<in> Some ` FAILURE_REASONS) \<and>
     (ob_event ob = TRANSFER_CANCELLED \<longrightarrow>
        ob_terminal_reason ob \<in> Some ` CANCELLATION_REASONS) \<and>
     (ob_event ob \<in> {RECOVERY_REQUEUED, RECOVERY_ADMITTED, FIRST_COMPUTE} \<longrightarrow>
        id_recovery_epoch (ob_identity ob) \<noteq> None) \<and>
     (ob_event ob = FIRST_COMPUTE \<longrightarrow>
        (\<forall>r. ob_receipt ob = Some r \<longrightarrow>
           (\<forall>t \<in> set (ob_associated_transfers ob).
              transfer_process_uuid t = receipt_process_uuid r)))"
  unfolding validate_event_shape_def Let_def guard_Inr mem_populated present.simps
  by (cases "ob_receipt ob"; cases "ob_transfer ob"; cases "ob_event ob")
    (simp_all add: list_all_iff)

lemma shape_of_embed:
  assumes "lifecycle_ok i l"
  shows "validate_event_shape (embed i t l) = Inr ()"
  unfolding shape_iff fields_shape
  using assms by (cases l) (simp_all add: bare_def)

text \<open>The value of the table a well-shaped record stands for.\<close>

definition lifecycle_of :: "kv_observation \<Rightarrow> lifecycle" where
  "lifecycle_of ob =
     (let tr = the (ob_transfer ob); dir = the (ob_direction ob);
          receipt = the (ob_receipt ob); bytes = the (ob_bytes_moved ob);
          blocks = the (ob_block_count ob); duration = the (ob_duration_ns ob);
          device = ob_device_duration_ns ob; ts = ob_associated_transfers ob
      in case ob_event ob of
           PRESERVE_STARTED \<Rightarrow> Preserve_Started tr blocks
         | PRESERVE_COMPLETED \<Rightarrow> Preserve_Completed tr bytes blocks duration device
         | TRANSFER_STARTED \<Rightarrow> Transfer_Started tr dir bytes
         | TRANSFER_COMPLETED \<Rightarrow> Transfer_Completed tr dir bytes duration device
         | TRANSFER_FAILED \<Rightarrow> Transfer_Failed tr dir (the (ob_terminal_reason ob))
         | TRANSFER_CANCELLED \<Rightarrow> Transfer_Cancelled tr dir (the (ob_terminal_reason ob))
         | RESTORE_STARTED \<Rightarrow> Restore_Started tr blocks
         | RESTORE_COMPLETED \<Rightarrow> Restore_Completed tr receipt bytes blocks duration device
         | RECOVERY_REQUEUED \<Rightarrow> Recovery_Requeued (the (ob_requeue_reason ob))
         | RECOVERY_ADMITTED \<Rightarrow> Recovery_Admitted ts
         | FIRST_COMPUTE \<Rightarrow> First_Compute receipt ts (the (ob_compute_kind ob)))"

lemma lifecycle_of_embed [simp]: "lifecycle_of (embed i t l) = l"
  by (cases l) (simp_all add: lifecycle_of_def bare_def Let_def)

lemma shape_gives_embed:
  assumes "validate_event_shape ob = Inr ()"
  shows "ob = embed (ob_identity ob) (ob_observed_at_ns ob) (lifecycle_of ob)"
  using assms unfolding shape_iff fields_shape
  by (cases ob; cases "ob_event ob") (auto simp: bare_def lifecycle_of_def)

lemma shape_gives_ok:
  assumes "validate_event_shape ob = Inr ()"
  shows "lifecycle_ok (ob_identity ob) (lifecycle_of ob)"
  using assms unfolding shape_iff fields_shape
  by (cases "ob_event ob") (auto simp: lifecycle_of_def)

section \<open>The constructor accepts exactly the table\<close>

definition opt_val :: "('a \<Rightarrow> pyval) \<Rightarrow> 'a option \<Rightarrow> pyval" where
  "opt_val g x = (case x of None \<Rightarrow> PNone | Some y \<Rightarrow> g y)"

text \<open>The arguments a record was built from.\<close>

definition args_of :: "kv_observation \<Rightarrow> obs_args" where
  "args_of ob =
     \<lparr>a_event = PEvent (ob_event ob), a_identity = PIdentity (ob_identity ob),
      a_observed_at_ns = PInt (ob_observed_at_ns ob),
      a_transfer = opt_val PTransfer (ob_transfer ob),
      a_direction = opt_val PDirection (ob_direction ob),
      a_receipt = opt_val PReceipt (ob_receipt ob),
      a_associated_transfers = PTuple (map PTransfer (ob_associated_transfers ob)),
      a_compute_kind = opt_val PComputeKind (ob_compute_kind ob),
      a_requeue_reason = opt_val PRequeueReason (ob_requeue_reason ob),
      a_terminal_reason = opt_val PTerminalReason (ob_terminal_reason ob),
      a_bytes_moved = opt_val PInt (ob_bytes_moved ob),
      a_block_count = opt_val PInt (ob_block_count ob),
      a_duration_ns = opt_val PInt (ob_duration_ns ob),
      a_device_duration_ns = opt_val PInt (ob_device_duration_ns ob)\<rparr>"

definition in_range :: "int \<Rightarrow> int \<Rightarrow> int option \<Rightarrow> bool" where
  "in_range lo hi x = (case x of None \<Rightarrow> True | Some n \<Rightarrow> lo \<le> n \<and> n \<le> hi)"

text \<open>The bounds of the scalar fields and of the association list.\<close>

definition obs_bounded :: "kv_observation \<Rightarrow> bool" where
  "obs_bounded ob \<longleftrightarrow>
     0 \<le> ob_observed_at_ns ob \<and> ob_observed_at_ns ob \<le> UINT64_MAX \<and>
     length (ob_associated_transfers ob) \<le> MAX_TRANSFER_ASSOCIATIONS \<and>
     sorted_wrt (<) (ob_associated_transfers ob) \<and>
     in_range 1 UINT64_MAX (ob_bytes_moved ob) \<and>
     in_range 1 UINT32_MAX (ob_block_count ob) \<and>
     in_range 0 UINT64_MAX (ob_duration_ns ob) \<and>
     in_range 1 UINT64_MAX (ob_device_duration_ns ob)"

text \<open>
  A legal observation: bounded, and the record of some line of the table. \<open>valid_parts\<close> says
  its identities came from their own constructors, which Python guarantees of any instance.
\<close>

definition legal_observation :: "kv_observation \<Rightarrow> bool" where
  "legal_observation ob \<longleftrightarrow>
     obs_bounded ob \<and>
     (\<exists>l. ob = embed (ob_identity ob) (ob_observed_at_ns ob) l \<and>
          lifecycle_ok (ob_identity ob) l)"

definition valid_parts :: "kv_observation \<Rightarrow> bool" where
  "valid_parts ob \<longleftrightarrow>
     valid_identity (ob_identity ob) \<and>
     (\<forall>t. ob_transfer ob = Some t \<longrightarrow> valid_transfer t) \<and>
     (\<forall>r. ob_receipt ob = Some r \<longrightarrow> valid_receipt r) \<and>
     (\<forall>t \<in> set (ob_associated_transfers ob). valid_transfer t)"

definition valid_observation :: "kv_observation \<Rightarrow> bool" where
  "valid_observation ob \<longleftrightarrow> legal_observation ob \<and> valid_parts ob"

lemma shape_exact:
  "validate_event_shape ob = Inr () \<longleftrightarrow>
     (\<exists>l. ob = embed (ob_identity ob) (ob_observed_at_ns ob) l \<and>
          lifecycle_ok (ob_identity ob) l)"
proof
  assume "validate_event_shape ob = Inr ()"
  then show "\<exists>l. ob = embed (ob_identity ob) (ob_observed_at_ns ob) l \<and>
      lifecycle_ok (ob_identity ob) l"
    by (meson shape_gives_embed shape_gives_ok)
next
  assume "\<exists>l. ob = embed (ob_identity ob) (ob_observed_at_ns ob) l \<and>
      lifecycle_ok (ob_identity ob) l"
  then show "validate_event_shape ob = Inr ()" by (metis shape_of_embed)
qed

lemma as_iff:
  "as_event v = Inr e \<longleftrightarrow> v = PEvent e"
  "as_identity v = Inr i \<longleftrightarrow> v = PIdentity i"
  "as_transfer v = Inr t \<longleftrightarrow> v = PTransfer t"
  "as_receipt v = Inr r \<longleftrightarrow> v = PReceipt r"
  "as_direction v = Inr d \<longleftrightarrow> v = PDirection d"
  "as_kind v = Inr k \<longleftrightarrow> v = PComputeKind k"
  "as_requeue v = Inr q \<longleftrightarrow> v = PRequeueReason q"
  "as_terminal v = Inr x \<longleftrightarrow> v = PTerminalReason x"
  by (auto simp: py_defs split: pyval.splits)

lemma optional_as:
  assumes "\<And>x. f v = Inr x \<longleftrightarrow> v = g x" and "\<And>x. g x \<noteq> PNone"
  shows "optional f v = Inr y \<longleftrightarrow> v = opt_val g y"
  using optional_iff [of f v g "\<lambda>_. True" y] assms by (simp add: opt_val_def)

lemma optional_as_iff:
  "optional as_transfer v = Inr t \<longleftrightarrow> v = opt_val PTransfer t"
  "optional as_receipt v = Inr r \<longleftrightarrow> v = opt_val PReceipt r"
  "optional as_direction v = Inr d \<longleftrightarrow> v = opt_val PDirection d"
  "optional as_kind v = Inr k \<longleftrightarrow> v = opt_val PComputeKind k"
  "optional as_requeue v = Inr q \<longleftrightarrow> v = opt_val PRequeueReason q"
  "optional as_terminal v = Inr x \<longleftrightarrow> v = opt_val PTerminalReason x"
  by (rule optional_as; simp add: as_iff)+

lemma opt_int_val: "opt_int x = opt_val PInt x"
  by (simp add: opt_int_def opt_val_def)

lemma optional_uint_iff:
  "optional (\<lambda>v. require_uint v m) v = Inr y \<longleftrightarrow> v = opt_val PInt y \<and> in_range 0 m y"
  "optional (\<lambda>v. require_positive_uint v m) v = Inr y \<longleftrightarrow>
     v = opt_val PInt y \<and> in_range 1 m y"
  by (auto simp: optional_uint optional_positive_uint opt_int_val in_range_def
      split: option.splits)

lemma res_map_as_transfer: "res_map as_transfer xs = Inr ts \<longleftrightarrow> xs = map PTransfer ts"
  by (auto simp: res_map_Inr as_iff list_all2_conv_all_nth intro: nth_equalityI)

lemma as_associations_iff:
  "as_associations v = Inr ts \<longleftrightarrow>
     v = PTuple (map PTransfer ts) \<and> length ts \<le> MAX_TRANSFER_ASSOCIATIONS \<and>
     sorted_wrt (<) ts"
  by (auto simp: as_associations_def res_map_as_transfer is_sorted_unique_iff
      split: pyval.splits)

lemma observation_iff:
  "kv_transfer_observation a = Inr ob \<longleftrightarrow> a = args_of ob \<and> legal_observation ob"
proof -
  have "kv_transfer_observation a = Inr ob \<longleftrightarrow>
      a = args_of ob \<and> obs_bounded ob \<and> validate_event_shape ob = Inr ()"
    by (cases ob; cases a)
      (auto simp: kv_transfer_observation_def as_iff optional_as_iff optional_uint_iff
        require_uint_iff as_associations_iff Let_def args_of_def obs_bounded_def)
  then show ?thesis by (simp add: legal_observation_def shape_exact)
qed

lemma legal_embed:
  "legal_observation (embed i t l) \<longleftrightarrow> obs_bounded (embed i t l) \<and> lifecycle_ok i l"
  by (auto simp: legal_observation_def) (metis lifecycle_of_embed)

section \<open>Properties of the schema\<close>

text \<open>
  C3: the constructor accepts exactly the table. Whatever Python values it is called with, it
  returns a record if and only if they are the fields of a legal observation, and then the
  record holds those values: the event's line of the table with exactly its fields, scalars
  within their bounds, and a sorted duplicate-free association list of at most 4096 transfers.
\<close>

theorem observation_accepted_iff:
  "kv_transfer_observation a = Inr ob \<longleftrightarrow> a = args_of ob \<and> legal_observation ob"
  by (rule observation_iff)

text \<open>
  Identities are exact. A transfer or receipt identity is accepted if and only if it is a
  32-digit lowercase hexadecimal process uuid, the kind letter and a canonical decimal uint64
  joined by colons; a request identity if and only if its text is printable ASCII of 1 to 128
  bytes and its numbers are integers within their widths.
\<close>

theorem identities_exact:
  "(transfer_identity v = Inr t \<longleftrightarrow> v = PStr (transfer_value t) \<and> valid_transfer t) \<and>
   (receipt_identity v = Inr r \<longleftrightarrow> v = PStr (receipt_value r) \<and> valid_receipt r) \<and>
   (observation_identity rid gen rank ep = Inr i \<longleftrightarrow>
      rid = PStr (id_request_id i) \<and> gen = PInt (id_worker_generation i) \<and>
      rank = PInt (id_rank i) \<and> ep = opt_int (id_recovery_epoch i) \<and> valid_identity i)"
  by (simp only: transfer_identity_iff receipt_identity_iff observation_identity_iff simp_thms)

text \<open>
  Identifiers are unambiguous. Two scoped identifiers are equal only when process, kind and
  number are, the process uuid is read back from the text, and a sequence group the regular
  expression accepts is the decimal of its own value.
\<close>

theorem scoped_ids_unambiguous:
  assumes "process_uuid_ok p" "process_uuid_ok q" "sequence_ok s"
  shows "(scoped_id p kind m = scoped_id q kind' n \<longleftrightarrow> p = q \<and> kind = kind' \<and> m = n) \<and>
    transfer_process_uuid (TransferIdentity (scoped_id p (CHR ''t'') m)) = p \<and>
    dec (undec s) = s"
  using assms
  by (simp add: scoped_id_inject transfer_process_uuid_def before_colon_scoped
      sequence_ok_canonical)

theorem scoped_ids_unambiguous_witness:
  "transfer_process_uuid (TransferIdentity (scoped_id (replicate 32 (CHR ''a'')) (CHR ''t'') 7)) =
     replicate 32 (CHR ''a'')"
proof -
  have "process_uuid_ok (replicate 32 (CHR ''a''))" "sequence_ok ''10''" by code_simp+
  then show ?thesis using scoped_ids_unambiguous by blast
qed

end
