(* ===== verification/Normalization.thy ===== *)
theory Normalization
  imports Schema
begin

text \<open>
  normalization.py: the six source records with their constructors, and
  \<open>LifecycleNormalizer\<close>, the state machine that correlates them. A method that may raise
  returns the state it leaves behind together with the result or the exception, so a state
  change made before a raise stays visible. The lock makes each call atomic: a history of
  calls is a list.
\<close>

definition DEFAULT_MAX_CORRELATED_TRANSFERS :: nat where
  "DEFAULT_MAX_CORRELATED_TRANSFERS = 4096"

definition DEFAULT_MAX_RECOVERY_ADMISSIONS :: nat where
  "DEFAULT_MAX_RECOVERY_ADMISSIONS = 4096"

text \<open>\<^verbatim>\<open>TransferOperation.direction\<close>\<close>

definition operation_direction :: "transfer_operation \<Rightarrow> transfer_direction" where
  "operation_direction p = (if p = D2H_PRESERVE then D2H else H2D)"

section \<open>Source records\<close>

definition require_uint64 :: "pyval \<Rightarrow> int res" where
  "require_uint64 v =
     (case v of
        PInt n \<Rightarrow> if 0 \<le> n \<and> n \<le> UINT64_MAX then Inr n else Inl ValueError
      | _ \<Rightarrow> Inl ValueError)"

definition require_positive :: "pyval \<Rightarrow> int \<Rightarrow> int res" where
  "require_positive v maximum =
     (case v of
        PInt n \<Rightarrow> if 0 < n \<and> n \<le> maximum then Inr n else Inl ValueError
      | _ \<Rightarrow> Inl ValueError)"

definition as_operation :: "pyval \<Rightarrow> transfer_operation res" where
  [py_defs]: "as_operation v = (case v of POperation p \<Rightarrow> Inr p | _ \<Rightarrow> Inl ValueError)"

definition as_bool :: "pyval \<Rightarrow> bool res" where
  [py_defs]: "as_bool v = (case v of PBool b \<Rightarrow> Inr b | _ \<Rightarrow> Inl ValueError)"

definition as_source_host :: "pyval \<Rightarrow> source_host res" where
  [py_defs]: "as_source_host v = (case v of PSourceHost h \<Rightarrow> Inr h | _ \<Rightarrow> Inl ValueError)"

datatype core_transfer_submitted = CoreTransferSubmitted
  (sub_identity: observation_identity) (sub_transfer: transfer_identity)
  (sub_operation: transfer_operation) (sub_block_count: int) (sub_observed_at_ns: int)

definition core_transfer_submitted ::
  "pyval \<Rightarrow> pyval \<Rightarrow> pyval \<Rightarrow> pyval \<Rightarrow> pyval \<Rightarrow> core_transfer_submitted res" where
  "core_transfer_submitted identity transfer operation block_count observed_at_ns =
     res_bind (as_identity identity) (\<lambda>i.
     res_bind (as_transfer transfer) (\<lambda>t.
     res_bind (as_operation operation) (\<lambda>p.
     res_bind (require_positive block_count UINT32_MAX) (\<lambda>b.
     res_bind (require_uint64 observed_at_ns) (\<lambda>n.
     Inr (CoreTransferSubmitted i t p b n))))))"

datatype core_transfer_completed = CoreTransferCompleted
  (cmp_transfer: transfer_identity) (cmp_observed_at_ns: int) (cmp_success: bool)
  (cmp_bytes_moved: "int option") (cmp_device_duration_ns: "int option")
  (cmp_receipt: "receipt_identity option")

definition core_transfer_completed ::
  "pyval \<Rightarrow> pyval \<Rightarrow> pyval \<Rightarrow> pyval \<Rightarrow> pyval \<Rightarrow> pyval \<Rightarrow> core_transfer_completed res" where
  "core_transfer_completed transfer observed_at_ns success bytes_moved device_duration_ns
     receipt =
     res_bind (as_transfer transfer) (\<lambda>t.
     res_bind (require_uint64 observed_at_ns) (\<lambda>n.
     res_bind (as_bool success) (\<lambda>s.
     res_bind (optional (\<lambda>v. require_positive v UINT64_MAX) bytes_moved) (\<lambda>b.
     res_bind (optional (\<lambda>v. require_positive v UINT64_MAX) device_duration_ns) (\<lambda>d.
     res_bind (optional as_receipt receipt) (\<lambda>r.
     Inr (CoreTransferCompleted t n s b d r)))))))"

text \<open>
  The reason of a cancellation is only looked up in a set of enum members, never checked for
  its type: a plain string equal to a member passes, and an unhashable value raises TypeError.
\<close>

datatype core_transfer_cancelled = CoreTransferCancelled
  (can_transfer: transfer_identity) (can_observed_at_ns: int) (can_reason: pyval)

fun hashable :: "pyval \<Rightarrow> bool" where
  "hashable (PList xs) = False"
| "hashable (PDict kvs) = False"
| "hashable (PTuple xs) = list_all hashable xs"
| "hashable _ = True"

definition in_str_set :: "pyval \<Rightarrow> string list \<Rightarrow> bool res" where
  "in_str_set v values =
     (if \<not> hashable v then Inl TypeError
      else Inr (case str_of v of None \<Rightarrow> False | Some s \<Rightarrow> s \<in> set values))"

definition core_transfer_cancelled ::
  "pyval \<Rightarrow> pyval \<Rightarrow> pyval \<Rightarrow> core_transfer_cancelled res" where
  "core_transfer_cancelled transfer observed_at_ns reason =
     res_bind (as_transfer transfer) (\<lambda>t.
     res_bind (require_uint64 observed_at_ns) (\<lambda>n.
     res_bind (in_str_set reason
         (map terminal_value [REQUEST_CANCELLED, WORKER_GENERATION_CHANGED, HOST_SHUTDOWN]))
       (\<lambda>ok. if ok then Inr (CoreTransferCancelled t n reason) else Inl ValueError)))"

datatype core_recovery_requeued = CoreRecoveryRequeued
  (req_identity: observation_identity) (req_reason: recovery_requeue_reason)
  (req_observed_at_ns: int)

definition core_recovery_requeued ::
  "pyval \<Rightarrow> pyval \<Rightarrow> pyval \<Rightarrow> core_recovery_requeued res" where
  "core_recovery_requeued identity reason observed_at_ns =
     res_bind (as_identity identity) (\<lambda>i.
     res_bind (as_requeue reason) (\<lambda>r.
     res_bind (require_uint64 observed_at_ns) (\<lambda>n.
     Inr (CoreRecoveryRequeued i r n))))"

text \<open>The roster checks shared by admission and first compute.\<close>

definition as_roster :: "pyval \<Rightarrow> transfer_identity list res" where
  "as_roster v =
     (case v of
        PTuple xs \<Rightarrow>
          if xs = [] then Inl ValueError
          else res_bind (res_map as_transfer xs)
            (\<lambda>ts. if \<not> is_sorted_unique ts then Inl ValueError
                  else if MAX_TRANSFER_ASSOCIATIONS < length ts then Inl ValueError
                  else Inr ts)
      | _ \<Rightarrow> Inl ValueError)"

datatype core_recovery_admitted = CoreRecoveryAdmitted
  (adm_identity: observation_identity) (adm_transfers: "transfer_identity list")
  (adm_observed_at_ns: int)

definition core_recovery_admitted ::
  "pyval \<Rightarrow> pyval \<Rightarrow> pyval \<Rightarrow> core_recovery_admitted res" where
  "core_recovery_admitted identity transfers observed_at_ns =
     res_bind (as_identity identity) (\<lambda>i.
     res_bind (as_roster transfers) (\<lambda>ts.
     res_bind (require_uint64 observed_at_ns) (\<lambda>n.
     Inr (CoreRecoveryAdmitted i ts n))))"

datatype first_compute_observed = FirstComputeObserved
  (fc_source: source_host) (fc_identity: observation_identity)
  (fc_receipt: receipt_identity) (fc_transfers: "transfer_identity list")
  (fc_compute_kind: compute_kind) (fc_observed_at_ns: int)

definition first_compute_observed ::
  "pyval \<Rightarrow> pyval \<Rightarrow> pyval \<Rightarrow> pyval \<Rightarrow> pyval \<Rightarrow> pyval \<Rightarrow> first_compute_observed res" where
  "first_compute_observed source identity receipt transfers compute_kind observed_at_ns =
     res_bind (as_source_host source) (\<lambda>h.
     res_bind (as_identity identity) (\<lambda>i.
     res_bind (as_receipt receipt) (\<lambda>r.
     res_bind (as_roster transfers) (\<lambda>ts.
     res_bind (as_kind compute_kind) (\<lambda>k.
     res_bind (require_uint64 observed_at_ns) (\<lambda>n.
     Inr (FirstComputeObserved h i r ts k n)))))))"

text \<open>\<open>SrcOther\<close> is an object of none of the six classes.\<close>

datatype source_observation =
    SrcSubmitted core_transfer_submitted
  | SrcCompleted core_transfer_completed
  | SrcCancelled core_transfer_cancelled
  | SrcRequeued core_recovery_requeued
  | SrcAdmitted core_recovery_admitted
  | SrcFirstCompute first_compute_observed
  | SrcOther

section \<open>The normalizer\<close>

record normalization_counters =
  nc_accepted :: nat
  nc_invalid :: nat
  nc_capacity_dropped :: nat
  nc_evidence_disabled_dropped :: nat
  nc_closed_dropped :: nat

datatype completed_restore = CompletedRestore
  (cr_identity: observation_identity) (cr_receipt: receipt_identity) (cr_observed_at_ns: int)

datatype recovery_admission = RecoveryAdmission
  (ra_transfers: "transfer_identity list") (ra_observed_at_ns: int)

record normalizer =
  n_max_correlated_transfers :: nat
  n_max_recovery_admissions :: nat
  n_retain_restore_receipts :: bool
  n_pending :: "(transfer_identity, core_transfer_submitted) dict"
  n_completed_restores :: "(transfer_identity, completed_restore) dict"
  n_admissions :: "(observation_identity, recovery_admission) dict"
  n_counters :: normalization_counters
  n_evidence_valid :: bool
  n_closed :: bool

definition zero_counters :: normalization_counters where
  "zero_counters = \<lparr>nc_accepted = 0, nc_invalid = 0, nc_capacity_dropped = 0,
     nc_evidence_disabled_dropped = 0, nc_closed_dropped = 0\<rparr>"

definition normalizer_limit :: "pyval \<Rightarrow> nat res" where
  "normalizer_limit v =
     (case v of
        PInt n \<Rightarrow> if 0 < n \<and> n \<le> int MAX_TRANSFER_ASSOCIATIONS then Inr (nat n) else Inl ValueError
      | _ \<Rightarrow> Inl ValueError)"

definition lifecycle_normalizer :: "pyval \<Rightarrow> pyval \<Rightarrow> pyval \<Rightarrow> normalizer res" where
  "lifecycle_normalizer max_correlated_transfers max_recovery_admissions
     retain_restore_receipts =
     res_bind (normalizer_limit max_correlated_transfers) (\<lambda>c.
     res_bind (normalizer_limit max_recovery_admissions) (\<lambda>a.
     res_bind (as_bool retain_restore_receipts) (\<lambda>keep.
     Inr \<lparr>n_max_correlated_transfers = c, n_max_recovery_admissions = a,
       n_retain_restore_receipts = keep, n_pending = [], n_completed_restores = [],
       n_admissions = [], n_counters = zero_counters, n_evidence_valid = True,
       n_closed = False\<rparr>)))"

definition bump :: "(normalization_counters \<Rightarrow> normalization_counters) \<Rightarrow> normalizer \<Rightarrow> normalizer"
  where "bump f n = n\<lparr>n_counters := f (n_counters n)\<rparr>"

definition disable_for_capacity :: "normalizer \<Rightarrow> normalizer" where
  "disable_for_capacity n =
     bump (nc_capacity_dropped_update Suc) (n\<lparr>n_evidence_valid := False\<rparr>)"

text \<open>A method's outcome: the state it leaves and its result or exception.\<close>

type_synonym outcome = "normalizer \<times> kv_observation option res"

definition emit_result :: "obs_args \<Rightarrow> kv_observation option res" where
  "emit_result a = res_bind (kv_transfer_observation a) (\<lambda>ob. Inr (Some ob))"

definition transfer_submitted :: "normalizer \<Rightarrow> core_transfer_submitted \<Rightarrow> outcome" where
  "transfer_submitted n s =
     (if map_of (n_pending n) (sub_transfer s) \<noteq> None
         \<or> map_of (n_completed_restores n) (sub_transfer s) \<noteq> None
      then (n, Inl ValueError)
      else if n_max_correlated_transfers n \<le> length (n_pending n)
      then (disable_for_capacity n, Inr None)
      else
        (n\<lparr>n_pending := AList.update (sub_transfer s) s (n_pending n)\<rparr>,
         emit_result ((obs_defaults 0)
           \<lparr>a_event := PEvent (if sub_operation s = D2H_PRESERVE then PRESERVE_STARTED
                               else RESTORE_STARTED),
            a_identity := PIdentity (sub_identity s),
            a_observed_at_ns := PInt (sub_observed_at_ns s),
            a_transfer := PTransfer (sub_transfer s),
            a_direction := PDirection (operation_direction (sub_operation s)),
            a_block_count := PInt (sub_block_count s)\<rparr>)))"

definition del_pending :: "transfer_identity \<Rightarrow> normalizer \<Rightarrow> normalizer" where
  "del_pending t n = n\<lparr>n_pending := AList.delete t (n_pending n)\<rparr>"

text \<open>The restore half of \<^verbatim>\<open>_transfer_completed\<close>, after the common checks.\<close>

definition restore_completed ::
  "normalizer \<Rightarrow> core_transfer_completed \<Rightarrow> core_transfer_submitted \<Rightarrow> int \<Rightarrow> outcome" where
  "restore_completed n c pend bytes =
     (let duration = cmp_observed_at_ns c - sub_observed_at_ns pend in
      case cmp_receipt c of
        None \<Rightarrow> (n, Inl ValueError)
      | Some receipt \<Rightarrow>
          if duration = 0 then (n, Inl ValueError)
          else if n_retain_restore_receipts n \<and>
            n_max_correlated_transfers n \<le> length (n_completed_restores n)
          then (disable_for_capacity (del_pending (cmp_transfer c) n), Inr None)
          else
            (case emit_result ((obs_defaults 0)
                \<lparr>a_event := PEvent RESTORE_COMPLETED,
                 a_identity := PIdentity (sub_identity pend),
                 a_observed_at_ns := PInt (cmp_observed_at_ns c),
                 a_transfer := PTransfer (cmp_transfer c),
                 a_direction := PDirection H2D,
                 a_receipt := PReceipt receipt,
                 a_bytes_moved := PInt bytes,
                 a_block_count := PInt (sub_block_count pend),
                 a_duration_ns := PInt duration,
                 a_device_duration_ns := opt_val PInt (cmp_device_duration_ns c)\<rparr>) of
               Inl e \<Rightarrow> (n, Inl e)
             | Inr result \<Rightarrow>
                 (del_pending (cmp_transfer c)
                    (if n_retain_restore_receipts n
                     then n\<lparr>n_completed_restores := AList.update (cmp_transfer c)
                       (CompletedRestore (sub_identity pend) receipt (cmp_observed_at_ns c))
                       (n_completed_restores n)\<rparr>
                     else n),
                  Inr result)))"

definition preserve_completed ::
  "normalizer \<Rightarrow> core_transfer_completed \<Rightarrow> core_transfer_submitted \<Rightarrow> int \<Rightarrow> outcome" where
  "preserve_completed n c pend bytes =
     (let duration = cmp_observed_at_ns c - sub_observed_at_ns pend in
      if duration = 0 \<or> cmp_receipt c \<noteq> None then (n, Inl ValueError)
      else
        (case emit_result ((obs_defaults 0)
            \<lparr>a_event := PEvent PRESERVE_COMPLETED,
             a_identity := PIdentity (sub_identity pend),
             a_observed_at_ns := PInt (cmp_observed_at_ns c),
             a_transfer := PTransfer (cmp_transfer c),
             a_direction := PDirection D2H,
             a_bytes_moved := PInt bytes,
             a_block_count := PInt (sub_block_count pend),
             a_duration_ns := PInt duration,
             a_device_duration_ns := opt_val PInt (cmp_device_duration_ns c)\<rparr>) of
           Inl e \<Rightarrow> (n, Inl e)
         | Inr result \<Rightarrow> (del_pending (cmp_transfer c) n, Inr result)))"

definition transfer_completed :: "normalizer \<Rightarrow> core_transfer_completed \<Rightarrow> outcome" where
  "transfer_completed n c =
     (case map_of (n_pending n) (cmp_transfer c) of
        None \<Rightarrow> (n, Inl ValueError)
      | Some pend \<Rightarrow>
          if cmp_observed_at_ns c < sub_observed_at_ns pend then (n, Inl ValueError)
          else if sub_operation pend = D2H_PRESERVE \<and>
            cmp_observed_at_ns c = sub_observed_at_ns pend
          then (n, Inl ValueError)
          else if \<not> cmp_success c then
            if cmp_bytes_moved c \<noteq> None \<or> cmp_receipt c \<noteq> None then (n, Inl ValueError)
            else
              (del_pending (cmp_transfer c) n,
               emit_result ((obs_defaults 0)
                 \<lparr>a_event := PEvent TRANSFER_FAILED,
                  a_identity := PIdentity (sub_identity pend),
                  a_observed_at_ns := PInt (cmp_observed_at_ns c),
                  a_transfer := PTransfer (cmp_transfer c),
                  a_direction := PDirection (operation_direction (sub_operation pend)),
                  a_terminal_reason := PTerminalReason BACKEND_FAILURE\<rparr>))
          else
            (case cmp_bytes_moved c of
               None \<Rightarrow> (n, Inl ValueError)
             | Some bytes \<Rightarrow>
                 if sub_operation pend = H2D_RESTORE then restore_completed n c pend bytes
                 else preserve_completed n c pend bytes))"

definition transfer_cancelled :: "normalizer \<Rightarrow> core_transfer_cancelled \<Rightarrow> outcome" where
  "transfer_cancelled n c =
     (case map_of (n_pending n) (can_transfer c) of
        None \<Rightarrow> (n, Inl ValueError)
      | Some pend \<Rightarrow>
          if can_observed_at_ns c < sub_observed_at_ns pend then (n, Inl ValueError)
          else
            (del_pending (can_transfer c) n,
             emit_result ((obs_defaults 0)
               \<lparr>a_event := PEvent TRANSFER_CANCELLED,
                a_identity := PIdentity (sub_identity pend),
                a_observed_at_ns := PInt (can_observed_at_ns c),
                a_transfer := PTransfer (can_transfer c),
                a_direction := PDirection (operation_direction (sub_operation pend)),
                a_terminal_reason := can_reason c\<rparr>)))"

definition recovery_requeued :: "normalizer \<Rightarrow> core_recovery_requeued \<Rightarrow> outcome" where
  "recovery_requeued n q =
     (n, emit_result ((obs_defaults 0)
        \<lparr>a_event := PEvent RECOVERY_REQUEUED, a_identity := PIdentity (req_identity q),
         a_observed_at_ns := PInt (req_observed_at_ns q),
         a_requeue_reason := PRequeueReason (req_reason q)\<rparr>))"

text \<open>One element of an admission roster has its exact restore receipt.\<close>

definition has_restore_receipt ::
  "normalizer \<Rightarrow> core_recovery_admitted \<Rightarrow> transfer_identity \<Rightarrow> bool" where
  "has_restore_receipt n a t =
     (case map_of (n_completed_restores n) t of
        None \<Rightarrow> False
      | Some c \<Rightarrow>
          cr_identity c = adm_identity a \<and> cr_observed_at_ns c \<le> adm_observed_at_ns a)"

definition recovery_admitted :: "normalizer \<Rightarrow> core_recovery_admitted \<Rightarrow> outcome" where
  "recovery_admitted n a =
     (if id_recovery_epoch (adm_identity a) = None then (n, Inl ValueError)
      else if map_of (n_admissions n) (adm_identity a) \<noteq> None then (n, Inl ValueError)
      else if n_max_recovery_admissions n \<le> length (n_admissions n)
      then (disable_for_capacity n, Inr None)
      else if \<not> list_all (has_restore_receipt n a) (adm_transfers a) then (n, Inl ValueError)
      else
        (n\<lparr>n_admissions := AList.update (adm_identity a)
             (RecoveryAdmission (adm_transfers a) (adm_observed_at_ns a)) (n_admissions n)\<rparr>,
         emit_result ((obs_defaults 0)
           \<lparr>a_event := PEvent RECOVERY_ADMITTED, a_identity := PIdentity (adm_identity a),
            a_observed_at_ns := PInt (adm_observed_at_ns a),
            a_associated_transfers := PTuple (map PTransfer (adm_transfers a))\<rparr>)))"

definition first_compute_mismatch :: "normalizer \<Rightarrow> first_compute_observed \<Rightarrow> bool" where
  "first_compute_mismatch n f =
     (case map_of (n_admissions n) (fc_identity f) of
        None \<Rightarrow> True
      | Some admitted \<Rightarrow>
          ra_transfers admitted \<noteq> fc_transfers f \<or>
          fc_observed_at_ns f < ra_observed_at_ns admitted \<or>
          \<not> list_all (\<lambda>t. transfer_process_uuid t = receipt_process_uuid (fc_receipt f))
              (fc_transfers f))"

definition first_compute :: "normalizer \<Rightarrow> first_compute_observed \<Rightarrow> outcome" where
  "first_compute n f =
     (if first_compute_mismatch n f
      then (n\<lparr>n_evidence_valid := False\<rparr>, Inl ValueError)
      else
        (case emit_result ((obs_defaults 0)
            \<lparr>a_event := PEvent FIRST_COMPUTE, a_identity := PIdentity (fc_identity f),
             a_observed_at_ns := PInt (fc_observed_at_ns f),
             a_receipt := PReceipt (fc_receipt f),
             a_associated_transfers := PTuple (map PTransfer (fc_transfers f)),
             a_compute_kind := PComputeKind (fc_compute_kind f)\<rparr>) of
           Inl e \<Rightarrow> (n, Inl e)
         | Inr result \<Rightarrow>
             (n\<lparr>n_admissions := AList.delete (fc_identity f) (n_admissions n),
               n_completed_restores :=
                 fold AList.delete (fc_transfers f) (n_completed_restores n)\<rparr>,
              Inr result)))"

primrec normalize_locked :: "normalizer \<Rightarrow> source_observation \<Rightarrow> outcome" where
  "normalize_locked n (SrcSubmitted s) = transfer_submitted n s"
| "normalize_locked n (SrcCompleted c) = transfer_completed n c"
| "normalize_locked n (SrcCancelled c) = transfer_cancelled n c"
| "normalize_locked n (SrcRequeued q) = recovery_requeued n q"
| "normalize_locked n (SrcAdmitted a) = recovery_admitted n a"
| "normalize_locked n (SrcFirstCompute f) = first_compute n f"
| "normalize_locked n SrcOther = (n, Inl TypeError)"

text \<open>
  \<^verbatim>\<open>normalize\<close> catches TypeError and ValueError; any other exception would leave through it.
\<close>

definition normalize :: "normalizer \<Rightarrow> source_observation \<Rightarrow> normalizer \<times> kv_observation option res"
  where
  "normalize n source =
     (if n_closed n then (bump (nc_closed_dropped_update Suc) n, Inr None)
      else if \<not> n_evidence_valid n
      then (bump (nc_evidence_disabled_dropped_update Suc) n, Inr None)
      else
        (case normalize_locked n source of
           (n', Inl e) \<Rightarrow>
             if e = TypeError \<or> e = ValueError
             then (bump (nc_invalid_update Suc) n', Inr None) else (n', Inl e)
         | (n', Inr (Some ob)) \<Rightarrow> (bump (nc_accepted_update Suc) n', Inr (Some ob))
         | (n', Inr None) \<Rightarrow> (n', Inr None)))"

definition close_normalizer :: "normalizer \<Rightarrow> normalizer" where
  "close_normalizer n =
     (if n_closed n then n
      else n\<lparr>n_closed := True, n_pending := [], n_completed_restores := [],
             n_admissions := []\<rparr>)"

section \<open>Every failed construction is a ValueError\<close>

named_theorems ove_rules "operations that raise nothing but ValueError"

lemma ove_checks [ove_rules]:
  "only_value_error (require_uint v m)" "only_value_error (require_positive_uint v m)"
  "only_value_error (as_event v)" "only_value_error (as_identity v)"
  "only_value_error (as_transfer v)" "only_value_error (as_receipt v)"
  "only_value_error (as_direction v)" "only_value_error (as_kind v)"
  "only_value_error (as_requeue v)" "only_value_error (as_terminal v)"
  by (auto simp: only_value_error_def require_uint_def require_positive_uint_def py_defs
      res_bind_def split: pyval.splits if_splits sum.splits)

lemma ove_optional [ove_rules]:
  "(\<And>v. only_value_error (f v)) \<Longrightarrow> only_value_error (optional f v)"
  by (auto simp: optional_def intro!: only_value_error_bind)

lemma ove_associations [ove_rules]: "only_value_error (as_associations v)"
  by (cases v) (auto simp: as_associations_def intro!: only_value_error_bind
      only_value_error_map ove_checks)

lemma ove_shape [ove_rules]: "only_value_error (validate_event_shape ob)"
  unfolding validate_event_shape_def Let_def by simp

lemma ove_observation: "only_value_error (kv_transfer_observation a)"
  unfolding kv_transfer_observation_def Let_def
  by (intro only_value_error_bind ove_rules only_value_error_intros)

definition publish :: "kv_observation \<Rightarrow> kv_observation option res" where
  "publish ob = (if legal_observation ob then Inr (Some ob) else Inl ValueError)"

lemma opt_val_inject:
  "(\<And>x y. g x = g y \<longleftrightarrow> x = y) \<Longrightarrow> (\<And>x. g x \<noteq> PNone) \<Longrightarrow> opt_val g a = opt_val g b \<longleftrightarrow> a = b"
  by (auto simp: opt_val_def dest: sym split: option.splits)

lemma opt_val_eq [simp]:
  "opt_val PTransfer x1 = opt_val PTransfer y1 \<longleftrightarrow> x1 = y1"
  "opt_val PReceipt x2 = opt_val PReceipt y2 \<longleftrightarrow> x2 = y2"
  "opt_val PDirection x3 = opt_val PDirection y3 \<longleftrightarrow> x3 = y3"
  "opt_val PComputeKind x4 = opt_val PComputeKind y4 \<longleftrightarrow> x4 = y4"
  "opt_val PRequeueReason x5 = opt_val PRequeueReason y5 \<longleftrightarrow> x5 = y5"
  "opt_val PTerminalReason x6 = opt_val PTerminalReason y6 \<longleftrightarrow> x6 = y6"
  "opt_val PInt x7 = opt_val PInt y7 \<longleftrightarrow> x7 = y7"
  by (rule opt_val_inject; simp)+

lemma map_PTransfer_eq [simp]: "map PTransfer xs = map PTransfer ys \<longleftrightarrow> xs = ys"
  by (rule inj_map_eq_map) (simp add: inj_def)

lemma args_of_eq [simp]: "args_of ob = args_of ob' \<longleftrightarrow> ob = ob'"
proof
  assume eq: "args_of ob = args_of ob'"
  then show "ob = ob'"
    unfolding args_of_def obs_args.simps pyval.simps opt_val_eq map_PTransfer_eq
    by (intro kv_observation.equality) simp_all
qed simp

lemma emit_args: "emit_result (args_of ob) = publish ob"
proof (cases "kv_transfer_observation (args_of ob)")
  case (Inl e)
  then have "\<not> legal_observation ob" using observation_iff [of "args_of ob" ob] by auto
  moreover have "e = ValueError" using ove_observation [of "args_of ob"] Inl
    by (simp add: only_value_error_def)
  ultimately show ?thesis using Inl by (simp add: emit_result_def publish_def)
next
  case (Inr ob')
  then have "args_of ob = args_of ob'" "legal_observation ob'" by (simp_all add: observation_iff)
  then show ?thesis using Inr by (simp add: emit_result_def publish_def)
qed

section \<open>What each handler publishes\<close>

text \<open>
  The keyword calls of the handlers, read as lines of the table: the handler equations below
  say what each branch leaves in the state and which record it publishes.
\<close>

definition started_of :: "core_transfer_submitted \<Rightarrow> lifecycle" where
  "started_of s =
     (if sub_operation s = D2H_PRESERVE
      then Preserve_Started (sub_transfer s) (sub_block_count s)
      else Restore_Started (sub_transfer s) (sub_block_count s))"

lemmas args_defs = args_of_def obs_defaults_def bare_def opt_val_def operation_direction_def

lemma transfer_submitted_eq:
  "transfer_submitted n s =
     (if map_of (n_pending n) (sub_transfer s) \<noteq> None
         \<or> map_of (n_completed_restores n) (sub_transfer s) \<noteq> None
      then (n, Inl ValueError)
      else if n_max_correlated_transfers n \<le> length (n_pending n)
      then (disable_for_capacity n, Inr None)
      else (n\<lparr>n_pending := AList.update (sub_transfer s) s (n_pending n)\<rparr>,
            publish (embed (sub_identity s) (sub_observed_at_ns s) (started_of s))))"
  unfolding transfer_submitted_def emit_args [symmetric]
  by (simp add: started_of_def args_defs)

definition failed_of :: "transfer_operation \<Rightarrow> transfer_identity \<Rightarrow> lifecycle" where
  "failed_of p t = Transfer_Failed t (operation_direction p) BACKEND_FAILURE"

definition restored_of ::
  "core_transfer_completed \<Rightarrow> core_transfer_submitted \<Rightarrow> receipt_identity \<Rightarrow> int \<Rightarrow> lifecycle" where
  "restored_of c pend receipt bytes =
     Restore_Completed (cmp_transfer c) receipt bytes (sub_block_count pend)
       (cmp_observed_at_ns c - sub_observed_at_ns pend) (cmp_device_duration_ns c)"

definition preserved_of ::
  "core_transfer_completed \<Rightarrow> core_transfer_submitted \<Rightarrow> int \<Rightarrow> lifecycle" where
  "preserved_of c pend bytes =
     Preserve_Completed (cmp_transfer c) bytes (sub_block_count pend)
       (cmp_observed_at_ns c - sub_observed_at_ns pend) (cmp_device_duration_ns c)"

lemma restore_completed_eq:
  "restore_completed n c pend bytes =
     (case cmp_receipt c of
        None \<Rightarrow> (n, Inl ValueError)
      | Some receipt \<Rightarrow>
          if cmp_observed_at_ns c = sub_observed_at_ns pend then (n, Inl ValueError)
          else if n_retain_restore_receipts n \<and>
            n_max_correlated_transfers n \<le> length (n_completed_restores n)
          then (disable_for_capacity (del_pending (cmp_transfer c) n), Inr None)
          else
            (case publish (embed (sub_identity pend) (cmp_observed_at_ns c)
                (restored_of c pend receipt bytes)) of
               Inl e \<Rightarrow> (n, Inl e)
             | Inr result \<Rightarrow>
                 (del_pending (cmp_transfer c)
                    (if n_retain_restore_receipts n
                     then n\<lparr>n_completed_restores := AList.update (cmp_transfer c)
                       (CompletedRestore (sub_identity pend) receipt (cmp_observed_at_ns c))
                       (n_completed_restores n)\<rparr>
                     else n),
                  Inr result)))"
  unfolding restore_completed_def emit_args [symmetric] Let_def
  by (cases "cmp_receipt c"; cases "cmp_device_duration_ns c")
    (simp_all add: restored_of_def args_defs)

lemma preserve_completed_eq:
  "preserve_completed n c pend bytes =
     (if cmp_observed_at_ns c = sub_observed_at_ns pend \<or> cmp_receipt c \<noteq> None
      then (n, Inl ValueError)
      else
        (case publish (embed (sub_identity pend) (cmp_observed_at_ns c)
            (preserved_of c pend bytes)) of
           Inl e \<Rightarrow> (n, Inl e)
         | Inr result \<Rightarrow> (del_pending (cmp_transfer c) n, Inr result)))"
  unfolding preserve_completed_def emit_args [symmetric] Let_def
  by (cases "cmp_device_duration_ns c") (simp_all add: preserved_of_def args_defs)

lemma transfer_completed_eq:
  "transfer_completed n c =
     (case map_of (n_pending n) (cmp_transfer c) of
        None \<Rightarrow> (n, Inl ValueError)
      | Some pend \<Rightarrow>
          if cmp_observed_at_ns c < sub_observed_at_ns pend then (n, Inl ValueError)
          else if sub_operation pend = D2H_PRESERVE \<and>
            cmp_observed_at_ns c = sub_observed_at_ns pend
          then (n, Inl ValueError)
          else if \<not> cmp_success c then
            if cmp_bytes_moved c \<noteq> None \<or> cmp_receipt c \<noteq> None then (n, Inl ValueError)
            else
              (del_pending (cmp_transfer c) n,
               publish (embed (sub_identity pend) (cmp_observed_at_ns c)
                 (failed_of (sub_operation pend) (cmp_transfer c))))
          else
            (case cmp_bytes_moved c of
               None \<Rightarrow> (n, Inl ValueError)
             | Some bytes \<Rightarrow>
                 if sub_operation pend = H2D_RESTORE then restore_completed n c pend bytes
                 else preserve_completed n c pend bytes))"
  unfolding transfer_completed_def emit_args [symmetric]
  by (cases "map_of (n_pending n) (cmp_transfer c)") (simp_all add: failed_of_def args_defs)

text \<open>A cancellation publishes only when its reason is an enum member.\<close>

definition cancel_result ::
  "core_transfer_submitted \<Rightarrow> core_transfer_cancelled \<Rightarrow> kv_observation option res" where
  "cancel_result pend c =
     (case can_reason c of
        PTerminalReason r \<Rightarrow>
          publish (embed (sub_identity pend) (can_observed_at_ns c)
            (Transfer_Cancelled (can_transfer c) (operation_direction (sub_operation pend)) r))
      | PNone \<Rightarrow> Inl ValueError
      | _ \<Rightarrow> Inl ValueError)"

lemma emit_result_fails:
  "(\<And>ob. a \<noteq> args_of ob) \<Longrightarrow> emit_result a = Inl ValueError"
proof (cases "kv_transfer_observation a")
  case (Inl e)
  then show ?thesis using ove_observation [of a]
    by (simp add: emit_result_def only_value_error_def)
next
  case (Inr ob)
  assume "\<And>ob. a \<noteq> args_of ob"
  with Inr show ?thesis by (simp add: observation_iff)
qed

lemma opt_val_terminal: "opt_val PTerminalReason x = v \<longleftrightarrow>
    (x = None \<and> v = PNone) \<or> (\<exists>r. x = Some r \<and> v = PTerminalReason r)"
  by (cases x) (auto simp: opt_val_def)

lemma cancel_emit:
  "emit_result ((obs_defaults 0)
     \<lparr>a_event := PEvent TRANSFER_CANCELLED,
      a_identity := PIdentity (sub_identity pend),
      a_observed_at_ns := PInt (can_observed_at_ns c),
      a_transfer := PTransfer (can_transfer c),
      a_direction := PDirection (operation_direction (sub_operation pend)),
      a_terminal_reason := can_reason c\<rparr>) = cancel_result pend c"
  (is "emit_result ?a = _")
proof (cases "\<exists>ob. ?a = args_of ob")
  case False
  then have "can_reason c \<noteq> PTerminalReason r" for r
  proof -
    have "?a = args_of (embed (sub_identity pend) (can_observed_at_ns c) (Transfer_Cancelled
        (can_transfer c) (operation_direction (sub_operation pend)) r))"
      if "can_reason c = PTerminalReason r"
      using that by (simp add: args_defs)
    with False show ?thesis by blast
  qed
  then have "cancel_result pend c = Inl ValueError"
    by (cases "can_reason c") (auto simp: cancel_result_def)
  with False show ?thesis by (metis emit_result_fails)
next
  case True
  then obtain ob where ob: "?a = args_of ob" by blast
  then have r: "can_reason c = opt_val PTerminalReason (ob_terminal_reason ob)"
    by (simp add: args_of_def obs_defaults_def)
  show ?thesis
  proof (cases "ob_terminal_reason ob")
    case None
    with r have "cancel_result pend c = Inl ValueError"
      by (simp add: cancel_result_def opt_val_def)
    moreover from ob have "ob_event ob = TRANSFER_CANCELLED"
      by (simp add: args_of_def obs_defaults_def)
    with None have "\<not> legal_observation ob"
      unfolding legal_observation_def shape_exact [symmetric] shape_iff by auto
    ultimately show ?thesis using ob by (simp add: emit_args publish_def)
  next
    case (Some x)
    with r have c: "can_reason c = PTerminalReason x" by (simp add: opt_val_def)
    then have "?a = args_of (embed (sub_identity pend) (can_observed_at_ns c) (Transfer_Cancelled
        (can_transfer c) (operation_direction (sub_operation pend)) x))"
      by (simp add: args_defs)
    with c show ?thesis by (simp add: cancel_result_def emit_args)
  qed
qed

lemma transfer_cancelled_eq:
  "transfer_cancelled n c =
     (case map_of (n_pending n) (can_transfer c) of
        None \<Rightarrow> (n, Inl ValueError)
      | Some pend \<Rightarrow>
          if can_observed_at_ns c < sub_observed_at_ns pend then (n, Inl ValueError)
          else (del_pending (can_transfer c) n, cancel_result pend c))"
  unfolding transfer_cancelled_def cancel_emit ..

lemma recovery_requeued_eq:
  "recovery_requeued n q =
     (n, publish (embed (req_identity q) (req_observed_at_ns q)
            (Recovery_Requeued (req_reason q))))"
  unfolding recovery_requeued_def emit_args [symmetric] by (simp add: args_defs)

lemma recovery_admitted_eq:
  "recovery_admitted n a =
     (if id_recovery_epoch (adm_identity a) = None then (n, Inl ValueError)
      else if map_of (n_admissions n) (adm_identity a) \<noteq> None then (n, Inl ValueError)
      else if n_max_recovery_admissions n \<le> length (n_admissions n)
      then (disable_for_capacity n, Inr None)
      else if \<not> list_all (has_restore_receipt n a) (adm_transfers a) then (n, Inl ValueError)
      else
        (n\<lparr>n_admissions := AList.update (adm_identity a)
             (RecoveryAdmission (adm_transfers a) (adm_observed_at_ns a)) (n_admissions n)\<rparr>,
         publish (embed (adm_identity a) (adm_observed_at_ns a)
           (Recovery_Admitted (adm_transfers a)))))"
  unfolding recovery_admitted_def emit_args [symmetric] by (simp add: args_defs)

lemma first_compute_eq:
  "first_compute n f =
     (if first_compute_mismatch n f
      then (n\<lparr>n_evidence_valid := False\<rparr>, Inl ValueError)
      else
        (case publish (embed (fc_identity f) (fc_observed_at_ns f)
            (First_Compute (fc_receipt f) (fc_transfers f) (fc_compute_kind f))) of
           Inl e \<Rightarrow> (n, Inl e)
         | Inr result \<Rightarrow>
             (n\<lparr>n_admissions := AList.delete (fc_identity f) (n_admissions n),
               n_completed_restores :=
                 fold AList.delete (fc_transfers f) (n_completed_restores n)\<rparr>,
              Inr result)))"
  unfolding first_compute_def emit_args [symmetric] by (simp add: args_defs)

lemmas handler_eqs =
  transfer_submitted_eq restore_completed_eq preserve_completed_eq transfer_completed_eq
  transfer_cancelled_eq recovery_requeued_eq recovery_admitted_eq first_compute_eq

section \<open>Well-formed sources\<close>

text \<open>What the constructors of the six classes establish of their instances.\<close>

definition uint64 :: "int \<Rightarrow> bool" where
  "uint64 n \<longleftrightarrow> 0 \<le> n \<and> n \<le> UINT64_MAX"

definition valid_submitted :: "core_transfer_submitted \<Rightarrow> bool" where
  "valid_submitted s \<longleftrightarrow>
     valid_identity (sub_identity s) \<and> valid_transfer (sub_transfer s) \<and>
     0 < sub_block_count s \<and> sub_block_count s \<le> UINT32_MAX \<and> uint64 (sub_observed_at_ns s)"

definition valid_completed :: "core_transfer_completed \<Rightarrow> bool" where
  "valid_completed c \<longleftrightarrow>
     valid_transfer (cmp_transfer c) \<and> uint64 (cmp_observed_at_ns c) \<and>
     in_range 1 UINT64_MAX (cmp_bytes_moved c) \<and>
     in_range 1 UINT64_MAX (cmp_device_duration_ns c) \<and>
     (\<forall>r. cmp_receipt c = Some r \<longrightarrow> valid_receipt r)"

definition cancellation_reason :: "pyval \<Rightarrow> bool" where
  "cancellation_reason v \<longleftrightarrow> (\<exists>r \<in> CANCELLATION_REASONS. str_of v = Some (terminal_value r))"

definition valid_cancelled :: "core_transfer_cancelled \<Rightarrow> bool" where
  "valid_cancelled c \<longleftrightarrow>
     valid_transfer (can_transfer c) \<and> uint64 (can_observed_at_ns c) \<and>
     cancellation_reason (can_reason c)"

definition valid_requeued :: "core_recovery_requeued \<Rightarrow> bool" where
  "valid_requeued q \<longleftrightarrow> valid_identity (req_identity q) \<and> uint64 (req_observed_at_ns q)"

definition valid_roster :: "transfer_identity list \<Rightarrow> bool" where
  "valid_roster ts \<longleftrightarrow>
     ts \<noteq> [] \<and> sorted_wrt (<) ts \<and> length ts \<le> MAX_TRANSFER_ASSOCIATIONS \<and>
     (\<forall>t \<in> set ts. valid_transfer t)"

definition valid_admitted :: "core_recovery_admitted \<Rightarrow> bool" where
  "valid_admitted a \<longleftrightarrow>
     valid_identity (adm_identity a) \<and> valid_roster (adm_transfers a) \<and>
     uint64 (adm_observed_at_ns a)"

definition valid_first_compute :: "first_compute_observed \<Rightarrow> bool" where
  "valid_first_compute f \<longleftrightarrow>
     valid_identity (fc_identity f) \<and> valid_receipt (fc_receipt f) \<and>
     valid_roster (fc_transfers f) \<and> uint64 (fc_observed_at_ns f)"

primrec valid_source :: "source_observation \<Rightarrow> bool" where
  "valid_source (SrcSubmitted s) = valid_submitted s"
| "valid_source (SrcCompleted c) = valid_completed c"
| "valid_source (SrcCancelled c) = valid_cancelled c"
| "valid_source (SrcRequeued q) = valid_requeued q"
| "valid_source (SrcAdmitted a) = valid_admitted a"
| "valid_source (SrcFirstCompute f) = valid_first_compute f"
| "valid_source SrcOther = True"

text \<open>The constructors, as the values they accept.\<close>

lemma require_uint64_iff: "require_uint64 v = Inr n \<longleftrightarrow> v = PInt n \<and> uint64 n"
  by (auto simp: require_uint64_def uint64_def split: pyval.splits)

lemma require_positive_iff: "require_positive v m = Inr n \<longleftrightarrow> v = PInt n \<and> 0 < n \<and> n \<le> m"
  by (auto simp: require_positive_def split: pyval.splits)

lemma optional_positive_iff:
  "optional (\<lambda>v. require_positive v m) v = Inr y \<longleftrightarrow> v = opt_val PInt y \<and> in_range 1 m y"
proof -
  have "optional (\<lambda>v. require_positive v m) v = Inr y \<longleftrightarrow>
      v = (case y of None \<Rightarrow> PNone | Some x \<Rightarrow> PInt x) \<and> (\<forall>x. y = Some x \<longrightarrow> 0 < x \<and> x \<le> m)"
    by (rule optional_iff) (auto simp: require_positive_iff)
  then show ?thesis by (auto simp: opt_val_def in_range_def split: option.splits)
qed

lemma as_more_iff:
  "as_operation v = Inr p \<longleftrightarrow> v = POperation p"
  "as_bool v = Inr b \<longleftrightarrow> v = PBool b"
  "as_source_host v = Inr h \<longleftrightarrow> v = PSourceHost h"
  by (auto simp: py_defs split: pyval.splits)

lemma as_roster_iff:
  "as_roster v = Inr ts \<longleftrightarrow>
     v = PTuple (map PTransfer ts) \<and> ts \<noteq> [] \<and> sorted_wrt (<) ts \<and>
     length ts \<le> MAX_TRANSFER_ASSOCIATIONS"
  by (auto simp: as_roster_def res_map_as_transfer is_sorted_unique_iff split: pyval.splits)

lemma core_transfer_submitted_iff:
  "core_transfer_submitted i t p b n = Inr s \<longleftrightarrow>
     i = PIdentity (sub_identity s) \<and> t = PTransfer (sub_transfer s) \<and>
     p = POperation (sub_operation s) \<and> b = PInt (sub_block_count s) \<and>
     n = PInt (sub_observed_at_ns s) \<and>
     0 < sub_block_count s \<and> sub_block_count s \<le> UINT32_MAX \<and> uint64 (sub_observed_at_ns s)"
  by (cases s) (auto simp: core_transfer_submitted_def as_iff as_more_iff require_uint64_iff
      require_positive_iff)

lemma core_transfer_completed_iff:
  "core_transfer_completed t n s b d r = Inr c \<longleftrightarrow>
     t = PTransfer (cmp_transfer c) \<and> n = PInt (cmp_observed_at_ns c) \<and>
     s = PBool (cmp_success c) \<and> b = opt_val PInt (cmp_bytes_moved c) \<and>
     d = opt_val PInt (cmp_device_duration_ns c) \<and> r = opt_val PReceipt (cmp_receipt c) \<and>
     uint64 (cmp_observed_at_ns c) \<and> in_range 1 UINT64_MAX (cmp_bytes_moved c) \<and>
     in_range 1 UINT64_MAX (cmp_device_duration_ns c)"
  by (cases c) (auto simp: core_transfer_completed_def as_iff as_more_iff optional_as_iff
      require_uint64_iff optional_positive_iff)

lemma in_str_set_iff:
  "in_str_set v values = Inr True \<longleftrightarrow> (\<exists>s \<in> set values. str_of v = Some s)"
  by (cases v) (auto simp: in_str_set_def)

lemma core_transfer_cancelled_iff:
  "core_transfer_cancelled t n r = Inr c \<longleftrightarrow>
     t = PTransfer (can_transfer c) \<and> n = PInt (can_observed_at_ns c) \<and> r = can_reason c \<and>
     uint64 (can_observed_at_ns c) \<and> cancellation_reason (can_reason c)"
proof -
  have "in_str_set r (map terminal_value [REQUEST_CANCELLED, WORKER_GENERATION_CHANGED,
      HOST_SHUTDOWN]) = Inr True \<longleftrightarrow> cancellation_reason r"
    by (auto simp: in_str_set_iff cancellation_reason_def CANCELLATION_REASONS_def)
  then show ?thesis
    by (cases c) (auto simp: core_transfer_cancelled_def as_iff require_uint64_iff)
qed

lemma core_recovery_admitted_iff:
  "core_recovery_admitted i ts n = Inr a \<longleftrightarrow>
     i = PIdentity (adm_identity a) \<and> ts = PTuple (map PTransfer (adm_transfers a)) \<and>
     n = PInt (adm_observed_at_ns a) \<and> adm_transfers a \<noteq> [] \<and>
     sorted_wrt (<) (adm_transfers a) \<and>
     length (adm_transfers a) \<le> MAX_TRANSFER_ASSOCIATIONS \<and> uint64 (adm_observed_at_ns a)"
  by (cases a) (auto simp: core_recovery_admitted_def as_iff as_roster_iff require_uint64_iff)

lemma core_recovery_requeued_iff:
  "core_recovery_requeued i r n = Inr q \<longleftrightarrow>
     i = PIdentity (req_identity q) \<and> r = PRequeueReason (req_reason q) \<and>
     n = PInt (req_observed_at_ns q) \<and> uint64 (req_observed_at_ns q)"
  by (cases q) (auto simp: core_recovery_requeued_def as_iff require_uint64_iff)

lemma first_compute_observed_iff:
  "first_compute_observed h i r ts k n = Inr f \<longleftrightarrow>
     h = PSourceHost (fc_source f) \<and> i = PIdentity (fc_identity f) \<and>
     r = PReceipt (fc_receipt f) \<and> ts = PTuple (map PTransfer (fc_transfers f)) \<and>
     k = PComputeKind (fc_compute_kind f) \<and> n = PInt (fc_observed_at_ns f) \<and>
     fc_transfers f \<noteq> [] \<and> sorted_wrt (<) (fc_transfers f) \<and>
     length (fc_transfers f) \<le> MAX_TRANSFER_ASSOCIATIONS \<and> uint64 (fc_observed_at_ns f)"
  by (cases f) (auto simp: first_compute_observed_def as_iff as_more_iff as_roster_iff
      require_uint64_iff)

section \<open>Published records are legal\<close>

lemmas bounded_defs = obs_bounded_def bare_def in_range_def uint64_def

lemma publish_legal: "legal_observation ob \<Longrightarrow> publish ob = Inr (Some ob)"
  by (simp add: publish_def)

lemma publish_Inr: "publish ob = Inr x \<longleftrightarrow> x = Some ob \<and> legal_observation ob"
  by (auto simp: publish_def)

lemma publish_cases: "publish ob = Inr (Some ob) \<or> publish ob = Inl ValueError"
  by (simp add: publish_def)

lemma started_legal:
  "valid_submitted s \<Longrightarrow>
     legal_observation (embed (sub_identity s) (sub_observed_at_ns s) (started_of s))"
  unfolding legal_embed by (auto simp: started_of_def valid_submitted_def bounded_defs)

lemma failed_legal:
  "uint64 t \<Longrightarrow> legal_observation (embed i t (failed_of p tr))"
  unfolding legal_embed by (auto simp: failed_of_def bounded_defs FAILURE_REASONS_def)

lemma restored_legal:
  assumes "valid_completed c" "valid_submitted pend" "0 < bytes" "bytes \<le> UINT64_MAX"
    "sub_observed_at_ns pend \<le> cmp_observed_at_ns c"
  shows "legal_observation (embed (sub_identity pend) (cmp_observed_at_ns c)
      (restored_of c pend r bytes)) \<longleftrightarrow>
    receipt_process_uuid r = transfer_process_uuid (cmp_transfer c)"
  using assms
  unfolding legal_embed by (auto simp: restored_of_def valid_completed_def valid_submitted_def bounded_defs
      split: option.splits)

lemma preserved_legal:
  assumes "valid_completed c" "valid_submitted pend" "0 < bytes" "bytes \<le> UINT64_MAX"
    "sub_observed_at_ns pend \<le> cmp_observed_at_ns c"
  shows "legal_observation (embed (sub_identity pend) (cmp_observed_at_ns c)
      (preserved_of c pend bytes))"
  using assms
  unfolding legal_embed by (auto simp: preserved_of_def valid_completed_def valid_submitted_def bounded_defs
      split: option.splits)

lemma cancelled_legal:
  "uint64 t \<Longrightarrow> r \<in> CANCELLATION_REASONS \<Longrightarrow>
     legal_observation (embed i t (Transfer_Cancelled tr d r))"
  unfolding legal_embed by (auto simp: bounded_defs)

lemma requeued_legal:
  "uint64 t \<Longrightarrow>
     legal_observation (embed i t (Recovery_Requeued r)) \<longleftrightarrow> id_recovery_epoch i \<noteq> None"
  unfolding legal_embed by (auto simp: bounded_defs)

lemma admitted_legal:
  "uint64 t \<Longrightarrow> valid_roster ts \<Longrightarrow> id_recovery_epoch i \<noteq> None \<Longrightarrow>
     legal_observation (embed i t (Recovery_Admitted ts))"
  unfolding legal_embed by (auto simp: bounded_defs valid_roster_def)

lemma first_compute_legal:
  "uint64 t \<Longrightarrow> valid_roster ts \<Longrightarrow> id_recovery_epoch i \<noteq> None \<Longrightarrow>
     (\<And>x. x \<in> set ts \<Longrightarrow> transfer_process_uuid x = receipt_process_uuid r) \<Longrightarrow>
     legal_observation (embed i t (First_Compute r ts k))"
  unfolding legal_embed by (auto simp: bounded_defs valid_roster_def)

end
