(* ===== verification/Normalizer_Invariant.thy ===== *)
theory Normalizer_Invariant
  imports Normalization
begin

text \<open>
  What the normalizer's three tables always hold: bounded sizes, valid identities, receipts of
  the process that submitted them, and an admission's receipts kept until its first compute.
  Every handler keeps this and publishes only valid records.
\<close>

section \<open>The state invariant\<close>

definition pending_ok :: "normalizer \<Rightarrow> bool" where
  "pending_ok n \<longleftrightarrow>
     dict_ok (n_pending n) \<and> length (n_pending n) \<le> n_max_correlated_transfers n \<and>
     (\<forall>t s. map_of (n_pending n) t = Some s \<longrightarrow> sub_transfer s = t \<and> valid_submitted s)"

definition completed_ok :: "normalizer \<Rightarrow> bool" where
  "completed_ok n \<longleftrightarrow>
     dict_ok (n_completed_restores n) \<and>
     length (n_completed_restores n) \<le> n_max_correlated_transfers n \<and>
     (\<forall>t c. map_of (n_completed_restores n) t = Some c \<longrightarrow>
        map_of (n_pending n) t = None \<and> valid_identity (cr_identity c) \<and>
        valid_receipt (cr_receipt c) \<and>
        receipt_process_uuid (cr_receipt c) = transfer_process_uuid t)"

text \<open>Every admission still holds the exact receipts it was granted on.\<close>

definition roster_held :: "normalizer \<Rightarrow> observation_identity \<Rightarrow> recovery_admission \<Rightarrow> bool" where
  "roster_held n i a \<longleftrightarrow>
     (\<forall>t \<in> set (ra_transfers a). \<exists>c. map_of (n_completed_restores n) t = Some c \<and>
        cr_identity c = i \<and> cr_observed_at_ns c \<le> ra_observed_at_ns a)"

definition admissions_ok :: "normalizer \<Rightarrow> bool" where
  "admissions_ok n \<longleftrightarrow>
     dict_ok (n_admissions n) \<and> length (n_admissions n) \<le> n_max_recovery_admissions n \<and>
     (\<forall>i a. map_of (n_admissions n) i = Some a \<longrightarrow>
        id_recovery_epoch i \<noteq> None \<and> valid_roster (ra_transfers a) \<and> roster_held n i a)"

definition norm_inv :: "normalizer \<Rightarrow> bool" where
  "norm_inv n \<longleftrightarrow>
     pending_ok n \<and> completed_ok n \<and> admissions_ok n \<and>
     (\<not> n_retain_restore_receipts n \<longrightarrow> n_completed_restores n = [])"

lemma norm_inv_bump [simp]: "norm_inv (bump f n) = norm_inv n"
  by (simp add: norm_inv_def pending_ok_def completed_ok_def admissions_ok_def roster_held_def
      bump_def)

lemma norm_inv_evidence [simp]: "norm_inv (n\<lparr>n_evidence_valid := b\<rparr>) = norm_inv n"
  by (simp add: norm_inv_def pending_ok_def completed_ok_def admissions_ok_def roster_held_def)

lemma norm_inv_disable [simp]: "norm_inv (disable_for_capacity n) = norm_inv n"
  by (simp add: disable_for_capacity_def)

lemma inv_pending:
  "norm_inv n \<Longrightarrow> map_of (n_pending n) t = Some s \<Longrightarrow> sub_transfer s = t \<and> valid_submitted s"
  by (simp add: norm_inv_def pending_ok_def)

lemma norm_inv_del_pending [wf_rules]: "norm_inv n \<Longrightarrow> norm_inv (del_pending t n)"
  by (auto simp: norm_inv_def pending_ok_def completed_ok_def admissions_ok_def roster_held_def
      del_pending_def intro: order_trans [OF length_delete_le])

lemma norm_inv_add_pending [wf_rules]:
  assumes "norm_inv n" "valid_submitted s" "map_of (n_pending n) (sub_transfer s) = None"
    "map_of (n_completed_restores n) (sub_transfer s) = None"
    "length (n_pending n) < n_max_correlated_transfers n"
  shows "norm_inv (n\<lparr>n_pending := AList.update (sub_transfer s) s (n_pending n)\<rparr>)"
  using assms
  by (auto simp: norm_inv_def pending_ok_def completed_ok_def admissions_ok_def roster_held_def
      length_update_new split: if_splits)

lemma norm_inv_add_completed [wf_rules]:
  assumes inv: "norm_inv n" and pend: "map_of (n_pending n) t = Some s"
    and c: "valid_identity (cr_identity c)" "valid_receipt (cr_receipt c)"
      "receipt_process_uuid (cr_receipt c) = transfer_process_uuid t"
    and room: "length (n_completed_restores n) < n_max_correlated_transfers n"
    and keep: "n_retain_restore_receipts n"
  shows "norm_inv (del_pending t
    (n\<lparr>n_completed_restores := AList.update t c (n_completed_restores n)\<rparr>))"
proof -
  from inv pend have new: "map_of (n_completed_restores n) t = None"
    by (cases "map_of (n_completed_restores n) t") (auto simp: norm_inv_def completed_ok_def)
  have "roster_held (del_pending t
      (n\<lparr>n_completed_restores := AList.update t c (n_completed_restores n)\<rparr>)) i a"
    if "roster_held n i a" for i a
    using that new by (auto simp: roster_held_def del_pending_def)
  with inv new c room keep show ?thesis
    by (auto simp: norm_inv_def pending_ok_def completed_ok_def admissions_ok_def del_pending_def
      length_update_new intro: order_trans [OF length_delete_le])
qed

lemma norm_inv_add_admission [wf_rules]:
  assumes "norm_inv n" "id_recovery_epoch i \<noteq> None" "map_of (n_admissions n) i = None"
    "length (n_admissions n) < n_max_recovery_admissions n" "valid_roster (ra_transfers a)"
    "roster_held n i a"
  shows "norm_inv (n\<lparr>n_admissions := AList.update i a (n_admissions n)\<rparr>)"
  using assms
  by (auto simp: norm_inv_def pending_ok_def completed_ok_def admissions_ok_def roster_held_def
      length_update_new)

text \<open>
  A first compute drops its own admission and exactly the receipts of its own roster: rosters
  of different identities are disjoint, so every other admission keeps its receipts.
\<close>

lemma norm_inv_first_compute [wf_rules]:
  assumes inv: "norm_inv n" and adm: "map_of (n_admissions n) i = Some a"
  shows "norm_inv (n\<lparr>n_admissions := AList.delete i (n_admissions n),
    n_completed_restores := fold AList.delete (ra_transfers a) (n_completed_restores n)\<rparr>)"
    (is "norm_inv ?n'")
proof -
  have own: "roster_held n i a" using inv adm by (simp add: norm_inv_def admissions_ok_def)
  have keep: "roster_held ?n' j b" if "map_of (n_admissions n) j = Some b" "j \<noteq> i" for j b
  proof -
    from that inv have held: "roster_held n j b" by (simp add: norm_inv_def admissions_ok_def)
    have "t \<notin> set (ra_transfers a)" if "t \<in> set (ra_transfers b)" for t
      using that own held \<open>j \<noteq> i\<close> by (force simp: roster_held_def)
    with held show ?thesis by (simp add: roster_held_def map_of_fold_delete)
  qed
  have len: "length (fold AList.delete (ra_transfers a) (n_completed_restores n))
      \<le> n_max_correlated_transfers n"
    using inv length_fold_delete [of "ra_transfers a" "n_completed_restores n"]
    by (simp add: norm_inv_def completed_ok_def)
  have adms: "length (AList.delete i (n_admissions n)) \<le> n_max_recovery_admissions n"
    using inv length_delete_le [of i "n_admissions n"]
    by (simp add: norm_inv_def admissions_ok_def)
  have "fold AList.delete (ra_transfers a) [] = ([] :: (transfer_identity, completed_restore) dict)"
    using length_fold_delete [of "ra_transfers a" "[]"] by simp
  with inv keep len adms show ?thesis
    by (auto simp: norm_inv_def pending_ok_def completed_ok_def admissions_ok_def
        dict_ok_fold_delete map_of_fold_delete split: if_splits)
qed

lemma norm_inv_close [wf_rules]: "norm_inv n \<Longrightarrow> norm_inv (close_normalizer n)"
  by (auto simp: close_normalizer_def norm_inv_def pending_ok_def completed_ok_def
      admissions_ok_def)

lemma norm_inv_new: "lifecycle_normalizer c a keep = Inr n \<Longrightarrow> norm_inv n"
  by (auto simp: lifecycle_normalizer_def norm_inv_def pending_ok_def completed_ok_def
      admissions_ok_def)


section \<open>Every handler keeps the invariant and publishes valid records\<close>

text \<open>What a call may leave: the invariant, a valid record, or ValueError.\<close>

definition good_outcome :: "outcome \<Rightarrow> bool" where
  "good_outcome oc \<longleftrightarrow>
     norm_inv (fst oc) \<and>
     (case snd oc of
        Inl e \<Rightarrow> e = ValueError
      | Inr None \<Rightarrow> True
      | Inr (Some ob) \<Rightarrow> valid_observation ob)"

lemma good_simps [simp]:
  "good_outcome (n, Inl e) \<longleftrightarrow> norm_inv n \<and> e = ValueError"
  "good_outcome (n, Inr None) \<longleftrightarrow> norm_inv n"
  "good_outcome (n, Inr (Some ob)) \<longleftrightarrow> norm_inv n \<and> valid_observation ob"
  by (auto simp: good_outcome_def)

lemma good_publish:
  "norm_inv n \<Longrightarrow> (legal_observation ob \<Longrightarrow> valid_parts ob) \<Longrightarrow> good_outcome (n, publish ob)"
  by (simp add: publish_def valid_observation_def)

lemma good_publish_then:
  assumes "norm_inv n" "legal_observation ob \<Longrightarrow> valid_parts ob"
    "legal_observation ob \<Longrightarrow> norm_inv n'"
  shows "good_outcome (case publish ob of Inl e \<Rightarrow> (n, Inl e) | Inr r \<Rightarrow> (n', Inr r))"
  using assms by (simp add: publish_def valid_observation_def)

lemmas parts_defs = valid_parts_def bare_def started_of_def failed_of_def restored_of_def
  preserved_of_def

lemma good_submitted:
  assumes "norm_inv n" "valid_submitted s"
  shows "good_outcome (transfer_submitted n s)"
proof -
  have "valid_parts (embed (sub_identity s) (sub_observed_at_ns s) (started_of s))"
    using assms(2) by (simp add: parts_defs valid_submitted_def)
  moreover have "norm_inv (n\<lparr>n_pending := AList.update (sub_transfer s) s (n_pending n)\<rparr>)"
    if "map_of (n_pending n) (sub_transfer s) = None"
      "map_of (n_completed_restores n) (sub_transfer s) = None"
      "length (n_pending n) < n_max_correlated_transfers n"
    using assms that by (intro norm_inv_add_pending)
  ultimately show ?thesis
    using assms(1) by (simp add: transfer_submitted_eq good_publish)
qed

lemma good_restored:
  assumes inv: "norm_inv n" and pend: "map_of (n_pending n) (cmp_transfer c) = Some p"
    and c: "valid_completed c"
  shows "good_outcome (restore_completed n c p bytes)"
proof (cases "cmp_receipt c")
  case None
  with inv show ?thesis by (simp add: restore_completed_eq)
next
  case (Some r)
  have p: "valid_submitted p" using inv_pending [OF inv pend] by simp
  have r: "valid_receipt r" using c Some by (simp add: valid_completed_def)
  let ?ob = "embed (sub_identity p) (cmp_observed_at_ns c) (restored_of c p r bytes)"
  have parts: "valid_parts ?ob"
    using p c r by (simp add: parts_defs valid_submitted_def valid_completed_def)
  have same: "receipt_process_uuid r = transfer_process_uuid (cmp_transfer c)"
    if "legal_observation ?ob"
    using that unfolding legal_embed by (simp add: restored_of_def)
  have kept: "norm_inv (del_pending (cmp_transfer c) (n\<lparr>n_completed_restores :=
      AList.update (cmp_transfer c) (CompletedRestore (sub_identity p) r (cmp_observed_at_ns c))
        (n_completed_restores n)\<rparr>))"
    if "legal_observation ?ob" "length (n_completed_restores n) < n_max_correlated_transfers n"
      "n_retain_restore_receipts n"
    using that same p r
    by (intro norm_inv_add_completed [OF inv pend]) (simp_all add: valid_submitted_def)
  have drop: "norm_inv (del_pending (cmp_transfer c) n)" by (rule norm_inv_del_pending [OF inv])
  have "good_outcome (case publish ?ob of Inl e \<Rightarrow> (n, Inl e) | Inr result \<Rightarrow>
      (del_pending (cmp_transfer c) (if n_retain_restore_receipts n
         then n\<lparr>n_completed_restores := AList.update (cmp_transfer c)
           (CompletedRestore (sub_identity p) r (cmp_observed_at_ns c)) (n_completed_restores n)\<rparr>
         else n), Inr result))"
    if "\<not> (n_retain_restore_receipts n \<and>
      n_max_correlated_transfers n \<le> length (n_completed_restores n))"
    using that parts kept drop by (intro good_publish_then [OF inv]) auto
  with inv drop show ?thesis
    unfolding restore_completed_eq Some option.case by simp
qed

lemma good_preserved:
  assumes inv: "norm_inv n" and pend: "map_of (n_pending n) (cmp_transfer c) = Some p"
    and c: "valid_completed c"
  shows "good_outcome (preserve_completed n c p bytes)"
proof -
  have p: "valid_submitted p" using inv_pending [OF inv pend] by simp
  have "valid_parts (embed (sub_identity p) (cmp_observed_at_ns c) (preserved_of c p bytes))"
    using p c by (simp add: parts_defs valid_submitted_def valid_completed_def)
  then show ?thesis
    unfolding preserve_completed_eq using inv
    by (auto intro!: good_publish_then norm_inv_del_pending)
qed

lemma good_completed:
  assumes "norm_inv n" "valid_completed c"
  shows "good_outcome (transfer_completed n c)"
proof (cases "map_of (n_pending n) (cmp_transfer c)")
  case None
  with assms show ?thesis by (simp add: transfer_completed_eq)
next
  case (Some p)
  have p: "valid_submitted p" using inv_pending [OF assms(1) Some] by simp
  have "valid_parts (embed (sub_identity p) (cmp_observed_at_ns c)
      (failed_of (sub_operation p) (cmp_transfer c)))"
    using p assms(2) by (simp add: parts_defs valid_submitted_def valid_completed_def)
  with assms Some show ?thesis
    by (auto simp: transfer_completed_eq good_restored good_preserved
        intro!: good_publish norm_inv_del_pending split: option.splits)
qed

lemma good_cancelled:
  assumes "norm_inv n" "valid_cancelled c"
  shows "good_outcome (transfer_cancelled n c)"
proof (cases "map_of (n_pending n) (can_transfer c)")
  case None
  with assms show ?thesis by (simp add: transfer_cancelled_eq)
next
  case (Some p)
  have p: "valid_submitted p" using inv_pending [OF assms(1) Some] by simp
  have "valid_parts (embed (sub_identity p) (can_observed_at_ns c)
      (Transfer_Cancelled (can_transfer c) (operation_direction (sub_operation p)) r))" for r
    using p assms(2) by (simp add: parts_defs valid_submitted_def valid_cancelled_def)
  then have "good_outcome (del_pending (can_transfer c) n, cancel_result p c)"
    using norm_inv_del_pending [OF assms(1)]
    by (cases "can_reason c") (auto simp: cancel_result_def intro!: good_publish)
  with assms Some show ?thesis by (simp add: transfer_cancelled_eq)
qed

lemma good_requeued:
  "norm_inv n \<Longrightarrow> valid_requeued q \<Longrightarrow> good_outcome (recovery_requeued n q)"
  unfolding recovery_requeued_eq
  by (rule good_publish) (simp_all add: parts_defs valid_requeued_def)

lemma good_admitted:
  assumes inv: "norm_inv n" and a: "valid_admitted a"
  shows "good_outcome (recovery_admitted n a)"
proof -
  let ?r = "RecoveryAdmission (adm_transfers a) (adm_observed_at_ns a)"
  have parts: "valid_parts (embed (adm_identity a) (adm_observed_at_ns a)
      (Recovery_Admitted (adm_transfers a)))"
    using a by (simp add: parts_defs valid_admitted_def valid_roster_def)
  have "roster_held n (adm_identity a) ?r"
    if "list_all (has_restore_receipt n a) (adm_transfers a)"
    using that by (auto simp: roster_held_def list_all_iff has_restore_receipt_def
        split: option.splits)
  with a inv have "norm_inv (n\<lparr>n_admissions := AList.update (adm_identity a) ?r (n_admissions n)\<rparr>)"
    if "list_all (has_restore_receipt n a) (adm_transfers a)"
      "id_recovery_epoch (adm_identity a) \<noteq> None" "map_of (n_admissions n) (adm_identity a) = None"
      "\<not> n_max_recovery_admissions n \<le> length (n_admissions n)"
    using that by (intro norm_inv_add_admission) (simp_all add: valid_admitted_def)
  with inv parts show ?thesis
    unfolding recovery_admitted_eq by (auto intro!: good_publish)
qed

lemma good_first_compute:
  assumes inv: "norm_inv n" and f: "valid_first_compute f"
  shows "good_outcome (first_compute n f)"
proof -
  have parts: "valid_parts (embed (fc_identity f) (fc_observed_at_ns f)
      (First_Compute (fc_receipt f) (fc_transfers f) (fc_compute_kind f)))"
    using f by (simp add: parts_defs valid_first_compute_def valid_roster_def)
  have "norm_inv (n\<lparr>n_admissions := AList.delete (fc_identity f) (n_admissions n),
      n_completed_restores := fold AList.delete (fc_transfers f) (n_completed_restores n)\<rparr>)"
    if "\<not> first_compute_mismatch n f"
  proof -
    from that obtain a where "map_of (n_admissions n) (fc_identity f) = Some a"
      "ra_transfers a = fc_transfers f"
      by (auto simp: first_compute_mismatch_def split: option.splits)
    with norm_inv_first_compute [OF inv] show ?thesis by metis
  qed
  with inv parts show ?thesis
    unfolding first_compute_eq by (auto intro!: good_publish_then)
qed

lemma good_locked:
  "norm_inv n \<Longrightarrow> valid_source x \<Longrightarrow> x \<noteq> SrcOther \<Longrightarrow> good_outcome (normalize_locked n x)"
  by (cases x) (simp_all add: good_submitted good_completed good_cancelled good_requeued
      good_admitted good_first_compute)

lemma normalize_good:
  assumes "norm_inv n" "valid_source x" "normalize n x = (n', r)"
  shows "norm_inv n' \<and> (\<exists>y. r = Inr y \<and> (\<forall>ob. y = Some ob \<longrightarrow> valid_observation ob))"
proof (cases "n_closed n \<or> \<not> n_evidence_valid n \<or> x = SrcOther")
  case True
  with assms show ?thesis by (auto simp: normalize_def split: if_splits)
next
  case False
  with assms have "good_outcome (normalize_locked n x)" by (intro good_locked) simp_all
  with False assms(3) show ?thesis
    by (auto simp: normalize_def good_outcome_def split: prod.splits sum.splits option.splits)
qed

end
