(* ===== verification/Normalizer_Ledger.thy ===== *)
theory Normalizer_Ledger
  imports Normalizer_Invariant "HOL-Library.Sublist"
begin

text \<open>
  The normalizer's contract, free of its checks and counters: a ledger of open transfers,
  restored transfers and admissions, moved by an inductive step relation labelled with what it
  publishes. \<open>serve\<close> refines it, so what every history of ledger steps satisfies (causal
  chains, conservation of transfers, exact durations) holds of the code.
\<close>

declare embed.simps [simp del]

section \<open>The ledger\<close>

record ledger =
  l_open :: "transfer_identity \<rightharpoonup> core_transfer_submitted"
  l_restored :: "transfer_identity \<rightharpoonup> completed_restore"
  l_admitted :: "observation_identity \<rightharpoonup> recovery_admission"
  l_live :: bool

abbreviation shut :: "transfer_identity \<Rightarrow> ledger \<Rightarrow> ledger" where
  "shut t l \<equiv> l\<lparr>l_open := (l_open l)(t := None)\<rparr>"

inductive ledger_step :: "ledger \<Rightarrow> kv_observation list \<Rightarrow> ledger \<Rightarrow> bool" where
  start: "l_live l \<Longrightarrow> l_open l (sub_transfer s) = None \<Longrightarrow> l_restored l (sub_transfer s) = None \<Longrightarrow>
     ledger_step l [embed (sub_identity s) (sub_observed_at_ns s) (started_of s)]
       (l\<lparr>l_open := (l_open l)(sub_transfer s \<mapsto> s)\<rparr>)"
| fail: "l_live l \<Longrightarrow> l_open l t = Some p \<Longrightarrow> sub_observed_at_ns p \<le> at_ns \<Longrightarrow>
     ledger_step l [embed (sub_identity p) at_ns (failed_of (sub_operation p) t)] (shut t l)"
| cancel: "l_live l \<Longrightarrow> l_open l t = Some p \<Longrightarrow> sub_observed_at_ns p \<le> at_ns \<Longrightarrow>
     ledger_step l [embed (sub_identity p) at_ns
       (Transfer_Cancelled t (operation_direction (sub_operation p)) r)] (shut t l)"
| preserve: "l_live l \<Longrightarrow> l_open l (cmp_transfer c) = Some p \<Longrightarrow> sub_operation p = D2H_PRESERVE \<Longrightarrow>
     sub_observed_at_ns p < cmp_observed_at_ns c \<Longrightarrow>
     ledger_step l [embed (sub_identity p) (cmp_observed_at_ns c) (preserved_of c p b)]
       (shut (cmp_transfer c) l)"
| restore: "l_live l \<Longrightarrow> l_open l (cmp_transfer c) = Some p \<Longrightarrow> sub_operation p = H2D_RESTORE \<Longrightarrow>
     sub_observed_at_ns p < cmp_observed_at_ns c \<Longrightarrow>
     ledger_step l [embed (sub_identity p) (cmp_observed_at_ns c) (restored_of c p r b)]
       (shut (cmp_transfer c) l)"
| restore_kept: "l_live l \<Longrightarrow> l_open l (cmp_transfer c) = Some p \<Longrightarrow>
     sub_operation p = H2D_RESTORE \<Longrightarrow> sub_observed_at_ns p < cmp_observed_at_ns c \<Longrightarrow>
     ledger_step l [embed (sub_identity p) (cmp_observed_at_ns c) (restored_of c p r b)]
       ((shut (cmp_transfer c) l)\<lparr>l_restored := (l_restored l)(cmp_transfer c \<mapsto>
          CompletedRestore (sub_identity p) r (cmp_observed_at_ns c))\<rparr>)"
| requeue: "l_live l \<Longrightarrow> ledger_step l [embed i at_ns (Recovery_Requeued q)] l"
| admit: "l_live l \<Longrightarrow> l_admitted l i = None \<Longrightarrow>
     (\<And>t. t \<in> set ts \<Longrightarrow> \<exists>c. l_restored l t = Some c \<and> cr_identity c = i \<and>
        cr_observed_at_ns c \<le> at_ns) \<Longrightarrow>
     ledger_step l [embed i at_ns (Recovery_Admitted ts)]
       (l\<lparr>l_admitted := (l_admitted l)(i \<mapsto> RecoveryAdmission ts at_ns)\<rparr>)"
| compute: "l_live l \<Longrightarrow> l_admitted l i = Some a \<Longrightarrow> ra_observed_at_ns a \<le> at_ns \<Longrightarrow>
     (\<And>t. t \<in> set (ra_transfers a) \<Longrightarrow> transfer_process_uuid t = receipt_process_uuid r) \<Longrightarrow>
     ledger_step l [embed i at_ns (First_Compute r (ra_transfers a) k)]
       (l\<lparr>l_admitted := (l_admitted l)(i := None),
          l_restored := (\<lambda>t. if t \<in> set (ra_transfers a) then None else l_restored l t)\<rparr>)"
| silent: "ledger_step l [] l"
| disable: "l_open l' \<subseteq>\<^sub>m l_open l \<Longrightarrow> l_restored l' = l_restored l \<Longrightarrow>
     l_admitted l' = l_admitted l \<Longrightarrow> \<not> l_live l' \<Longrightarrow> ledger_step l [] l'"
| shut_down: "ledger_step l []
     \<lparr>l_open = Map.empty, l_restored = Map.empty, l_admitted = Map.empty, l_live = False\<rparr>"

section \<open>Histories of the normalizer\<close>

datatype norm_call = NormCall source_observation | NormClose

primrec serve :: "normalizer \<Rightarrow> norm_call \<Rightarrow> normalizer \<times> kv_observation list" where
  "serve n (NormCall x) =
     (case normalize n x of
        (n', Inr (Some ob)) \<Rightarrow> (n', [ob])
      | (n', _) \<Rightarrow> (n', []))"
| "serve n NormClose = (close_normalizer n, [])"

text \<open>The state with the log of everything published so far.\<close>

type_synonym logged = "normalizer \<times> kv_observation list"

definition log_step :: "logged \<Rightarrow> norm_call \<Rightarrow> logged" where
  "log_step s c = (case serve (fst s) c of (n, out) \<Rightarrow> (n, snd s @ out))"

text \<open>Sources built by the constructors, whose cancellation reasons are enum members.\<close>

primrec typed_source :: "source_observation \<Rightarrow> bool" where
  "typed_source (SrcSubmitted s) = valid_submitted s"
| "typed_source (SrcCompleted c) = valid_completed c"
| "typed_source (SrcCancelled c) =
     (valid_cancelled c \<and> (\<exists>r. can_reason c = PTerminalReason r))"
| "typed_source (SrcRequeued q) = valid_requeued q"
| "typed_source (SrcAdmitted a) = valid_admitted a"
| "typed_source (SrcFirstCompute f) = valid_first_compute f"
| "typed_source SrcOther = True"

lemma typed_valid: "typed_source x \<Longrightarrow> valid_source x"
  by (cases x) simp_all

primrec typed_call :: "norm_call \<Rightarrow> bool" where
  "typed_call (NormCall x) = typed_source x"
| "typed_call NormClose = True"

definition ledger_of :: "normalizer \<Rightarrow> ledger" where
  "ledger_of n =
     \<lparr>l_open = map_of (n_pending n), l_restored = map_of (n_completed_restores n),
      l_admitted = map_of (n_admissions n), l_live = (n_evidence_valid n \<and> \<not> n_closed n)\<rparr>"

definition live :: "normalizer \<Rightarrow> bool" where
  "live n \<longleftrightarrow> n_evidence_valid n \<and> \<not> n_closed n"

lemma ledger_of_bump [simp]: "ledger_of (bump f n) = ledger_of n"
  by (simp add: ledger_of_def bump_def)

text \<open>The rules of the ledger on the code's states.\<close>

lemmas on_states = ledger_of_def live_def del_pending_def

lemma step_start:
  "live n \<Longrightarrow> map_of (n_pending n) (sub_transfer s) = None \<Longrightarrow>
     map_of (n_completed_restores n) (sub_transfer s) = None \<Longrightarrow>
     ledger_step (ledger_of n) [embed (sub_identity s) (sub_observed_at_ns s) (started_of s)]
       (ledger_of (n\<lparr>n_pending := AList.update (sub_transfer s) s (n_pending n)\<rparr>))"
  using ledger_step.start [of "ledger_of n" s] by (simp add: on_states)

lemma step_fail:
  "live n \<Longrightarrow> map_of (n_pending n) t = Some p \<Longrightarrow> sub_observed_at_ns p \<le> at_ns \<Longrightarrow>
     ledger_step (ledger_of n) [embed (sub_identity p) at_ns (failed_of (sub_operation p) t)]
       (ledger_of (del_pending t n))"
  using ledger_step.fail [of "ledger_of n" t p at_ns] by (simp add: on_states)

lemma step_cancel:
  "live n \<Longrightarrow> map_of (n_pending n) t = Some p \<Longrightarrow> sub_observed_at_ns p \<le> at_ns \<Longrightarrow>
     ledger_step (ledger_of n) [embed (sub_identity p) at_ns
       (Transfer_Cancelled t (operation_direction (sub_operation p)) r)]
       (ledger_of (del_pending t n))"
  using ledger_step.cancel [of "ledger_of n" t p at_ns] by (simp add: on_states)

lemma step_preserve:
  "live n \<Longrightarrow> map_of (n_pending n) (cmp_transfer c) = Some p \<Longrightarrow>
     sub_operation p = D2H_PRESERVE \<Longrightarrow> sub_observed_at_ns p < cmp_observed_at_ns c \<Longrightarrow>
     ledger_step (ledger_of n) [embed (sub_identity p) (cmp_observed_at_ns c) (preserved_of c p b)]
       (ledger_of (del_pending (cmp_transfer c) n))"
  using ledger_step.preserve [of "ledger_of n" c p b] by (simp add: on_states)

lemma step_restore:
  "live n \<Longrightarrow> map_of (n_pending n) (cmp_transfer c) = Some p \<Longrightarrow>
     sub_operation p = H2D_RESTORE \<Longrightarrow> sub_observed_at_ns p < cmp_observed_at_ns c \<Longrightarrow>
     ledger_step (ledger_of n) [embed (sub_identity p) (cmp_observed_at_ns c) (restored_of c p r b)]
       (ledger_of (del_pending (cmp_transfer c) n))"
  using ledger_step.restore [of "ledger_of n" c p r b] by (simp add: on_states)

lemma step_restore_kept:
  "live n \<Longrightarrow> map_of (n_pending n) (cmp_transfer c) = Some p \<Longrightarrow>
     sub_operation p = H2D_RESTORE \<Longrightarrow> sub_observed_at_ns p < cmp_observed_at_ns c \<Longrightarrow>
     ledger_step (ledger_of n) [embed (sub_identity p) (cmp_observed_at_ns c) (restored_of c p r b)]
       (ledger_of (del_pending (cmp_transfer c) (n\<lparr>n_completed_restores :=
          AList.update (cmp_transfer c) (CompletedRestore (sub_identity p) r (cmp_observed_at_ns c))
            (n_completed_restores n)\<rparr>)))"
  using ledger_step.restore_kept [of "ledger_of n" c p r b] by (simp add: on_states)

lemma step_admit:
  "live n \<Longrightarrow> map_of (n_admissions n) i = None \<Longrightarrow>
     (\<And>t. t \<in> set ts \<Longrightarrow> \<exists>c. map_of (n_completed_restores n) t = Some c \<and>
        cr_identity c = i \<and> cr_observed_at_ns c \<le> at_ns) \<Longrightarrow>
     ledger_step (ledger_of n) [embed i at_ns (Recovery_Admitted ts)]
       (ledger_of (n\<lparr>n_admissions := AList.update i (RecoveryAdmission ts at_ns)
          (n_admissions n)\<rparr>))"
  using ledger_step.admit [of "ledger_of n" i ts at_ns] by (simp add: on_states)

lemma step_compute:
  "live n \<Longrightarrow> map_of (n_admissions n) i = Some a \<Longrightarrow> ra_observed_at_ns a \<le> at_ns \<Longrightarrow>
     (\<And>t. t \<in> set (ra_transfers a) \<Longrightarrow> transfer_process_uuid t = receipt_process_uuid r) \<Longrightarrow>
     ledger_step (ledger_of n) [embed i at_ns (First_Compute r (ra_transfers a) k)]
       (ledger_of (n\<lparr>n_admissions := AList.delete i (n_admissions n),
          n_completed_restores :=
            fold AList.delete (ra_transfers a) (n_completed_restores n)\<rparr>))"
  using ledger_step.compute [of "ledger_of n" i a at_ns r k]
  by (simp add: on_states map_of_fold_delete [abs_def] cong: if_cong)

section \<open>Every handler takes one step of the ledger\<close>

definition published :: "kv_observation option res \<Rightarrow> kv_observation list" where
  "published r = (case r of Inr (Some ob) \<Rightarrow> [ob] | _ \<Rightarrow> [])"

lemma published_simps [simp]:
  "published (Inl e) = []" "published (Inr None) = []" "published (Inr (Some ob)) = [ob]"
  by (simp_all add: published_def)

text \<open>A handler's outcome refines the ledger.\<close>

definition refines :: "normalizer \<Rightarrow> outcome \<Rightarrow> bool" where
  "refines n oc \<longleftrightarrow> ledger_step (ledger_of n) (published (snd oc)) (ledger_of (fst oc))"

lemma refines_reject [simp]: "refines n (n, Inl e)"
  by (simp add: refines_def ledger_step.silent)

lemma refines_disable [simp]: "refines n (disable_for_capacity n, Inr None)"
  by (auto simp: refines_def disable_for_capacity_def ledger_of_def bump_def
      intro: ledger_step.disable)

lemma refines_drop [simp]: "refines n (disable_for_capacity (del_pending t n), Inr None)"
  by (auto simp: refines_def disable_for_capacity_def ledger_of_def bump_def del_pending_def
      map_le_def intro: ledger_step.disable)

lemma refines_mismatch [simp]: "refines n (n\<lparr>n_evidence_valid := False\<rparr>, Inl e)"
  by (auto simp: refines_def ledger_of_def intro: ledger_step.disable)

lemma refines_publish:
  "legal_observation ob \<Longrightarrow> ledger_step (ledger_of n) [ob] (ledger_of n') \<Longrightarrow>
     refines n (n', publish ob)"
  by (simp add: publish_def refines_def)

lemma refines_publish_then:
  "ledger_step (ledger_of n) [ob] (ledger_of n') \<Longrightarrow>
     refines n (case publish ob of Inl e \<Rightarrow> (n, Inl e) | Inr r \<Rightarrow> (n', Inr r))"
  by (simp add: publish_def refines_def ledger_step.silent)

lemma refines_submitted:
  assumes "live n" "valid_submitted s"
  shows "refines n (transfer_submitted n s)"
  using assms unfolding transfer_submitted_eq
  by (auto intro!: refines_publish started_legal step_start)

lemma refines_preserved:
  assumes "live n" "map_of (n_pending n) (cmp_transfer c) = Some p"
    "sub_operation p = D2H_PRESERVE" "sub_observed_at_ns p \<le> cmp_observed_at_ns c"
  shows "refines n (preserve_completed n c p b)"
  using assms unfolding preserve_completed_eq
  by (auto intro!: refines_publish_then step_preserve)

lemma refines_restored:
  assumes "live n" "map_of (n_pending n) (cmp_transfer c) = Some p"
    "sub_operation p = H2D_RESTORE" "sub_observed_at_ns p \<le> cmp_observed_at_ns c"
  shows "refines n (restore_completed n c p b)"
  using assms unfolding restore_completed_eq
  by (auto intro!: refines_publish_then step_restore step_restore_kept split: option.split)

lemma refines_completed:
  assumes live: "live n" and c: "valid_completed c"
  shows "refines n (transfer_completed n c)"
proof (cases "map_of (n_pending n) (cmp_transfer c)")
  case None
  then show ?thesis by (simp add: transfer_completed_eq)
next
  case (Some p)
  have "refines n (del_pending (cmp_transfer c) n,
      publish (embed (sub_identity p) (cmp_observed_at_ns c)
        (failed_of (sub_operation p) (cmp_transfer c))))"
    if "sub_observed_at_ns p \<le> cmp_observed_at_ns c"
    using that live Some c
    by (intro refines_publish failed_legal step_fail) (simp_all add: valid_completed_def)
  then show ?thesis
    unfolding transfer_completed_eq Some option.case
    using refines_preserved [OF live Some] refines_restored [OF live Some]
    by (cases "sub_operation p") (auto split: option.split)
qed

lemma cancellation_reason_member:
  "cancellation_reason (PTerminalReason r) \<longleftrightarrow> r \<in> CANCELLATION_REASONS"
  by (auto simp: cancellation_reason_def terminal_enum.value_eq_iff)

lemma refines_cancelled:
  assumes "live n" "valid_cancelled c" "can_reason c = PTerminalReason r"
  shows "refines n (transfer_cancelled n c)"
  using assms unfolding transfer_cancelled_eq
  by (auto simp: cancel_result_def valid_cancelled_def cancellation_reason_member
      intro!: refines_publish cancelled_legal step_cancel split: option.split)

lemma refines_requeued:
  assumes "live n"
  shows "refines n (recovery_requeued n q)"
proof -
  have "ledger_step (ledger_of n) [embed i at_ns (Recovery_Requeued r)] (ledger_of n)" for i at_ns r
    using assms by (intro ledger_step.requeue) (simp add: on_states)
  then show ?thesis
    by (simp add: recovery_requeued_eq refines_def publish_def ledger_step.silent)
qed

lemma refines_admitted:
  assumes "live n" "valid_admitted a"
  shows "refines n (recovery_admitted n a)"
proof -
  have "ledger_step (ledger_of n)
      [embed (adm_identity a) (adm_observed_at_ns a) (Recovery_Admitted (adm_transfers a))]
      (ledger_of (n\<lparr>n_admissions := AList.update (adm_identity a)
         (RecoveryAdmission (adm_transfers a) (adm_observed_at_ns a)) (n_admissions n)\<rparr>))"
    if "list_all (has_restore_receipt n a) (adm_transfers a)"
      "map_of (n_admissions n) (adm_identity a) = None"
    using that assms(1)
    by (intro step_admit)
      (auto simp: list_all_iff has_restore_receipt_def split: option.splits)
  with assms show ?thesis
    unfolding recovery_admitted_eq
    by (auto simp: valid_admitted_def intro!: refines_publish admitted_legal)
qed

lemma refines_first_compute:
  assumes "live n"
  shows "refines n (first_compute n f)"
proof (cases "first_compute_mismatch n f")
  case True
  then show ?thesis by (simp add: first_compute_eq)
next
  case False
  then obtain a where "map_of (n_admissions n) (fc_identity f) = Some a"
    "ra_transfers a = fc_transfers f" "ra_observed_at_ns a \<le> fc_observed_at_ns f"
    "\<And>t. t \<in> set (ra_transfers a) \<Longrightarrow>
       transfer_process_uuid t = receipt_process_uuid (fc_receipt f)"
    by (auto simp: first_compute_mismatch_def list_all_iff split: option.splits)
  from step_compute [OF assms this(1,3,4)] this(2) False show ?thesis
    by (simp add: first_compute_eq refines_publish_then)
qed

lemma refines_locked:
  "live n \<Longrightarrow> typed_source x \<Longrightarrow> refines n (normalize_locked n x)"
  by (cases x) (auto simp: refines_submitted refines_completed refines_cancelled
      refines_requeued refines_admitted refines_first_compute)

lemma serve_refines:
  assumes "typed_call c" "serve n c = (n', out)"
  shows "ledger_step (ledger_of n) out (ledger_of n')"
proof (cases c)
  case NormClose
  with assms(2) have "n' = close_normalizer n" and "out = []" by simp_all
  moreover from this(1) have "ledger_of n' = ledger_of n \<or> ledger_of n' =
      \<lparr>l_open = Map.empty, l_restored = Map.empty, l_admitted = Map.empty, l_live = False\<rparr>"
    by (simp add: close_normalizer_def ledger_of_def)
  ultimately show ?thesis using ledger_step.silent ledger_step.shut_down by metis
next
  case (NormCall x)
  show ?thesis
  proof (cases "live n")
    case False
    with assms(2) NormCall have "ledger_of n' = ledger_of n" "out = []"
      by (auto simp: live_def normalize_def split: if_splits)
    then show ?thesis by (simp add: ledger_step.silent)
  next
    case True
    with assms(1) NormCall have "refines n (normalize_locked n x)" by (simp add: refines_locked)
    with True assms(2) NormCall show ?thesis
      by (auto simp: refines_def live_def normalize_def split: prod.splits sum.splits
          option.splits if_splits)
  qed
qed

section \<open>Cancellations whose reason is no enum member\<close>

text \<open>
  The calls a host can make: sources the constructors accept. Beyond the typed ones these are the
  cancellations with a plain string, which forget an open transfer they match.
\<close>

primrec accepted_call :: "norm_call \<Rightarrow> bool" where
  "accepted_call (NormCall x) = valid_source x"
| "accepted_call NormClose = True"

definition reason_member :: "pyval \<Rightarrow> bool" where
  "reason_member v = (case v of PTerminalReason r \<Rightarrow> True | _ \<Rightarrow> False)"

definition lost_transfer :: "normalizer \<Rightarrow> source_observation \<Rightarrow> transfer_identity option" where
  "lost_transfer n x =
     (case x of
        SrcCancelled c \<Rightarrow>
          (case map_of (n_pending n) (can_transfer c) of
             None \<Rightarrow> None
           | Some p \<Rightarrow>
               if live n \<and> sub_observed_at_ns p \<le> can_observed_at_ns c \<and>
                 \<not> reason_member (can_reason c)
               then Some (can_transfer c) else None)
      | _ \<Rightarrow> None)"

primrec lost_by :: "normalizer \<Rightarrow> norm_call \<Rightarrow> transfer_identity option" where
  "lost_by n (NormCall x) = lost_transfer n x"
| "lost_by n NormClose = None"

definition without :: "transfer_identity option \<Rightarrow> normalizer \<Rightarrow> normalizer" where
  "without lost n = (case lost of None \<Rightarrow> n | Some t \<Rightarrow> del_pending t n)"

lemma reason_member_iff: "reason_member v \<longleftrightarrow> (\<exists>r. v = PTerminalReason r)"
  by (auto simp: reason_member_def split: pyval.splits)

lemma typed_accepted: "typed_call c \<Longrightarrow> accepted_call c"
  by (cases c) (simp_all add: typed_valid)

lemma typed_iff:
  "typed_source x \<longleftrightarrow>
     valid_source x \<and> (\<forall>c. x = SrcCancelled c \<longrightarrow> reason_member (can_reason c))"
  by (cases x) (auto simp: reason_member_iff)

lemma lost_typed: "typed_source x \<Longrightarrow> lost_transfer n x = None"
  by (cases x) (auto simp: lost_transfer_def reason_member_iff split: option.split)

lemma lost_dead: "\<not> live n \<Longrightarrow> lost_transfer n x = None"
  by (cases x) (auto simp: lost_transfer_def split: option.split)

lemma cancel_result_string: "\<not> reason_member (can_reason c) \<Longrightarrow> cancel_result p c = Inl ValueError"
  by (auto simp: cancel_result_def reason_member_def split: pyval.splits)

lemma normalize_string:
  assumes "live n" "\<not> reason_member (can_reason c)"
  shows "normalize n (SrcCancelled c) =
    (bump (nc_invalid_update Suc) (without (lost_transfer n (SrcCancelled c)) n), Inr None)"
  using assms
  by (auto simp: normalize_def live_def transfer_cancelled_eq cancel_result_string lost_transfer_def
      without_def split: option.split)

lemma ledger_without: "ledger_of (without (Some t) n) = shut t (ledger_of n)"
  by (simp add: without_def ledger_of_def del_pending_def delete_conv')

lemma serve_accepted:
  assumes "accepted_call c" "serve n c = (n', out)"
  shows "case lost_by n c of
      None \<Rightarrow> ledger_step (ledger_of n) out (ledger_of n')
    | Some t \<Rightarrow> out = [] \<and> ledger_of n' = shut t (ledger_of n)"
proof (cases "typed_call c")
  case True
  then have "lost_by n c = None" by (cases c) (simp_all add: lost_typed)
  with serve_refines [OF True assms(2)] show ?thesis by simp
next
  case False
  then obtain d where c: "c = NormCall (SrcCancelled d)" "\<not> reason_member (can_reason d)"
    using assms(1) by (cases c) (auto simp: typed_iff)
  show ?thesis
  proof (cases "live n")
    case True
    with normalize_string [OF True c(2)] assms(2) c(1)
    have "out = []" "ledger_of n' = ledger_of (without (lost_by n c) n)" by auto
    then show ?thesis
      by (cases "lost_by n c") (simp_all add: ledger_without, simp add: without_def ledger_step.silent)
  next
    case False
    with assms(2) c(1) have "ledger_of n' = ledger_of n" "out = []"
      by (auto simp: live_def normalize_def split: if_splits)
    with False c(1) show ?thesis by (simp add: lost_dead ledger_step.silent)
  qed
qed

end
