(* ===== verification/Normalizer_History.thy ===== *)
theory Normalizer_History
  imports Normalizer_Ledger
begin

text \<open>
  What every history of calls guarantees of the published log, each law proved once on the
  ledger's steps and carried to the code by the refinement.
\<close>

section \<open>Laws of the ledger\<close>

definition empty_ledger :: ledger where
  "empty_ledger = \<lparr>l_open = Map.empty, l_restored = Map.empty, l_admitted = Map.empty,
     l_live = True\<rparr>"

lemma new_ledger: "lifecycle_normalizer c a keep = Inr n \<Longrightarrow> ledger_of n = empty_ledger"
  by (auto simp: lifecycle_normalizer_def ledger_of_def empty_ledger_def)

locale ledger_law =
  fixes law :: "ledger \<Rightarrow> kv_observation list \<Rightarrow> bool"
  assumes law_init: "law empty_ledger []"
    and law_step: "ledger_step l out l' \<Longrightarrow> law l recs \<Longrightarrow> law l' (recs @ out)"
begin

sublocale machine log_step typed_call "\<lambda>s. law (ledger_of (fst s)) (snd s)"
proof
  fix s c
  assume "law (ledger_of (fst s)) (snd s)" "typed_call c"
  then show "law (ledger_of (fst (log_step s c))) (snd (log_step s c))"
    by (auto simp: log_step_def intro: law_step [OF serve_refines] split: prod.split)
qed

lemma history:
  "lifecycle_normalizer c a keep = Inr n \<Longrightarrow> list_all typed_call calls \<Longrightarrow>
     run log_step calls (n, []) = (n', recs) \<Longrightarrow> law (ledger_of n') recs"
  using run_keeps [of "(n, [])" calls] law_init by (simp add: new_ledger)

end

text \<open>A law on each record of a log and the records before it.\<close>

definition each_after :: "('a list \<Rightarrow> 'a \<Rightarrow> bool) \<Rightarrow> 'a list \<Rightarrow> bool" where
  "each_after Q recs \<longleftrightarrow> (\<forall>pre ob post. recs = pre @ ob # post \<longrightarrow> Q pre ob)"

lemma each_after_Nil [simp]: "each_after Q []"
  by (simp add: each_after_def)

lemma each_after_snoc [simp]: "each_after Q (recs @ [x]) \<longleftrightarrow> each_after Q recs \<and> Q recs x"
proof
  assume law: "each_after Q (recs @ [x])"
  have "Q pre ob" if "recs = pre @ ob # post" for pre ob post
    using law that unfolding each_after_def by (metis append_Cons append_assoc)
  with law show "each_after Q recs \<and> Q recs x" unfolding each_after_def by blast
next
  assume law: "each_after Q recs \<and> Q recs x"
  have "Q pre ob" if "recs @ [x] = pre @ ob # post" for pre ob post
    using that law by (cases post rule: rev_cases) (auto simp: each_after_def)
  then show "each_after Q (recs @ [x])" unfolding each_after_def by blast
qed

section \<open>Conservation\<close>

definition starts :: "transfer_identity \<Rightarrow> kv_observation list \<Rightarrow> nat" where
  "starts t recs = length (filter (\<lambda>ob. ob_transfer ob = Some t \<and>
     ob_event ob \<in> {PRESERVE_STARTED, RESTORE_STARTED}) recs)"

definition ends :: "transfer_identity \<Rightarrow> kv_observation list \<Rightarrow> nat" where
  "ends t recs = length (filter (\<lambda>ob. ob_transfer ob = Some t \<and>
     ob_event ob \<in> {PRESERVE_COMPLETED, RESTORE_COMPLETED, TRANSFER_FAILED,
       TRANSFER_CANCELLED}) recs)"

definition with_event :: "observation_event \<Rightarrow> observation_identity \<Rightarrow> kv_observation list \<Rightarrow> nat"
  where "with_event ev i recs =
    length (filter (\<lambda>ob. ob_event ob = ev \<and> ob_identity ob = i) recs)"

definition one_if :: "bool \<Rightarrow> nat" where
  "one_if b = (if b then 1 else 0)"

definition conserved :: "ledger \<Rightarrow> kv_observation list \<Rightarrow> bool" where
  "conserved l recs \<longleftrightarrow>
     (\<forall>t. ends t recs + one_if (l_open l t \<noteq> None) \<le> starts t recs) \<and>
     (\<forall>i. with_event FIRST_COMPUTE i recs + one_if (l_admitted l i \<noteq> None)
        \<le> with_event RECOVERY_ADMITTED i recs) \<and>
     (l_live l \<longrightarrow>
       (\<forall>t. starts t recs = ends t recs + one_if (l_open l t \<noteq> None)) \<and>
       (\<forall>i. with_event RECOVERY_ADMITTED i recs
          = with_event FIRST_COMPUTE i recs + one_if (l_admitted l i \<noteq> None)))"

lemmas count_defs = starts_def ends_def with_event_def one_if_def

lemmas emits = embed.simps bare_def started_of_def failed_of_def restored_of_def preserved_of_def

lemma conserved_init: "conserved empty_ledger []"
  by (simp add: conserved_def count_defs empty_ledger_def)

lemma conserved_step: "ledger_step l out l' \<Longrightarrow> conserved l recs \<Longrightarrow> conserved l' (recs @ out)"
proof (induction rule: ledger_step.induct)
  case (disable l' l)
  have "one_if (l_open l' t \<noteq> None) \<le> one_if (l_open l t \<noteq> None)" for t
    using disable(1) by (cases "l_open l' t") (auto simp: one_if_def map_le_def dom_def)
  then have "ends t recs + one_if (l_open l' t \<noteq> None) \<le> starts t recs" for t
    using disable(5) unfolding conserved_def by (meson add_left_mono order_trans)
  with disable show ?case by (simp add: conserved_def)
next
  case (shut_down l)
  then show ?case by (auto simp: conserved_def one_if_def intro: add_leD1)
qed (auto simp: conserved_def count_defs emits)

interpretation conservation: ledger_law conserved
  by unfold_locales (fact conserved_init, fact conserved_step)


text \<open>No more terminals of a transfer than starts, whatever the calls.\<close>

definition ends_within :: "transfer_identity \<Rightarrow> ledger \<Rightarrow> kv_observation list \<Rightarrow> bool" where
  "ends_within t l recs \<longleftrightarrow> ends t recs + one_if (l_open l t \<noteq> None) \<le> starts t recs"

lemma ends_within_step: "ledger_step l out l' \<Longrightarrow> ends_within t l recs \<Longrightarrow> ends_within t l' (recs @ out)"
proof (induction rule: ledger_step.induct)
  case (disable l' l)
  have "one_if (l_open l' t \<noteq> None) \<le> one_if (l_open l t \<noteq> None)"
    using disable(1) by (cases "l_open l' t") (auto simp: one_if_def map_le_def dom_def)
  with disable show ?case by (simp add: ends_within_def)
qed (auto simp: ends_within_def count_defs emits)

interpretation at_most_once: machine log_step accepted_call
  "\<lambda>s. ends_within t (ledger_of (fst s)) (snd s)" for t
proof unfold_locales
  fix s c
  assume law: "ends_within t (ledger_of (fst s)) (snd s)" and "accepted_call c"
  obtain n' out where s: "serve (fst s) c = (n', out)" by fastforce
  have "ends_within t (ledger_of n') (snd s @ out)"
  proof (cases "lost_by (fst s) c")
    case None
    then show ?thesis using serve_accepted [OF \<open>accepted_call c\<close> s] law by (simp add: ends_within_step)
  next
    case (Some t')
    then show ?thesis using serve_accepted [OF \<open>accepted_call c\<close> s] law
      by (auto simp: ends_within_def one_if_def split: if_splits)
  qed
  then show "ends_within t (ledger_of (fst (log_step s c))) (snd (log_step s c))"
    by (simp add: log_step_def s)
qed


section \<open>Causal chains\<close>

text \<open>
  A restore of \<open>t\<close> in a recs: its start and its completion with the same identity, in this
  order, the completion's duration being the time between them; \<open>rest\<close> follows.
\<close>

definition restored_chain ::
  "kv_observation list \<Rightarrow> transfer_identity \<Rightarrow> observation_identity \<Rightarrow> int \<Rightarrow>
   kv_observation list \<Rightarrow> bool" where
  "restored_chain recs t i at_ns rest \<longleftrightarrow>
     (\<exists>s_at blocks r bytes device. s_at < at_ns \<and>
        subseq (embed i s_at (Restore_Started t blocks) #
          embed i at_ns (Restore_Completed t r bytes blocks (at_ns - s_at) device) # rest) recs)"

definition admitted_chain ::
  "kv_observation list \<Rightarrow> observation_identity \<Rightarrow> transfer_identity list \<Rightarrow> int \<Rightarrow> bool" where
  "admitted_chain recs i ts a_at \<longleftrightarrow>
     (\<forall>t \<in> set ts. \<exists>at_ns \<le> a_at.
        restored_chain recs t i at_ns [embed i a_at (Recovery_Admitted ts)])"

definition caused :: "kv_observation list \<Rightarrow> kv_observation \<Rightarrow> bool" where
  "caused pre ob \<longleftrightarrow>
     (\<forall>i f_at r ts k. ob = embed i f_at (First_Compute r ts k) \<longrightarrow>
        (\<exists>a_at \<le> f_at. admitted_chain pre i ts a_at) \<and>
        (\<forall>t \<in> set ts. transfer_process_uuid t = receipt_process_uuid r))"

definition causal :: "ledger \<Rightarrow> kv_observation list \<Rightarrow> bool" where
  "causal l recs \<longleftrightarrow>
     (\<forall>t p. l_open l t = Some p \<longrightarrow> sub_transfer p = t \<and>
        embed (sub_identity p) (sub_observed_at_ns p) (started_of p) \<in> set recs) \<and>
     (\<forall>t c. l_restored l t = Some c \<longrightarrow>
        restored_chain recs t (cr_identity c) (cr_observed_at_ns c) []) \<and>
     (\<forall>i a. l_admitted l i = Some a \<longrightarrow>
        admitted_chain recs i (ra_transfers a) (ra_observed_at_ns a)) \<and>
     each_after caused recs"

lemma restored_chain_more: "restored_chain recs t i at_ns rest \<Longrightarrow> restored_chain (recs @ out) t i at_ns rest"
proof -
  have "subseq xs (recs @ out)" if "subseq xs recs" for xs :: "kv_observation list"
    using that by (rule subseq_rev_drop_many)
  then show "restored_chain recs t i at_ns rest \<Longrightarrow> ?thesis"
    unfolding restored_chain_def by metis
qed

lemma restored_chain_snoc:
  assumes "restored_chain recs t i at_ns []"
  shows "restored_chain (recs @ [ob]) t i at_ns [ob]"
proof -
  have "subseq [x, y, ob] (recs @ [ob])" if "subseq [x, y] recs" for x y
    using list_emb_append_mono [OF that, of "[ob]" "[ob]"] by simp
  with assms show ?thesis unfolding restored_chain_def by blast
qed

lemma admitted_chain_more: "admitted_chain recs i ts at_ns \<Longrightarrow> admitted_chain (recs @ out) i ts at_ns"
  unfolding admitted_chain_def by (meson restored_chain_more)

lemma admitted_chain_snoc:
  "(\<And>t. t \<in> set ts \<Longrightarrow> \<exists>at_ns \<le> a_at. restored_chain recs t i at_ns []) \<Longrightarrow>
     admitted_chain (recs @ [embed i a_at (Recovery_Admitted ts)]) i ts a_at"
  unfolding admitted_chain_def by (meson restored_chain_snoc)

lemma embed_eq: "embed i t l = embed i' t' l' \<longleftrightarrow> i = i' \<and> t = t' \<and> l = l'"
  by (metis embed_simps lifecycle_of_embed)

lemma caused_embed:
  "caused recs (embed i t l) \<longleftrightarrow>
     (case l of
        First_Compute r ts k \<Rightarrow> (\<exists>a_at \<le> t. admitted_chain recs i ts a_at) \<and>
          (\<forall>x \<in> set ts. transfer_process_uuid x = receipt_process_uuid r)
      | _ \<Rightarrow> True)"
  by (cases l) (simp_all add: caused_def embed_eq)

lemmas caused_simps = caused_embed started_of_def failed_of_def preserved_of_def restored_of_def

lemma causal_init: "causal empty_ledger []"
  by (simp add: causal_def empty_ledger_def)

text \<open>A step that publishes something other than a first compute and only closes transfers.\<close>

lemma causal_other:
  assumes "causal l recs" "l_open l' \<subseteq>\<^sub>m l_open l" "l_restored l' \<subseteq>\<^sub>m l_restored l"
    "l_admitted l' \<subseteq>\<^sub>m l_admitted l" "each_after caused recs \<Longrightarrow> each_after caused (recs @ out)"
  shows "causal l' (recs @ out)"
  using assms unfolding causal_def
  by (auto simp: map_le_def dom_def intro!: restored_chain_more admitted_chain_more)


lemma causal_step: "ledger_step l out l' \<Longrightarrow> causal l recs \<Longrightarrow> causal l' (recs @ out)"
proof (induction rule: ledger_step.induct)
  case (start l s)
  then show ?case
    by (auto simp: causal_def caused_simps intro!: restored_chain_more admitted_chain_more)
next
  case (restore_kept l c p r b)
  let ?at_ns = "cmp_observed_at_ns c"
  let ?ob = "embed (sub_identity p) ?at_ns (restored_of c p r b)"
  from restore_kept have sub: "sub_transfer p = cmp_transfer c"
    "embed (sub_identity p) (sub_observed_at_ns p) (started_of p) \<in> set recs"
    by (auto simp: causal_def)
  then have "subseq [embed (sub_identity p) (sub_observed_at_ns p)
      (Restore_Started (cmp_transfer c) (sub_block_count p))] recs"
    using restore_kept(3) by (simp add: started_of_def subseq_singleton_left)
  from list_emb_append_mono [OF this, of "[?ob]" "[?ob]"]
  have "restored_chain (recs @ [?ob]) (cmp_transfer c) (sub_identity p) ?at_ns []"
    using restore_kept(4) unfolding restored_chain_def restored_of_def
    by (intro exI [of _ "sub_observed_at_ns p"] exI conjI) simp_all
  then show ?case
    using restore_kept
    by (auto simp: causal_def caused_embed restored_of_def
        intro!: restored_chain_more admitted_chain_more)
next
  case (admit l i ts at_ns)
  have "\<exists>u \<le> at_ns. restored_chain recs t i u []" if "t \<in> set ts" for t
    using admit that unfolding causal_def by blast
  then have "admitted_chain (recs @ [embed i at_ns (Recovery_Admitted ts)]) i ts at_ns"
    by (rule admitted_chain_snoc)
  then show ?case
    using admit by (auto simp: causal_def caused_embed intro!: restored_chain_more
        admitted_chain_more)
next
  case (compute l i a at_ns r k)
  then have "caused recs (embed i at_ns (First_Compute r (ra_transfers a) k))"
    unfolding causal_def caused_embed by auto
  with compute show ?case
    by (auto simp: causal_def intro!: restored_chain_more admitted_chain_more split: if_splits)
qed (erule causal_other; simp add: causal_def caused_simps map_le_def)+

interpretation causality: ledger_law causal
  by unfold_locales (fact causal_init, fact causal_step)


section \<open>Measured durations\<close>

text \<open>
  Every record that ends a transfer has the record that started it before it: same identity,
  transfer, direction and no later time; a completion repeats its block count and its
  duration is the positive time between the two.
\<close>

definition started_by :: "kv_observation \<Rightarrow> kv_observation \<Rightarrow> bool" where
  "started_by st ob \<longleftrightarrow>
     ob_event st \<in> {PRESERVE_STARTED, RESTORE_STARTED} \<and>
     (ob_event ob = PRESERVE_COMPLETED \<longrightarrow> ob_event st = PRESERVE_STARTED) \<and>
     (ob_event ob = RESTORE_COMPLETED \<longrightarrow> ob_event st = RESTORE_STARTED) \<and>
     ob_identity st = ob_identity ob \<and> ob_transfer st = ob_transfer ob \<and>
     ob_direction st = ob_direction ob \<and> ob_observed_at_ns st \<le> ob_observed_at_ns ob \<and>
     (ob_event ob \<in> {PRESERVE_COMPLETED, RESTORE_COMPLETED} \<longrightarrow>
        ob_block_count st = ob_block_count ob \<and> ob_observed_at_ns st < ob_observed_at_ns ob \<and>
        ob_duration_ns ob = Some (ob_observed_at_ns ob - ob_observed_at_ns st))"

definition measured :: "kv_observation list \<Rightarrow> kv_observation \<Rightarrow> bool" where
  "measured pre ob \<longleftrightarrow>
     (ob_event ob \<in> {PRESERVE_COMPLETED, RESTORE_COMPLETED, TRANSFER_FAILED, TRANSFER_CANCELLED}
      \<longrightarrow> (\<exists>st \<in> set pre. started_by st ob))"

definition timed :: "ledger \<Rightarrow> kv_observation list \<Rightarrow> bool" where
  "timed l recs \<longleftrightarrow>
     (\<forall>t p. l_open l t = Some p \<longrightarrow> sub_transfer p = t \<and>
        embed (sub_identity p) (sub_observed_at_ns p) (started_of p) \<in> set recs) \<and>
     each_after measured recs"

lemma timed_end:
  assumes "timed l recs" "l_open l t = Some p"
    "started_by (embed (sub_identity p) (sub_observed_at_ns p) (started_of p)) ob"
  shows "timed (shut t l) (recs @ [ob])"
  using assms by (auto simp: timed_def measured_def)

lemma timed_restored: "timed (l\<lparr>l_restored := x\<rparr>) recs = timed l recs"
  "timed (l\<lparr>l_admitted := y\<rparr>) recs = timed l recs"
  by (simp_all add: timed_def)

lemma timed_shrink: "timed l recs \<Longrightarrow> l_open l' \<subseteq>\<^sub>m l_open l \<Longrightarrow> timed l' recs"
  by (auto simp: timed_def map_le_def dom_def)

lemma timed_sub: "timed l recs \<Longrightarrow> l_open l t = Some p \<Longrightarrow> sub_transfer p = t"
  by (simp add: timed_def)

lemma timed_step: "ledger_step l out l' \<Longrightarrow> timed l recs \<Longrightarrow> timed l' (recs @ out)"
proof (induction rule: ledger_step.induct)
  case (start l s)
  then show ?case by (auto simp: timed_def measured_def emits)
next
  case (fail l t p at_ns)
  then show ?case
    by (intro timed_end) (auto simp: started_by_def emits operation_direction_def dest: timed_sub)
next
  case (cancel l t p at_ns r)
  then show ?case
    by (intro timed_end) (auto simp: started_by_def emits operation_direction_def dest: timed_sub)
next
  case (preserve l c p b)
  then show ?case by (intro timed_end) (auto simp: started_by_def emits dest: timed_sub)
next
  case (restore l c p r b)
  then show ?case by (intro timed_end) (auto simp: started_by_def emits dest: timed_sub)
next
  case (restore_kept l c p r b)
  then show ?case
    unfolding timed_restored
    by (intro timed_end) (auto simp: started_by_def emits dest: timed_sub)
next
  case (disable l' l)
  then show ?case by (simp add: timed_shrink)
next
  case (shut_down l)
  then show ?case by (simp add: timed_def)
qed (auto simp: timed_def measured_def emits)

lemma timed_init: "timed empty_ledger []"
  by (simp add: timed_def empty_ledger_def)

interpretation timing: ledger_law timed
  by unfold_locales (fact timed_init, fact timed_step)


section \<open>Capacities, counters and rejected calls\<close>

definition capacities :: "nat \<Rightarrow> nat \<Rightarrow> normalizer \<Rightarrow> bool" where
  "capacities c a n \<longleftrightarrow>
     n_max_correlated_transfers n = c \<and> n_max_recovery_admissions n = a \<and> norm_inv n"

definition limits :: "normalizer \<Rightarrow> nat \<times> nat" where
  "limits n = (n_max_correlated_transfers n, n_max_recovery_admissions n)"

lemma limits_locked: "limits (fst (normalize_locked n x)) = limits n"
  by (cases x)
    (auto simp: limits_def handler_eqs publish_def bump_def disable_for_capacity_def
      del_pending_def split: option.splits)

lemma limits_bump [simp]: "limits (bump f n) = limits n"
  by (simp add: limits_def bump_def)

lemma limits_normalize: "limits (fst (normalize n x)) = limits n"
  using limits_locked [of n x]
  by (auto simp: normalize_def split: prod.splits sum.splits option.splits)

lemma limits_serve: "limits (fst (serve n c)) = limits n"
proof (cases c)
  case (NormCall x)
  then show ?thesis
    using limits_normalize [of n x] by (auto split: prod.splits sum.splits option.splits)
qed (simp add: limits_def close_normalizer_def)

lemma serve_inv: "norm_inv n \<Longrightarrow> typed_call c \<Longrightarrow> norm_inv (fst (serve n c))"
proof (cases c)
  case (NormCall x)
  assume "norm_inv n" "typed_call c"
  with NormCall show ?thesis
    using normalize_good [of n x] typed_valid [of x]
    by (auto split: prod.splits sum.splits option.splits)
qed (simp add: norm_inv_close)

interpretation capacity: machine log_step typed_call "\<lambda>s. capacities c a (fst s)"
proof
  fix s :: logged and e :: norm_call
  assume "capacities c a (fst s)" "typed_call e"
  then show "capacities c a (fst (log_step s e))"
    using limits_serve [of "fst s" e] serve_inv [of "fst s" e]
    by (auto simp: capacities_def limits_def log_step_def split: prod.splits)
qed

definition nc_total :: "normalization_counters \<Rightarrow> nat" where
  "nc_total k = nc_accepted k + nc_invalid k + nc_capacity_dropped k +
     nc_evidence_disabled_dropped k + nc_closed_dropped k"

text \<open>A handler counts nothing itself but a capacity drop, for which it returns None.\<close>

definition counted :: "normalizer \<Rightarrow> outcome \<Rightarrow> bool" where
  "counted n oc \<longleftrightarrow>
     (case snd oc of
        Inl e \<Rightarrow> (e = TypeError \<or> e = ValueError) \<and> n_counters (fst oc) = n_counters n
      | Inr None \<Rightarrow> n_counters (fst oc) = nc_capacity_dropped_update Suc (n_counters n)
      | Inr (Some ob) \<Rightarrow> n_counters (fst oc) = n_counters n)"

lemma counted_simps [simp]:
  "counted n (n', Inl e) \<longleftrightarrow> (e = TypeError \<or> e = ValueError) \<and> n_counters n' = n_counters n"
  "counted n (n', publish ob) \<longleftrightarrow> n_counters n' = n_counters n"
  "counted n (disable_for_capacity n, Inr None)"
  "counted n (disable_for_capacity (del_pending t n), Inr None)"
  by (auto simp: counted_def publish_def disable_for_capacity_def bump_def del_pending_def)

lemma counters_del [simp]: "n_counters (del_pending t n) = n_counters n"
  by (simp add: del_pending_def)

lemma counted_then [simp]:
  "n_counters n' = n_counters n \<Longrightarrow>
     counted n (case publish ob of Inl e \<Rightarrow> (n, Inl e) | Inr r \<Rightarrow> (n', Inr r))"
  by (simp add: publish_def counted_def)

lemma counted_locked: "counted n (normalize_locked n x)"
  by (cases x)
    (auto simp: handler_eqs cancel_result_def split: option.split pyval.split)


primrec norm_weight :: "norm_call \<Rightarrow> nat" where
  "norm_weight (NormCall x) = 1"
| "norm_weight NormClose = 0"

lemma total_step:
  "nc_total (n_counters (fst (log_step s c))) = nc_total (n_counters (fst s)) + norm_weight c"
proof (cases c)
  case (NormCall x)
  obtain n recs where s: "s = (n, recs)" by (cases s)
  obtain n' r where lk: "normalize_locked n x = (n', r)" by (cases "normalize_locked n x")
  show ?thesis
  proof (cases "n_closed n \<or> \<not> n_evidence_valid n")
    case True
    with NormCall s show ?thesis
      by (auto simp: log_step_def normalize_def bump_def nc_total_def)
  next
    case False
    with NormCall s lk counted_locked [of n x] show ?thesis
      by (auto simp: log_step_def normalize_def bump_def nc_total_def counted_def
          split: sum.splits option.splits)
  qed
qed (cases s, simp add: log_step_def close_normalizer_def)

interpretation counters: tally log_step norm_weight "\<lambda>s. nc_total (n_counters (fst s))"
  by unfold_locales (rule total_step)

text \<open>
  A rejected call leaves the tables as they were: every record a handler publishes after it
  changed a table is legal, so the constructor cannot raise between the two.
\<close>

definition tables_of :: "normalizer \<Rightarrow>
    (transfer_identity, core_transfer_submitted) dict \<times>
    (transfer_identity, completed_restore) dict \<times>
    (observation_identity, recovery_admission) dict" where
  "tables_of n = (n_pending n, n_completed_restores n, n_admissions n)"

definition atomic :: "normalizer \<Rightarrow> outcome \<Rightarrow> bool" where
  "atomic n oc \<longleftrightarrow> (\<forall>e. snd oc = Inl e \<longrightarrow> tables_of (fst oc) = tables_of n)"

lemma atomic_simps [simp]:
  "atomic n (n, r)" "atomic n (n', Inr x)" "atomic n (n\<lparr>n_evidence_valid := b\<rparr>, r)"
  "legal_observation ob \<Longrightarrow> atomic n (n', publish ob)"
  "atomic n (case publish ob of Inl e \<Rightarrow> (n, Inl e) | Inr r' \<Rightarrow> (n', Inr r'))"
  by (simp_all add: atomic_def publish_def tables_of_def)

lemma atomic_locked:
  assumes "typed_source x"
  shows "atomic n (normalize_locked n x)"
  using assms
  by (cases x)
    (auto simp: handler_eqs cancel_result_def started_legal failed_legal admitted_legal
      cancelled_legal valid_completed_def valid_cancelled_def valid_admitted_def
      cancellation_reason_member split: option.split)

section \<open>A recovered request, from submission to first compute\<close>

definition demo_transfer :: transfer_identity where
  "demo_transfer = TransferIdentity (replicate 32 (CHR ''a'') @ '':t:7'')"

definition demo_receipt :: receipt_identity where
  "demo_receipt = ReceiptIdentity (replicate 32 (CHR ''a'') @ '':k:9'')"

definition demo_identity :: observation_identity where
  "demo_identity = ObservationIdentity ''req-1'' 3 0 (Some 1)"

definition demo_normalizer :: normalizer where
  "demo_normalizer =
     \<lparr>n_max_correlated_transfers = 2, n_max_recovery_admissions = 1,
      n_retain_restore_receipts = True, n_pending = [], n_completed_restores = [],
      n_admissions = [], n_counters = zero_counters, n_evidence_valid = True,
      n_closed = False\<rparr>"

definition demo_calls :: "norm_call list" where
  "demo_calls =
     [NormCall (SrcSubmitted (CoreTransferSubmitted demo_identity demo_transfer H2D_RESTORE 4 10)),
      NormCall (SrcCompleted (CoreTransferCompleted demo_transfer 25 True (Some 512) None
        (Some demo_receipt))),
      NormCall (SrcAdmitted (CoreRecoveryAdmitted demo_identity [demo_transfer] 30)),
      NormCall (SrcFirstCompute (FirstComputeObserved VLLM demo_identity demo_receipt
        [demo_transfer] PREFILL 40))]"

definition demo_log :: "kv_observation list" where
  "demo_log =
     [embed demo_identity 10 (Restore_Started demo_transfer 4),
      embed demo_identity 25 (Restore_Completed demo_transfer demo_receipt 512 4 15 None),
      embed demo_identity 30 (Recovery_Admitted [demo_transfer])]"

lemma demo_new:
  "lifecycle_normalizer (PInt 2) (PInt 1) (PBool True) = Inr demo_normalizer"
  by code_simp

lemma demo_run:
  "snd (run log_step demo_calls (demo_normalizer, [])) = demo_log @
     [embed demo_identity 40 (First_Compute demo_receipt [demo_transfer] PREFILL)]"
  by code_simp

lemma demo_valid:
  "valid_transfer demo_transfer" "valid_receipt demo_receipt" "valid_identity demo_identity"
proof -
  have "transfer_identity (PStr (transfer_value demo_transfer)) = Inr demo_transfer" by code_simp
  then show "valid_transfer demo_transfer" by (simp add: transfer_identity_iff)
  have "receipt_identity (PStr (receipt_value demo_receipt)) = Inr demo_receipt" by code_simp
  then show "valid_receipt demo_receipt" by (simp add: receipt_identity_iff)
  have "observation_identity (PStr ''req-1'') (PInt 3) (PInt 0) (PInt 1) = Inr demo_identity"
    by code_simp
  then show "valid_identity demo_identity" by (simp add: observation_identity_iff)
qed

lemma demo_typed: "list_all typed_call demo_calls"
  by (simp add: demo_calls_def valid_submitted_def valid_completed_def valid_admitted_def
      valid_first_compute_def valid_roster_def uint64_def in_range_def demo_valid
      MAX_TRANSFER_ASSOCIATIONS_def)

section \<open>Properties of the normalizer\<close>

text \<open>
  C1: a published first compute is backed by the log. In every history of typed calls on a new
  normalizer, before each \<^verbatim>\<open>first_compute\<close> the recs holds the admission of the same identity and
  exact roster, at_ns no later time, and for every transfer of the roster, before that admission,
  a restore start followed by a restore completion of that identity with the duration between
  the two; and the compute's receipt belongs to the process of each transfer.
\<close>

theorem first_compute_backed:
  assumes "lifecycle_normalizer c a keep = Inr n" "list_all typed_call calls"
    and "snd (run log_step calls (n, [])) =
      pre @ embed i f_at (First_Compute r ts k) # post"
  shows "(\<exists>a_at \<le> f_at. admitted_chain pre i ts a_at) \<and>
    (\<forall>t \<in> set ts. transfer_process_uuid t = receipt_process_uuid r)"
proof -
  have "causal (ledger_of (fst (run log_step calls (n, [])))) (snd (run log_step calls (n, [])))"
    using causality.history [OF assms(1,2)] by (metis prod.collapse)
  with assms(3) have "caused pre (embed i f_at (First_Compute r ts k))"
    unfolding causal_def each_after_def by blast
  then show ?thesis by (simp add: caused_embed)
qed

theorem first_compute_backed_witness:
  "(\<exists>a_at. a_at \<le> 40 \<and> admitted_chain demo_log demo_identity [demo_transfer] a_at) \<and>
   transfer_process_uuid demo_transfer = receipt_process_uuid demo_receipt"
  using first_compute_backed [OF demo_new demo_typed demo_run] by simp

text \<open>
  C2: transfers and admissions are conserved. In every history of typed calls on a new
  normalizer each transfer has as many terminal records as start records, plus one start while
  it is pending, and each identity as many first computes as admissions, plus one admission
  while it waits; once evidence is invalid or the normalizer closed, terminals never exceed
  starts and computes never exceed admissions.
\<close>

theorem transfers_conserved:
  assumes "lifecycle_normalizer c a keep = Inr n" "list_all typed_call calls"
    and "run log_step calls (n, []) = (n', recs)"
  shows "(\<forall>t. ends t recs + one_if (map_of (n_pending n') t \<noteq> None) \<le> starts t recs) \<and>
    (\<forall>i. with_event FIRST_COMPUTE i recs + one_if (map_of (n_admissions n') i \<noteq> None)
       \<le> with_event RECOVERY_ADMITTED i recs) \<and>
    (n_evidence_valid n' \<and> \<not> n_closed n' \<longrightarrow>
       (\<forall>t. starts t recs = ends t recs + one_if (map_of (n_pending n') t \<noteq> None)) \<and>
       (\<forall>i. with_event RECOVERY_ADMITTED i recs
          = with_event FIRST_COMPUTE i recs + one_if (map_of (n_admissions n') i \<noteq> None)))"
  using conservation.history [OF assms] by (simp add: conserved_def ledger_of_def)

theorem transfers_conserved_witness:
  "\<exists>n' recs. run log_step demo_calls (demo_normalizer, []) = (n', recs) \<and>
     ends demo_transfer recs + one_if (map_of (n_pending n') demo_transfer \<noteq> None)
       \<le> starts demo_transfer recs"
  using transfers_conserved [OF demo_new demo_typed]
  by (cases "run log_step demo_calls (demo_normalizer, [])") blast

text \<open>
  C4: durations are measured. In every history of typed calls on a new normalizer, each record
  that ends a transfer comes after a record that started it, with the same identity, transfer
  and direction; a completion repeats the block count of its start, comes strictly later, and
  its \<^verbatim>\<open>duration_ns\<close> is exactly the time between the two.
\<close>

theorem durations_measured:
  assumes "lifecycle_normalizer c a keep = Inr n" "list_all typed_call calls"
    and "snd (run log_step calls (n, [])) = pre @ ob # post"
    and "ob_event ob \<in> {PRESERVE_COMPLETED, RESTORE_COMPLETED, TRANSFER_FAILED,
      TRANSFER_CANCELLED}"
  shows "\<exists>st \<in> set pre. started_by st ob"
proof -
  have "timed (ledger_of (fst (run log_step calls (n, [])))) (snd (run log_step calls (n, [])))"
    using timing.history [OF assms(1,2)] by (metis prod.collapse)
  with assms(3,4) show ?thesis by (auto simp: timed_def each_after_def measured_def)
qed

theorem durations_measured_witness:
  "\<exists>st \<in> set [embed demo_identity 10 (Restore_Started demo_transfer 4)].
     started_by st (embed demo_identity 25
       (Restore_Completed demo_transfer demo_receipt 512 4 15 None))"
  by (rule durations_measured [OF demo_new demo_typed])
    (simp_all add: demo_run demo_log_def emits)

text \<open>
  C5: the code refines the ledger, with one lapse. Each call on a normalizer, with whatever source
  the constructors accept, is one step of the abstract ledger labelled with what it publishes;
  except that a cancellation whose reason is no enum member, and which matches an open
  transfer of a live normalizer, closes that transfer and publishes nothing.
\<close>

theorem normalizer_refines_ledger:
  assumes "accepted_call c" "serve n c = (n', out)"
  shows "case lost_by n c of
      None \<Rightarrow> ledger_step (ledger_of n) out (ledger_of n')
    | Some t \<Rightarrow> out = [] \<and> ledger_of n' = shut t (ledger_of n)"
  using assms by (rule serve_accepted)

theorem normalizer_refines_ledger_witness:
  "\<exists>n' out. serve demo_normalizer (hd demo_calls) = (n', out) \<and> out \<noteq> [] \<and>
     ledger_step (ledger_of demo_normalizer) out (ledger_of n')"
proof -
  have t: "accepted_call (hd demo_calls)"
    using demo_typed by (simp add: demo_calls_def typed_valid)
  obtain n' out where s: "serve demo_normalizer (hd demo_calls) = (n', out)"
    by (cases "serve demo_normalizer (hd demo_calls)")
  have "snd (serve demo_normalizer (hd demo_calls)) \<noteq> []" by code_simp
  moreover have "lost_by demo_normalizer (hd demo_calls) = None" by code_simp
  ultimately show ?thesis using s normalizer_refines_ledger [OF t s] by auto
qed

lemma demo_accepted: "list_all accepted_call demo_calls"
  using demo_typed typed_accepted by (auto simp: list_all_iff)

lemma log_valid_step:
  "norm_inv (fst s) \<and> (\<forall>ob \<in> set (snd s). valid_observation ob) \<Longrightarrow> accepted_call c \<Longrightarrow>
     norm_inv (fst (log_step s c)) \<and> (\<forall>ob \<in> set (snd (log_step s c)). valid_observation ob)"
proof (cases c)
  case (NormCall x)
  assume "norm_inv (fst s) \<and> (\<forall>ob \<in> set (snd s). valid_observation ob)" "accepted_call c"
  with NormCall show ?thesis
    using normalize_good [of "fst s" x]
    by (auto simp: log_step_def split: prod.splits sum.splits option.splits)
qed (simp add: log_step_def norm_inv_close)

interpretation published_valid:
  machine log_step accepted_call
    "\<lambda>s. norm_inv (fst s) \<and> (\<forall>ob \<in> set (snd s). valid_observation ob)"
  by unfold_locales (rule log_valid_step)

text \<open>
  C6: only valid records are published. In every history of calls on sources the constructors
  accept, every published record is one the schema accepts: bounded, with exactly the fields
  of its event, its identities valid.
\<close>

theorem normalizer_publishes_valid:
  assumes "lifecycle_normalizer c a keep = Inr n" "list_all accepted_call calls"
    and "ob \<in> set (snd (run log_step calls (n, [])))"
  shows "valid_observation ob"
  using published_valid.run_keeps [of "(n, [])" calls] assms norm_inv_new [OF assms(1)] by simp

theorem normalizer_publishes_valid_witness:
  "valid_observation (embed demo_identity 40 (First_Compute demo_receipt [demo_transfer] PREFILL))"
  by (rule normalizer_publishes_valid [OF demo_new demo_accepted]) (simp add: demo_run)


text \<open>
  C8: memory is bounded. After every history of typed calls the pending table and the receipt
  table hold at most the configured number of transfers and the admission table at most the
  configured number of identities.
\<close>

theorem normalizer_bounded:
  assumes "lifecycle_normalizer (PInt c) (PInt a) keep = Inr n" "list_all typed_call calls"
    and "run log_step calls (n, []) = (n', recs)"
  shows "int (length (n_pending n')) \<le> c \<and> int (length (n_completed_restores n')) \<le> c \<and>
    int (length (n_admissions n')) \<le> a"
proof -
  have "capacities (nat c) (nat a) n" "0 < c" "0 < a"
    using assms(1) norm_inv_new [OF assms(1)]
    by (auto simp: capacities_def lifecycle_normalizer_def normalizer_limit_def)
  with capacity.run_keeps [of "nat c" "nat a" "(n, [])" calls] assms(2,3)
  have "capacities (nat c) (nat a) n'" by simp
  with \<open>0 < c\<close> \<open>0 < a\<close> show ?thesis
    by (auto simp: capacities_def norm_inv_def pending_ok_def completed_ok_def admissions_ok_def)
qed

theorem normalizer_bounded_witness:
  "\<exists>n' recs. run log_step demo_calls (demo_normalizer, []) = (n', recs) \<and>
     int (length (n_completed_restores n')) \<le> 2"
  using normalizer_bounded [OF demo_new demo_typed]
  by (cases "run log_step demo_calls (demo_normalizer, [])") blast

text \<open>
  C9: every call is counted once. Whatever the calls, the five counters of a new normalizer
  add up to the number of \<^verbatim>\<open>normalize\<close> calls it served, and no exception leaves a call.
\<close>

theorem every_call_counted:
  assumes "lifecycle_normalizer c a keep = Inr n"
  shows "nc_total (n_counters (fst (run log_step calls (n, [])))) =
      sum_list (map norm_weight calls) \<and>
    (\<forall>m x. \<exists>m' y. normalize m x = (m', Inr y))"
proof -
  have "nc_total (n_counters n) = 0"
    using assms by (auto simp: lifecycle_normalizer_def zero_counters_def nc_total_def)
  moreover have "\<exists>m' y. normalize m x = (m', Inr y)" for m x
    using counted_locked [of m x]
    by (auto simp: normalize_def counted_def split: prod.splits sum.splits option.splits)
  ultimately show ?thesis using counters.run_counts [of calls "(n, [])"] by simp
qed

theorem every_call_counted_witness:
  "nc_total (n_counters (fst (run log_step demo_calls (demo_normalizer, [])))) = 4"
  using every_call_counted [OF demo_new, of demo_calls] by (simp add: demo_calls_def)

text \<open>
  C7: a rejected call changes nothing, with one lapse. A source the constructors accept that is
  counted as invalid publishes nothing and leaves the pending, receipt and admission tables exactly as
  they were; only a cancellation whose reason is no enum member loses the open transfer it matches.
\<close>

theorem rejection_atomic:
  assumes "valid_source x" "normalize n x = (n', r)"
    and "nc_invalid (n_counters n') = Suc (nc_invalid (n_counters n))"
  shows "r = Inr None \<and> tables_of n' = tables_of (without (lost_transfer n x) n)"
proof (cases "typed_source x")
  case True
  obtain m y where m: "normalize_locked n x = (m, y)" by (cases "normalize_locked n x")
  with atomic_locked [OF True, of n] counted_locked [of n x] assms(2,3) lost_typed [OF True, of n]
  show ?thesis
    by (auto simp: normalize_def atomic_def counted_def bump_def tables_of_def without_def
        split: if_splits sum.splits option.splits)
next
  case False
  then obtain c where c: "x = SrcCancelled c" "\<not> reason_member (can_reason c)"
    using assms(1) by (auto simp: typed_iff)
  have "live n" using assms(2,3) by (auto simp: live_def normalize_def bump_def split: if_splits)
  from normalize_string [OF this c(2)] assms(2) c(1) show ?thesis
    by (auto simp: bump_def tables_of_def)
qed

definition demo_unknown :: source_observation where
  "demo_unknown = SrcCompleted (CoreTransferCompleted demo_transfer 25 True (Some 512) None
     (Some demo_receipt))"

theorem rejection_atomic_witness:
  "snd (normalize demo_normalizer demo_unknown) = Inr None \<and>
   tables_of (fst (normalize demo_normalizer demo_unknown)) = tables_of demo_normalizer"
proof -
  have "lost_transfer demo_normalizer demo_unknown = None"
    by (simp add: demo_unknown_def lost_transfer_def)
  moreover have "snd (normalize demo_normalizer demo_unknown) = Inr None \<and>
    tables_of (fst (normalize demo_normalizer demo_unknown)) =
      tables_of (without (lost_transfer demo_normalizer demo_unknown) demo_normalizer)"
  proof (rule rejection_atomic)
    show "valid_source demo_unknown"
      by (simp add: demo_unknown_def valid_completed_def uint64_def in_range_def demo_valid)
    show "normalize demo_normalizer demo_unknown =
        (fst (normalize demo_normalizer demo_unknown), snd (normalize demo_normalizer demo_unknown))"
      by simp
    show "nc_invalid (n_counters (fst (normalize demo_normalizer demo_unknown))) =
        Suc (nc_invalid (n_counters demo_normalizer))"
      by code_simp
  qed
  ultimately show ?thesis by (simp add: without_def)
qed

lemma silent_step:
  "\<not> live (fst s) \<Longrightarrow> \<not> live (fst (log_step s c)) \<and> snd (log_step s c) = snd s"
  by (cases c) (auto simp: log_step_def normalize_def live_def bump_def close_normalizer_def)

interpretation silence: machine log_step "\<lambda>c. True" "\<lambda>s. \<not> live (fst s) \<and> snd s = log0"
  by unfold_locales (auto simp: silent_step)

text \<open>
  C10: evidence fails closed. From the moment evidence is invalid or the normalizer is closed no
  later call, whatever its source, publishes a record, and the state stays so.
\<close>

theorem evidence_fails_closed:
  assumes "\<not> n_evidence_valid n \<or> n_closed n" "run log_step calls (n, recs) = (n', recs')"
  shows "recs' = recs \<and> (\<not> n_evidence_valid n' \<or> n_closed n')"
  using silence.run_keeps [of "(n, recs)" recs calls] assms by (simp add: live_def list_all_iff)

theorem evidence_fails_closed_witness:
  "snd (run log_step (NormClose # demo_calls) (close_normalizer demo_normalizer, [])) = []"
proof -
  have "n_closed (close_normalizer demo_normalizer)" by code_simp
  then show ?thesis
    using evidence_fails_closed [of "close_normalizer demo_normalizer" "NormClose # demo_calls" "[]"]
    by (metis prod.collapse)
qed


section \<open>Cancellation reasons that are plain strings\<close>

text \<open>
  C15: a plain string reason forgets a transfer. Let a live normalizer hold an open transfer, and
  a host cancel it, no earlier than it started, for any of the reasons a cancellation may
  have. Given as the enum member, the reason is published and the transfer closed. Given as the
  member's plain string, the constructor accepts it as well, but the record's constructor
  refuses it after the table has changed: the call is counted as invalid and publishes nothing, yet
  the transfer is gone, and no later history of calls publishes more terminals of the transfer
  than it publishes new starts, so its start never gets one.
\<close>

theorem plain_string_cancellation:
  assumes "norm_inv n" "live n" "map_of (n_pending n) t = Some p" "sub_observed_at_ns p \<le> at_ns"
    "at_ns \<le> UINT64_MAX" "r \<in> CANCELLATION_REASONS"
  shows "(\<exists>c. core_transfer_cancelled (PTransfer t) (PInt at_ns) (PTerminalReason r) = Inr c \<and>
      normalize n (SrcCancelled c) =
        (bump (nc_accepted_update Suc) (del_pending t n),
         Inr (Some (embed (sub_identity p) at_ns
           (Transfer_Cancelled t (operation_direction (sub_operation p)) r))))) \<and>
    (\<exists>c. core_transfer_cancelled (PTransfer t) (PInt at_ns) (PStr (terminal_value r)) = Inr c \<and>
      normalize n (SrcCancelled c) = (bump (nc_invalid_update Suc) (del_pending t n), Inr None)) \<and>
    (\<forall>calls m recs. list_all accepted_call calls \<and>
       run log_step calls (bump (nc_invalid_update Suc) (del_pending t n), []) = (m, recs) \<longrightarrow>
       ends t recs \<le> starts t recs)"
proof -
  have at: "uint64 at_ns"
  proof -
    have "valid_submitted p" using assms(1,3) by (auto simp: norm_inv_def pending_ok_def)
    then show ?thesis using assms(4,5) by (auto simp: valid_submitted_def uint64_def in_range_def)
  qed
  have made: "core_transfer_cancelled (PTransfer t) (PInt at_ns) v = Inr (CoreTransferCancelled t at_ns v)"
    if "cancellation_reason v" for v
    using at that by (simp add: core_transfer_cancelled_iff)
  have "cancellation_reason (PTerminalReason r)" "cancellation_reason (PStr (terminal_value r))"
    using assms(6) by (auto simp: cancellation_reason_def)
  moreover have "normalize n (SrcCancelled (CoreTransferCancelled t at_ns (PTerminalReason r))) =
      (bump (nc_accepted_update Suc) (del_pending t n),
       Inr (Some (embed (sub_identity p) at_ns
         (Transfer_Cancelled t (operation_direction (sub_operation p)) r))))"
    using assms(2-4) cancelled_legal [OF at assms(6)]
    by (simp add: normalize_def live_def transfer_cancelled_eq cancel_result_def publish_def)
  moreover have "normalize n (SrcCancelled (CoreTransferCancelled t at_ns (PStr (terminal_value r)))) =
      (bump (nc_invalid_update Suc) (del_pending t n), Inr None)"
    using assms(3,4) normalize_string [OF assms(2), of "CoreTransferCancelled t at_ns (PStr (terminal_value r))"]
    by (simp add: reason_member_def lost_transfer_def assms(2) without_def)
  moreover have "ends t recs \<le> starts t recs"
    if "list_all accepted_call calls"
      "run log_step calls (bump (nc_invalid_update Suc) (del_pending t n), []) = (m, recs)" for calls m recs
    using at_most_once.run_keeps [of t "(bump (nc_invalid_update Suc) (del_pending t n), [])" calls] that
    by (auto simp: ends_within_def ledger_of_def del_pending_def bump_def count_defs delete_conv')
  ultimately show ?thesis using made by blast
qed

theorem plain_string_cancellation_witness:
  "\<exists>c. core_transfer_cancelled (PTransfer demo_transfer) (PInt 20) (PStr ''host_shutdown'') = Inr c \<and>
     snd (normalize (fst (serve demo_normalizer (hd demo_calls))) (SrcCancelled c)) = Inr None"
proof -
  let ?n = "fst (serve demo_normalizer (hd demo_calls))"
  have "norm_inv ?n"
    using serve_inv [OF norm_inv_new [OF demo_new], of "hd demo_calls"] demo_typed
    by (simp add: demo_calls_def)
  moreover have "live ?n" by code_simp
  moreover have "map_of (n_pending ?n) demo_transfer =
      Some (CoreTransferSubmitted demo_identity demo_transfer H2D_RESTORE 4 10)"
    by code_simp
  moreover have "terminal_value HOST_SHUTDOWN = ''host_shutdown''" "HOST_SHUTDOWN \<in> CANCELLATION_REASONS"
    by (simp_all add: CANCELLATION_REASONS_def)
  ultimately show ?thesis
    using plain_string_cancellation [of ?n demo_transfer _ 20 HOST_SHUTDOWN]
    by (auto simp: UINT64_MAX_def)
qed

end
