(* ===== verification/HostFacts.thy ===== *)
theory HostFacts
  imports Schema
begin

text \<open>
  host\_facts.py: claims a host process makes about itself, never joined with worker receipts.
  The constructor runs the source's checks on arbitrary Python values; \<open>host_claim\<close> is the
  table of shapes as a sum type.
\<close>

section \<open>Records and checks\<close>

definition HOST_FACT_SCHEMA :: string where
  "HOST_FACT_SCHEMA = ''vllm-hust.kv-transfer-host-fact.v1''"

definition HOST_FACT_SCOPE :: string where
  "HOST_FACT_SCOPE = ''host_reported_unjoined''"

text \<open>\<^verbatim>\<open>[0-9a-f]{32}\<close>, matched against the whole string.\<close>

definition require_uuid :: "pyval \<Rightarrow> string res" where
  "require_uuid v =
     (case v of
        PStr s \<Rightarrow> if process_uuid_ok s then Inr s else Inl ValueError
      | _ \<Rightarrow> Inl ValueError)"

definition uint_roster :: "pyval \<Rightarrow> int \<Rightarrow> int list res" where
  "uint_roster v maximum =
     (case v of
        PTuple xs \<Rightarrow>
          if MAX_TRANSFER_ASSOCIATIONS < length xs then Inl ValueError
          else res_bind (res_map (\<lambda>x. require_uint x maximum) xs)
            (\<lambda>ns. if is_sorted_unique ns then Inr ns else Inl ValueError)
      | _ \<Rightarrow> Inl ValueError)"

record fact_args =
  h_event :: pyval
  h_process_uuid :: pyval
  h_observed_at_ns :: pyval
  h_request_id :: pyval
  h_job_id :: pyval
  h_rank :: pyval
  h_recovery_epoch :: pyval
  h_job_ids :: pyval
  h_ranks :: pyval
  h_compute_kind :: pyval
  h_requeue_reason :: pyval

record host_fact =
  hf_event :: host_fact_event
  hf_process_uuid :: string
  hf_observed_at_ns :: int
  hf_request_id :: string
  hf_job_id :: "int option"
  hf_rank :: "int option"
  hf_recovery_epoch :: "int option"
  hf_job_ids :: "int list"
  hf_ranks :: "int list"
  hf_compute_kind :: "compute_kind option"
  hf_requeue_reason :: "recovery_requeue_reason option"

datatype fact_field =
    H_job_id | H_rank | H_recovery_epoch | H_job_ids | H_ranks | H_compute_kind
  | H_requeue_reason

primrec fact_present :: "host_fact \<Rightarrow> fact_field \<Rightarrow> bool" where
  "fact_present f H_job_id = (hf_job_id f \<noteq> None)"
| "fact_present f H_rank = (hf_rank f \<noteq> None)"
| "fact_present f H_recovery_epoch = (hf_recovery_epoch f \<noteq> None)"
| "fact_present f H_job_ids = (hf_job_ids f \<noteq> [])"
| "fact_present f H_ranks = (hf_ranks f \<noteq> [])"
| "fact_present f H_compute_kind = (hf_compute_kind f \<noteq> None)"
| "fact_present f H_requeue_reason = (hf_requeue_reason f \<noteq> None)"

definition fact_populated :: "host_fact \<Rightarrow> fact_field set" where
  "fact_populated f = set (filter (fact_present f)
     [H_job_id, H_rank, H_recovery_epoch, H_job_ids, H_ranks, H_compute_kind,
      H_requeue_reason])"

primrec fact_shapes :: "host_fact_event \<Rightarrow> fact_field set" where
  "fact_shapes HF_TRANSFER_RECEIPT = {H_job_id, H_ranks}"
| "fact_shapes HF_RECOVERY_REQUEUED = {H_recovery_epoch, H_requeue_reason}"
| "fact_shapes HF_RECOVERY_ADMITTED = {H_recovery_epoch, H_job_ids}"
| "fact_shapes HF_FIRST_COMPUTE = {H_rank, H_recovery_epoch, H_job_ids, H_compute_kind}"

definition as_fact_event :: "pyval \<Rightarrow> host_fact_event res" where
  [py_defs]: "as_fact_event v = (case v of PHostFactEvent e \<Rightarrow> Inr e | _ \<Rightarrow> Inl ValueError)"

definition make_host_fact :: "fact_args \<Rightarrow> host_fact res" where
  "make_host_fact a =
     res_bind (as_fact_event (h_event a)) (\<lambda>event.
     res_bind (require_uuid (h_process_uuid a)) (\<lambda>uuid.
     res_bind (require_uint (h_observed_at_ns a) UINT64_MAX) (\<lambda>observed.
     res_bind (require_printable_ascii (h_request_id a) MAX_RUNTIME_REQUEST_ID_BYTES) (\<lambda>request.
     res_bind (optional (\<lambda>v. require_uint v UINT64_MAX) (h_job_id a)) (\<lambda>job.
     res_bind (optional (\<lambda>v. require_uint v UINT32_MAX) (h_rank a)) (\<lambda>rank.
     res_bind (optional (\<lambda>v. require_positive_uint v UINT64_MAX) (h_recovery_epoch a)) (\<lambda>epoch.
     res_bind (uint_roster (h_job_ids a) UINT64_MAX) (\<lambda>jobs.
     res_bind (uint_roster (h_ranks a) UINT32_MAX) (\<lambda>ranks.
     res_bind (optional as_kind (h_compute_kind a)) (\<lambda>kind.
     res_bind (optional as_requeue (h_requeue_reason a)) (\<lambda>reason.
     let f = \<lparr>hf_event = event, hf_process_uuid = uuid, hf_observed_at_ns = observed,
       hf_request_id = request, hf_job_id = job, hf_rank = rank, hf_recovery_epoch = epoch,
       hf_job_ids = jobs, hf_ranks = ranks, hf_compute_kind = kind,
       hf_requeue_reason = reason\<rparr>
     in if fact_populated f \<noteq> fact_shapes event then Inl ValueError else Inr f)))))))))))"

definition fact_defaults :: fact_args where
  "fact_defaults =
     \<lparr>h_event = PNone, h_process_uuid = PNone, h_observed_at_ns = PNone, h_request_id = PNone,
      h_job_id = PNone, h_rank = PNone, h_recovery_epoch = PNone, h_job_ids = PTuple [],
      h_ranks = PTuple [], h_compute_kind = PNone, h_requeue_reason = PNone\<rparr>"

definition int_list :: "int list \<Rightarrow> pyval option" where
  "int_list ns = (if ns = [] then None else Some (PList (map PInt ns)))"

definition host_fact_to_payload :: "host_fact \<Rightarrow> pyval" where
  "host_fact_to_payload f = PDict
     ([(''schema'', PStr HOST_FACT_SCHEMA),
       (''scope'', PStr HOST_FACT_SCOPE),
       (''event'', PStr (host_fact_event_value (hf_event f))),
       (''process_uuid'', PStr (hf_process_uuid f)),
       (''observed_at_ns'', PInt (hf_observed_at_ns f)),
       (''request_id'', PStr (hf_request_id f))] @
      some_entries
       [(''job_id'', map_option PInt (hf_job_id f)),
        (''rank'', map_option PInt (hf_rank f)),
        (''recovery_epoch'', map_option PInt (hf_recovery_epoch f)),
        (''job_ids'', int_list (hf_job_ids f)),
        (''ranks'', int_list (hf_ranks f)),
        (''compute_kind'', map_option (PStr \<circ> kind_value) (hf_compute_kind f)),
        (''requeue_reason'', map_option (PStr \<circ> requeue_value) (hf_requeue_reason f))])"

section \<open>The abstract contract\<close>

datatype host_claim =
    Receipt_Claim int "int list"
  | Requeued_Claim int recovery_requeue_reason
  | Admitted_Claim int "int list"
  | Compute_Claim int int "int list" compute_kind

definition bare_fact :: "host_fact_event \<Rightarrow> string \<Rightarrow> int \<Rightarrow> string \<Rightarrow> host_fact" where
  "bare_fact ev u t r =
     \<lparr>hf_event = ev, hf_process_uuid = u, hf_observed_at_ns = t, hf_request_id = r,
      hf_job_id = None, hf_rank = None, hf_recovery_epoch = None, hf_job_ids = [],
      hf_ranks = [], hf_compute_kind = None, hf_requeue_reason = None\<rparr>"

primrec embed_fact :: "string \<Rightarrow> int \<Rightarrow> string \<Rightarrow> host_claim \<Rightarrow> host_fact" where
  "embed_fact u t r (Receipt_Claim job ranks) =
     (bare_fact HF_TRANSFER_RECEIPT u t r)\<lparr>hf_job_id := Some job, hf_ranks := ranks\<rparr>"
| "embed_fact u t r (Requeued_Claim epoch reason) =
     (bare_fact HF_RECOVERY_REQUEUED u t r)
       \<lparr>hf_recovery_epoch := Some epoch, hf_requeue_reason := Some reason\<rparr>"
| "embed_fact u t r (Admitted_Claim epoch jobs) =
     (bare_fact HF_RECOVERY_ADMITTED u t r)
       \<lparr>hf_recovery_epoch := Some epoch, hf_job_ids := jobs\<rparr>"
| "embed_fact u t r (Compute_Claim rank epoch jobs kind) =
     (bare_fact HF_FIRST_COMPUTE u t r)
       \<lparr>hf_rank := Some rank, hf_recovery_epoch := Some epoch, hf_job_ids := jobs,
        hf_compute_kind := Some kind\<rparr>"

definition uint_set :: "int \<Rightarrow> int list \<Rightarrow> bool" where
  "uint_set m ns \<longleftrightarrow>
     ns \<noteq> [] \<and> length ns \<le> MAX_TRANSFER_ASSOCIATIONS \<and> sorted_wrt (<) ns \<and>
     (\<forall>n \<in> set ns. 0 \<le> n \<and> n \<le> m)"

primrec claim_ok :: "host_claim \<Rightarrow> bool" where
  "claim_ok (Receipt_Claim job ranks) = (0 \<le> job \<and> job \<le> UINT64_MAX \<and> uint_set UINT32_MAX ranks)"
| "claim_ok (Requeued_Claim epoch reason) = (0 < epoch \<and> epoch \<le> UINT64_MAX)"
| "claim_ok (Admitted_Claim epoch jobs) =
     (0 < epoch \<and> epoch \<le> UINT64_MAX \<and> uint_set UINT64_MAX jobs)"
| "claim_ok (Compute_Claim rank epoch jobs kind) =
     (0 \<le> rank \<and> rank \<le> UINT32_MAX \<and> 0 < epoch \<and> epoch \<le> UINT64_MAX \<and>
      uint_set UINT64_MAX jobs)"

text \<open>A valid fact: a claim with its side conditions, of a process, at a time, for a request.\<close>

definition valid_fact :: "host_fact \<Rightarrow> bool" where
  "valid_fact f \<longleftrightarrow>
     (\<exists>u t r c. f = embed_fact u t r c \<and> process_uuid_ok u \<and> 0 \<le> t \<and> t \<le> UINT64_MAX \<and>
        valid_request_id r \<and> claim_ok c)"

definition fact_args_of :: "host_fact \<Rightarrow> fact_args" where
  "fact_args_of f =
     \<lparr>h_event = PHostFactEvent (hf_event f), h_process_uuid = PStr (hf_process_uuid f),
      h_observed_at_ns = PInt (hf_observed_at_ns f), h_request_id = PStr (hf_request_id f),
      h_job_id = opt_val PInt (hf_job_id f), h_rank = opt_val PInt (hf_rank f),
      h_recovery_epoch = opt_val PInt (hf_recovery_epoch f),
      h_job_ids = PTuple (map PInt (hf_job_ids f)), h_ranks = PTuple (map PInt (hf_ranks f)),
      h_compute_kind = opt_val PComputeKind (hf_compute_kind f),
      h_requeue_reason = opt_val PRequeueReason (hf_requeue_reason f)\<rparr>"

lemma require_uuid_iff: "require_uuid v = Inr s \<longleftrightarrow> v = PStr s \<and> process_uuid_ok s"
  by (auto simp: require_uuid_def split: pyval.splits if_splits)

lemma res_map_uint:
  "res_map (\<lambda>x. require_uint x m) xs = Inr ns \<longleftrightarrow>
     xs = map PInt ns \<and> (\<forall>n \<in> set ns. 0 \<le> n \<and> n \<le> m)"
  by (rule res_map_iff) (simp add: require_uint_iff)

lemma uint_roster_iff:
  "uint_roster v m = Inr ns \<longleftrightarrow>
     v = PTuple (map PInt ns) \<and> (ns = [] \<or> uint_set m ns)"
  by (auto simp: uint_roster_def res_map_uint is_sorted_unique_iff uint_set_def
      split: pyval.splits)

lemma as_fact_event_iff: "as_fact_event v = Inr e \<longleftrightarrow> v = PHostFactEvent e"
  by (auto simp: py_defs split: pyval.splits)

lemma fact_shape_iff:
  "fact_populated f = fact_shapes ev \<longleftrightarrow>
     (hf_job_id f \<noteq> None) = (H_job_id \<in> fact_shapes ev) \<and>
     (hf_rank f \<noteq> None) = (H_rank \<in> fact_shapes ev) \<and>
     (hf_recovery_epoch f \<noteq> None) = (H_recovery_epoch \<in> fact_shapes ev) \<and>
     (hf_job_ids f \<noteq> []) = (H_job_ids \<in> fact_shapes ev) \<and>
     (hf_ranks f \<noteq> []) = (H_ranks \<in> fact_shapes ev) \<and>
     (hf_compute_kind f \<noteq> None) = (H_compute_kind \<in> fact_shapes ev) \<and>
     (hf_requeue_reason f \<noteq> None) = (H_requeue_reason \<in> fact_shapes ev)"
    (is "_ \<longleftrightarrow> ?r")
proof -
  have mem: "x \<in> fact_populated f \<longleftrightarrow> fact_present f x" for x
    by (cases x) (simp_all add: fact_populated_def)
  have "(\<forall>x. fact_present f x \<longleftrightarrow> x \<in> fact_shapes ev) \<longleftrightarrow> ?r"
  proof
    assume ?r
    then have "fact_present f x \<longleftrightarrow> x \<in> fact_shapes ev" for x by (cases x) simp_all
    then show "\<forall>x. fact_present f x \<longleftrightarrow> x \<in> fact_shapes ev" ..
  next
    assume all: "\<forall>x. fact_present f x \<longleftrightarrow> x \<in> fact_shapes ev"
    show ?r using all [rule_format, of H_job_id] all [rule_format, of H_rank]
        all [rule_format, of H_recovery_epoch] all [rule_format, of H_job_ids]
        all [rule_format, of H_ranks] all [rule_format, of H_compute_kind]
        all [rule_format, of H_requeue_reason] by simp
  qed
  then show ?thesis by (simp add: set_eq_iff mem)
qed

lemma make_fact_parts:
  "make_host_fact a = Inr f \<longleftrightarrow>
     a = fact_args_of f \<and> process_uuid_ok (hf_process_uuid f) \<and> 0 \<le> hf_observed_at_ns f \<and>
     hf_observed_at_ns f \<le> UINT64_MAX \<and> valid_request_id (hf_request_id f) \<and>
     in_range 0 UINT64_MAX (hf_job_id f) \<and> in_range 0 UINT32_MAX (hf_rank f) \<and>
     in_range 1 UINT64_MAX (hf_recovery_epoch f) \<and>
     (hf_job_ids f = [] \<or> uint_set UINT64_MAX (hf_job_ids f)) \<and>
     (hf_ranks f = [] \<or> uint_set UINT32_MAX (hf_ranks f)) \<and>
     fact_populated f = fact_shapes (hf_event f)"
  by (cases f; cases a)
    (auto simp: make_host_fact_def as_fact_event_iff require_uuid_iff require_uint_iff
      require_request_id_iff optional_uint_iff uint_roster_iff optional_as_iff Let_def
      fact_args_of_def)

lemma make_host_fact_iff: "make_host_fact a = Inr f \<longleftrightarrow> a = fact_args_of f \<and> valid_fact f"
proof
  assume m: "make_host_fact a = Inr f"
  define c where "c = (case hf_event f of
      HF_TRANSFER_RECEIPT \<Rightarrow> Receipt_Claim (the (hf_job_id f)) (hf_ranks f)
    | HF_RECOVERY_REQUEUED \<Rightarrow>
        Requeued_Claim (the (hf_recovery_epoch f)) (the (hf_requeue_reason f))
    | HF_RECOVERY_ADMITTED \<Rightarrow> Admitted_Claim (the (hf_recovery_epoch f)) (hf_job_ids f)
    | HF_FIRST_COMPUTE \<Rightarrow> Compute_Claim (the (hf_rank f)) (the (hf_recovery_epoch f))
        (hf_job_ids f) (the (hf_compute_kind f)))"
  have "f = embed_fact (hf_process_uuid f) (hf_observed_at_ns f) (hf_request_id f) c \<and> claim_ok c"
    using m unfolding make_fact_parts fact_shape_iff c_def
    by (cases f; cases "hf_event f") (auto simp: bare_fact_def in_range_def)
  with m show "a = fact_args_of f \<and> valid_fact f"
    unfolding make_fact_parts valid_fact_def by blast
next
  assume "a = fact_args_of f \<and> valid_fact f"
  then obtain u t r c where "a = fact_args_of f" "f = embed_fact u t r c" "process_uuid_ok u"
    "0 \<le> t" "t \<le> UINT64_MAX" "valid_request_id r" "claim_ok c"
    by (auto simp: valid_fact_def)
  then show "make_host_fact a = Inr f"
    unfolding make_fact_parts fact_shape_iff
    by (cases c) (auto simp: bare_fact_def in_range_def uint_set_def)
qed

section \<open>Properties of host facts\<close>

text \<open>
  C13: the host fact constructor accepts exactly the four claims. Whatever values it is called
  with, it returns a record if and only if they are the fields of a claim with its side
  conditions (non-empty sorted rosters, positive epoch, uint widths) of a process uuid, a time
  and a printable request id, and the record is that claim.
\<close>

theorem host_facts_exact:
  "make_host_fact a = Inr f \<longleftrightarrow> a = fact_args_of f \<and> valid_fact f"
  by (rule make_host_fact_iff)

end
