(* ===== verification/Correlated.thy ===== *)
theory Correlated
  imports HostFacts Normalization
begin

text \<open>
  correlated.py: the records of the host's cross-process recovery seam, with their worker and
  job receipts. \<open>recovery_link\<close> is the table of shapes as a sum type.
\<close>

section \<open>Receipts\<close>

definition CORRELATED_SCHEMA :: string where
  "CORRELATED_SCHEMA = ''vllm-hust.kv-transfer-correlated-host.v2''"

definition MAX_CORRELATED_ROSTER :: nat where
  "MAX_CORRELATED_ROSTER = 4096"

definition make_worker_receipt :: "pyval \<Rightarrow> pyval \<Rightarrow> worker_receipt res" where
  "make_worker_receipt rank worker_generation =
     res_bind (require_uint rank UINT32_MAX) (\<lambda>r.
     res_bind (require_uuid worker_generation) (\<lambda>g.
     Inr (WorkerReceipt r g)))"

definition as_worker :: "pyval \<Rightarrow> worker_receipt res" where
  [py_defs]: "as_worker v = (case v of PWorker w \<Rightarrow> Inr w | _ \<Rightarrow> Inl ValueError)"

definition as_job :: "pyval \<Rightarrow> job_receipt res" where
  [py_defs]: "as_job v = (case v of PJob j \<Rightarrow> Inr j | _ \<Rightarrow> Inl ValueError)"

text \<open>A tuple of worker receipts, sorted and unique, one per rank.\<close>

definition worker_roster :: "pyval \<Rightarrow> worker_receipt list res" where
  "worker_roster v =
     (case v of
        PTuple xs \<Rightarrow>
          if MAX_CORRELATED_ROSTER < length xs then Inl ValueError
          else res_bind (res_map as_worker xs)
            (\<lambda>ws. if \<not> is_sorted_unique ws then Inl ValueError
                  else if length (remdups (map wr_rank ws)) \<noteq> length ws then Inl ValueError
                  else Inr ws)
      | _ \<Rightarrow> Inl ValueError)"

definition make_job_receipt :: "pyval \<Rightarrow> pyval \<Rightarrow> job_receipt res" where
  "make_job_receipt job_id workers =
     res_bind (require_uint job_id UINT64_MAX) (\<lambda>j.
     res_bind (worker_roster workers) (\<lambda>ws.
     if ws = [] then Inl ValueError else Inr (JobReceipt j ws)))"

definition job_roster :: "pyval \<Rightarrow> job_receipt list res" where
  "job_roster v =
     (case v of
        PTuple xs \<Rightarrow>
          if MAX_CORRELATED_ROSTER < length xs then Inl ValueError
          else res_bind (res_map as_job xs)
            (\<lambda>js. if \<not> is_sorted_unique js then Inl ValueError
                  else if length (remdups (map jr_job_id js)) \<noteq> length js then Inl ValueError
                  else if MAX_CORRELATED_ROSTER
                    < sum_list (map (\<lambda>j. length (jr_workers j)) js) then Inl ValueError
                  else Inr js)
      | _ \<Rightarrow> Inl ValueError)"

definition worker_to_payload :: "worker_receipt \<Rightarrow> pyval" where
  "worker_to_payload w =
     PDict [(''rank'', PInt (wr_rank w)), (''worker_generation'', PStr (wr_generation w))]"

definition job_to_payload :: "job_receipt \<Rightarrow> pyval" where
  "job_to_payload j =
     PDict [(''job_id'', PInt (jr_job_id j)),
            (''workers'', PList (map worker_to_payload (jr_workers j)))]"

section \<open>Observations\<close>

record corr_args =
  c_event :: pyval
  c_scheduler_generation :: pyval
  c_request_id :: pyval
  c_recovery_epoch :: pyval
  c_observed_at_ns :: pyval
  c_job_id :: pyval
  c_rank :: pyval
  c_worker_generation :: pyval
  c_block_count :: pyval
  c_workers :: pyval
  c_roster :: pyval
  c_compute_kind :: pyval

text \<open>The compute kind stays the string the caller passed.\<close>

record correlated =
  co_event :: correlated_event
  co_scheduler_generation :: string
  co_request_id :: string
  co_recovery_epoch :: int
  co_observed_at_ns :: int
  co_job_id :: "int option"
  co_rank :: "int option"
  co_worker_generation :: "string option"
  co_block_count :: "int option"
  co_workers :: "worker_receipt list"
  co_roster :: "job_receipt list"
  co_compute_kind :: pyval

datatype corr_field =
    C_job_id | C_rank | C_worker_generation | C_block_count | C_workers | C_roster
  | C_compute_kind

primrec corr_present :: "correlated \<Rightarrow> corr_field \<Rightarrow> bool" where
  "corr_present c C_job_id = (co_job_id c \<noteq> None)"
| "corr_present c C_rank = (co_rank c \<noteq> None)"
| "corr_present c C_worker_generation = (co_worker_generation c \<noteq> None)"
| "corr_present c C_block_count = (co_block_count c \<noteq> None)"
| "corr_present c C_workers = (co_workers c \<noteq> [])"
| "corr_present c C_roster = (co_roster c \<noteq> [])"
| "corr_present c C_compute_kind = (co_compute_kind c \<noteq> PNone \<and> co_compute_kind c \<noteq> PTuple [])"

definition corr_populated :: "correlated \<Rightarrow> corr_field set" where
  "corr_populated c = set (filter (corr_present c)
     [C_job_id, C_rank, C_worker_generation, C_block_count, C_workers, C_roster,
      C_compute_kind])"

primrec corr_required :: "correlated_event \<Rightarrow> corr_field set" where
  "corr_required CE_RECOVERY_REQUEUED = {}"
| "corr_required CE_RESTORE_SUBMITTED =
     {C_job_id, C_rank, C_worker_generation, C_block_count}"
| "corr_required CE_RESTORE_COMPLETED = {C_job_id, C_rank, C_worker_generation}"
| "corr_required CE_TRANSFER_RECEIPT = {C_job_id, C_workers}"
| "corr_required CE_RECOVERY_ADMITTED = {C_roster}"
| "corr_required CE_FIRST_COMPUTE = {C_rank, C_worker_generation, C_roster, C_compute_kind}"

definition as_correlated_event :: "pyval \<Rightarrow> correlated_event res" where
  [py_defs]:
    "as_correlated_event v = (case v of PCorrelatedEvent e \<Rightarrow> Inr e | _ \<Rightarrow> Inl ValueError)"

definition check_compute_kind :: "pyval \<Rightarrow> unit res" where
  "check_compute_kind v =
     (if v = PNone then Inr ()
      else res_bind (in_str_set v [''prefill'', ''decode''])
        (\<lambda>ok. if ok then Inr () else Inl ValueError))"

definition make_correlated :: "corr_args \<Rightarrow> correlated res" where
  "make_correlated a =
     res_bind (as_correlated_event (c_event a)) (\<lambda>event.
     res_bind (require_uuid (c_scheduler_generation a)) (\<lambda>scheduler.
     res_bind (require_printable_ascii (c_request_id a) 128) (\<lambda>request.
     res_bind (require_uint (c_recovery_epoch a) UINT64_MAX) (\<lambda>epoch.
     if epoch = 0 then Inl ValueError else
     res_bind (require_uint (c_observed_at_ns a) UINT64_MAX) (\<lambda>observed.
     res_bind (optional (\<lambda>v. require_uint v UINT64_MAX) (c_job_id a)) (\<lambda>job.
     res_bind (optional (\<lambda>v. require_uint v UINT32_MAX) (c_rank a)) (\<lambda>rank.
     res_bind (optional (\<lambda>v. require_uint v UINT32_MAX) (c_block_count a)) (\<lambda>blocks.
     if blocks = Some 0 then Inl ValueError else
     res_bind (optional require_uuid (c_worker_generation a)) (\<lambda>generation.
     res_bind (worker_roster (c_workers a)) (\<lambda>workers.
     res_bind (job_roster (c_roster a)) (\<lambda>roster.
     let c = \<lparr>co_event = event, co_scheduler_generation = scheduler, co_request_id = request,
       co_recovery_epoch = epoch, co_observed_at_ns = observed, co_job_id = job,
       co_rank = rank, co_worker_generation = generation, co_block_count = blocks,
       co_workers = workers, co_roster = roster, co_compute_kind = c_compute_kind a\<rparr>
     in if corr_populated c \<noteq> corr_required event then Inl ValueError
        else res_bind (check_compute_kind (c_compute_kind a)) (\<lambda>_. Inr c))))))))))))"

definition nonempty_list :: "pyval list \<Rightarrow> pyval option" where
  "nonempty_list xs = (if xs = [] then None else Some (PList xs))"

definition correlated_to_payload :: "correlated \<Rightarrow> pyval" where
  "correlated_to_payload c = PDict
     ([(''schema'', PStr CORRELATED_SCHEMA),
       (''event'', PStr (correlated_event_value (co_event c))),
       (''scheduler_generation'', PStr (co_scheduler_generation c)),
       (''request_id'', PStr (co_request_id c)),
       (''recovery_epoch'', PInt (co_recovery_epoch c)),
       (''observed_at_ns'', PInt (co_observed_at_ns c))] @
      some_entries
       [(''job_id'', map_option PInt (co_job_id c)),
        (''rank'', map_option PInt (co_rank c)),
        (''worker_generation'', map_option PStr (co_worker_generation c)),
        (''block_count'', map_option PInt (co_block_count c)),
        (''compute_kind'', if co_compute_kind c = PNone then None else Some (co_compute_kind c)),
        (''workers'', nonempty_list (map worker_to_payload (co_workers c))),
        (''roster'', nonempty_list (map job_to_payload (co_roster c)))])"

section \<open>The abstract contract\<close>

datatype recovery_link =
    Requeued_Link
  | Submitted_Link int int string int
  | Completed_Link int int string
  | Receipt_Link int "worker_receipt list"
  | Admitted_Link "job_receipt list"
  | Compute_Link int string "job_receipt list" pyval

definition bare_corr :: "correlated_event \<Rightarrow> string \<Rightarrow> string \<Rightarrow> int \<Rightarrow> int \<Rightarrow> correlated" where
  "bare_corr ev s r e t =
     \<lparr>co_event = ev, co_scheduler_generation = s, co_request_id = r, co_recovery_epoch = e,
      co_observed_at_ns = t, co_job_id = None, co_rank = None, co_worker_generation = None,
      co_block_count = None, co_workers = [], co_roster = [], co_compute_kind = PNone\<rparr>"

primrec embed_link :: "string \<Rightarrow> string \<Rightarrow> int \<Rightarrow> int \<Rightarrow> recovery_link \<Rightarrow> correlated" where
  "embed_link s r e t Requeued_Link = bare_corr CE_RECOVERY_REQUEUED s r e t"
| "embed_link s r e t (Submitted_Link job rank gen blocks) =
     (bare_corr CE_RESTORE_SUBMITTED s r e t)
       \<lparr>co_job_id := Some job, co_rank := Some rank, co_worker_generation := Some gen,
        co_block_count := Some blocks\<rparr>"
| "embed_link s r e t (Completed_Link job rank gen) =
     (bare_corr CE_RESTORE_COMPLETED s r e t)
       \<lparr>co_job_id := Some job, co_rank := Some rank, co_worker_generation := Some gen\<rparr>"
| "embed_link s r e t (Receipt_Link job workers) =
     (bare_corr CE_TRANSFER_RECEIPT s r e t)\<lparr>co_job_id := Some job, co_workers := workers\<rparr>"
| "embed_link s r e t (Admitted_Link roster) =
     (bare_corr CE_RECOVERY_ADMITTED s r e t)\<lparr>co_roster := roster\<rparr>"
| "embed_link s r e t (Compute_Link rank gen roster kind) =
     (bare_corr CE_FIRST_COMPUTE s r e t)
       \<lparr>co_rank := Some rank, co_worker_generation := Some gen, co_roster := roster,
        co_compute_kind := kind\<rparr>"

definition valid_workers :: "worker_receipt list \<Rightarrow> bool" where
  "valid_workers ws \<longleftrightarrow>
     length ws \<le> MAX_CORRELATED_ROSTER \<and> sorted_wrt (<) ws \<and> distinct (map wr_rank ws)"

definition valid_jobs :: "job_receipt list \<Rightarrow> bool" where
  "valid_jobs js \<longleftrightarrow>
     length js \<le> MAX_CORRELATED_ROSTER \<and> sorted_wrt (<) js \<and> distinct (map jr_job_id js) \<and>
     sum_list (map (\<lambda>j. length (jr_workers j)) js) \<le> MAX_CORRELATED_ROSTER"

primrec link_ok :: "recovery_link \<Rightarrow> bool" where
  "link_ok Requeued_Link = True"
| "link_ok (Submitted_Link job rank gen blocks) =
     (0 \<le> job \<and> job \<le> UINT64_MAX \<and> 0 \<le> rank \<and> rank \<le> UINT32_MAX \<and> process_uuid_ok gen \<and>
      0 < blocks \<and> blocks \<le> UINT32_MAX)"
| "link_ok (Completed_Link job rank gen) =
     (0 \<le> job \<and> job \<le> UINT64_MAX \<and> 0 \<le> rank \<and> rank \<le> UINT32_MAX \<and> process_uuid_ok gen)"
| "link_ok (Receipt_Link job workers) =
     (0 \<le> job \<and> job \<le> UINT64_MAX \<and> workers \<noteq> [] \<and> valid_workers workers)"
| "link_ok (Admitted_Link roster) = (roster \<noteq> [] \<and> valid_jobs roster)"
| "link_ok (Compute_Link rank gen roster kind) =
     (0 \<le> rank \<and> rank \<le> UINT32_MAX \<and> process_uuid_ok gen \<and> roster \<noteq> [] \<and> valid_jobs roster \<and>
      (str_of kind = Some ''prefill'' \<or> str_of kind = Some ''decode''))"

definition valid_correlated :: "correlated \<Rightarrow> bool" where
  "valid_correlated c \<longleftrightarrow>
     (\<exists>s r e t l. c = embed_link s r e t l \<and> process_uuid_ok s \<and> valid_request_id r \<and>
        0 < e \<and> e \<le> UINT64_MAX \<and> 0 \<le> t \<and> t \<le> UINT64_MAX \<and> link_ok l)"

definition corr_args_of :: "correlated \<Rightarrow> corr_args" where
  "corr_args_of c =
     \<lparr>c_event = PCorrelatedEvent (co_event c),
      c_scheduler_generation = PStr (co_scheduler_generation c),
      c_request_id = PStr (co_request_id c), c_recovery_epoch = PInt (co_recovery_epoch c),
      c_observed_at_ns = PInt (co_observed_at_ns c), c_job_id = opt_val PInt (co_job_id c),
      c_rank = opt_val PInt (co_rank c),
      c_worker_generation = opt_val PStr (co_worker_generation c),
      c_block_count = opt_val PInt (co_block_count c),
      c_workers = PTuple (map PWorker (co_workers c)),
      c_roster = PTuple (map PJob (co_roster c)), c_compute_kind = co_compute_kind c\<rparr>"

section \<open>The constructors accept exactly the table\<close>

lemma as_receipt_objects:
  "as_worker v = Inr w \<longleftrightarrow> v = PWorker w" "as_job v = Inr j \<longleftrightarrow> v = PJob j"
  "as_correlated_event v = Inr e \<longleftrightarrow> v = PCorrelatedEvent e"
  by (auto simp: py_defs split: pyval.splits)

lemma res_map_objects:
  "res_map as_worker xs = Inr ws \<longleftrightarrow> xs = map PWorker ws"
  "res_map as_job xs = Inr js \<longleftrightarrow> xs = map PJob js"
  using res_map_iff [of as_worker PWorker "\<lambda>_. True" xs ws]
    res_map_iff [of as_job PJob "\<lambda>_. True" xs js] by (simp_all add: as_receipt_objects)

lemma length_remdups_eq [simp]: "length (remdups xs) = length xs \<longleftrightarrow> distinct xs"
  by (metis card_distinct distinct_card length_remdups_card_conv)

lemma length_remdups_map [simp]:
  "length (remdups (map f xs)) = length xs \<longleftrightarrow> distinct (map f xs)"
  using length_remdups_eq [of "map f xs"] by simp

lemma worker_roster_iff:
  "worker_roster v = Inr ws \<longleftrightarrow> v = PTuple (map PWorker ws) \<and> valid_workers ws"
  by (auto simp: worker_roster_def res_map_objects is_sorted_unique_iff valid_workers_def
      split: pyval.splits)

lemma job_roster_iff:
  "job_roster v = Inr js \<longleftrightarrow> v = PTuple (map PJob js) \<and> valid_jobs js"
  by (auto simp: job_roster_def res_map_objects is_sorted_unique_iff valid_jobs_def
      split: pyval.splits)

lemma make_worker_receipt_iff:
  "make_worker_receipt rank gen = Inr w \<longleftrightarrow>
     rank = PInt (wr_rank w) \<and> gen = PStr (wr_generation w) \<and>
     0 \<le> wr_rank w \<and> wr_rank w \<le> UINT32_MAX \<and> process_uuid_ok (wr_generation w)"
  by (cases w) (auto simp: make_worker_receipt_def require_uint_iff require_uuid_iff)

lemma make_job_receipt_iff:
  "make_job_receipt job ws = Inr j \<longleftrightarrow>
     job = PInt (jr_job_id j) \<and> ws = PTuple (map PWorker (jr_workers j)) \<and>
     0 \<le> jr_job_id j \<and> jr_job_id j \<le> UINT64_MAX \<and> jr_workers j \<noteq> [] \<and>
     valid_workers (jr_workers j)"
  by (cases j) (auto simp: make_job_receipt_def require_uint_iff worker_roster_iff)


definition kind_text :: "pyval \<Rightarrow> bool" where
  "kind_text v \<longleftrightarrow> str_of v = Some ''prefill'' \<or> str_of v = Some ''decode''"

lemma check_compute_kind_iff: "check_compute_kind v = Inr u \<longleftrightarrow> v = PNone \<or> kind_text v"
proof -
  have "in_str_set v [''prefill'', ''decode''] = Inr True \<longleftrightarrow> kind_text v"
    by (auto simp: in_str_set_iff kind_text_def)
  then show ?thesis by (auto simp: check_compute_kind_def)
qed

lemma kind_text_not [simp]: "\<not> kind_text PNone" "\<not> kind_text (PTuple xs)"
  by (simp_all add: kind_text_def)

lemma corr_shape_iff:
  "corr_populated c = corr_required ev \<longleftrightarrow>
     (co_job_id c \<noteq> None) = (C_job_id \<in> corr_required ev) \<and>
     (co_rank c \<noteq> None) = (C_rank \<in> corr_required ev) \<and>
     (co_worker_generation c \<noteq> None) = (C_worker_generation \<in> corr_required ev) \<and>
     (co_block_count c \<noteq> None) = (C_block_count \<in> corr_required ev) \<and>
     (co_workers c \<noteq> []) = (C_workers \<in> corr_required ev) \<and>
     (co_roster c \<noteq> []) = (C_roster \<in> corr_required ev) \<and>
     (co_compute_kind c \<noteq> PNone \<and> co_compute_kind c \<noteq> PTuple [])
       = (C_compute_kind \<in> corr_required ev)"
    (is "_ \<longleftrightarrow> ?r")
proof -
  have mem: "x \<in> corr_populated c \<longleftrightarrow> corr_present c x" for x
    by (cases x) (simp_all add: corr_populated_def)
  have "(\<forall>x. corr_present c x \<longleftrightarrow> x \<in> corr_required ev) \<longleftrightarrow> ?r"
  proof
    assume ?r
    then have "corr_present c x \<longleftrightarrow> x \<in> corr_required ev" for x by (cases x) simp_all
    then show "\<forall>x. corr_present c x \<longleftrightarrow> x \<in> corr_required ev" ..
  next
    assume all: "\<forall>x. corr_present c x \<longleftrightarrow> x \<in> corr_required ev"
    show ?r using all [rule_format, of C_job_id] all [rule_format, of C_rank]
        all [rule_format, of C_worker_generation] all [rule_format, of C_block_count]
        all [rule_format, of C_workers] all [rule_format, of C_roster]
        all [rule_format, of C_compute_kind] by simp
  qed
  then show ?thesis by (simp add: set_eq_iff mem)
qed

lemma optional_uuid_iff:
  "optional require_uuid v = Inr y \<longleftrightarrow>
     v = opt_val PStr y \<and> (\<forall>s. y = Some s \<longrightarrow> process_uuid_ok s)"
  using optional_iff [of require_uuid v PStr process_uuid_ok y]
  by (simp add: require_uuid_iff opt_val_def)

lemma make_correlated_parts:
  "make_correlated a = Inr c \<longleftrightarrow>
     a = corr_args_of c \<and> process_uuid_ok (co_scheduler_generation c) \<and>
     valid_request_id (co_request_id c) \<and>
     0 < co_recovery_epoch c \<and> co_recovery_epoch c \<le> UINT64_MAX \<and>
     0 \<le> co_observed_at_ns c \<and> co_observed_at_ns c \<le> UINT64_MAX \<and>
     in_range 0 UINT64_MAX (co_job_id c) \<and> in_range 0 UINT32_MAX (co_rank c) \<and>
     in_range 1 UINT32_MAX (co_block_count c) \<and>
     (\<forall>g. co_worker_generation c = Some g \<longrightarrow> process_uuid_ok g) \<and>
     valid_workers (co_workers c) \<and> valid_jobs (co_roster c) \<and>
     corr_populated c = corr_required (co_event c) \<and>
     (co_compute_kind c = PNone \<or> kind_text (co_compute_kind c))"
proof -
  have req: "require_printable_ascii v 128 = Inr s \<longleftrightarrow> v = PStr s \<and> valid_request_id s" for v s
    using require_request_id_iff [of v s] by (simp add: MAX_RUNTIME_REQUEST_ID_BYTES_def)
  have blocks: "optional (\<lambda>v. require_uint v m) v = Inr y \<and> y \<noteq> Some 0 \<longleftrightarrow>
      v = opt_val PInt y \<and> in_range 1 m y" for v m y
    by (auto simp: optional_uint_iff in_range_def split: option.splits)
  show ?thesis
    unfolding make_correlated_def Let_def guard_Inr res_bind_Inr as_receipt_objects
      require_uuid_iff require_uint_iff req optional_uuid_iff worker_roster_iff job_roster_iff
      check_compute_kind_iff
    by (cases c; cases a)
      (auto simp: corr_args_of_def optional_uint_iff check_compute_kind_iff in_range_def
        split: option.splits)
qed

lemma link_kind: "link_ok (Compute_Link rank gen roster kind) \<longleftrightarrow>
    0 \<le> rank \<and> rank \<le> UINT32_MAX \<and> process_uuid_ok gen \<and> roster \<noteq> [] \<and> valid_jobs roster \<and>
    kind_text kind"
  by (simp add: kind_text_def)

lemma valid_empty [simp]: "valid_workers []" "valid_jobs []"
  by (simp_all add: valid_workers_def valid_jobs_def)

lemma make_correlated_iff:
  "make_correlated a = Inr c \<longleftrightarrow> a = corr_args_of c \<and> valid_correlated c"
proof
  assume m: "make_correlated a = Inr c"
  define l where "l = (case co_event c of
      CE_RECOVERY_REQUEUED \<Rightarrow> Requeued_Link
    | CE_RESTORE_SUBMITTED \<Rightarrow> Submitted_Link (the (co_job_id c)) (the (co_rank c))
        (the (co_worker_generation c)) (the (co_block_count c))
    | CE_RESTORE_COMPLETED \<Rightarrow> Completed_Link (the (co_job_id c)) (the (co_rank c))
        (the (co_worker_generation c))
    | CE_TRANSFER_RECEIPT \<Rightarrow> Receipt_Link (the (co_job_id c)) (co_workers c)
    | CE_RECOVERY_ADMITTED \<Rightarrow> Admitted_Link (co_roster c)
    | CE_FIRST_COMPUTE \<Rightarrow> Compute_Link (the (co_rank c)) (the (co_worker_generation c))
        (co_roster c) (co_compute_kind c))"
  have "c = embed_link (co_scheduler_generation c) (co_request_id c) (co_recovery_epoch c)
      (co_observed_at_ns c) l \<and> link_ok l"
    using m unfolding make_correlated_parts corr_shape_iff l_def
    by (cases c; cases "co_event c") (auto simp: bare_corr_def in_range_def kind_text_def)
  with m show "a = corr_args_of c \<and> valid_correlated c"
    unfolding make_correlated_parts valid_correlated_def by blast
next
  assume "a = corr_args_of c \<and> valid_correlated c"
  then obtain s r e t l where "a = corr_args_of c" "c = embed_link s r e t l"
    "process_uuid_ok s" "valid_request_id r" "0 < e" "e \<le> UINT64_MAX" "0 \<le> t" "t \<le> UINT64_MAX"
    "link_ok l"
    by (auto simp: valid_correlated_def)
  then show "make_correlated a = Inr c"
    unfolding make_correlated_parts corr_shape_iff
    by (cases l) (auto simp: bare_corr_def in_range_def kind_text_def)
qed

section \<open>Properties of correlated records\<close>

text \<open>
  C14: the correlated constructors accept exactly the table. A worker receipt, a job receipt and
  an observation are built if and only if the arguments are their fields: widths, uuids, sorted
  rosters with one entry per rank and per job, and for an observation one of the six links with
  exactly its fields, at most 4096 workers over all jobs, and a known compute kind.
\<close>

theorem correlated_exact:
  "(make_worker_receipt rank gen = Inr w \<longleftrightarrow>
      rank = PInt (wr_rank w) \<and> gen = PStr (wr_generation w) \<and>
      0 \<le> wr_rank w \<and> wr_rank w \<le> UINT32_MAX \<and> process_uuid_ok (wr_generation w)) \<and>
   (make_job_receipt job ws = Inr j \<longleftrightarrow>
      job = PInt (jr_job_id j) \<and> ws = PTuple (map PWorker (jr_workers j)) \<and>
      0 \<le> jr_job_id j \<and> jr_job_id j \<le> UINT64_MAX \<and> jr_workers j \<noteq> [] \<and>
      valid_workers (jr_workers j)) \<and>
   (make_correlated a = Inr c \<longleftrightarrow> a = corr_args_of c \<and> valid_correlated c)"
  unfolding make_worker_receipt_iff make_job_receipt_iff make_correlated_iff by blast

end
