(* ===== verification/Restore_Chain.thy ===== *)
theory Restore_Chain
  imports Normalizer_History Correlated
begin

text \<open>
  validation.py, \<^verbatim>\<open>validate_restore_chain\<close>: the offline check that a request's records form
  complete recovery episodes. The checker keeps one episode per identity and replays every
  record through a fresh normalizer; \<open>complete_episode\<close> says what an accepted episode is.
\<close>

section \<open>The checker\<close>

datatype event_record =
    RecObservation kv_observation
  | RecFact host_fact
  | RecCorrelated correlated

record episode =
  ep_started :: "transfer_identity set"
  ep_completed :: "transfer_identity set"
  ep_admitted :: bool
  ep_computed :: bool
  ep_last_ns :: int

record chain_state =
  cs_episodes :: "(observation_identity, episode) dict"
  cs_transfers :: "transfer_identity set"
  cs_receipts :: "receipt_identity set"
  cs_normalizer :: normalizer

definition relevant :: "observation_event set" where
  "relevant = {RECOVERY_REQUEUED, RESTORE_STARTED, RESTORE_COMPLETED, RECOVERY_ADMITTED,
     FIRST_COMPUTE}"

definition new_episode :: "int \<Rightarrow> episode" where
  "new_episode t = \<lparr>ep_started = {}, ep_completed = {}, ep_admitted = False,
     ep_computed = False, ep_last_ns = t\<rparr>"

text \<open>The transfer of a record that must have one; \<^verbatim>\<open>None\<close> fails the source's constructor.\<close>

definition the_set :: "'a option \<Rightarrow> 'a set" where
  "the_set x = (case x of None \<Rightarrow> {} | Some y \<Rightarrow> {y})"

text \<open>Open an episode at its requeue.\<close>

definition open_episode ::
  "(observation_identity, episode) dict \<Rightarrow> kv_observation \<Rightarrow> (observation_identity, episode) dict res"
  where
  "open_episode eps ob =
     (if ob_event ob = RECOVERY_REQUEUED
      then if map_of eps (ob_identity ob) \<noteq> None then Inl ValueError
           else Inr (AList.update (ob_identity ob) (new_episode (ob_observed_at_ns ob)) eps)
      else Inr eps)"

definition receipt_seen :: "receipt_identity set \<Rightarrow> kv_observation \<Rightarrow> receipt_identity set res" where
  "receipt_seen seen ob =
     (case ob_receipt ob of
        None \<Rightarrow> Inr seen
      | Some r \<Rightarrow> if r \<in> seen then Inl ValueError else Inr (insert r seen))"

text \<open>The episode's own checks, and the source record replayed through the normalizer.\<close>

definition episode_step ::
  "transfer_identity set \<Rightarrow> episode \<Rightarrow> kv_observation \<Rightarrow>
   (episode \<times> transfer_identity set \<times> source_observation) res" where
  "episode_step seen ep ob =
     (let i = PIdentity (ob_identity ob); t = PInt (ob_observed_at_ns ob) in
      case ob_event ob of
        RECOVERY_REQUEUED \<Rightarrow>
          res_bind (core_recovery_requeued i (opt_val PRequeueReason (ob_requeue_reason ob)) t)
            (\<lambda>q. Inr (ep, seen, SrcRequeued q))
      | RESTORE_STARTED \<Rightarrow>
          if ep_admitted ep \<or> the_set (ob_transfer ob) \<inter> seen \<noteq> {} then Inl ValueError
          else res_bind (core_transfer_submitted i (opt_val PTransfer (ob_transfer ob))
              (POperation H2D_RESTORE) (opt_val PInt (ob_block_count ob)) t)
            (\<lambda>s. Inr (ep\<lparr>ep_started := the_set (ob_transfer ob) \<union> ep_started ep\<rparr>,
               the_set (ob_transfer ob) \<union> seen, SrcSubmitted s))
      | RESTORE_COMPLETED \<Rightarrow>
          if ep_admitted ep then Inl ValueError
          else res_bind (core_transfer_completed (opt_val PTransfer (ob_transfer ob)) t (PBool True)
              (opt_val PInt (ob_bytes_moved ob)) (opt_val PInt (ob_device_duration_ns ob))
              (opt_val PReceipt (ob_receipt ob)))
            (\<lambda>c. Inr (ep\<lparr>ep_completed := the_set (ob_transfer ob) \<union> ep_completed ep\<rparr>, seen,
               SrcCompleted c))
      | RECOVERY_ADMITTED \<Rightarrow>
          let roster = set (ob_associated_transfers ob) in
          if ep_admitted ep \<or> roster = {} \<or> roster \<noteq> ep_started ep \<or> roster \<noteq> ep_completed ep
          then Inl ValueError
          else res_bind (core_recovery_admitted i
              (PTuple (map PTransfer (ob_associated_transfers ob))) t)
            (\<lambda>a. Inr (ep\<lparr>ep_admitted := True\<rparr>, seen, SrcAdmitted a))
      | _ \<Rightarrow>
          res_bind (first_compute_observed (PSourceHost VLLM) i
              (opt_val PReceipt (ob_receipt ob))
              (PTuple (map PTransfer (ob_associated_transfers ob)))
              (opt_val PComputeKind (ob_compute_kind ob)) t)
            (\<lambda>f. Inr (ep\<lparr>ep_computed := True\<rparr>, seen, SrcFirstCompute f)))"

text \<open>The normalizer must publish this very record.\<close>

definition replay :: "normalizer \<Rightarrow> source_observation \<Rightarrow> kv_observation \<Rightarrow> normalizer res" where
  "replay n source ob =
     (case normalize n source of
        (n', Inl e) \<Rightarrow> Inl e
      | (n', Inr result) \<Rightarrow> if result \<noteq> Some ob then Inl ValueError else Inr n')"

lemma replay_iff: "replay n source ob = Inr n' \<longleftrightarrow> normalize n source = (n', Inr (Some ob))"
  by (auto simp: replay_def split: prod.splits sum.splits)

text \<open>One relevant record of the request.\<close>

definition relevant_step :: "chain_state \<Rightarrow> kv_observation \<Rightarrow> chain_state res" where
  "relevant_step cs ob =
     res_bind (open_episode (cs_episodes cs) ob) (\<lambda>eps.
     case map_of eps (ob_identity ob) of
       None \<Rightarrow> Inl ValueError
     | Some ep \<Rightarrow>
         if ep_computed ep then Inl ValueError
         else if ob_observed_at_ns ob < ep_last_ns ep then Inl ValueError
         else
           res_bind (receipt_seen (cs_receipts cs) ob) (\<lambda>receipts.
           res_bind (episode_step (cs_transfers cs) (ep\<lparr>ep_last_ns := ob_observed_at_ns ob\<rparr>) ob)
             (\<lambda>(ep', transfers, source).
           res_bind (replay (cs_normalizer cs) source ob) (\<lambda>n.
           Inr \<lparr>cs_episodes = AList.update (ob_identity ob) ep' eps, cs_transfers = transfers,
             cs_receipts = receipts, cs_normalizer = n\<rparr>))))"

definition chain_step :: "string \<Rightarrow> chain_state \<Rightarrow> event_record \<Rightarrow> chain_state res" where
  "chain_step request_id cs r =
     (case r of
        RecFact _ \<Rightarrow> Inr cs
      | RecCorrelated _ \<Rightarrow> Inr cs
      | RecObservation ob \<Rightarrow>
          if id_request_id (ob_identity ob) \<noteq> request_id then Inr cs
          else if ob_event ob \<notin> relevant
          then if ob_direction ob = Some H2D then Inl ValueError else Inr cs
          else relevant_step cs ob)"

primrec chain_loop :: "string \<Rightarrow> chain_state \<Rightarrow> event_record list \<Rightarrow> chain_state res" where
  "chain_loop request_id cs [] = Inr cs"
| "chain_loop request_id cs (r # rs) =
     res_bind (chain_step request_id cs r) (\<lambda>cs'. chain_loop request_id cs' rs)"

definition default_normalizer :: normalizer where
  "default_normalizer =
     \<lparr>n_max_correlated_transfers = DEFAULT_MAX_CORRELATED_TRANSFERS,
      n_max_recovery_admissions = DEFAULT_MAX_RECOVERY_ADMISSIONS,
      n_retain_restore_receipts = True, n_pending = [], n_completed_restores = [],
      n_admissions = [], n_counters = zero_counters, n_evidence_valid = True,
      n_closed = False\<rparr>"

definition empty_chain :: chain_state where
  "empty_chain = \<lparr>cs_episodes = [], cs_transfers = {}, cs_receipts = {},
     cs_normalizer = default_normalizer\<rparr>"

text \<open>The check on records none of which is correlated with the request.\<close>

definition validate_episodes :: "event_record list \<Rightarrow> string \<Rightarrow> nat res" where
  "validate_episodes records request_id =
     res_bind (chain_loop request_id empty_chain records) (\<lambda>cs.
     if cs_episodes cs = [] \<or> \<not> list_all (\<lambda>p. ep_computed (snd p)) (cs_episodes cs)
     then Inl ValueError else Inr (length (cs_episodes cs)))"


section \<open>What an accepted episode is\<close>

definition relevant_of :: "string \<Rightarrow> event_record list \<Rightarrow> kv_observation list" where
  "relevant_of request_id records =
     filter (\<lambda>ob. id_request_id (ob_identity ob) = request_id \<and> ob_event ob \<in> relevant)
       (List.map_filter (\<lambda>r. case r of RecObservation ob \<Rightarrow> Some ob | _ \<Rightarrow> None) records)"

definition trace :: "observation_identity \<Rightarrow> kv_observation list \<Rightarrow> kv_observation list" where
  "trace i evs = filter (\<lambda>ob. ob_identity ob = i) evs"

definition transfers_with :: "observation_event \<Rightarrow> kv_observation list \<Rightarrow> transfer_identity set"
  where "transfers_with ev evs = {t. \<exists>ob \<in> set evs. ob_event ob = ev \<and> ob_transfer ob = Some t}"

definition restores_only :: "kv_observation list \<Rightarrow> bool" where
  "restores_only evs \<longleftrightarrow> (\<forall>ob \<in> set evs. ob_event ob \<in> {RESTORE_STARTED, RESTORE_COMPLETED})"

text \<open>
  A requeue, the restores, the admission of exactly the transfers started and completed, and
  the first compute of that roster, in time order.
\<close>

definition complete_episode :: "kv_observation list \<Rightarrow> bool" where
  "complete_episode tr \<longleftrightarrow>
     (\<exists>q mid ad fc.
        tr = q # mid @ [ad, fc] \<and> sorted (map ob_observed_at_ns tr) \<and>
        ob_event q = RECOVERY_REQUEUED \<and> restores_only mid \<and>
        ob_event ad = RECOVERY_ADMITTED \<and> ob_associated_transfers ad \<noteq> [] \<and>
        set (ob_associated_transfers ad) = transfers_with RESTORE_STARTED mid \<and>
        set (ob_associated_transfers ad) = transfers_with RESTORE_COMPLETED mid \<and>
        ob_event fc = FIRST_COMPUTE \<and>
        ob_associated_transfers fc = ob_associated_transfers ad)"

section \<open>Replaying through the normalizer\<close>

definition replayed :: "normalizer \<Rightarrow> kv_observation list \<Rightarrow> bool" where
  "replayed n evs \<longleftrightarrow>
     (\<exists>calls. list_all typed_call calls \<and>
        run log_step calls (default_normalizer, []) = (n, evs))"

lemma default_new:
  "lifecycle_normalizer (PInt 4096) (PInt 4096) (PBool True) = Inr default_normalizer"
  by (simp add: lifecycle_normalizer_def normalizer_limit_def as_bool_def default_normalizer_def
      MAX_TRANSFER_ASSOCIATIONS_def DEFAULT_MAX_CORRELATED_TRANSFERS_def
      DEFAULT_MAX_RECOVERY_ADMISSIONS_def)

lemma replayed_init: "replayed default_normalizer []"
  unfolding replayed_def by (rule exI [of _ "[]"]) simp

lemma replayed_step:
  assumes "replayed n evs" "typed_source s" "normalize n s = (n', Inr (Some ob))"
  shows "replayed n' (evs @ [ob])"
proof -
  from assms(1) obtain calls where c: "list_all typed_call calls"
    "run log_step calls (default_normalizer, []) = (n, evs)"
    unfolding replayed_def by blast
  with assms(2,3) have "list_all typed_call (calls @ [NormCall s])"
    "run log_step (calls @ [NormCall s]) (default_normalizer, []) = (n', evs @ [ob])"
    by (simp_all add: log_step_def)
  then show ?thesis unfolding replayed_def by blast
qed

lemma replayed_laws:
  assumes "replayed n evs"
  shows "each_after caused evs" "each_after measured evs"
  using assms causality.history [OF default_new] timing.history [OF default_new]
  unfolding replayed_def causal_def timed_def by blast+

lemma episode_source_typed:
  assumes "episode_step seen ep ob = Inr (ep', seen', s)" "valid_parts ob"
  shows "typed_source s"
proof (cases "ob_event ob")
  case RESTORE_COMPLETED
  then obtain c where c: "s = SrcCompleted c" "core_transfer_completed
      (opt_val PTransfer (ob_transfer ob)) (PInt (ob_observed_at_ns ob)) (PBool True)
      (opt_val PInt (ob_bytes_moved ob)) (opt_val PInt (ob_device_duration_ns ob))
      (opt_val PReceipt (ob_receipt ob)) = Inr c"
    using assms(1) by (auto simp: episode_step_def Let_def)
  from c(2) have "ob_transfer ob = Some (cmp_transfer c)" "ob_receipt ob = cmp_receipt c"
    by (auto simp: core_transfer_completed_iff opt_val_def split: option.splits)
  with c assms(2) show ?thesis
    by (auto simp: core_transfer_completed_iff valid_completed_def valid_parts_def)
next
  case RESTORE_STARTED
  then obtain c where c: "s = SrcSubmitted c" "core_transfer_submitted
      (PIdentity (ob_identity ob)) (opt_val PTransfer (ob_transfer ob)) (POperation H2D_RESTORE)
      (opt_val PInt (ob_block_count ob)) (PInt (ob_observed_at_ns ob)) = Inr c"
    using assms(1) by (auto simp: episode_step_def Let_def)
  from c(2) have "ob_transfer ob = Some (sub_transfer c)"
    by (auto simp: core_transfer_submitted_iff opt_val_def split: option.splits)
  with c assms(2) show ?thesis
    by (auto simp: core_transfer_submitted_iff valid_submitted_def valid_parts_def)
next
  case RECOVERY_REQUEUED
  with assms show ?thesis
    by (auto simp: episode_step_def Let_def core_recovery_requeued_iff valid_requeued_def
        valid_parts_def)
next
  case RECOVERY_ADMITTED
  with assms show ?thesis
    by (auto simp: episode_step_def Let_def core_recovery_admitted_iff valid_admitted_def
        valid_roster_def valid_parts_def split: if_splits)
qed (use assms in \<open>auto simp: episode_step_def Let_def first_compute_observed_iff
      valid_first_compute_def valid_roster_def valid_parts_def opt_val_def split: option.splits\<close>)


section \<open>The phases of an episode\<close>

text \<open>The end of a trace, by the two flags of its episode.\<close>

definition tail_ok :: "episode \<Rightarrow> kv_observation list \<Rightarrow> kv_observation list \<Rightarrow> bool" where
  "tail_ok ep mid tail \<longleftrightarrow>
     (if \<not> ep_admitted ep then \<not> ep_computed ep \<and> tail = []
      else \<exists>ad. ob_event ad = RECOVERY_ADMITTED \<and> ob_associated_transfers ad \<noteq> [] \<and>
        set (ob_associated_transfers ad) = transfers_with RESTORE_STARTED mid \<and>
        set (ob_associated_transfers ad) = transfers_with RESTORE_COMPLETED mid \<and>
        (if \<not> ep_computed ep then tail = [ad]
         else \<exists>fc. tail = [ad, fc] \<and> ob_event fc = FIRST_COMPUTE \<and>
           ob_associated_transfers fc = ob_associated_transfers ad))"

definition phase :: "episode \<Rightarrow> kv_observation list \<Rightarrow> bool" where
  "phase ep tr \<longleftrightarrow>
     tr \<noteq> [] \<and> sorted (map ob_observed_at_ns tr) \<and> ep_last_ns ep = ob_observed_at_ns (last tr) \<and>
     (\<exists>q mid tail. tr = q # mid @ tail \<and> ob_event q = RECOVERY_REQUEUED \<and> restores_only mid \<and>
        ep_started ep = transfers_with RESTORE_STARTED mid \<and>
        ep_completed ep = transfers_with RESTORE_COMPLETED mid \<and> tail_ok ep mid tail)"

lemma transfers_with_snoc:
  "transfers_with ev (evs @ [ob]) =
     (if ob_event ob = ev then the_set (ob_transfer ob) else {}) \<union> transfers_with ev evs"
  by (auto simp: transfers_with_def the_set_def split: option.splits)

lemma transfers_with_Nil [simp]: "transfers_with ev [] = {}"
  by (simp add: transfers_with_def)

lemma restores_only_snoc:
  "restores_only (mid @ [ob]) \<longleftrightarrow>
     restores_only mid \<and> ob_event ob \<in> {RESTORE_STARTED, RESTORE_COMPLETED}"
  by (auto simp: restores_only_def)

lemma sorted_snoc:
  assumes "sorted (map f xs)" "xs \<noteq> []" "f (last xs) \<le> (f x :: int)"
  shows "sorted (map f (xs @ [x]))"
proof -
  have "f y \<le> f (last xs)" if "y \<in> set xs" for y
    using assms(1,2) that
    by (induction xs) (auto split: if_splits)
  with assms show ?thesis by (force simp: sorted_append)
qed

lemma phase_new:
  "ob_event ob = RECOVERY_REQUEUED \<Longrightarrow> phase (new_episode (ob_observed_at_ns ob)) [ob]"
  by (auto simp: phase_def new_episode_def tail_ok_def restores_only_def)

lemma phase_restore:
  assumes "phase ep tr" "\<not> ep_admitted ep" "ep_last_ns ep \<le> ob_observed_at_ns ob"
    and "ob_event ob = RESTORE_STARTED \<and>
        ep' = ep\<lparr>ep_last_ns := ob_observed_at_ns ob,
          ep_started := the_set (ob_transfer ob) \<union> ep_started ep\<rparr> \<or>
      ob_event ob = RESTORE_COMPLETED \<and>
        ep' = ep\<lparr>ep_last_ns := ob_observed_at_ns ob,
          ep_completed := the_set (ob_transfer ob) \<union> ep_completed ep\<rparr>"
  shows "phase ep' (tr @ [ob])"
proof -
  from assms(1,2) obtain q mid where tr: "tr = q # mid" "ob_event q = RECOVERY_REQUEUED"
    "restores_only mid" "ep_started ep = transfers_with RESTORE_STARTED mid"
    "ep_completed ep = transfers_with RESTORE_COMPLETED mid" "\<not> ep_computed ep"
    by (auto simp: phase_def tail_ok_def)
  from assms(1,3) have "sorted (map ob_observed_at_ns (tr @ [ob]))"
    by (intro sorted_snoc) (auto simp: phase_def)
  moreover have "\<exists>q' mid' tail. tr @ [ob] = q' # mid' @ tail \<and> ob_event q' = RECOVERY_REQUEUED \<and>
      restores_only mid' \<and> ep_started ep' = transfers_with RESTORE_STARTED mid' \<and>
      ep_completed ep' = transfers_with RESTORE_COMPLETED mid' \<and> tail_ok ep' mid' tail"
    using tr assms(2,4)
    by (intro exI [of _ q] exI [of _ "mid @ [ob]"] exI [of _ "[]"])
      (auto simp: restores_only_snoc transfers_with_snoc tail_ok_def)
  ultimately show ?thesis using assms(4) by (auto simp: phase_def)
qed

lemma phase_admit:
  assumes "phase ep tr" "\<not> ep_admitted ep" "ep_last_ns ep \<le> ob_observed_at_ns ob"
    and "ob_event ob = RECOVERY_ADMITTED" "set (ob_associated_transfers ob) \<noteq> {}"
    "set (ob_associated_transfers ob) = ep_started ep"
    "set (ob_associated_transfers ob) = ep_completed ep"
  shows "phase (ep\<lparr>ep_last_ns := ob_observed_at_ns ob, ep_admitted := True\<rparr>) (tr @ [ob])"
proof -
  from assms(1,2) obtain q mid where tr: "tr = q # mid" "ob_event q = RECOVERY_REQUEUED"
    "restores_only mid" "ep_started ep = transfers_with RESTORE_STARTED mid"
    "ep_completed ep = transfers_with RESTORE_COMPLETED mid" "\<not> ep_computed ep"
    by (auto simp: phase_def tail_ok_def)
  from assms(1,3) have "sorted (map ob_observed_at_ns (tr @ [ob]))"
    by (intro sorted_snoc) (auto simp: phase_def)
  with tr assms(4-7) show ?thesis
    unfolding phase_def
    by (intro conjI exI [of _ q] exI [of _ mid] exI [of _ "[ob]"]) (auto simp: tail_ok_def)
qed

lemma phase_admitted:
  assumes "phase ep tr" "ob \<in> set tr" "ob_event ob = RECOVERY_ADMITTED" "\<not> ep_computed ep"
  shows "ep_admitted ep \<and> (\<exists>q mid. tr = q # mid @ [ob] \<and> ob_event q = RECOVERY_REQUEUED \<and>
    restores_only mid \<and> ep_started ep = transfers_with RESTORE_STARTED mid \<and>
    ep_completed ep = transfers_with RESTORE_COMPLETED mid \<and> tail_ok ep mid [ob])"
proof -
  from assms(1) obtain q mid tail where tr: "tr = q # mid @ tail"
    "ob_event q = RECOVERY_REQUEUED" "restores_only mid" "tail_ok ep mid tail"
    "ep_started ep = transfers_with RESTORE_STARTED mid"
    "ep_completed ep = transfers_with RESTORE_COMPLETED mid"
    unfolding phase_def by blast
  with assms(2,3) have "ob \<in> set tail" by (auto simp: restores_only_def)
  with tr(4) assms(4) have "ep_admitted ep" "tail = [ob]"
    by (auto simp: tail_ok_def split: if_splits)
  with tr show ?thesis by blast
qed

lemma phase_compute:
  assumes "phase ep tr" "ad \<in> set tr" "ob_event ad = RECOVERY_ADMITTED" "\<not> ep_computed ep"
    and "ep_last_ns ep \<le> ob_observed_at_ns ob" "ob_event ob = FIRST_COMPUTE"
    "ob_associated_transfers ob = ob_associated_transfers ad"
  shows "phase (ep\<lparr>ep_last_ns := ob_observed_at_ns ob, ep_computed := True\<rparr>) (tr @ [ob])"
proof -
  from phase_admitted [OF assms(1-4)] obtain q mid where tr: "tr = q # mid @ [ad]"
    "ob_event q = RECOVERY_REQUEUED" "restores_only mid" "tail_ok ep mid [ad]"
    "ep_started ep = transfers_with RESTORE_STARTED mid"
    "ep_completed ep = transfers_with RESTORE_COMPLETED mid" "ep_admitted ep" by blast
  from assms(1,5) have "sorted (map ob_observed_at_ns (tr @ [ob]))"
    by (intro sorted_snoc) (auto simp: phase_def)
  with tr assms(4,6,7) show ?thesis
    unfolding phase_def
    by (intro conjI exI [of _ q] exI [of _ mid] exI [of _ "[ad, ob]"]) (auto simp: tail_ok_def)
qed

lemma phase_complete: "phase ep tr \<Longrightarrow> ep_computed ep \<Longrightarrow> complete_episode tr"
  unfolding phase_def tail_ok_def complete_episode_def by (auto split: if_splits)


section \<open>The checker's invariant\<close>

definition receipts_of :: "kv_observation list \<Rightarrow> receipt_identity list" where
  "receipts_of evs = List.map_filter ob_receipt evs"

definition chain_inv :: "chain_state \<Rightarrow> kv_observation list \<Rightarrow> bool" where
  "chain_inv cs evs \<longleftrightarrow>
     replayed (cs_normalizer cs) evs \<and> dict_ok (cs_episodes cs) \<and>
     (\<forall>i. case map_of (cs_episodes cs) i of
        None \<Rightarrow> trace i evs = []
      | Some ep \<Rightarrow> phase ep (trace i evs)) \<and>
     (\<forall>t. starts t evs \<le> one_if (t \<in> cs_transfers cs)) \<and>
     distinct (receipts_of evs) \<and> set (receipts_of evs) = cs_receipts cs"

lemma trace_snoc:
  "trace i (evs @ [ob]) = (if ob_identity ob = i then trace i evs @ [ob] else trace i evs)"
  by (simp add: trace_def)

lemma receipts_snoc:
  "receipts_of (evs @ [ob]) = receipts_of evs @ (case ob_receipt ob of None \<Rightarrow> [] | Some r \<Rightarrow> [r])"
  by (simp add: receipts_of_def map_filter_def split: option.split)

lemma receipts_step:
  assumes "receipt_seen seen ob = Inr seen'" "distinct (receipts_of evs)"
    "set (receipts_of evs) = seen"
  shows "distinct (receipts_of (evs @ [ob])) \<and> set (receipts_of (evs @ [ob])) = seen'"
  using assms by (auto simp: receipt_seen_def receipts_snoc split: option.splits if_splits)

lemma starts_snoc:
  "starts t (evs @ [ob]) = starts t evs + one_if (ob_transfer ob = Some t \<and>
     ob_event ob \<in> {PRESERVE_STARTED, RESTORE_STARTED})"
  by (simp add: starts_def one_if_def)

lemma starts_step:
  assumes "episode_step seen ep ob = Inr (ep', seen', s)" "ob_event ob \<in> relevant"
    "\<forall>t. starts t evs \<le> one_if (t \<in> seen)"
  shows "\<forall>t. starts t (evs @ [ob]) \<le> one_if (t \<in> seen')"
proof
  fix t
  have le: "starts t evs \<le> one_if (t \<in> seen)" using assms(3) by blast
  show "starts t (evs @ [ob]) \<le> one_if (t \<in> seen')"
  proof (cases "ob_event ob = RESTORE_STARTED")
    case True
    with assms(1) have "the_set (ob_transfer ob) \<inter> seen = {}" "seen' = the_set (ob_transfer ob) \<union> seen"
      by (auto simp: episode_step_def Let_def)
    with le True show ?thesis
      by (auto simp: starts_snoc the_set_def one_if_def split: option.splits if_splits)
  next
    case False
    with assms(1,2) have "seen' = seen"
      by (auto simp: episode_step_def Let_def relevant_def split: if_splits)
    with le False assms(2) show ?thesis by (auto simp: starts_snoc one_if_def relevant_def)
  qed
qed

primrec event_of :: "lifecycle \<Rightarrow> observation_event" where
  "event_of (Preserve_Started tr n) = PRESERVE_STARTED"
| "event_of (Preserve_Completed tr b n d x) = PRESERVE_COMPLETED"
| "event_of (Transfer_Started tr dir b) = TRANSFER_STARTED"
| "event_of (Transfer_Completed tr dir b d x) = TRANSFER_COMPLETED"
| "event_of (Transfer_Failed tr dir r) = TRANSFER_FAILED"
| "event_of (Transfer_Cancelled tr dir r) = TRANSFER_CANCELLED"
| "event_of (Restore_Started tr n) = RESTORE_STARTED"
| "event_of (Restore_Completed tr r b n d x) = RESTORE_COMPLETED"
| "event_of (Recovery_Requeued q) = RECOVERY_REQUEUED"
| "event_of (Recovery_Admitted ts) = RECOVERY_ADMITTED"
| "event_of (First_Compute r ts k) = FIRST_COMPUTE"

lemma event_embed [simp]: "ob_event (embed i t l) = event_of l"
  by (cases l) (simp_all add: emits)

text \<open>A replayed first compute has the admission of its roster in its identity's trace.\<close>

lemma compute_admitted:
  assumes "replayed n (evs @ [ob])" "legal_observation ob" "ob_event ob = FIRST_COMPUTE"
  shows "\<exists>ad \<in> set (trace (ob_identity ob) evs). ob_event ad = RECOVERY_ADMITTED \<and>
    ob_associated_transfers ob = ob_associated_transfers ad"
proof -
  let ?i = "ob_identity ob"
  from assms(2) obtain l where l: "ob = embed ?i (ob_observed_at_ns ob) l" "lifecycle_ok ?i l"
    by (auto simp: legal_observation_def)
  with assms(3) have "event_of l = FIRST_COMPUTE" by (metis event_embed)
  then obtain r ts k where fc: "l = First_Compute r ts k" by (cases l) simp_all
  with l(2) obtain t where t: "t \<in> set ts" by (cases ts) auto
  from replayed_laws(1) [OF assms(1)] have "caused evs ob" by simp
  with l(1) fc obtain a_at where "admitted_chain evs ?i ts a_at"
    unfolding caused_def by blast
  with t obtain u where "restored_chain evs t ?i u [embed ?i a_at (Recovery_Admitted ts)]"
    unfolding admitted_chain_def by blast
  then obtain xs where sub: "subseq (xs @ [embed ?i a_at (Recovery_Admitted ts)]) evs"
    unfolding restored_chain_def by (metis append_Cons append_Nil)
  have "embed ?i a_at (Recovery_Admitted ts) \<in> set evs"
    by (rule list_emb_set [OF sub, of "embed ?i a_at (Recovery_Admitted ts)"]) simp_all
  moreover have "ob_associated_transfers ob = ts"
    by (subst l(1)) (simp add: fc emits)
  ultimately show ?thesis
    by (intro bexI [of _ "embed ?i a_at (Recovery_Admitted ts)"]) (simp_all add: trace_def emits)
qed


text \<open>The episode a record continues, before its own checks.\<close>

lemma open_episode_phase:
  assumes inv: "chain_inv cs evs" and op: "open_episode (cs_episodes cs) ob = Inr eps"
    and ep: "map_of eps (ob_identity ob) = Some ep"
  shows "(if ob_event ob = RECOVERY_REQUEUED
      then trace (ob_identity ob) evs = [] \<and> ep = new_episode (ob_observed_at_ns ob)
      else phase ep (trace (ob_identity ob) evs)) \<and>
    dict_ok eps \<and> (\<forall>i. i \<noteq> ob_identity ob \<longrightarrow> map_of eps i = map_of (cs_episodes cs) i)"
proof (cases "ob_event ob = RECOVERY_REQUEUED")
  case True
  with op ep have "map_of (cs_episodes cs) (ob_identity ob) = None"
    "eps = AList.update (ob_identity ob) (new_episode (ob_observed_at_ns ob)) (cs_episodes cs)"
    by (auto simp: open_episode_def split: if_splits)
  with True inv ep show ?thesis
    unfolding chain_inv_def by (auto dest: spec [of _ "ob_identity ob"])
next
  case False
  with op have "eps = cs_episodes cs" by (simp add: open_episode_def)
  with False inv ep show ?thesis
    unfolding chain_inv_def by (auto dest: spec [of _ "ob_identity ob"])
qed

lemma episode_phase:
  assumes st: "episode_step seen (ep\<lparr>ep_last_ns := ob_observed_at_ns ob\<rparr>) ob = Inr (ep', seen', s)"
    and rel: "ob_event ob \<in> relevant" and "legal_observation ob"
    and "\<not> ep_computed ep" "ep_last_ns ep \<le> ob_observed_at_ns ob"
    and ph: "if ob_event ob = RECOVERY_REQUEUED
      then trace (ob_identity ob) evs = [] \<and> ep = new_episode (ob_observed_at_ns ob)
      else phase ep (trace (ob_identity ob) evs)"
    and re: "replayed n (evs @ [ob])"
  shows "phase ep' (trace (ob_identity ob) evs @ [ob])"
proof -
  consider "ob_event ob = RECOVERY_REQUEUED" | "ob_event ob = RESTORE_STARTED"
    | "ob_event ob = RESTORE_COMPLETED" | "ob_event ob = RECOVERY_ADMITTED"
    | "ob_event ob = FIRST_COMPUTE"
    using rel by (auto simp: relevant_def)
  then show ?thesis
  proof cases
    case 1
    with st ph show ?thesis
      using phase_new [OF 1] by (auto simp: episode_step_def Let_def new_episode_def)
  next
    case 2
    with st ph assms(5) show ?thesis
      by (intro phase_restore [of ep]) (auto simp: episode_step_def Let_def)
  next
    case 3
    with st ph assms(5) show ?thesis
      by (intro phase_restore [of ep]) (auto simp: episode_step_def Let_def)
  next
    case 4
    with st have "ep' = ep\<lparr>ep_last_ns := ob_observed_at_ns ob, ep_admitted := True\<rparr>"
      "\<not> ep_admitted ep" "set (ob_associated_transfers ob) \<noteq> {}"
      "set (ob_associated_transfers ob) = ep_started ep"
      "set (ob_associated_transfers ob) = ep_completed ep"
      by (auto simp: episode_step_def Let_def split: if_splits)
    with 4 ph assms(5) show ?thesis by (simp add: phase_admit)
  next
    case 5
    with st have ep': "ep' = ep\<lparr>ep_last_ns := ob_observed_at_ns ob, ep_computed := True\<rparr>"
      by (auto simp: episode_step_def Let_def)
    from compute_admitted [OF re assms(3) 5] 5 ph assms(4,5) show ?thesis
      unfolding ep' by (auto intro: phase_compute)
  qed
qed

lemma relevant_step_inv:
  assumes inv: "chain_inv cs evs" and st: "relevant_step cs ob = Inr cs'"
    and ob: "valid_observation ob" "ob_event ob \<in> relevant"
  shows "chain_inv cs' (evs @ [ob])"
proof -
  from st obtain eps ep receipts ep' seen' s n where
    op: "open_episode (cs_episodes cs) ob = Inr eps" and
    ep: "map_of eps (ob_identity ob) = Some ep" "\<not> ep_computed ep"
      "\<not> ob_observed_at_ns ob < ep_last_ns ep" and
    rc: "receipt_seen (cs_receipts cs) ob = Inr receipts" and
    es: "episode_step (cs_transfers cs) (ep\<lparr>ep_last_ns := ob_observed_at_ns ob\<rparr>) ob =
      Inr (ep', seen', s)" and
    nm: "normalize (cs_normalizer cs) s = (n, Inr (Some ob))" and
    cs': "cs' = \<lparr>cs_episodes = AList.update (ob_identity ob) ep' eps, cs_transfers = seen',
      cs_receipts = receipts, cs_normalizer = n\<rparr>"
    by (auto simp: relevant_step_def replay_iff split: option.splits)
  from ob have parts: "valid_parts ob" "legal_observation ob"
    by (simp_all add: valid_observation_def)
  have re: "replayed n (evs @ [ob])"
    using replayed_step [OF _ episode_source_typed [OF es parts(1)] nm] inv
    by (simp add: chain_inv_def)
  note opened = open_episode_phase [OF inv op ep(1)]
  from opened es ep(2,3) ob(2) parts(2) re
  have ph: "phase ep' (trace (ob_identity ob) evs @ [ob])"
    by (intro episode_phase) auto
  have eps: "case map_of (AList.update (ob_identity ob) ep' eps) i of
      None \<Rightarrow> trace i (evs @ [ob]) = [] | Some e \<Rightarrow> phase e (trace i (evs @ [ob]))" for i
  proof (cases "i = ob_identity ob")
    case True
    with ph show ?thesis by (simp add: trace_snoc)
  next
    case False
    with opened have "map_of (AList.update (ob_identity ob) ep' eps) i = map_of (cs_episodes cs) i"
      by simp
    moreover from False have "trace i (evs @ [ob]) = trace i evs" by (simp add: trace_snoc)
    ultimately show ?thesis using inv unfolding chain_inv_def by metis
  qed
  have "\<forall>t. starts t (evs @ [ob]) \<le> one_if (t \<in> seen')"
    using starts_step [OF es ob(2)] inv by (simp add: chain_inv_def)
  moreover have "distinct (receipts_of (evs @ [ob])) \<and> set (receipts_of (evs @ [ob])) = receipts"
    using receipts_step [OF rc] inv by (simp add: chain_inv_def)
  ultimately show ?thesis
    unfolding chain_inv_def cs' using re eps opened by simp
qed

definition observations_of :: "event_record list \<Rightarrow> kv_observation list" where
  "observations_of records =
     List.map_filter (\<lambda>r. case r of RecObservation ob \<Rightarrow> Some ob | _ \<Rightarrow> None) records"

lemma relevant_of_Cons:
  "relevant_of rid (r # rs) =
     (case r of
        RecObservation ob \<Rightarrow>
          if id_request_id (ob_identity ob) = rid \<and> ob_event ob \<in> relevant
          then ob # relevant_of rid rs else relevant_of rid rs
      | _ \<Rightarrow> relevant_of rid rs)"
  by (simp add: relevant_of_def map_filter_def split: event_record.split)

lemma chain_loop_inv:
  "chain_inv cs evs \<Longrightarrow> chain_loop rid cs records = Inr cs' \<Longrightarrow>
     \<forall>ob \<in> set (observations_of records). valid_observation ob \<Longrightarrow>
     chain_inv cs' (evs @ relevant_of rid records)"
proof (induction records arbitrary: cs evs)
  case Nil
  then show ?case by (simp add: relevant_of_def map_filter_def)
next
  case (Cons r records)
  from Cons.prems(2) obtain cs1 where st: "chain_step rid cs r = Inr cs1"
    and loop: "chain_loop rid cs1 records = Inr cs'" by auto
  have rest: "\<forall>ob \<in> set (observations_of records). valid_observation ob"
    using Cons.prems(3) by (auto simp: observations_of_def map_filter_def split: event_record.splits)
  show ?case
  proof (cases "\<exists>ob. r = RecObservation ob \<and> id_request_id (ob_identity ob) = rid \<and>
      ob_event ob \<in> relevant")
    case False
    with st have "cs1 = cs"
      by (auto simp: chain_step_def split: event_record.splits if_splits)
    with False Cons.IH [OF Cons.prems(1) _ rest] loop show ?thesis
      by (auto simp: relevant_of_Cons split: event_record.split)
  next
    case True
    then obtain ob where ob: "r = RecObservation ob" "id_request_id (ob_identity ob) = rid"
      "ob_event ob \<in> relevant" by blast
    with Cons.prems(3) have "valid_observation ob"
      by (simp add: observations_of_def map_filter_def)
    with ob st Cons.prems(1) have "chain_inv cs1 (evs @ [ob])"
      by (intro relevant_step_inv) (auto simp: chain_step_def)
    from Cons.IH [OF this loop rest] ob show ?thesis by (simp add: relevant_of_Cons)
  qed
qed

lemma chain_init: "chain_inv empty_chain []"
  by (simp add: chain_inv_def empty_chain_def replayed_init trace_def starts_def receipts_of_def
      map_filter_def)

lemma episode_keys:
  assumes "chain_inv cs evs"
  shows "set (dict_keys (cs_episodes cs)) = ob_identity ` set evs"
proof -
  have "i \<in> set (dict_keys (cs_episodes cs)) \<longleftrightarrow> i \<in> ob_identity ` set evs" for i
  proof -
    have "i \<in> set (dict_keys (cs_episodes cs)) \<longleftrightarrow> map_of (cs_episodes cs) i \<noteq> None"
      by (metis map_of_eq_None_iff set_map)
    also have "\<dots> \<longleftrightarrow> trace i evs \<noteq> []"
      using assms by (force simp: chain_inv_def phase_def split: option.splits)
    also have "\<dots> \<longleftrightarrow> i \<in> ob_identity ` set evs"
      by (auto simp: trace_def filter_empty_conv)
    finally show ?thesis .
  qed
  then show ?thesis by blast
qed

lemma validate_episodes_sound:
  assumes "validate_episodes records rid = Inr k"
    "\<forall>ob \<in> set (observations_of records). valid_observation ob"
  defines "evs \<equiv> relevant_of rid records"
  shows "k = card (ob_identity ` set evs) \<and> 0 < k \<and>
    (\<forall>i \<in> ob_identity ` set evs. complete_episode (trace i evs)) \<and>
    (\<forall>t. starts t evs \<le> 1) \<and> distinct (receipts_of evs) \<and>
    each_after caused evs \<and> each_after measured evs"
proof -
  from assms(1) obtain cs where loop: "chain_loop rid empty_chain records = Inr cs"
    and ne: "cs_episodes cs \<noteq> []" and all: "list_all (\<lambda>p. ep_computed (snd p)) (cs_episodes cs)"
    and k: "k = length (cs_episodes cs)"
    by (auto simp: validate_episodes_def)
  from chain_loop_inv [OF chain_init loop assms(2)] have inv: "chain_inv cs evs"
    by (simp add: evs_def)
  then have "card (set (dict_keys (cs_episodes cs))) = k"
    using k distinct_card [of "dict_keys (cs_episodes cs)"] unfolding chain_inv_def by simp
  then have "k = card (ob_identity ` set evs)" unfolding episode_keys [OF inv] ..
  moreover have "complete_episode (trace i evs)" if "i \<in> ob_identity ` set evs" for i
  proof -
    from that episode_keys [OF inv] obtain ep where ep: "map_of (cs_episodes cs) i = Some ep"
      by (metis (no_types) map_of_eq_None_iff not_Some_eq set_map)
    with all have "ep_computed ep" using map_of_SomeD [OF ep] by (force simp: list_all_iff)
    moreover have "phase ep (trace i evs)"
      using inv ep by (auto simp: chain_inv_def dest: spec [of _ i])
    ultimately show ?thesis by (intro phase_complete)
  qed
  moreover have "starts t evs \<le> 1" for t
  proof -
    have "starts t evs \<le> one_if (t \<in> cs_transfers cs)" using inv by (simp add: chain_inv_def)
    also have "\<dots> \<le> 1" by (simp add: one_if_def)
    finally show ?thesis .
  qed
  moreover have "distinct (receipts_of evs)" "each_after caused evs" "each_after measured evs"
    using inv by (auto simp: chain_inv_def intro: replayed_laws)
  moreover have "0 < k" using ne k by (cases "cs_episodes cs") simp_all
  ultimately show ?thesis by blast
qed

end
