(* ===== verification/Correlated_Chain.thy ===== *)
theory Correlated_Chain
  imports Correlated
begin

text \<open>
  validation.py, \<^verbatim>\<open>validate_correlated_restore_chain\<close>: the check of the cross-process records of
  a request. It groups them by episode, refuses a job owned by two episodes, and checks each
  group; \<open>complete_group\<close> is what an accepted group is.
\<close>

section \<open>The checker\<close>

text \<open>The identity of an episode: scheduler incarnation, request and recovery epoch.\<close>

datatype episode_key = EpisodeKey string string int

definition episode_key :: "correlated \<Rightarrow> episode_key" where
  "episode_key c =
     EpisodeKey (co_scheduler_generation c) (co_request_id c) (co_recovery_epoch c)"

definition record_jobs :: "correlated \<Rightarrow> int list" where
  "record_jobs c =
     (case co_job_id c of None \<Rightarrow> [] | Some j \<Rightarrow> [j]) @ map jr_job_id (co_roster c)"

text \<open>\<^verbatim>\<open>groups.setdefault(identity, []).append(record)\<close>\<close>

definition add_to_group ::
  "(episode_key, correlated list) dict \<Rightarrow> correlated \<Rightarrow> (episode_key, correlated list) dict" where
  "add_to_group groups c =
     (case map_of groups (episode_key c) of
        None \<Rightarrow> AList.update (episode_key c) [c] groups
      | Some items \<Rightarrow> AList.update (episode_key c) (items @ [c]) groups)"

primrec claim_jobs ::
  "episode_key \<Rightarrow> string \<Rightarrow> int list \<Rightarrow> (string \<times> int, episode_key) dict \<Rightarrow>
   (string \<times> int, episode_key) dict res" where
  "claim_jobs i scheduler [] owner = Inr owner"
| "claim_jobs i scheduler (j # js) owner =
     (if map_of owner (scheduler, j) \<noteq> None \<and> map_of owner (scheduler, j) \<noteq> Some i
      then Inl ValueError
      else claim_jobs i scheduler js (AList.update (scheduler, j) i owner))"

primrec group_records ::
  "(episode_key, correlated list) dict \<Rightarrow> (string \<times> int, episode_key) dict \<Rightarrow>
   correlated list \<Rightarrow> (episode_key, correlated list) dict res" where
  "group_records groups owner [] = Inr groups"
| "group_records groups owner (c # cs) =
     res_bind (claim_jobs (episode_key c) (co_scheduler_generation c) (record_jobs c) owner)
       (\<lambda>owner'. group_records (add_to_group groups c) owner' cs)"

definition having :: "correlated_event \<Rightarrow> correlated list \<Rightarrow> correlated list" where
  "having ev items = filter (\<lambda>c. co_event c = ev) items"

definition the_only :: "correlated_event \<Rightarrow> correlated list \<Rightarrow> correlated res" where
  "the_only ev items =
     (case having ev items of [c] \<Rightarrow> Inr c | _ \<Rightarrow> Inl ValueError)"

type_synonym stage_key = "int option \<times> int option \<times> string option"

definition stage_key :: "correlated \<Rightarrow> stage_key" where
  "stage_key c = (co_job_id c, co_rank c, co_worker_generation c)"

definition worker_key :: "correlated \<Rightarrow> int option \<times> string option" where
  "worker_key c = (co_rank c, co_worker_generation c)"

text \<open>The job, rank and generation of every worker of a roster.\<close>

definition expected_keys :: "job_receipt list \<Rightarrow> stage_key list" where
  "expected_keys roster =
     concat (map (\<lambda>j. map (\<lambda>w. (Some (jr_job_id j), Some (wr_rank w), Some (wr_generation w)))
       (jr_workers j)) roster)"

definition check :: "bool \<Rightarrow> unit res" where
  "check b = (if b then Inr () else Inl ValueError)"

lemma check_iff [simp]: "check b = Inr u \<longleftrightarrow> b"
  by (simp add: check_def)

text \<open>A lookup \<^verbatim>\<open>d[k]\<close>; a missing key raises.\<close>

definition item :: "('k, 'v) dict \<Rightarrow> 'k \<Rightarrow> 'v res" where
  "item d k = (case map_of d k of None \<Rightarrow> Inl KeyError | Some v \<Rightarrow> Inr v)"

definition check_receipt ::
  "(int option, job_receipt) dict \<Rightarrow> int \<Rightarrow> int \<Rightarrow> correlated \<Rightarrow> unit res" where
  "check_receipt roster requeued admitted c =
     res_bind (item roster (co_job_id c)) (\<lambda>j.
     check (co_workers c = jr_workers j \<and> requeued < co_observed_at_ns c \<and>
       co_observed_at_ns c < admitted))"

definition check_order ::
  "(stage_key, correlated) dict \<Rightarrow> (stage_key, correlated) dict \<Rightarrow> stage_key \<Rightarrow> unit res" where
  "check_order submitted completed k =
     res_bind (item completed k) (\<lambda>c. res_bind (item submitted k) (\<lambda>s.
     check (co_observed_at_ns s < co_observed_at_ns c)))"

definition check_compute ::
  "job_receipt list \<Rightarrow> stage_key list \<Rightarrow> (stage_key, correlated) dict \<Rightarrow> correlated \<Rightarrow> unit res"
  where
  "check_compute roster expected completed f =
     res_bind (check (co_roster f = roster)) (\<lambda>_.
     res_bind (res_map (\<lambda>k. res_bind (item completed k)
         (\<lambda>c. check (co_observed_at_ns c < co_observed_at_ns f)))
       (filter (\<lambda>k. snd k = worker_key f) expected)) (\<lambda>_. Inr ()))"

definition check_group :: "correlated list \<Rightarrow> unit res" where
  "check_group items =
     res_bind (the_only CE_RECOVERY_REQUEUED items) (\<lambda>requeued.
     res_bind (the_only CE_RECOVERY_ADMITTED items) (\<lambda>admitted.
     res_bind (check (co_observed_at_ns requeued < co_observed_at_ns admitted)) (\<lambda>_.
     let roster = dict_of (\<lambda>j. Some (jr_job_id j)) (co_roster admitted);
         receipts = having CE_TRANSFER_RECEIPT items;
         expected = expected_keys (co_roster admitted);
         submits = having CE_RESTORE_SUBMITTED items;
         completes = having CE_RESTORE_COMPLETED items;
         submitted = dict_of stage_key submits;
         completed = dict_of stage_key completes;
         computes = having CE_FIRST_COMPUTE items;
         by_worker = dict_of worker_key computes
     in
     res_bind (check (length receipts = length roster \<and>
       co_job_id ` set receipts = set (dict_keys roster))) (\<lambda>_.
     res_bind (res_map (check_receipt roster (co_observed_at_ns requeued)
       (co_observed_at_ns admitted)) receipts) (\<lambda>_.
     res_bind (check (length submitted = length submits \<and>
       set (dict_keys submitted) = set expected)) (\<lambda>_.
     res_bind (check (length completed = length completes \<and>
       set (dict_keys completed) = set expected)) (\<lambda>_.
     res_bind (res_map (check_order submitted completed) expected) (\<lambda>_.
     res_bind (check (length by_worker = length computes \<and>
       set (dict_keys by_worker) = snd ` set expected)) (\<lambda>_.
     res_bind (res_map (check_compute (co_roster admitted) expected completed)
       (map snd by_worker)) (\<lambda>_. Inr ()))))))))))"

definition validate_correlated :: "correlated list \<Rightarrow> string \<Rightarrow> nat res" where
  "validate_correlated records request_id =
     res_bind (group_records [] []
         (filter (\<lambda>c. co_request_id c = request_id) records)) (\<lambda>groups.
     if groups = [] then Inl ValueError
     else res_bind (res_map (\<lambda>p. check_group (snd p)) groups) (\<lambda>_. Inr (length groups)))"


section \<open>What an accepted group is\<close>

text \<open>
  One requeue and a later admission; exactly one receipt per admitted job, with the job's
  workers, strictly between the two; per worker of every job exactly one submission and one
  later completion; per worker incarnation exactly one first compute, of the admitted roster
  and later than all its completions.
\<close>

definition complete_group :: "correlated list \<Rightarrow> bool" where
  "complete_group items \<longleftrightarrow>
     (\<exists>q a. having CE_RECOVERY_REQUEUED items = [q] \<and> having CE_RECOVERY_ADMITTED items = [a] \<and>
        co_observed_at_ns q < co_observed_at_ns a \<and>
        exactly_one_each co_job_id (having CE_TRANSFER_RECEIPT items)
          ((\<lambda>j. Some (jr_job_id j)) ` set (co_roster a)) \<and>
        (\<forall>c \<in> set (having CE_TRANSFER_RECEIPT items). \<forall>j \<in> set (co_roster a).
           co_job_id c = Some (jr_job_id j) \<longrightarrow>
             co_workers c = jr_workers j \<and> co_observed_at_ns q < co_observed_at_ns c \<and>
             co_observed_at_ns c < co_observed_at_ns a) \<and>
        exactly_one_each stage_key (having CE_RESTORE_SUBMITTED items)
          (set (expected_keys (co_roster a))) \<and>
        exactly_one_each stage_key (having CE_RESTORE_COMPLETED items)
          (set (expected_keys (co_roster a))) \<and>
        (\<forall>s \<in> set (having CE_RESTORE_SUBMITTED items).
           \<forall>c \<in> set (having CE_RESTORE_COMPLETED items).
             stage_key s = stage_key c \<longrightarrow> co_observed_at_ns s < co_observed_at_ns c) \<and>
        exactly_one_each worker_key (having CE_FIRST_COMPUTE items)
          (snd ` set (expected_keys (co_roster a))) \<and>
        (\<forall>f \<in> set (having CE_FIRST_COMPUTE items). co_roster f = co_roster a \<and>
           (\<forall>c \<in> set (having CE_RESTORE_COMPLETED items).
              worker_key c = worker_key f \<longrightarrow> co_observed_at_ns c < co_observed_at_ns f)))"

lemma res_map_unit:
  "(\<exists>us. res_map f xs = Inr us) \<longleftrightarrow> (\<forall>x \<in> set xs. \<exists>u. f x = Inr u)"
  by (induction xs) auto

lemma the_only_iff: "the_only ev items = Inr c \<longleftrightarrow> having ev items = [c]"
  by (auto simp: the_only_def split: list.splits)

lemma item_iff: "item d k = Inr v \<longleftrightarrow> map_of d k = Some v"
  by (auto simp: item_def split: option.splits)

text \<open>Lookups in a dictionary whose keys are exact.\<close>

lemma exact_item:
  assumes "exactly_one_each key ms ks"
  shows "item (dict_of key ms) k = Inr v \<longleftrightarrow> v \<in> set ms \<and> key v = k"
proof -
  from assms have d: "distinct (map key ms)" by (simp add: exactly_one_each_iff)
  show ?thesis
  proof
    assume "item (dict_of key ms) k = Inr v"
    then have lk: "map_of (dict_of key ms) k = Some v" by (simp add: item_iff)
    then have "k \<in> fst ` set (dict_of key ms)" by (metis map_of_eq_None_iff option.distinct(1))
    then obtain m where "m \<in> set ms" "key m = k" by (auto simp: dict_of_keys)
    with lk dict_of_lookup [OF d] show "v \<in> set ms \<and> key v = k" by fastforce
  next
    assume "v \<in> set ms \<and> key v = k"
    with dict_of_lookup [OF d] show "item (dict_of key ms) k = Inr v" by (auto simp: item_iff)
  qed
qed

lemma exact_unique:
  assumes "exactly_one_each key ms ks" "x \<in> set ms" "y \<in> set ms" "key x = key y"
  shows "x = y"
  using assms by (metis exactly_one_each_iff distinct_map inj_onD)

lemma exact_mem: "exactly_one_each key ms ks \<Longrightarrow> k \<in> ks \<longleftrightarrow> (\<exists>m \<in> set ms. key m = k)"
  by (auto simp: exactly_one_each_iff)

lemma exact_values:
  assumes "exactly_one_each key ms ks"
  shows "snd ` set (dict_of key ms) = set ms"
proof -
  have "v \<in> snd ` set (dict_of key ms) \<longleftrightarrow> v \<in> set ms" for v
  proof -
    have "v \<in> snd ` set (dict_of key ms) \<longleftrightarrow> (\<exists>k. map_of (dict_of key ms) k = Some v)"
      using dict_of_ok [of key ms] by (force dest: map_of_SomeD intro: map_of_is_SomeI)
    also have "\<dots> \<longleftrightarrow> v \<in> set ms" using exact_item [OF assms] by (auto simp: item_iff)
    finally show ?thesis .
  qed
  then show ?thesis by blast
qed


lemma roster_exact:
  assumes "valid_jobs js"
  shows "exactly_one_each (\<lambda>j. Some (jr_job_id j)) js ((\<lambda>j. Some (jr_job_id j)) ` set js)"
proof -
  have "distinct (map (\<lambda>j. Some (jr_job_id j)) js)"
    using assms by (auto simp: valid_jobs_def distinct_map inj_on_def)
  then show ?thesis by (simp add: exactly_one_each_iff)
qed

lemma receipts_exact:
  assumes "valid_jobs js"
  shows "length ms = length (dict_of (\<lambda>j. Some (jr_job_id j)) js) \<and>
      key ` set ms = set (dict_keys (dict_of (\<lambda>j. Some (jr_job_id j)) js)) \<longleftrightarrow>
    exactly_one_each key ms ((\<lambda>j. Some (jr_job_id j)) ` set js)" (is "?l \<longleftrightarrow> ?r")
proof -
  let ?d = "dict_of (\<lambda>j. Some (jr_job_id j)) js"
  have keys: "set (dict_keys ?d) = (\<lambda>j. Some (jr_job_id j)) ` set js" by (simp add: dict_of_keys)
  have len: "length ?d = card ((\<lambda>j. Some (jr_job_id j)) ` set js)"
    using distinct_card [OF dict_of_ok, of "\<lambda>j. Some (jr_job_id j)" js] keys by simp
  have "length ms = card (key ` set ms) \<longleftrightarrow> distinct (map key ms)"
    by (metis card_distinct distinct_card length_map set_map)
  with keys len show ?thesis unfolding exactly_one_each_iff by auto
qed

lemma check_receipts:
  assumes "valid_jobs js" "exactly_one_each co_job_id rs ((\<lambda>j. Some (jr_job_id j)) ` set js)"
  shows "(\<exists>us. res_map (check_receipt (dict_of (\<lambda>j. Some (jr_job_id j)) js) lo hi) rs = Inr us) \<longleftrightarrow>
    (\<forall>c \<in> set rs. \<forall>j \<in> set js. co_job_id c = Some (jr_job_id j) \<longrightarrow>
       co_workers c = jr_workers j \<and> lo < co_observed_at_ns c \<and> co_observed_at_ns c < hi)"
proof -
  have "(\<exists>u. check_receipt (dict_of (\<lambda>j. Some (jr_job_id j)) js) lo hi c = Inr u) \<longleftrightarrow>
      (\<forall>j \<in> set js. co_job_id c = Some (jr_job_id j) \<longrightarrow>
       co_workers c = jr_workers j \<and> lo < co_observed_at_ns c \<and> co_observed_at_ns c < hi)"
    if c: "c \<in> set rs" for c
  proof -
    obtain j where j: "j \<in> set js" "co_job_id c = Some (jr_job_id j)"
      using c assms(2) by (auto simp: exactly_one_each_iff)
    have "j' = j" if "j' \<in> set js" "co_job_id c = Some (jr_job_id j')" for j'
      using that j exact_unique [OF roster_exact [OF assms(1)]] by metis
    moreover have "item (dict_of (\<lambda>j. Some (jr_job_id j)) js) (co_job_id c) = Inr j"
      using j exact_item [OF roster_exact [OF assms(1)]] by simp
    ultimately show ?thesis using j unfolding check_receipt_def by (simp, blast)
  qed
  then show ?thesis unfolding res_map_unit by blast
qed

lemma check_orders:
  assumes "exactly_one_each stage_key ss (set ks)" "exactly_one_each stage_key cs (set ks)"
  shows "(\<exists>us. res_map (check_order (dict_of stage_key ss) (dict_of stage_key cs)) ks = Inr us) \<longleftrightarrow>
    (\<forall>s \<in> set ss. \<forall>c \<in> set cs. stage_key s = stage_key c \<longrightarrow>
       co_observed_at_ns s < co_observed_at_ns c)"
proof -
  have one: "(\<exists>u. check_order (dict_of stage_key ss) (dict_of stage_key cs) k = Inr u) \<longleftrightarrow>
      (\<forall>s \<in> set ss. \<forall>c \<in> set cs. stage_key s = k \<longrightarrow> stage_key c = k \<longrightarrow>
         co_observed_at_ns s < co_observed_at_ns c)"
    if "k \<in> set ks" for k
  proof -
    from that assms obtain s c where sc: "s \<in> set ss" "stage_key s = k" "c \<in> set cs"
      "stage_key c = k"
      using exact_mem [OF assms(1), of k] exact_mem [OF assms(2), of k] by blast
    have s: "s' = s" if "s' \<in> set ss" "stage_key s' = k" for s'
      using that sc exact_unique [OF assms(1)] by metis
    have c: "c' = c" if "c' \<in> set cs" "stage_key c' = k" for c'
      using that sc exact_unique [OF assms(2)] by metis
    have "item (dict_of stage_key cs) k = Inr c" "item (dict_of stage_key ss) k = Inr s"
      using sc exact_item [OF assms(1)] exact_item [OF assms(2)] by blast+
    then have "(\<exists>u. check_order (dict_of stage_key ss) (dict_of stage_key cs) k = Inr u) \<longleftrightarrow>
        co_observed_at_ns s < co_observed_at_ns c" by (simp add: check_order_def)
    also have "\<dots> \<longleftrightarrow> (\<forall>s \<in> set ss. \<forall>c \<in> set cs. stage_key s = k \<longrightarrow> stage_key c = k \<longrightarrow>
        co_observed_at_ns s < co_observed_at_ns c)"
    proof
      assume lt: "co_observed_at_ns s < co_observed_at_ns c"
      show "\<forall>s \<in> set ss. \<forall>c \<in> set cs. stage_key s = k \<longrightarrow> stage_key c = k \<longrightarrow>
          co_observed_at_ns s < co_observed_at_ns c"
      proof (intro ballI impI)
        fix s' c'
        assume "s' \<in> set ss" "c' \<in> set cs" "stage_key s' = k" "stage_key c' = k"
        then have "s' = s" "c' = c" using s c by simp_all
        with lt show "co_observed_at_ns s' < co_observed_at_ns c'" by simp
      qed
    next
      assume "\<forall>s \<in> set ss. \<forall>c \<in> set cs. stage_key s = k \<longrightarrow> stage_key c = k \<longrightarrow>
        co_observed_at_ns s < co_observed_at_ns c"
      with sc show "co_observed_at_ns s < co_observed_at_ns c" by simp
    qed
    finally show ?thesis .
  qed
  have mem: "stage_key s \<in> set ks" if "s \<in> set ss" for s
    using that assms(1) by (auto simp: exact_mem)
  show ?thesis unfolding res_map_unit using one mem by (metis (no_types, lifting))
qed

lemma check_computes:
  assumes "exactly_one_each stage_key cs (set ks)"
  shows "(\<exists>u. check_compute js ks (dict_of stage_key cs) f = Inr u) \<longleftrightarrow>
    co_roster f = js \<and> (\<forall>c \<in> set cs. worker_key c = worker_key f \<longrightarrow>
       co_observed_at_ns c < co_observed_at_ns f)"
proof -
  have one: "(\<exists>u. res_bind (item (dict_of stage_key cs) k)
        (\<lambda>c. check (co_observed_at_ns c < co_observed_at_ns f)) = Inr u) \<longleftrightarrow>
      (\<forall>c \<in> set cs. stage_key c = k \<longrightarrow> co_observed_at_ns c < co_observed_at_ns f)"
    if "k \<in> set ks" for k
  proof -
    from that assms obtain c where c: "c \<in> set cs" "stage_key c = k"
      using exact_mem [OF assms, of k] by blast
    have u: "c' = c" if "c' \<in> set cs" "stage_key c' = k" for c'
      using that c exact_unique [OF assms] by metis
    have "item (dict_of stage_key cs) k = Inr c" using c exact_item [OF assms] by blast
    then have "(\<exists>u. res_bind (item (dict_of stage_key cs) k)
        (\<lambda>c. check (co_observed_at_ns c < co_observed_at_ns f)) = Inr u) \<longleftrightarrow>
      co_observed_at_ns c < co_observed_at_ns f" by simp
    also have "\<dots> \<longleftrightarrow> (\<forall>c \<in> set cs. stage_key c = k \<longrightarrow> co_observed_at_ns c < co_observed_at_ns f)"
      using c u by metis
    finally show ?thesis .
  qed
  have mem: "stage_key c \<in> set ks" if "c \<in> set cs" for c
    using that assms by (auto simp: exact_mem)
  have sel: "snd (stage_key c) = worker_key c" for c by (simp add: stage_key_def worker_key_def)
  have "(\<exists>us. res_map (\<lambda>k. res_bind (item (dict_of stage_key cs) k)
        (\<lambda>c. check (co_observed_at_ns c < co_observed_at_ns f)))
        (filter (\<lambda>k. snd k = worker_key f) ks) = Inr us) \<longleftrightarrow>
      (\<forall>c \<in> set cs. worker_key c = worker_key f \<longrightarrow> co_observed_at_ns c < co_observed_at_ns f)"
    (is "?l \<longleftrightarrow> ?r")
  proof -
    have "?l \<longleftrightarrow> (\<forall>k \<in> {k \<in> set ks. snd k = worker_key f}. \<forall>c \<in> set cs. stage_key c = k \<longrightarrow>
        co_observed_at_ns c < co_observed_at_ns f)"
      unfolding res_map_unit set_filter using one by auto
    also have "\<dots> \<longleftrightarrow> ?r"
    proof
      assume ?r
      then show "\<forall>k \<in> {k \<in> set ks. snd k = worker_key f}. \<forall>c \<in> set cs. stage_key c = k \<longrightarrow>
          co_observed_at_ns c < co_observed_at_ns f"
        using sel by (metis (mono_tags, lifting) mem_Collect_eq)
    next
      assume all: "\<forall>k \<in> {k \<in> set ks. snd k = worker_key f}. \<forall>c \<in> set cs. stage_key c = k \<longrightarrow>
        co_observed_at_ns c < co_observed_at_ns f"
      show ?r
      proof (intro ballI impI)
        fix c
        assume c: "c \<in> set cs" "worker_key c = worker_key f"
        then have "stage_key c \<in> {k \<in> set ks. snd k = worker_key f}"
          using mem [of c] sel [of c] unfolding mem_Collect_eq by (intro conjI) simp_all
        with all c(1) show "co_observed_at_ns c < co_observed_at_ns f" by blast
      qed
    qed
    finally show ?thesis .
  qed
  then show ?thesis by (auto simp: check_compute_def)
qed


lemma check_group_iff:
  assumes "\<forall>c \<in> set items. valid_jobs (co_roster c)"
  shows "check_group items = Inr u \<longleftrightarrow> complete_group items"
proof (cases "\<exists>q a. having CE_RECOVERY_REQUEUED items = [q] \<and> having CE_RECOVERY_ADMITTED items = [a]")
  case False
  then have "\<not> complete_group items" unfolding complete_group_def by blast
  moreover have "check_group items \<noteq> Inr u"
    using False unfolding check_group_def res_bind_Inr the_only_iff by blast
  ultimately show ?thesis by simp
next
  case True
  then obtain q a where q: "having CE_RECOVERY_REQUEUED items = [q]"
    and a: "having CE_RECOVERY_ADMITTED items = [a]" by blast
  have "a \<in> set (having CE_RECOVERY_ADMITTED items)" using a by simp
  then have jobs: "valid_jobs (co_roster a)" using assms by (simp add: having_def)
  let ?rs = "having CE_TRANSFER_RECEIPT items" and ?ss = "having CE_RESTORE_SUBMITTED items"
  let ?cs = "having CE_RESTORE_COMPLETED items" and ?fs = "having CE_FIRST_COMPUTE items"
  let ?ks = "expected_keys (co_roster a)" and ?jk = "\<lambda>j. Some (jr_job_id j)"
  let ?lo = "co_observed_at_ns q" and ?hi = "co_observed_at_ns a"
  have qa: "the_only CE_RECOVERY_REQUEUED items = Inr q" "the_only CE_RECOVERY_ADMITTED items = Inr a"
    using q a by (simp_all add: the_only_iff)
  have "check_group items = Inr u \<longleftrightarrow> ?lo < ?hi \<and>
      exactly_one_each co_job_id ?rs (?jk ` set (co_roster a)) \<and>
      (\<exists>us. res_map (check_receipt (dict_of ?jk (co_roster a)) ?lo ?hi) ?rs = Inr us) \<and>
      exactly_one_each stage_key ?ss (set ?ks) \<and> exactly_one_each stage_key ?cs (set ?ks) \<and>
      (\<exists>us. res_map (check_order (dict_of stage_key ?ss) (dict_of stage_key ?cs)) ?ks = Inr us) \<and>
      exactly_one_each worker_key ?fs (snd ` set ?ks) \<and>
      (\<exists>us. res_map (check_compute (co_roster a) ?ks (dict_of stage_key ?cs))
         (map snd (dict_of worker_key ?fs)) = Inr us)"
    unfolding check_group_def qa res_bind_simps Let_def res_bind_Inr check_iff dict_of_exact
      receipts_exact [OF jobs]
    by (simp only: ex_simps simp_thms) simp
  also have "\<dots> \<longleftrightarrow> complete_group items"
  proof -
    have computes: "(\<exists>us. res_map (check_compute (co_roster a) ?ks (dict_of stage_key ?cs))
        (map snd (dict_of worker_key ?fs)) = Inr us) \<longleftrightarrow>
      (\<forall>f \<in> set ?fs. co_roster f = co_roster a \<and> (\<forall>c \<in> set ?cs. worker_key c = worker_key f \<longrightarrow>
         co_observed_at_ns c < co_observed_at_ns f))"
      if "exactly_one_each worker_key ?fs (snd ` set ?ks)" "exactly_one_each stage_key ?cs (set ?ks)"
      unfolding res_map_unit set_map exact_values [OF that(1)] check_computes [OF that(2)] ..
    show ?thesis
      unfolding complete_group_def q a
      using check_receipts [OF jobs, of ?rs ?lo ?hi] check_orders [of ?ss ?ks ?cs] computes
      by (simp cong: conj_cong) 
  qed
  finally show ?thesis .
qed


section \<open>Grouping\<close>

definition group :: "episode_key \<Rightarrow> correlated list \<Rightarrow> correlated list" where
  "group i cs = filter (\<lambda>c. episode_key c = i) cs"

definition groups_ok :: "(episode_key, correlated list) dict \<Rightarrow> correlated list \<Rightarrow> bool" where
  "groups_ok groups cs \<longleftrightarrow>
     dict_ok groups \<and>
     (\<forall>i. map_of groups i = (if group i cs = [] then None else Some (group i cs)))"

text \<open>A job of a scheduler incarnation belongs to one episode.\<close>

definition jobs_owned :: "correlated list \<Rightarrow> bool" where
  "jobs_owned cs \<longleftrightarrow>
     (\<forall>c \<in> set cs. \<forall>c' \<in> set cs. \<forall>j.
        co_scheduler_generation c = co_scheduler_generation c' \<longrightarrow>
        j \<in> set (record_jobs c) \<longrightarrow> j \<in> set (record_jobs c') \<longrightarrow> episode_key c = episode_key c')"

definition owner_ok :: "(string \<times> int, episode_key) dict \<Rightarrow> correlated list \<Rightarrow> bool" where
  "owner_ok owner cs \<longleftrightarrow>
     (\<forall>s j i. map_of owner (s, j) = Some i \<longleftrightarrow>
        (\<exists>c \<in> set cs. co_scheduler_generation c = s \<and> j \<in> set (record_jobs c) \<and>
           episode_key c = i))"

lemma jobs_ownedD:
  "jobs_owned cs \<Longrightarrow> c \<in> set cs \<Longrightarrow> c' \<in> set cs \<Longrightarrow>
     co_scheduler_generation c = co_scheduler_generation c' \<Longrightarrow> j \<in> set (record_jobs c) \<Longrightarrow>
     j \<in> set (record_jobs c') \<Longrightarrow> episode_key c = episode_key c'"
  unfolding jobs_owned_def by blast

lemma group_snoc: "group i (cs @ [c]) = group i cs @ (if episode_key c = i then [c] else [])"
  by (simp add: group_def)

lemma add_to_group_ok:
  assumes "groups_ok groups cs"
  shows "groups_ok (add_to_group groups c) (cs @ [c])"
proof -
  have g: "map_of groups i = (if group i cs = [] then None else Some (group i cs))" for i
    using assms by (simp add: groups_ok_def)
  have "map_of (add_to_group groups c) i =
      (if i = episode_key c then Some (group i cs @ [c]) else map_of groups i)" for i
    by (simp add: add_to_group_def g)
  moreover have "dict_ok (add_to_group groups c)"
    using assms by (simp add: groups_ok_def add_to_group_def split: option.split)
  ultimately show ?thesis
    using assms by (simp add: groups_ok_def group_snoc)
qed

lemma claim_jobs_iff:
  "claim_jobs i s js owner = Inr owner' \<longleftrightarrow>
     (\<forall>j \<in> set js. map_of owner (s, j) = None \<or> map_of owner (s, j) = Some i) \<and>
     owner' = foldl (\<lambda>d j. AList.update (s, j) i d) owner js"
proof (induction js arbitrary: owner)
  case Nil
  then show ?case by auto
next
  case (Cons j js)
  let ?ok = "\<lambda>d k. map_of d (s, k) = None \<or> map_of d (s, k) = Some i"
  have upd: "?ok (AList.update (s, j) i owner) k \<longleftrightarrow> k = j \<or> ?ok owner k" for k by simp
  show ?case
  proof (cases "?ok owner j")
    case True
    then have "claim_jobs i s (j # js) owner = claim_jobs i s js (AList.update (s, j) i owner)"
      by auto
    moreover have "(\<forall>k \<in> set js. k = j \<or> ?ok owner k) \<longleftrightarrow> (\<forall>k \<in> set js. ?ok owner k)"
      using True by auto
    ultimately show ?thesis using Cons.IH True unfolding upd by auto
  next
    case False
    then have "claim_jobs i s (j # js) owner = Inl ValueError" by simp
    with False show ?thesis by simp
  qed
qed

lemma claimed_lookup:
  "map_of (foldl (\<lambda>d j. AList.update (s, j) i d) owner js) (s', j') =
     (if s' = s \<and> j' \<in> set js then Some i else map_of owner (s', j'))"
  by (induction js arbitrary: owner) auto

lemma claim_jobs_ok:
  assumes own: "owner_ok owner cs" "jobs_owned cs"
  shows "(\<exists>owner'. claim_jobs (episode_key c) (co_scheduler_generation c) (record_jobs c) owner =
      Inr owner') \<longleftrightarrow> jobs_owned (cs @ [c])" (is "?l \<longleftrightarrow> _")
    and "claim_jobs (episode_key c) (co_scheduler_generation c) (record_jobs c) owner = Inr owner' \<Longrightarrow>
      owner_ok owner' (cs @ [c])"
proof -
  have free: "(map_of owner (co_scheduler_generation c, j) = None \<or>
      map_of owner (co_scheduler_generation c, j) = Some (episode_key c)) \<longleftrightarrow>
      (\<forall>c' \<in> set cs. co_scheduler_generation c' = co_scheduler_generation c \<longrightarrow>
         j \<in> set (record_jobs c') \<longrightarrow> episode_key c' = episode_key c)" for j
  proof (cases "map_of owner (co_scheduler_generation c, j)")
    case None
    then have "\<not> (\<exists>c' \<in> set cs. co_scheduler_generation c' = co_scheduler_generation c \<and>
        j \<in> set (record_jobs c'))"
      using own(1) unfolding owner_ok_def by (metis option.distinct(1))
    with None show ?thesis by blast
  next
    case (Some i)
    then obtain c' where "c' \<in> set cs" "co_scheduler_generation c' = co_scheduler_generation c"
      "j \<in> set (record_jobs c')" "episode_key c' = i"
      using own(1) unfolding owner_ok_def by blast
    moreover from this have "episode_key x = i" if "x \<in> set cs" "j \<in> set (record_jobs x)"
      "co_scheduler_generation x = co_scheduler_generation c" for x
      using that by (metis jobs_ownedD [OF own(2)])
    ultimately show ?thesis using Some by auto
  qed
  have "?l \<longleftrightarrow> (\<forall>j \<in> set (record_jobs c). \<forall>c' \<in> set cs.
      co_scheduler_generation c' = co_scheduler_generation c \<longrightarrow>
      j \<in> set (record_jobs c') \<longrightarrow> episode_key c' = episode_key c)"
    unfolding claim_jobs_iff free by blast
  also have "\<dots> \<longleftrightarrow> jobs_owned (cs @ [c])"
  proof
    assume new: "\<forall>j \<in> set (record_jobs c). \<forall>c' \<in> set cs.
      co_scheduler_generation c' = co_scheduler_generation c \<longrightarrow>
      j \<in> set (record_jobs c') \<longrightarrow> episode_key c' = episode_key c"
    show "jobs_owned (cs @ [c])"
      unfolding jobs_owned_def
    proof (intro ballI allI impI)
      fix x y j
      assume x: "x \<in> set (cs @ [c])" and y: "y \<in> set (cs @ [c])"
        and s: "co_scheduler_generation x = co_scheduler_generation y"
        and j: "j \<in> set (record_jobs x)" "j \<in> set (record_jobs y)"
      consider "x \<in> set cs" "y \<in> set cs" | "x = c" "y = c" | "x = c" "y \<in> set cs"
        | "x \<in> set cs" "y = c"
        using x y by auto
      then show "episode_key x = episode_key y"
      proof cases
        case 1
        with own(2) s j show ?thesis by (intro jobs_ownedD)
      next
        case 2
        then show ?thesis by simp
      next
        case 3
        with new j have "co_scheduler_generation y = co_scheduler_generation c \<longrightarrow>
            episode_key y = episode_key c" by blast
        with 3 s show ?thesis by simp
      next
        case 4
        with new j have "co_scheduler_generation x = co_scheduler_generation c \<longrightarrow>
            episode_key x = episode_key c" by blast
        with 4 s show ?thesis by simp
      qed
    qed
  next
    assume all: "jobs_owned (cs @ [c])"
    show "\<forall>j \<in> set (record_jobs c). \<forall>c' \<in> set cs.
      co_scheduler_generation c' = co_scheduler_generation c \<longrightarrow>
      j \<in> set (record_jobs c') \<longrightarrow> episode_key c' = episode_key c"
    proof (intro ballI impI)
      fix j c'
      assume "j \<in> set (record_jobs c)" "c' \<in> set cs"
        "co_scheduler_generation c' = co_scheduler_generation c" "j \<in> set (record_jobs c')"
      then show "episode_key c' = episode_key c" by (intro jobs_ownedD [OF all, of c' c j]) simp_all
    qed
  qed
  finally show "?l \<longleftrightarrow> jobs_owned (cs @ [c])" .
  assume cl: "claim_jobs (episode_key c) (co_scheduler_generation c) (record_jobs c) owner = Inr owner'"
  show "owner_ok owner' (cs @ [c])"
    unfolding owner_ok_def
  proof (intro allI)
    fix s j i
    have new: "map_of owner' (s, j) = (if s = co_scheduler_generation c \<and> j \<in> set (record_jobs c)
        then Some (episode_key c) else map_of owner (s, j))"
      using cl unfolding claim_jobs_iff by (simp add: claimed_lookup)
    have old: "map_of owner (s, j) = Some i \<longleftrightarrow>
        (\<exists>c \<in> set cs. co_scheduler_generation c = s \<and> j \<in> set (record_jobs c) \<and> episode_key c = i)"
      using own(1) unfolding owner_ok_def by blast
    show "map_of owner' (s, j) = Some i \<longleftrightarrow> (\<exists>c \<in> set (cs @ [c]).
        co_scheduler_generation c = s \<and> j \<in> set (record_jobs c) \<and> episode_key c = i)"
    proof (cases "s = co_scheduler_generation c \<and> j \<in> set (record_jobs c)")
      case False
      with new old show ?thesis by auto
    next
      case True
      with cl have "map_of owner (s, j) = None \<or> map_of owner (s, j) = Some (episode_key c)"
        unfolding claim_jobs_iff by auto
      with True new old show ?thesis by auto
    qed
  qed
qed


lemma jobs_owned_prefix: "jobs_owned (cs @ ds) \<Longrightarrow> jobs_owned cs"
  unfolding jobs_owned_def by simp

lemma group_records_iff:
  assumes "groups_ok groups pre" "owner_ok owner pre" "jobs_owned pre"
  shows "(\<exists>gs. group_records groups owner cs = Inr gs) \<longleftrightarrow> jobs_owned (pre @ cs)" (is ?exact)
    and "group_records groups owner cs = Inr gs \<Longrightarrow> groups_ok gs (pre @ cs)"
proof -
  have "((\<exists>gs. group_records groups owner cs = Inr gs) \<longleftrightarrow> jobs_owned (pre @ cs)) \<and>
      (\<forall>gs. group_records groups owner cs = Inr gs \<longrightarrow> groups_ok gs (pre @ cs))"
    using assms
  proof (induction cs arbitrary: groups owner pre)
    case Nil
    then show ?case by simp
  next
    case (Cons c cs)
    note claim = claim_jobs_ok [OF Cons.prems(2,3), of c]
    show ?case
    proof (cases "jobs_owned (pre @ [c])")
      case False
      then have "\<not> jobs_owned (pre @ c # cs)" using jobs_owned_prefix [of "pre @ [c]" cs] by auto
      with False claim(1) show ?thesis by auto
    next
      case True
      with claim(1) obtain owner' where o: "claim_jobs (episode_key c) (co_scheduler_generation c)
          (record_jobs c) owner = Inr owner'" by blast
      from Cons.IH [OF add_to_group_ok [OF Cons.prems(1)] claim(2) [OF o] True] o
      show ?thesis by simp
    qed
  qed
  then show ?exact "group_records groups owner cs = Inr gs \<Longrightarrow> groups_ok gs (pre @ cs)"
    by blast+
qed

lemma groups_keys: "groups_ok groups cs \<Longrightarrow> fst ` set groups = episode_key ` set cs"
proof -
  assume ok: "groups_ok groups cs"
  have "i \<in> fst ` set groups \<longleftrightarrow> i \<in> episode_key ` set cs" for i
  proof -
    have "i \<in> fst ` set groups \<longleftrightarrow> map_of groups i \<noteq> None"
      by (simp add: map_of_eq_None_iff)
    also have "\<dots> \<longleftrightarrow> group i cs \<noteq> []" using ok unfolding groups_ok_def by simp
    also have "\<dots> \<longleftrightarrow> i \<in> episode_key ` set cs" by (auto simp: group_def filter_empty_conv)
    finally show ?thesis .
  qed
  then show ?thesis by blast
qed

text \<open>The records of the request, as the checker selects them.\<close>

definition of_request :: "string \<Rightarrow> correlated list \<Rightarrow> correlated list" where
  "of_request rid cs = filter (\<lambda>c. co_request_id c = rid) cs"

lemma valid_correlated_jobs: "valid_correlated c \<Longrightarrow> valid_jobs (co_roster c)"
proof -
  assume "valid_correlated c"
  then have "make_correlated (corr_args_of c) = Inr c" by (simp add: make_correlated_iff)
  then show ?thesis unfolding make_correlated_parts by blast
qed

lemma validate_correlated_iff:
  assumes "\<forall>c \<in> set cs. valid_correlated c"
  shows "validate_correlated cs rid = Inr k \<longleftrightarrow>
    of_request rid cs \<noteq> [] \<and> jobs_owned (of_request rid cs) \<and>
    k = card (episode_key ` set (of_request rid cs)) \<and>
    (\<forall>i \<in> episode_key ` set (of_request rid cs). complete_group (group i (of_request rid cs)))"
proof -
  let ?rs = "of_request rid cs"
  have init: "groups_ok [] []" "owner_ok [] []" "jobs_owned []"
    by (simp_all add: groups_ok_def owner_ok_def jobs_owned_def group_def)
  note loop = group_records_iff [OF init, of ?rs, unfolded append_Nil]
  show ?thesis
  proof (cases "jobs_owned ?rs")
    case False
    with loop(1) have "\<not> (\<exists>gs. group_records [] [] ?rs = Inr gs)" by blast
    with False show ?thesis by (auto simp: validate_correlated_def of_request_def)
  next
    case True
    with loop(1) obtain gs where gs: "group_records [] [] ?rs = Inr gs" by blast
    from loop(2) [OF gs] have ok: "groups_ok gs ?rs" .
    have len: "length gs = card (episode_key ` set ?rs)"
      using ok distinct_card [of "dict_keys gs"] groups_keys [OF ok]
      unfolding groups_ok_def by simp
    have empty: "gs = [] \<longleftrightarrow> ?rs = []" using groups_keys [OF ok] by auto
    have entry: "(i, g) \<in> set gs \<longleftrightarrow> g = group i ?rs \<and> i \<in> episode_key ` set ?rs" for i g
    proof -
      have "dict_ok gs" and lk: "map_of gs i = (if group i ?rs = [] then None
          else Some (group i ?rs))" using ok by (simp_all only: groups_ok_def)
      from this(1) have "(i, g) \<in> set gs \<longleftrightarrow> map_of gs i = Some g" by simp
      also have "\<dots> \<longleftrightarrow> g = group i ?rs \<and> group i ?rs \<noteq> []" unfolding lk by auto
      also have "\<dots> \<longleftrightarrow> g = group i ?rs \<and> i \<in> episode_key ` set ?rs"
        by (auto simp: group_def filter_empty_conv)
      finally show ?thesis .
    qed
    have jobs: "\<forall>c \<in> set (group i ?rs). valid_jobs (co_roster c)" for i
      using assms by (auto simp: group_def of_request_def intro: valid_correlated_jobs)
    have "(\<exists>us. res_map (\<lambda>p. check_group (snd p)) gs = Inr us) \<longleftrightarrow>
        (\<forall>i \<in> episode_key ` set ?rs. complete_group (group i ?rs))"
      unfolding res_map_unit using entry check_group_iff [OF jobs] by fastforce
    then show ?thesis
      using True gs empty len
      by (auto simp: validate_correlated_def of_request_def)
  qed
qed

end
