(* ===== verification/Chain_Validation.thy ===== *)
theory Chain_Validation
  imports Restore_Chain Correlated_Chain
begin

text \<open>
  validation.py: the entry point of the restore-chain check, which hands a request with
  correlated records to the cross-process check and any other to the episode check.
\<close>

definition correlated_of :: "event_record list \<Rightarrow> correlated list" where
  "correlated_of records =
     List.map_filter (\<lambda>r. case r of RecCorrelated c \<Rightarrow> Some c | _ \<Rightarrow> None) records"

definition validate_restore_chain :: "event_record list \<Rightarrow> string \<Rightarrow> nat res" where
  "validate_restore_chain records request_id =
     (if list_ex (\<lambda>c. co_request_id c = request_id) (correlated_of records)
      then validate_correlated (correlated_of records) request_id
      else validate_episodes records request_id)"

section \<open>Example records\<close>

definition demo_requeue :: kv_observation where
  "demo_requeue = embed demo_identity 5 (Recovery_Requeued BLOCK_CAPACITY)"

text \<open>The first compute carries a receipt of its own: the check refuses a reused one.\<close>

definition demo_compute_receipt :: receipt_identity where
  "demo_compute_receipt = ReceiptIdentity (replicate 32 (CHR ''a'') @ '':k:10'')"

definition demo_records :: "event_record list" where
  "demo_records = map RecObservation ([demo_requeue] @ demo_log @
     [embed demo_identity 40 (First_Compute demo_compute_receipt [demo_transfer] PREFILL)])"

definition demo_worker :: worker_receipt where
  "demo_worker = WorkerReceipt 0 (replicate 32 (CHR ''b''))"

definition demo_roster :: "job_receipt list" where
  "demo_roster = [JobReceipt 7 [demo_worker]]"

definition demo_link :: "int \<Rightarrow> recovery_link \<Rightarrow> correlated" where
  "demo_link t l = embed_link (replicate 32 (CHR ''c'')) ''req-1'' 1 t l"

definition demo_links :: "correlated list" where
  "demo_links =
     [demo_link 10 Requeued_Link,
      demo_link 500 (Submitted_Link 7 0 (replicate 32 (CHR ''b'')) 4),
      demo_link 600 (Completed_Link 7 0 (replicate 32 (CHR ''b''))),
      demo_link 20 (Receipt_Link 7 [demo_worker]),
      demo_link 30 (Admitted_Link demo_roster),
      demo_link 700 (Compute_Link 0 (replicate 32 (CHR ''b'')) demo_roster (PStr ''decode''))]"

lemma demo_observations_valid:
  "\<forall>ob \<in> set (observations_of demo_records). valid_observation ob"
proof -
  have "list_all (\<lambda>ob. kv_transfer_observation (args_of ob) = Inr ob) (observations_of demo_records)"
    by code_simp
  then have "\<forall>ob \<in> set (observations_of demo_records). legal_observation ob"
    by (simp add: list_all_iff observation_iff)
  moreover have "valid_receipt demo_compute_receipt"
  proof -
    have "receipt_identity (PStr (receipt_value demo_compute_receipt)) = Inr demo_compute_receipt"
      by code_simp
    then show ?thesis by (simp add: receipt_identity_iff)
  qed
  then have "\<forall>ob \<in> set (observations_of demo_records). valid_parts ob"
    by (simp add: observations_of_def demo_records_def demo_log_def demo_requeue_def
        map_filter_def valid_parts_def emits demo_valid)
  ultimately show ?thesis by (simp add: valid_observation_def)
qed

lemma demo_links_valid: "\<forall>c \<in> set demo_links. valid_correlated c"
proof -
  have ok: "process_uuid_ok (replicate 32 (CHR ''b''))" "process_uuid_ok (replicate 32 (CHR ''c''))"
    "valid_request_id ''req-1''"
    by code_simp+
  then have link: "valid_correlated (demo_link t l)" if "link_ok l" "0 \<le> t" "t \<le> UINT64_MAX" for t l
    unfolding valid_correlated_def demo_link_def using that by fastforce
  have "valid_jobs demo_roster" "valid_workers [demo_worker]" "demo_roster \<noteq> []"
    by (simp_all add: demo_roster_def valid_jobs_def valid_workers_def MAX_CORRELATED_ROSTER_def)
  with ok show ?thesis by (simp add: demo_links_def link)
qed

lemma relevant_of_append: "relevant_of rid (rs @ rs') = relevant_of rid rs @ relevant_of rid rs'"
  by (induction rs) (simp_all add: relevant_of_Cons relevant_of_def map_filter_def split: event_record.split)

text \<open>A completion that stands before the start of its restore is refused, whatever surrounds them.\<close>

lemma reordered_restore_refused:
  assumes "ob_event st = RESTORE_STARTED" "ob_event ob = RESTORE_COMPLETED"
    "ob_transfer st = ob_transfer ob" "ob_transfer ob \<noteq> None"
    "id_request_id (ob_identity st) = rid" "id_request_id (ob_identity ob) = rid"
    "records = before @ RecObservation ob # between @ RecObservation st # after"
    "correlated_of records = []" "\<forall>x \<in> set (observations_of records). valid_observation x"
  shows "\<not> is_ok (validate_restore_chain records rid)"
proof
  assume "is_ok (validate_restore_chain records rid)"
  then obtain k where "validate_episodes records rid = Inr k"
    using assms(8) by (auto simp: validate_restore_chain_def is_ok_def split: sum.splits)
  from validate_episodes_sound [OF this assms(9)]
  have laws: "\<forall>t. starts t (relevant_of rid records) \<le> 1"
    "each_after measured (relevant_of rid records)" by blast+
  obtain t where t: "ob_transfer ob = Some t" using assms(4) by blast
  have shape: "relevant_of rid records =
      relevant_of rid before @ ob # relevant_of rid between @ st # relevant_of rid after"
    using assms(1,2,5-7) by (simp add: relevant_of_append relevant_of_Cons relevant_def)
  with laws(2) have "measured (relevant_of rid before) ob" unfolding each_after_def by blast
  then obtain st' where st': "st' \<in> set (relevant_of rid before)" "started_by st' ob"
    using assms(2) by (auto simp: measured_def)
  then obtain xs ys where split: "relevant_of rid before = xs @ st' # ys" by (meson split_list)
  have "ob_transfer st' = Some t" "ob_event st' = RESTORE_STARTED"
    using st'(2) assms(2) t by (auto simp: started_by_def)
  then have "2 \<le> starts t (relevant_of rid records)"
    using assms(1,3) t by (simp add: shape split starts_def)
  with laws(1) show False by (metis not_less_eq_eq numeral_2_eq_2 One_nat_def)
qed

section \<open>Properties of the chain checks\<close>

text \<open>
  C11: an accepted request is complete. When no correlated record mentions the request and the
  observations are valid, acceptance with \<open>k\<close> means: the request's identities are exactly \<open>k\<close>,
  at least one, and each one's relevant records are, in time order, a requeue, restores only,
  the admission of exactly the transfers started and completed, and the first compute of that
  roster; no transfer starts twice, no receipt is reused over the whole request, every first
  compute is backed by its causal chain and every completion measured from its own start.
\<close>

theorem accepted_chain_complete:
  assumes "validate_restore_chain records rid = Inr k"
    and "\<not> list_ex (\<lambda>c. co_request_id c = rid) (correlated_of records)"
    and "\<forall>ob \<in> set (observations_of records). valid_observation ob"
  shows "k = card (ob_identity ` set (relevant_of rid records)) \<and> 0 < k \<and>
    (\<forall>i \<in> ob_identity ` set (relevant_of rid records).
       complete_episode (trace i (relevant_of rid records))) \<and>
    (\<forall>t. starts t (relevant_of rid records) \<le> 1) \<and>
    distinct (receipts_of (relevant_of rid records)) \<and>
    each_after caused (relevant_of rid records) \<and>
    each_after measured (relevant_of rid records)"
  using validate_episodes_sound [OF _ assms(3)] assms(1,2)
  by (simp add: validate_restore_chain_def)


theorem accepted_chain_complete_witness:
  "complete_episode (trace demo_identity (relevant_of ''req-1'' demo_records)) \<and>
   (\<forall>t. starts t (relevant_of ''req-1'' demo_records) \<le> 1)"
proof -
  have acc: "validate_restore_chain demo_records ''req-1'' = Inr 1" by code_simp
  have none: "\<not> list_ex (\<lambda>c. co_request_id c = ''req-1'') (correlated_of demo_records)"
    by (simp add: correlated_of_def demo_records_def map_filter_def)
  have "demo_identity \<in> ob_identity ` set (relevant_of ''req-1'' demo_records)"
  proof -
    have "list_ex (\<lambda>ob. ob_identity ob = demo_identity) (relevant_of ''req-1'' demo_records)"
      by code_simp
    then obtain ob where "ob_identity ob = demo_identity"
      "ob \<in> set (relevant_of ''req-1'' demo_records)" by (auto simp: list_ex_iff)
    then show ?thesis by (rule image_eqI [OF sym])
  qed
  with accepted_chain_complete [OF acc none demo_observations_valid] show ?thesis by blast
qed

text \<open>
  C12: the cross-process check is exact. When a correlated record mentions the request and the
  correlated records are valid, the check accepts with \<open>k\<close> if and only if the request's
  episodes are exactly \<open>k\<close>, no job of a scheduler incarnation belongs to two of them, and each
  is a complete group: one requeue, one later admission, exactly one receipt per admitted job
  with its workers, one submission and one later completion per worker of every job, and one
  later first compute of the admitted roster per worker incarnation.
\<close>

theorem correlated_chain_exact:
  assumes "\<forall>c \<in> set (correlated_of records). valid_correlated c"
    and "list_ex (\<lambda>c. co_request_id c = rid) (correlated_of records)"
  shows "validate_restore_chain records rid = Inr k \<longleftrightarrow>
    (let cs = of_request rid (correlated_of records) in
       k = card (episode_key ` set cs) \<and> jobs_owned cs \<and>
       (\<forall>i \<in> episode_key ` set cs. complete_group (group i cs)))"
proof -
  have "of_request rid (correlated_of records) \<noteq> []"
    using assms(2) by (auto simp: list_ex_iff of_request_def filter_empty_conv)
  with validate_correlated_iff [OF assms(1), of rid k] assms(2) show ?thesis
    unfolding validate_restore_chain_def Let_def by auto
qed

theorem correlated_chain_exact_witness:
  "jobs_owned (of_request ''req-1'' demo_links) \<and>
   complete_group (group (episode_key (hd demo_links)) (of_request ''req-1'' demo_links))"
proof -
  have same: "correlated_of (map RecCorrelated demo_links) = demo_links"
    by (simp add: correlated_of_def map_filter_def comp_def)
  have valid: "\<forall>c \<in> set (correlated_of (map RecCorrelated demo_links)). valid_correlated c"
    using demo_links_valid same by simp
  have some: "list_ex (\<lambda>c. co_request_id c = ''req-1'') (correlated_of (map RecCorrelated demo_links))"
    by code_simp
  have acc: "validate_restore_chain (map RecCorrelated demo_links) ''req-1'' = Inr 1" by code_simp
  have "hd demo_links \<in> set (of_request ''req-1'' demo_links)"
    by (simp add: demo_links_def of_request_def demo_link_def bare_corr_def)
  with correlated_chain_exact [OF valid some, of 1] acc show ?thesis
    unfolding Let_def same by blast
qed

end
