(* ===== verification/Native.thy ===== *)
theory Native
  imports Normalizer_History Correlated
begin

text \<open>
  native.py: the binding between the host's offloading observer and the plugin's callbacks. A
  host record is any object, read by attribute; the plugin callbacks are parameters that act
  on a world \<open>'w\<close> (the adapter's state) and may raise. \<^verbatim>\<open>secrets.token_hex(16)\<close> is the argument
  \<open>uuid\<close>; the host's registration calls are arguments holding their outcomes.
\<close>

section \<open>Host objects\<close>

datatype host_obj =
    HVal pyval
  | HObj "(string \<times> host_obj) list"
  | HSeq "host_obj list"

text \<open>Attribute access; among plain values only an enum member has one, its \<^verbatim>\<open>value\<close>.\<close>

definition lookup_attr :: "host_obj \<Rightarrow> string \<Rightarrow> host_obj option" where
  "lookup_attr x name =
     (case x of
        HObj d \<Rightarrow> map_of d name
      | HVal (PStr s) \<Rightarrow> None
      | HVal v \<Rightarrow> if name = ''value'' then map_option (HVal \<circ> PStr) (str_of v) else None
      | HSeq xs \<Rightarrow> None)"

text \<open>\<^verbatim>\<open>getattr(x, name, None)\<close> and \<^verbatim>\<open>x.name\<close>\<close>

definition attr_or_none :: "host_obj \<Rightarrow> string \<Rightarrow> host_obj" where
  "attr_or_none x name = (case lookup_attr x name of None \<Rightarrow> HVal PNone | Some y \<Rightarrow> y)"

definition attr :: "host_obj \<Rightarrow> string \<Rightarrow> host_obj res" where
  "attr x name = (case lookup_attr x name of None \<Rightarrow> Inl AttributeError | Some y \<Rightarrow> Inr y)"

text \<open>
  An object handed to a constructor; one that is no plain value is of no known class. A tuple
  is passed with its items.
\<close>

fun plain :: "host_obj \<Rightarrow> pyval" where
  "plain (HVal v) = v"
| "plain (HSeq xs) = PTuple (map plain xs)"
| "plain (HObj d) = POther 0"

definition plain_attr :: "host_obj \<Rightarrow> string \<Rightarrow> pyval res" where
  "plain_attr x name = res_bind (attr x name) (\<lambda>y. Inr (plain y))"

definition value_of_attr :: "host_obj \<Rightarrow> string \<Rightarrow> pyval" where
  "value_of_attr x name = plain (attr_or_none (attr_or_none x name) ''value'')"

definition iter :: "host_obj \<Rightarrow> host_obj list res" where
  "iter x =
     (case x of
        HSeq xs \<Rightarrow> Inr xs
      | HVal (PTuple vs) \<Rightarrow> Inr (map HVal vs)
      | HVal (PList vs) \<Rightarrow> Inr (map HVal vs)
      | HVal (PDict kvs) \<Rightarrow> Inr (map (HVal \<circ> PStr \<circ> fst) kvs)
      | HVal v \<Rightarrow>
          (case str_of v of
             None \<Rightarrow> Inl TypeError
           | Some s \<Rightarrow> Inr (map (\<lambda>c. HVal (PStr [c])) s))
      | HObj d \<Rightarrow> Inl TypeError)"

section \<open>State\<close>

record 'w callbacks =
  cb_observe :: "'w \<Rightarrow> source_observation \<Rightarrow> 'w \<times> pyval res"
  cb_host_fact :: "('w \<Rightarrow> host_fact \<Rightarrow> 'w \<times> pyval res) option"
  cb_correlated :: "('w \<Rightarrow> correlated \<Rightarrow> 'w \<times> pyval res) option"

type_synonym pending_transfer =
  "observation_identity \<times> transfer_identity \<times> transfer_operation"

record 'w binding =
  b_callbacks :: "'w callbacks option"
  b_pending :: "(int, pending_transfer) dict"
  b_process_uuid :: string
  b_worker_generation :: int
  b_correlated_api :: bool
  b_correlated_handle :: "pyval option"

definition MAX_BINDING_TRANSFERS :: nat where
  "MAX_BINDING_TRANSFERS = DEFAULT_MAX_CORRELATED_TRANSFERS"

definition hex_value :: "char \<Rightarrow> nat" where
  "hex_value c = (if is_digit c then code c - 48 else code c - 87)"

text \<open>\<^verbatim>\<open>int(s, 16)\<close> of lowercase hexadecimal digits\<close>

definition unhex :: "string \<Rightarrow> nat" where
  "unhex s = foldl (\<lambda>a c. 16 * a + hex_value c) 0 s"

definition worker_generation_of :: "string \<Rightarrow> int" where
  "worker_generation_of uuid = (let g = int (unhex (take 16 uuid)) in if g = 0 then 1 else g)"

text \<open>
  The version strings the host APIs export: the observer API must match; a correlated API is
  optional, but when present must match too.
\<close>

definition HOST_OBSERVER_CONTRACT :: string where
  "HOST_OBSERVER_CONTRACT = ''vllm.kv-transfer.observer.v1''"

definition REQUIRED_HOST_API_VERSION :: string where
  "REQUIRED_HOST_API_VERSION = ''1.0''"

definition CORRELATED_HOST_CONTRACT :: string where
  "CORRELATED_HOST_CONTRACT = ''vllm.kv-transfer.observer.v2''"

definition CORRELATED_HOST_API_VERSION :: string where
  "CORRELATED_HOST_API_VERSION = ''2.0''"

definition new_binding :: "host_obj \<Rightarrow> host_obj option \<Rightarrow> string \<Rightarrow> 'w binding res" where
  "new_binding host_api correlated_api uuid =
     res_bind (plain_attr host_api ''KV_TRANSFER_OBSERVER_CONTRACT'') (\<lambda>contract.
     if str_of contract \<noteq> Some HOST_OBSERVER_CONTRACT then Inl RuntimeError else
     res_bind (plain_attr host_api ''KV_TRANSFER_OBSERVABILITY_API_VERSION'') (\<lambda>version.
     if str_of version \<noteq> Some REQUIRED_HOST_API_VERSION then Inl RuntimeError
     else if (case correlated_api of None \<Rightarrow> False | Some api \<Rightarrow>
         str_of (plain (attr_or_none api ''KV_TRANSFER_CORRELATED_OBSERVER_CONTRACT''))
           \<noteq> Some CORRELATED_HOST_CONTRACT \<or>
         str_of (plain (attr_or_none api ''KV_TRANSFER_CORRELATED_OBSERVABILITY_API_VERSION''))
           \<noteq> Some CORRELATED_HOST_API_VERSION)
     then Inl RuntimeError
     else Inr \<lparr>b_callbacks = None, b_pending = [], b_process_uuid = uuid,
       b_worker_generation = worker_generation_of uuid,
       b_correlated_api = (correlated_api \<noteq> None), b_correlated_handle = None\<rparr>))"

section \<open>Registration\<close>

datatype api_call = RegisterHost | RegisterCorrelated | UnregisterCorrelated pyval
  | UnregisterHost pyval

text \<open>
  The result is the state left, the host calls made, in order, and the handle or exception.
  \<open>host_result\<close>, \<open>correlated_result\<close> and \<open>undo_result\<close> are what the host calls return or
  raise.
\<close>

definition register_binding ::
  "'w binding \<Rightarrow> 'w callbacks \<Rightarrow> pyval res \<Rightarrow> pyval res \<Rightarrow> unit res \<Rightarrow>
   'w binding \<times> api_call list \<times> pyval res" where
  "register_binding b callbacks host_result correlated_result undo_result =
     (if b_callbacks b \<noteq> None then (b, [], Inl RuntimeError)
      else
        (case host_result of
           Inl e \<Rightarrow> (b, [RegisterHost], Inl e)
         | Inr handle \<Rightarrow>
             if handle = PNone then (b, [RegisterHost], Inl RuntimeError)
             else if b_correlated_api b \<and> cb_correlated callbacks \<noteq> None
             then
               (let b' = (case correlated_result of
                    Inl _ \<Rightarrow> b
                  | Inr h \<Rightarrow> b\<lparr>b_correlated_handle := if h = PNone then None else Some h\<rparr>);
                  failure = (case correlated_result of
                    Inl e \<Rightarrow> Some e
                  | Inr h \<Rightarrow> if h = PNone then Some RuntimeError else None)
                in case failure of
                     Some e \<Rightarrow>
                       (b', [RegisterHost, RegisterCorrelated, UnregisterHost handle],
                        case undo_result of Inl e' \<Rightarrow> Inl e' | Inr _ \<Rightarrow> Inl e)
                   | None \<Rightarrow>
                       (b'\<lparr>b_callbacks := Some callbacks\<rparr>, [RegisterHost, RegisterCorrelated],
                        Inr handle))
             else (b\<lparr>b_callbacks := Some callbacks\<rparr>, [RegisterHost], Inr handle)))"

definition unregister_binding ::
  "'w binding \<Rightarrow> pyval \<Rightarrow> unit res \<Rightarrow> unit res \<Rightarrow> 'w binding \<times> api_call list \<times> unit res" where
  "unregister_binding b handle correlated_result host_result =
     (let b' = b\<lparr>b_callbacks := None, b_pending := []\<rparr> in
      case b_correlated_handle b of
        None \<Rightarrow> (b', [UnregisterHost handle], host_result)
      | Some h \<Rightarrow>
          (b'\<lparr>b_correlated_handle := None\<rparr>, [UnregisterCorrelated h, UnregisterHost handle],
           case host_result of Inl e \<Rightarrow> Inl e | Inr _ \<Rightarrow> correlated_result))"

section \<open>Observing transfers\<close>

definition record_operation :: "host_obj \<Rightarrow> transfer_operation option" where
  "record_operation r =
     (case to_operation (value_of_attr r ''operation'') of Inl _ \<Rightarrow> None | Inr p \<Rightarrow> Some p)"

definition record_identity :: "'w binding \<Rightarrow> host_obj \<Rightarrow> observation_identity option" where
  "record_identity b r =
     (case (plain (attr_or_none r ''job_id''), plain (attr_or_none r ''rank''),
            plain (attr_or_none r ''request_id'')) of
        (PInt job, PInt rank, PStr request) \<Rightarrow>
          if \<not> (0 \<le> job \<and> job \<le> UINT64_MAX) \<or> \<not> (0 \<le> rank \<and> rank \<le> UINT32_MAX) then None
          else (case observation_identity (PStr request) (PInt (b_worker_generation b))
              (PInt rank) PNone of
             Inl _ \<Rightarrow> None | Inr i \<Rightarrow> Some i)
      | _ \<Rightarrow> None)"

text \<open>\<^verbatim>\<open>f"{self._process_uuid}:t:{job_id}"\<close> of a non-negative job\<close>

definition transfer_text :: "'w binding \<Rightarrow> int \<Rightarrow> pyval" where
  "transfer_text b job = PStr (b_process_uuid b @ '':t:'' @ dec (nat job))"

definition receipt_text :: "'w binding \<Rightarrow> int \<Rightarrow> pyval" where
  "receipt_text b job = PStr (b_process_uuid b @ '':k:'' @ dec (nat job))"

text \<open>
  Handlers return the binding, the world and \<^verbatim>\<open>True\<close>, \<^verbatim>\<open>False\<close> or the exception that leaves
  them.
\<close>

type_synonym 'w served = "'w binding \<times> 'w \<times> bool res"

definition is_true :: "pyval res \<Rightarrow> bool" where
  "is_true r = (case r of Inr (PBool True) \<Rightarrow> True | _ \<Rightarrow> False)"

definition observe_submitted :: "'w binding \<Rightarrow> 'w \<Rightarrow> host_obj \<Rightarrow> 'w served" where
  "observe_submitted b w r =
     (case (record_identity b r, record_operation r, plain (attr_or_none r ''job_id''),
            plain (attr_or_none r ''block_count'')) of
        (Some identity, Some operation, PInt job, PInt blocks) \<Rightarrow>
          (case res_bind (transfer_identity (transfer_text b job)) (\<lambda>t.
                res_bind (plain_attr r ''observed_at_ns'') (\<lambda>observed.
                core_transfer_submitted (PIdentity identity) (PTransfer t) (POperation operation)
                  (PInt blocks) observed)) of
             Inl _ \<Rightarrow> (b, w, Inr False)
           | Inr source \<Rightarrow>
               (case b_callbacks b of
                  None \<Rightarrow> (b, w, Inr False)
                | Some cb \<Rightarrow>
                    if map_of (b_pending b) job \<noteq> None
                       \<or> MAX_BINDING_TRANSFERS \<le> length (b_pending b)
                    then (b, w, Inr False)
                    else
                      (case cb_observe cb w (SrcSubmitted source) of
                         (w', result) \<Rightarrow>
                           if is_true result
                           then (b\<lparr>b_pending := AList.update job
                                   (identity, sub_transfer source, operation) (b_pending b)\<rparr>,
                                 w', Inr True)
                           else (b, w', Inr False))))
      | _ \<Rightarrow> (b, w, Inr False))"

text \<open>Python numbers compare by value: the integer a bool or an integral float equals.\<close>

definition integral :: "pyval \<Rightarrow> int option" where
  "integral v =
     (case v of
        PInt n \<Rightarrow> Some n
      | PBool x \<Rightarrow> Some (if x then 1 else 0)
      | PFloat (Finite q) \<Rightarrow> if q = of_int \<lfloor>q\<rfloor> then Some \<lfloor>q\<rfloor> else None
      | _ \<Rightarrow> None)"

text \<open>
  \<^verbatim>\<open>self._pending.get(job_id)\<close> of an unchecked job id: an unhashable one raises TypeError, any
  other finds the integer it equals.
\<close>

definition pending_key :: "pyval \<Rightarrow> int option res" where
  "pending_key v = (if \<not> hashable v then Inl TypeError else Inr (integral v))"

text \<open>
  The source record of a completion or cancellation; \<open>None\<close> is an early \<^verbatim>\<open>return False\<close>. The
  receipt is named by the job id as the record has it: the text of a bool or a float is no
  decimal number, so \<^verbatim>\<open>ReceiptIdentity\<close> rejects it.
\<close>

definition terminal_source ::
  "'w binding \<Rightarrow> string \<Rightarrow> pyval \<Rightarrow> transfer_identity \<Rightarrow> transfer_operation \<Rightarrow> host_obj \<Rightarrow>
   source_observation option res" where
  "terminal_source b event job_id transfer operation r =
     (if event = ''transfer_completed''
      then
        res_bind (if operation = H2D_RESTORE
            then res_bind (plain_attr r ''success'') (\<lambda>success.
              if success = PBool True
              then
                (case job_id of
                   PInt job \<Rightarrow>
                     res_bind (receipt_identity (receipt_text b job)) (\<lambda>k. Inr (PReceipt k))
                 | _ \<Rightarrow> Inl ValueError)
              else Inr PNone)
            else Inr PNone) (\<lambda>receipt.
        res_bind (plain_attr r ''duration_ns'') (\<lambda>duration.
        res_bind (plain_attr r ''observed_at_ns'') (\<lambda>observed.
        res_bind (plain_attr r ''success'') (\<lambda>success.
        res_bind (plain_attr r ''bytes_moved'') (\<lambda>bytes.
        res_bind (core_transfer_completed (PTransfer transfer) observed success bytes
            (case duration of PInt d \<Rightarrow> if 0 < d then PInt d else PNone | _ \<Rightarrow> PNone) receipt)
          (\<lambda>c. Inr (Some (SrcCompleted c))))))))
      else if str_of (value_of_attr r ''reason'') = Some ''host_shutdown''
      then
        res_bind (plain_attr r ''observed_at_ns'') (\<lambda>observed.
        res_bind (core_transfer_cancelled (PTransfer transfer) observed
            (PTerminalReason HOST_SHUTDOWN))
          (\<lambda>c. Inr (Some (SrcCancelled c))))
      else Inr None)"

definition observe_terminal :: "'w binding \<Rightarrow> 'w \<Rightarrow> string \<Rightarrow> host_obj \<Rightarrow> 'w served" where
  "observe_terminal b w event r =
     (case pending_key (plain (attr_or_none r ''job_id'')) of
        Inl e \<Rightarrow> (b, w, Inl e)
      | Inr key \<Rightarrow>
          (case (b_callbacks b, key, Option.bind key (map_of (b_pending b)),
                 record_operation r) of
             (Some cb, Some job, Some (identity, transfer, submitted), Some operation) \<Rightarrow>
               if operation \<noteq> submitted
                  \<or> str_of (plain (attr_or_none r ''request_id'')) \<noteq> Some (id_request_id identity)
                  \<or> integral (plain (attr_or_none r ''rank'')) \<noteq> Some (id_rank identity)
               then (b, w, Inr False)
               else
                 (case terminal_source b event (plain (attr_or_none r ''job_id'')) transfer
                     operation r of
                    Inl _ \<Rightarrow> (b, w, Inr False)
                  | Inr None \<Rightarrow> (b, w, Inr False)
                  | Inr (Some source) \<Rightarrow>
                      (case cb_observe cb w source of
                         (w', result) \<Rightarrow>
                           (b\<lparr>b_pending := AList.delete job (b_pending b)\<rparr>, w',
                            Inr (is_true result))))
           | _ \<Rightarrow> (b, w, Inr False)))"

section \<open>Observing host claims\<close>

text \<open>The shape-specific keyword arguments of a host fact; \<open>None\<close> is an early \<^verbatim>\<open>return False\<close>.\<close>

definition host_fact_args ::
  "string \<Rightarrow> host_fact_event \<Rightarrow> host_obj \<Rightarrow> fact_args option res" where
  "host_fact_args uuid event r =
     res_bind (plain_attr r ''observed_at_ns'') (\<lambda>observed.
     res_bind (plain_attr r ''request_id'') (\<lambda>request.
     let shared = fact_defaults\<lparr>h_event := PHostFactEvent event, h_process_uuid := PStr uuid,
       h_observed_at_ns := observed, h_request_id := request\<rparr>
     in case event of
          HF_TRANSFER_RECEIPT \<Rightarrow>
            res_bind (plain_attr r ''success'') (\<lambda>success.
            if success \<noteq> PBool True \<or> record_operation r \<noteq> Some H2D_RESTORE then Inr None
            else
              res_bind (plain_attr r ''job_id'') (\<lambda>job.
              res_bind (plain_attr r ''rank'') (\<lambda>rank.
              res_bind (plain_attr r ''ranks'') (\<lambda>ranks.
              Inr (Some (shared\<lparr>h_job_id := job, h_rank := rank, h_ranks := ranks\<rparr>))))))
        | HF_RECOVERY_REQUEUED \<Rightarrow>
            res_bind (plain_attr r ''recovery_epoch'') (\<lambda>epoch.
            res_bind (attr r ''requeue_reason'') (\<lambda>reason.
            res_bind (plain_attr reason ''value'') (\<lambda>value.
            res_bind (to_requeue value) (\<lambda>q.
            Inr (Some (shared\<lparr>h_recovery_epoch := epoch,
              h_requeue_reason := PRequeueReason q\<rparr>))))))
        | HF_RECOVERY_ADMITTED \<Rightarrow>
            res_bind (plain_attr r ''recovery_epoch'') (\<lambda>epoch.
            res_bind (plain_attr r ''job_ids'') (\<lambda>jobs.
            Inr (Some (shared\<lparr>h_recovery_epoch := epoch, h_job_ids := jobs\<rparr>))))
        | HF_FIRST_COMPUTE \<Rightarrow>
            res_bind (plain_attr r ''rank'') (\<lambda>rank.
            res_bind (plain_attr r ''recovery_epoch'') (\<lambda>epoch.
            res_bind (plain_attr r ''job_ids'') (\<lambda>jobs.
            res_bind (attr r ''compute_kind'') (\<lambda>kind.
            res_bind (plain_attr kind ''value'') (\<lambda>value.
            res_bind (to_kind value) (\<lambda>k.
            Inr (Some (shared\<lparr>h_rank := rank, h_recovery_epoch := epoch, h_job_ids := jobs,
              h_compute_kind := PComputeKind k\<rparr>))))))))))"

definition observe_host_fact ::
  "'w binding \<Rightarrow> 'w \<Rightarrow> host_obj \<Rightarrow> host_fact_event \<Rightarrow> 'w served" where
  "observe_host_fact b w r event =
     (case Option.bind (b_callbacks b) cb_host_fact of
        None \<Rightarrow> (b, w, Inr False)
      | Some callback \<Rightarrow>
          (case host_fact_args (b_process_uuid b) event r of
             Inl _ \<Rightarrow> (b, w, Inr False)
           | Inr None \<Rightarrow> (b, w, Inr False)
           | Inr (Some a) \<Rightarrow>
               (case make_host_fact a of
                  Inl _ \<Rightarrow> (b, w, Inr False)
                | Inr claim \<Rightarrow>
                    (case callback w claim of
                       (w', result) \<Rightarrow> (b, w', Inr (is_true result))))))"

text \<open>\<^verbatim>\<open>tuple(WorkerReceipt(item.rank, item.worker_generation) for item in items)\<close>\<close>

definition read_workers :: "host_obj \<Rightarrow> pyval res" where
  "read_workers x =
     res_bind (iter x) (\<lambda>items.
     res_bind (res_map (\<lambda>item.
         res_bind (plain_attr item ''rank'') (\<lambda>rank.
         res_bind (plain_attr item ''worker_generation'') (\<lambda>generation.
         make_worker_receipt rank generation))) items) (\<lambda>ws.
     Inr (PTuple (map PWorker ws))))"

definition read_jobs :: "host_obj \<Rightarrow> pyval res" where
  "read_jobs x =
     res_bind (iter x) (\<lambda>items.
     res_bind (res_map (\<lambda>item.
         res_bind (plain_attr item ''job_id'') (\<lambda>job.
         res_bind (attr item ''workers'') (\<lambda>raw.
         res_bind (read_workers raw) (\<lambda>workers.
         make_job_receipt job workers)))) items) (\<lambda>js.
     Inr (PTuple (map PJob js))))"

definition read_correlated :: "host_obj \<Rightarrow> correlated res" where
  "read_correlated r =
     res_bind (attr r ''event'') (\<lambda>e.
     res_bind (plain_attr e ''value'') (\<lambda>value.
     res_bind (to_correlated_event value) (\<lambda>event.
     res_bind (attr r ''workers'') (\<lambda>raw_workers.
     res_bind (read_workers raw_workers) (\<lambda>workers.
     res_bind (attr r ''roster'') (\<lambda>raw_roster.
     res_bind (read_jobs raw_roster) (\<lambda>roster.
     res_bind (plain_attr r ''scheduler_generation'') (\<lambda>scheduler.
     res_bind (plain_attr r ''request_id'') (\<lambda>request.
     res_bind (plain_attr r ''recovery_epoch'') (\<lambda>epoch.
     res_bind (plain_attr r ''observed_at_ns'') (\<lambda>observed.
     res_bind (plain_attr r ''job_id'') (\<lambda>job.
     res_bind (plain_attr r ''rank'') (\<lambda>rank.
     res_bind (plain_attr r ''worker_generation'') (\<lambda>generation.
     res_bind (plain_attr r ''block_count'') (\<lambda>blocks.
     res_bind (plain_attr r ''compute_kind'') (\<lambda>kind.
     make_correlated \<lparr>c_event = PCorrelatedEvent event, c_scheduler_generation = scheduler,
       c_request_id = request, c_recovery_epoch = epoch, c_observed_at_ns = observed,
       c_job_id = job, c_rank = rank, c_worker_generation = generation,
       c_block_count = blocks, c_workers = workers, c_roster = roster,
       c_compute_kind = kind\<rparr>))))))))))))))))"

definition observe_correlated_host :: "'w binding \<Rightarrow> 'w \<Rightarrow> host_obj \<Rightarrow> 'w served" where
  "observe_correlated_host b w r =
     (case Option.bind (b_callbacks b) cb_correlated of
        None \<Rightarrow> (b, w, Inr False)
      | Some callback \<Rightarrow>
          (case read_correlated r of
             Inl _ \<Rightarrow> (b, w, Inr False)
           | Inr item \<Rightarrow>
               (case callback w item of (w', result) \<Rightarrow> (b, w', Inr (is_true result)))))"

definition observe_host :: "'w binding \<Rightarrow> 'w \<Rightarrow> host_obj \<Rightarrow> 'w served" where
  "observe_host b w r =
     (case value_of_attr r ''event'' of
        PStr event \<Rightarrow>
          (case to_host_fact_event (PStr event) of
             Inr fact_event \<Rightarrow> observe_host_fact b w r fact_event
           | Inl _ \<Rightarrow>
               if event = ''transfer_submitted'' then observe_submitted b w r
               else if event \<in> {''transfer_completed'', ''transfer_cancelled''}
               then observe_terminal b w event r
               else (b, w, Inr False))
      | _ \<Rightarrow> (b, w, Inr False))"

section \<open>Invariant\<close>

definition entry_ok :: "string \<Rightarrow> int \<Rightarrow> int \<Rightarrow> pending_transfer \<Rightarrow> bool" where
  "entry_ok uuid generation job e =
     (case e of (identity, transfer, operation) \<Rightarrow>
        uint64 job \<and> transfer = TransferIdentity (scoped_id uuid (CHR ''t'') (nat job)) \<and>
        valid_identity identity \<and> id_worker_generation identity = generation \<and>
        id_recovery_epoch identity = None)"

definition binding_inv :: "'w binding \<Rightarrow> bool" where
  "binding_inv b \<longleftrightarrow>
     process_uuid_ok (b_process_uuid b) \<and>
     0 < b_worker_generation b \<and> b_worker_generation b \<le> UINT64_MAX \<and>
     dict_ok (b_pending b) \<and> length (b_pending b) \<le> MAX_BINDING_TRANSFERS \<and>
     entries_ok (entry_ok (b_process_uuid b) (b_worker_generation b)) (b_pending b)"

lemma hex_value_less: "is_hex c \<Longrightarrow> hex_value c < 16"
  by (auto simp: is_hex_def is_digit_def hex_value_def split: if_splits)

lemma unhex_less: "list_all is_hex s \<Longrightarrow> unhex s < 16 ^ length s"
proof (induction s rule: rev_induct)
  case (snoc c s)
  then have "unhex s < 16 ^ length s" "hex_value c < 16" by (simp_all add: hex_value_less)
  then have "16 * unhex s + hex_value c < 16 * 16 ^ length s" by simp
  then show ?case by (simp add: unhex_def)
qed (simp add: unhex_def)

lemma worker_generation_range:
  assumes "process_uuid_ok u"
  shows "0 < worker_generation_of u \<and> worker_generation_of u \<le> UINT64_MAX"
proof -
  have "list_all is_hex (take 16 u)" "length (take 16 u) = 16"
    using assms by (auto simp: process_uuid_ok_def list_all_iff dest: in_set_takeD)
  then have "unhex (take 16 u) < 16 ^ 16" using unhex_less [of "take 16 u"] by simp
  then show ?thesis by (simp add: worker_generation_of_def Let_def UINT64_MAX_def)
qed

lemma new_binding_inv:
  assumes "new_binding h c u = Inr b" "process_uuid_ok u"
  shows "binding_inv b"
  using assms worker_generation_range [of u]
  by (auto simp: new_binding_def binding_inv_def Let_def split: if_splits)

lemma register_keeps:
  "binding_inv b \<Longrightarrow> binding_inv (fst (register_binding b cb hr cr ur))"
  by (auto simp: register_binding_def binding_inv_def Let_def split: sum.splits)

lemma unregister_keeps: "binding_inv (b::'w binding) \<Longrightarrow> binding_inv (fst (unregister_binding b h cr hr))"
  by (auto simp: unregister_binding_def binding_inv_def Let_def split: option.splits)

lemma record_identity_SomeD:
  assumes "record_identity b r = Some i"
  shows "\<exists>job rank request. plain (attr_or_none r ''job_id'') = PInt job \<and>
    plain (attr_or_none r ''rank'') = PInt rank \<and>
    plain (attr_or_none r ''request_id'') = PStr request \<and> uint64 job \<and>
    valid_identity i \<and> id_worker_generation i = b_worker_generation b \<and>
    id_recovery_epoch i = None \<and> id_request_id i = request \<and> id_rank i = rank"
  using assms
  by (auto simp: record_identity_def observation_identity_iff uint64_def opt_int_def
      split: pyval.splits if_splits sum.splits option.splits)

lemma is_true_iff: "is_true x \<longleftrightarrow> x = Inr (PBool True)"
  by (auto simp: is_true_def split: sum.splits pyval.splits bool.splits)

text \<open>A submission is forwarded once, and remembered when the plugin accepted it.\<close>

definition forwarded_submission ::
  "'w binding \<Rightarrow> 'w \<Rightarrow> host_obj \<Rightarrow> int \<Rightarrow> core_transfer_submitted \<Rightarrow> bool" where
  "forwarded_submission b w r job s \<longleftrightarrow>
     (\<exists>cb w' x. b_callbacks b = Some cb \<and> cb_observe cb w (SrcSubmitted s) = (w', x) \<and>
       record_identity b r = Some (sub_identity s) \<and>
       record_operation r = Some (sub_operation s) \<and>
       plain (attr_or_none r ''job_id'') = PInt job \<and>
       transfer_identity (transfer_text b job) = Inr (sub_transfer s) \<and>
       map_of (b_pending b) job = None \<and> length (b_pending b) < MAX_BINDING_TRANSFERS \<and>
       observe_submitted b w r =
         (if x = Inr (PBool True)
          then (b\<lparr>b_pending := AList.update job
              (sub_identity s, sub_transfer s, sub_operation s) (b_pending b)\<rparr>, w', Inr True)
          else (b, w', Inr False)))"

lemma submitted_forwarded:
  "observe_submitted b w r = (b, w, Inr False) \<or> (\<exists>job s. forwarded_submission b w r job s)"
proof (cases "record_identity b r")
  case (Some identity)
  from record_identity_SomeD [OF this] obtain job where
    job: "plain (attr_or_none r ''job_id'') = PInt job" by blast
  show ?thesis
  proof (cases "record_operation r")
    case (Some operation)
    note op = Some
    define source where "source = res_bind (transfer_identity (transfer_text b job)) (\<lambda>t.
        res_bind (plain_attr r ''observed_at_ns'') (\<lambda>observed.
        core_transfer_submitted (PIdentity identity) (PTransfer t) (POperation operation)
          (plain (attr_or_none r ''block_count'')) observed))"
    show ?thesis
    proof (cases source)
      case (Inl e)
      with job op \<open>record_identity b r = _\<close> show ?thesis
        by (auto simp: observe_submitted_def source_def split: pyval.splits)
    next
      case (Inr s)
      then have s: "sub_identity s = identity" "sub_operation s = operation"
        "transfer_identity (transfer_text b job) = Inr (sub_transfer s)"
        by (auto simp: source_def core_transfer_submitted_iff)
      show ?thesis
      proof (cases "\<exists>n cb. plain (attr_or_none r ''block_count'') = PInt n \<and> b_callbacks b = Some cb \<and>
          map_of (b_pending b) job = None \<and> length (b_pending b) < MAX_BINDING_TRANSFERS")
        case True
        then obtain n cb where
          "plain (attr_or_none r ''block_count'') = PInt n" "b_callbacks b = Some cb"
          "map_of (b_pending b) job = None" "length (b_pending b) < MAX_BINDING_TRANSFERS"
          by blast
        with job op s Inr \<open>record_identity b r = _\<close> have "forwarded_submission b w r job s"
          by (cases "cb_observe cb w (SrcSubmitted s)")
            (auto simp: forwarded_submission_def observe_submitted_def source_def is_true_iff)
        then show ?thesis by blast
      next
        case False
        with job op Inr \<open>record_identity b r = _\<close> show ?thesis
          by (auto simp: observe_submitted_def source_def split: pyval.splits option.splits)
      qed
    qed
  qed (simp add: observe_submitted_def Some job)
qed (simp add: observe_submitted_def)

lemma transfer_text_iff:
  "uint64 job \<Longrightarrow> transfer_identity (transfer_text b job) = Inr t \<Longrightarrow>
     t = TransferIdentity (scoped_id (b_process_uuid b) (CHR ''t'') (nat job))"
  by (cases t) (auto simp: transfer_identity_iff transfer_text_def scoped_id_def)

lemma submitted_keeps:
  assumes "binding_inv b"
  shows "binding_inv (fst (observe_submitted b w r))"
proof -
  consider "observe_submitted b w r = (b, w, Inr False)"
    | job s where "forwarded_submission b w r job s"
    using submitted_forwarded [of b w r] by blast
  then show ?thesis
  proof cases
    case 2
    then have f: "record_identity b r = Some (sub_identity s)"
      "plain (attr_or_none r ''job_id'') = PInt job"
      "transfer_identity (transfer_text b job) = Inr (sub_transfer s)"
      "map_of (b_pending b) job = None" "length (b_pending b) < MAX_BINDING_TRANSFERS"
      "fst (observe_submitted b w r) = b \<or> fst (observe_submitted b w r) =
         b\<lparr>b_pending := AList.update job
              (sub_identity s, sub_transfer s, sub_operation s) (b_pending b)\<rparr>"
      by (auto simp: forwarded_submission_def)
    from record_identity_SomeD [OF f(1)] f(2) transfer_text_iff [OF _ f(3)]
    have "entry_ok (b_process_uuid b) (b_worker_generation b) job
        (sub_identity s, sub_transfer s, sub_operation s)"
      by (auto simp: entry_ok_def)
    with assms f(4,5,6) show ?thesis
      by (auto simp: binding_inv_def length_update_new)
  qed (simp add: assms)
qed

text \<open>
  A terminal is forwarded only for a remembered submission of the same operation, request and
  rank, and forgets it whatever the plugin answers.
\<close>

definition forwarded_terminal ::
  "'w binding \<Rightarrow> 'w \<Rightarrow> string \<Rightarrow> host_obj \<Rightarrow> int \<Rightarrow> pending_transfer \<Rightarrow> source_observation \<Rightarrow> bool" where
  "forwarded_terminal b w event r job e source \<longleftrightarrow>
     (\<exists>cb w' x. b_callbacks b = Some cb \<and> cb_observe cb w source = (w', x) \<and>
       pending_key (plain (attr_or_none r ''job_id'')) = Inr (Some job) \<and>
       map_of (b_pending b) job = Some e \<and>
       (case e of (identity, transfer, operation) \<Rightarrow>
          record_operation r = Some operation \<and>
          str_of (plain (attr_or_none r ''request_id'')) = Some (id_request_id identity) \<and>
          integral (plain (attr_or_none r ''rank'')) = Some (id_rank identity) \<and>
          terminal_source b event (plain (attr_or_none r ''job_id'')) transfer operation r =
            Inr (Some source)) \<and>
       observe_terminal b w event r =
         (b\<lparr>b_pending := AList.delete job (b_pending b)\<rparr>, w', Inr (is_true x)))"

lemma terminal_forwarded:
  "observe_terminal b w event r = (b, w, Inr False) \<or>
   \<not> hashable (plain (attr_or_none r ''job_id'')) \<and>
     observe_terminal b w event r = (b, w, Inl TypeError) \<or>
   (\<exists>job e source. forwarded_terminal b w event r job e source)"
proof (cases "pending_key (plain (attr_or_none r ''job_id''))")
  case (Inl e)
  then show ?thesis by (auto simp: observe_terminal_def pending_key_def split: if_splits)
next
  case (Inr key)
  show ?thesis
  proof (cases "\<exists>cb job i t p. b_callbacks b = Some cb \<and> key = Some job \<and>
      map_of (b_pending b) job = Some (i, t, p) \<and> record_operation r = Some p \<and>
      str_of (plain (attr_or_none r ''request_id'')) = Some (id_request_id i) \<and>
      integral (plain (attr_or_none r ''rank'')) = Some (id_rank i)")
    case True
    then obtain cb job i t p where *: "b_callbacks b = Some cb" "key = Some job"
      "map_of (b_pending b) job = Some (i, t, p)" "record_operation r = Some p"
      "str_of (plain (attr_or_none r ''request_id'')) = Some (id_request_id i)"
      "integral (plain (attr_or_none r ''rank'')) = Some (id_rank i)" by blast
    show ?thesis
    proof (cases "\<exists>source. terminal_source b event (plain (attr_or_none r ''job_id'')) t p r = Inr (Some source)")
      case True
      then obtain source where source: "terminal_source b event (plain (attr_or_none r ''job_id'')) t p r = Inr (Some source)" ..
      obtain w' x where cb: "cb_observe cb w source = (w', x)" by (cases "cb_observe cb w source")
      with * source Inr have "observe_terminal b w event r =
          (b\<lparr>b_pending := AList.delete job (b_pending b)\<rparr>, w', Inr (is_true x))"
        by (simp add: observe_terminal_def)
      with * source cb Inr have "forwarded_terminal b w event r job (i, t, p) source"
        by (simp add: forwarded_terminal_def)
      then show ?thesis by blast
    next
      case False
      then have "terminal_source b event (plain (attr_or_none r ''job_id'')) t p r = Inr None \<or>
          (\<exists>e. terminal_source b event (plain (attr_or_none r ''job_id'')) t p r = Inl e)"
        by (cases "terminal_source b event (plain (attr_or_none r ''job_id'')) t p r") auto
      with * Inr show ?thesis by (auto simp: observe_terminal_def)
    qed
  next
    case False
    with Inr have "observe_terminal b w event r = (b, w, Inr False)"
      by (auto simp: observe_terminal_def split: option.splits)
    then show ?thesis by blast
  qed
qed

lemma terminal_keeps:
  assumes "binding_inv b"
  shows "binding_inv (fst (observe_terminal b w event r))"
proof -
  consider "fst (observe_terminal b w event r) = b"
    | job e source where "forwarded_terminal b w event r job e source"
    using terminal_forwarded [of b w event r] by fastforce
  then show ?thesis
  proof cases
    case 2
    then obtain v where "map_of (b_pending b) job = Some v"
      "fst (observe_terminal b w event r) = b\<lparr>b_pending := AList.delete job (b_pending b)\<rparr>"
      by (auto simp: forwarded_terminal_def)
    with assms length_delete_old [of "b_pending b" job v] show ?thesis
      by (auto simp: binding_inv_def)
  qed (simp add: assms)
qed

text \<open>Host facts and correlated records leave the binding alone.\<close>

lemma host_fact_fst: "fst (observe_host_fact b w r ev) = b"
  by (simp add: observe_host_fact_def split: option.splits sum.splits prod.splits)

lemma correlated_fst: "fst (observe_correlated_host b w r) = b"
  by (simp add: observe_correlated_host_def split: option.splits sum.splits prod.splits)

lemma observe_host_cases:
  obtains (ignored) "observe_host b w r = (b, w, Inr False)"
  | (host_claim) ev where "observe_host b w r = observe_host_fact b w r ev"
  | (submitted) "observe_host b w r = observe_submitted b w r"
  | (terminal) event where "observe_host b w r = observe_terminal b w event r"
      "value_of_attr r ''event'' = PStr event"
      "event = ''transfer_completed'' \<or> event = ''transfer_cancelled''"
proof (cases "\<exists>event. value_of_attr r ''event'' = PStr event")
  case True
  then obtain event where e: "value_of_attr r ''event'' = PStr event" ..
  show ?thesis
  proof (cases "to_host_fact_event (PStr event)")
    case (Inr ev)
    with e host_claim show ?thesis by (simp add: observe_host_def)
  next
    case (Inl x)
    show ?thesis
    proof (cases "event = ''transfer_submitted''")
      case True
      with e Inl show ?thesis by (intro submitted) (simp add: observe_host_def)
    next
      case other: False
      show ?thesis
      proof (cases "event = ''transfer_completed'' \<or> event = ''transfer_cancelled''")
        case True
        with e Inl other show ?thesis by (intro terminal [OF _ e]) (auto simp: observe_host_def)
      next
        case False
        with e Inl other show ?thesis by (intro ignored) (simp add: observe_host_def)
      qed
    qed
  qed
next
  case False
  with ignored show ?thesis by (simp add: observe_host_def split: pyval.splits)
qed

lemma observe_host_keeps: "binding_inv b \<Longrightarrow> binding_inv (fst (observe_host b w r))"
  by (cases rule: observe_host_cases [of b w r])
    (simp_all add: host_fact_fst submitted_keeps terminal_keeps)

section \<open>What the plugin is told\<close>

definition job_transfer :: "string \<Rightarrow> int \<Rightarrow> transfer_identity" where
  "job_transfer uuid job = TransferIdentity (scoped_id uuid (CHR ''t'') (nat job))"

definition job_receipt_id :: "string \<Rightarrow> int \<Rightarrow> receipt_identity" where
  "job_receipt_id uuid job = ReceiptIdentity (scoped_id uuid (CHR ''k'') (nat job))"

text \<open>A terminal closes the transfer; a successful restore, and only that, carries a receipt.\<close>

definition closes :: "string \<Rightarrow> int \<Rightarrow> pending_transfer \<Rightarrow> source_observation \<Rightarrow> bool" where
  "closes uuid job e source =
     (case e of (identity, transfer, operation) \<Rightarrow>
        (case source of
           SrcCompleted c \<Rightarrow>
             cmp_transfer c = transfer \<and>
             cmp_receipt c = (if operation = H2D_RESTORE \<and> cmp_success c
               then Some (job_receipt_id uuid job) else None)
         | SrcCancelled c \<Rightarrow>
             can_transfer c = transfer \<and> can_reason c = PTerminalReason HOST_SHUTDOWN
         | _ \<Rightarrow> False))"

lemma receipt_text_iff:
  "receipt_identity (receipt_text b job) = Inr k \<Longrightarrow> k = job_receipt_id (b_process_uuid b) job"
  by (cases k)
    (auto simp: receipt_identity_iff receipt_text_def scoped_id_def job_receipt_id_def)

lemma receipt_of_job:
  assumes "(case job_id of
        PInt job \<Rightarrow> res_bind (receipt_identity (receipt_text b job)) (\<lambda>k. Inr (PReceipt k))
      | _ \<Rightarrow> Inl ValueError) = Inr v"
    "pending_key job_id = Inr (Some job)"
  shows "v = PReceipt (job_receipt_id (b_process_uuid b) job)"
  using assms
  by (cases job_id) (auto simp: pending_key_def integral_def dest: receipt_text_iff)

lemma terminal_source_closes:
  assumes "terminal_source b event job_id t p r = Inr (Some source)"
    "pending_key job_id = Inr (Some job)"
  shows "closes (b_process_uuid b) job (i, t, p) source"
proof (cases "event = ''transfer_completed''")
  case True
  note receipt = receipt_of_job [OF _ assms(2), of b]
  from True assms(1) show ?thesis
    by (auto simp: terminal_source_def closes_def core_transfer_completed_iff opt_val_def
        dest!: receipt split: if_splits option.splits)
next
  case False
  with assms(1) show ?thesis
    by (auto simp: terminal_source_def closes_def core_transfer_cancelled_iff split: if_splits)
qed

text \<open>A plugin that logs what it is told with its answer, which may depend on all it heard.\<close>

type_synonym forwarded = "(source_observation \<times> bool) list"

definition logging :: "(forwarded \<Rightarrow> source_observation \<Rightarrow> pyval res) \<Rightarrow>
    (host_fact \<Rightarrow> pyval res) option \<Rightarrow> (correlated \<Rightarrow> pyval res) option \<Rightarrow> forwarded callbacks" where
  "logging answer facts links =
     \<lparr>cb_observe = (\<lambda>heard s. (heard @ [(s, is_true (answer heard s))], answer heard s)),
      cb_host_fact = map_option (\<lambda>f heard c. (heard, f c)) facts,
      cb_correlated = map_option (\<lambda>f heard c. (heard, f c)) links\<rparr>"

datatype host_call = HostRecord host_obj | CorrelatedRecord host_obj

definition host_step :: "'w binding \<times> 'w \<Rightarrow> host_call \<Rightarrow> 'w binding \<times> 'w" where
  "host_step bw call =
     (case (case call of
          HostRecord r \<Rightarrow> observe_host (fst bw) (snd bw) r
        | CorrelatedRecord r \<Rightarrow> observe_correlated_host (fst bw) (snd bw) r) of
        (b, w, _) \<Rightarrow> (b, w))"

definition opens :: "transfer_identity \<Rightarrow> source_observation \<times> bool \<Rightarrow> bool" where
  "opens t e = (case e of (SrcSubmitted s, ok) \<Rightarrow> ok \<and> sub_transfer s = t | _ \<Rightarrow> False)"

definition ends_transfer :: "transfer_identity \<Rightarrow> source_observation \<times> bool \<Rightarrow> bool" where
  "ends_transfer t e =
     (case e of
        (SrcCompleted c, ok) \<Rightarrow> cmp_transfer c = t
      | (SrcCancelled c, ok) \<Rightarrow> can_transfer c = t
      | _ \<Rightarrow> False)"

text \<open>Each accepted submission has had one terminal, or is remembered.\<close>

definition forwarding_ok :: "forwarded binding \<times> forwarded \<Rightarrow> bool" where
  "forwarding_ok bw \<longleftrightarrow>
     (\<forall>job. uint64 job \<longrightarrow>
        how_many (opens (job_transfer (b_process_uuid (fst bw)) job)) (snd bw) =
        how_many (ends_transfer (job_transfer (b_process_uuid (fst bw)) job)) (snd bw) +
          (if map_of (b_pending (fst bw)) job = None then 0 else 1))"

text \<open>A terminal closes an earlier accepted submission.\<close>

definition closes_earlier :: "string \<Rightarrow> forwarded \<Rightarrow> source_observation \<times> bool \<Rightarrow> bool" where
  "closes_earlier uuid before e \<longleftrightarrow>
     (\<exists>s. fst e = SrcSubmitted s) \<or>
     (\<exists>job s. (SrcSubmitted s, True) \<in> set before \<and>
        sub_transfer s = job_transfer uuid job \<and>
        closes uuid job (sub_identity s, sub_transfer s, sub_operation s) (fst e))"

definition remembered :: "forwarded \<Rightarrow> pending_transfer \<Rightarrow> bool" where
  "remembered heard e \<longleftrightarrow>
     (\<exists>s. (SrcSubmitted s, True) \<in> set heard \<and> e = (sub_identity s, sub_transfer s, sub_operation s))"

definition told_ok :: "forwarded binding \<times> forwarded \<Rightarrow> bool" where
  "told_ok bw \<longleftrightarrow>
     each_after (closes_earlier (b_process_uuid (fst bw))) (snd bw) \<and>
     entries_ok (\<lambda>job. remembered (snd bw)) (b_pending (fst bw))"

lemma job_transfer_inject [simp]:
  "process_uuid_ok u \<Longrightarrow> uint64 j \<Longrightarrow> uint64 k \<Longrightarrow> job_transfer u j = job_transfer u k \<longleftrightarrow> j = k"
  by (auto simp: job_transfer_def scoped_id_inject uint64_def)

definition hears :: "string \<Rightarrow> forwarded callbacks \<Rightarrow> forwarded binding \<times> forwarded \<Rightarrow> bool" where
  "hears u cb bw \<longleftrightarrow>
     b_process_uuid (fst bw) = u \<and> binding_inv (fst bw) \<and> b_callbacks (fst bw) = Some cb \<and> forwarding_ok bw \<and> told_ok bw"

lemma opens_simps [simp]:
  "opens t (SrcSubmitted s, ok) = (ok \<and> sub_transfer s = t)"
  "ends_transfer t (SrcSubmitted s, ok) = False"
  by (simp_all add: opens_def ends_transfer_def)

lemma closes_transfer:
  "closes u job (i, t, p) source \<Longrightarrow> ends_transfer t' (source, ok) = (t = t')"
  "closes u job (i, t, p) source \<Longrightarrow> opens t' (source, ok) = False"
  by (cases source; auto simp: closes_def opens_def ends_transfer_def)+

lemma closes_earlier_simps [simp]:
  "closes_earlier u before (SrcSubmitted s, ok)"
  by (simp add: closes_earlier_def)

lemma closes_earlierI:
  "closes u job (sub_identity s, sub_transfer s, sub_operation s) source \<Longrightarrow>
   (SrcSubmitted s, True) \<in> set before \<Longrightarrow> sub_transfer s = job_transfer u job \<Longrightarrow>
   closes_earlier u before (source, ok)"
  unfolding closes_earlier_def fst_conv by blast

lemma remembered_more: "remembered heard e \<Longrightarrow> remembered (heard @ [x]) e"
  by (auto simp: remembered_def)

lemma submitted_hears:
  assumes "hears u (logging answer facts links) (b, heard)"
  shows "\<exists>b' heard' ok. observe_submitted b heard r = (b', heard', ok) \<and>
    hears u (logging answer facts links) (b', heard')"
proof -
  consider "observe_submitted b heard r = (b, heard, Inr False)"
    | job s where "forwarded_submission b heard r job s"
    using submitted_forwarded [of b heard r] by blast
  then show ?thesis
  proof cases
    case 1
    with assms show ?thesis by simp
  next
    case 2
    let ?e = "(sub_identity s, sub_transfer s, sub_operation s)"
    define ok where "ok = is_true (answer heard (SrcSubmitted s))"
    have inv: "binding_inv b" "b_callbacks b = Some (logging answer facts links)"
      "forwarding_ok (b, heard)" "told_ok (b, heard)"
      using assms by (simp_all add: hears_def)
    have uuid: "b_process_uuid b = u" using assms by (simp add: hears_def)
    have u: "process_uuid_ok (b_process_uuid b)" using inv(1) by (simp add: binding_inv_def)
    from 2 inv(2) have f: "record_identity b r = Some (sub_identity s)"
      "plain (attr_or_none r ''job_id'') = PInt job"
      "transfer_identity (transfer_text b job) = Inr (sub_transfer s)"
      "map_of (b_pending b) job = None"
      "observe_submitted b heard r =
         (if ok then b\<lparr>b_pending := AList.update job ?e (b_pending b)\<rparr> else b,
          heard @ [(SrcSubmitted s, ok)], Inr ok)"
      by (auto simp: forwarded_submission_def logging_def ok_def is_true_iff)
    define b' where "b' = (if ok then b\<lparr>b_pending := AList.update job ?e (b_pending b)\<rparr> else b)"
    have job: "uint64 job" using record_identity_SomeD [OF f(1)] f(2) by auto
    from transfer_text_iff [OF job f(3)] have t: "sub_transfer s = job_transfer (b_process_uuid b) job"
      by (simp add: job_transfer_def)
    have "binding_inv b'"
      using submitted_keeps [OF inv(1), of heard r] f(5) by (simp add: b'_def)
    moreover have "b_callbacks b' = Some (logging answer facts links)"
      using inv(2) by (simp add: b'_def)
    moreover have "forwarding_ok (b', heard @ [(SrcSubmitted s, ok)])"
      using inv(3) f(4) job u t by (auto simp: forwarding_ok_def b'_def)
    moreover have "told_ok (b', heard @ [(SrcSubmitted s, ok)])"
    proof -
      have "entries_ok (\<lambda>job. remembered (heard @ [(SrcSubmitted s, ok)])) (b_pending b)"
        using inv(4) by (auto simp: told_ok_def elim!: entries_ok_mono intro: remembered_more)
      moreover have "remembered (heard @ [(SrcSubmitted s, ok)]) ?e" if ok
        using that by (auto simp: remembered_def)
      ultimately show ?thesis using inv(4) by (cases ok) (simp_all add: told_ok_def b'_def)
    qed
    ultimately show ?thesis using f(5) uuid by (simp add: b'_def hears_def)
  qed
qed

lemma terminal_hears:
  assumes "hears u (logging answer facts links) (b, heard)"
  shows "\<exists>b' heard' ok. observe_terminal b heard event r = (b', heard', ok) \<and>
    hears u (logging answer facts links) (b', heard')"
proof -
  consider ok where "observe_terminal b heard event r = (b, heard, ok)"
    | job e source where "forwarded_terminal b heard event r job e source"
    using terminal_forwarded [of b heard event r] by blast
  then show ?thesis
  proof cases
    case 1
    with assms show ?thesis by simp
  next
    case 2
    obtain i t p where e: "e = (i, t, p)" by (cases e)
    define ok where "ok = is_true (answer heard source)"
    define b' where "b' = b\<lparr>b_pending := AList.delete job (b_pending b)\<rparr>"
    have inv: "binding_inv b" "b_callbacks b = Some (logging answer facts links)"
      "forwarding_ok (b, heard)" "told_ok (b, heard)"
      using assms by (simp_all add: hears_def)
    have uuid: "b_process_uuid b = u" using assms by (simp add: hears_def)
    have u: "process_uuid_ok (b_process_uuid b)" using inv(1) by (simp add: binding_inv_def)
    from 2 inv(2) e have f: "map_of (b_pending b) job = Some (i, t, p)"
      "terminal_source b event (plain (attr_or_none r ''job_id'')) t p r = Inr (Some source)"
      "observe_terminal b heard event r = (b', heard @ [(source, ok)], Inr ok)"
      "pending_key (plain (attr_or_none r ''job_id'')) = Inr (Some job)"
      by (auto simp: forwarded_terminal_def logging_def ok_def b'_def)
    note closes = terminal_source_closes [OF f(2) f(4), of i]
    have "entry_ok (b_process_uuid b) (b_worker_generation b) job (i, t, p)"
      using inv(1) f(1) by (auto simp: binding_inv_def intro: entries_okD)
    then have job: "uint64 job" and t: "t = job_transfer (b_process_uuid b) job"
      by (auto simp: entry_ok_def job_transfer_def)
    have "remembered heard (i, t, p)"
      using inv(4) f(1) by (auto simp: told_ok_def dest: entries_okD)
    then obtain s where s: "(SrcSubmitted s, True) \<in> set heard"
      "sub_identity s = i" "sub_transfer s = t" "sub_operation s = p"
      by (auto simp: remembered_def)
    have "binding_inv b'"
      using terminal_keeps [OF inv(1), of heard event r] f(3) by simp
    moreover have "b_callbacks b' = Some (logging answer facts links)"
      using inv(2) by (simp add: b'_def)
    moreover have "forwarding_ok (b', heard @ [(source, ok)])"
      using inv(3) f(1) job u by (auto simp: forwarding_ok_def b'_def closes_transfer [OF closes] t)
    moreover have "told_ok (b', heard @ [(source, ok)])"
    proof -
      have "entries_ok (\<lambda>job. remembered (heard @ [(source, ok)])) (b_pending b)"
        using inv(4) by (auto simp: told_ok_def elim!: entries_ok_mono intro: remembered_more)
      moreover have "closes_earlier (b_process_uuid b) heard (source, ok)"
        using closes s t by (intro closes_earlierI [of _ job s]) simp_all
      ultimately show ?thesis using inv(4) by (simp add: told_ok_def b'_def)
    qed
    ultimately show ?thesis using f(3) uuid by (simp add: hears_def b'_def)
  qed
qed

lemma claims_heard:
  "\<exists>ok. observe_host_fact b heard r ev = (b, heard, ok)" (is ?facts)
  "\<exists>ok. observe_correlated_host b heard r = (b, heard, ok)" (is ?links)
  if "hears u (logging answer facts links) (b, heard)"
proof -
  have cb: "b_callbacks b = Some (logging answer facts links)"
    using that by (simp add: hears_def)
  then show ?facts
    by (cases facts) (auto simp: observe_host_fact_def logging_def split: sum.splits option.splits)
  from cb show ?links
    by (cases links) (auto simp: observe_correlated_host_def logging_def split: sum.splits)
qed

lemma host_step_hears:
  assumes "hears u (logging answer facts links) bw"
  shows "hears u (logging answer facts links) (host_step bw call)"
proof -
  obtain b heard where bw: "bw = (b, heard)" by (cases bw)
  note inv = assms [unfolded bw]
  show ?thesis
  proof (cases call)
    case (HostRecord r)
    have "\<exists>b' heard' ok. observe_host b heard r = (b', heard', ok) \<and>
        hears u (logging answer facts links) (b', heard')"
    proof (cases rule: observe_host_cases [of b heard r])
      case ignored
      with inv show ?thesis by simp
    next
      case (host_claim ev)
      with inv claims_heard(1) [OF inv, of r ev] show ?thesis by auto
    next
      case submitted
      with submitted_hears [OF inv] show ?thesis by simp
    next
      case (terminal event)
      with terminal_hears [OF inv] show ?thesis by simp
    qed
    with bw HostRecord show ?thesis by (auto simp: host_step_def)
  next
    case (CorrelatedRecord r)
    with bw inv claims_heard(2) [OF inv, of r] show ?thesis by (auto simp: host_step_def)
  qed
qed

interpretation hearing: machine host_step "\<lambda>_. True" "hears u (logging answer facts links)"
  for u answer facts links
  by unfold_locales (rule host_step_hears)

lemma register_hears:
  assumes "new_binding host api uuid = Inr b0" "process_uuid_ok uuid"
    "register_binding b0 (logging answer facts links) host_result correlated_result undo =
       (b1, calls, Inr handle)"
  shows "hears uuid (logging answer facts links) (b1, [])"
proof -
  have b0: "b_process_uuid b0 = uuid" "b_pending b0 = []" "binding_inv b0"
    using assms(1) new_binding_inv [OF assms(1,2)]
    by (auto simp: new_binding_def Let_def split: if_splits)
  from assms(3) have "b_callbacks b1 = Some (logging answer facts links)"
    "b_process_uuid b1 = b_process_uuid b0" "b_pending b1 = b_pending b0"
    by (auto simp: register_binding_def Let_def split: if_splits sum.splits)
  with b0 register_keeps [OF b0(3), of "logging answer facts links" host_result correlated_result undo]
    assms(3)
  show ?thesis by (simp add: hears_def forwarding_ok_def told_ok_def)
qed

lemma serving_hears:
  assumes "new_binding host api uuid = Inr b0" "process_uuid_ok uuid"
    "register_binding b0 (logging answer facts links) host_result correlated_result undo =
       (b1, calls, Inr handle)"
    "run host_step records (b1, []) = (b, heard)"
  shows "hears uuid (logging answer facts links) (b, heard)"
  using hearing.run_keeps [OF register_hears [OF assms(1-3)], of records] assms(4)
  by (simp add: list_all_iff)

section \<open>A binding that serves one restore\<close>

definition demo_binding_uuid :: string where
  "demo_binding_uuid = replicate 32 (CHR ''a'')"

definition demo_host_api :: host_obj where
  "demo_host_api = HObj [(''KV_TRANSFER_OBSERVER_CONTRACT'', HVal (PStr HOST_OBSERVER_CONTRACT)),
     (''KV_TRANSFER_OBSERVABILITY_API_VERSION'', HVal (PStr REQUIRED_HOST_API_VERSION))]"

definition member :: "string \<Rightarrow> host_obj" where
  "member s = HObj [(''value'', HVal (PStr s))]"

definition demo_submission :: host_obj where
  "demo_submission = HObj [(''event'', member ''transfer_submitted''), (''job_id'', HVal (PInt 7)),
     (''rank'', HVal (PInt 1)), (''request_id'', HVal (PStr ''r'')),
     (''operation'', member ''h2d_restore''), (''block_count'', HVal (PInt 2)),
     (''observed_at_ns'', HVal (PInt 10))]"

definition demo_completion :: host_obj where
  "demo_completion = HObj [(''event'', member ''transfer_completed''), (''job_id'', HVal (PInt 7)),
     (''rank'', HVal (PInt 1)), (''request_id'', HVal (PStr ''r'')),
     (''operation'', member ''h2d_restore''), (''success'', HVal (PBool True)),
     (''bytes_moved'', HVal (PInt 64)), (''duration_ns'', HVal (PInt 5)),
     (''observed_at_ns'', HVal (PInt 20))]"

definition demo_plugin :: "forwarded callbacks" where
  "demo_plugin = logging (\<lambda>_ _. Inr (PBool True)) None None"

definition demo_bound :: "forwarded binding" where
  "demo_bound = \<lparr>b_callbacks = Some demo_plugin, b_pending = [],
     b_process_uuid = demo_binding_uuid,
     b_worker_generation = worker_generation_of demo_binding_uuid, b_correlated_api = False,
     b_correlated_handle = None\<rparr>"

lemma demo_binding_uuid_ok: "process_uuid_ok demo_binding_uuid"
  by code_simp

lemma transfer_text_ok:
  "process_uuid_ok (b_process_uuid b) \<Longrightarrow> uint64 job \<Longrightarrow>
     transfer_identity (transfer_text b job) = Inr (job_transfer (b_process_uuid b) job)"
  unfolding transfer_identity_iff
  by (auto simp: transfer_text_def job_transfer_def scoped_id_def valid_transfer_def
      valid_scoped_def uint64_def intro!: exI [of _ "nat job"])

lemma receipt_text_ok:
  "process_uuid_ok (b_process_uuid b) \<Longrightarrow> uint64 job \<Longrightarrow>
     receipt_identity (receipt_text b job) = Inr (job_receipt_id (b_process_uuid b) job)"
  unfolding receipt_identity_iff
  by (auto simp: receipt_text_def job_receipt_id_def scoped_id_def valid_receipt_def
      valid_scoped_def uint64_def intro!: exI [of _ "nat job"])

lemma demo_new_binding:
  "new_binding demo_host_api None demo_binding_uuid =
     Inr (demo_bound\<lparr>b_callbacks := None\<rparr>)"
  by (simp add: new_binding_def demo_host_api_def plain_attr_def attr_def lookup_attr_def
      HOST_OBSERVER_CONTRACT_def REQUIRED_HOST_API_VERSION_def demo_bound_def)

lemma demo_registered:
  "register_binding (demo_bound\<lparr>b_callbacks := None\<rparr>)
     (logging (\<lambda>_ _. Inr (PBool True)) None None) (Inr (PInt 1)) (Inr PNone) (Inr ()) =
   (demo_bound, [RegisterHost], Inr (PInt 1))"
  by (simp add: register_binding_def demo_bound_def demo_plugin_def)

definition demo_source :: core_transfer_submitted where
  "demo_source = CoreTransferSubmitted
     (ObservationIdentity ''r'' (worker_generation_of demo_binding_uuid) 1 None)
     (job_transfer demo_binding_uuid 7) H2D_RESTORE 2 10"

definition demo_finish :: core_transfer_completed where
  "demo_finish = CoreTransferCompleted (job_transfer demo_binding_uuid 7) 20 True (Some 64)
     (Some 5) (Some (job_receipt_id demo_binding_uuid 7))"

lemmas reading_defs = value_of_attr_def attr_or_none_def lookup_attr_def member_def plain_attr_def
  attr_def

lemma demo_reading:
  "value_of_attr demo_submission ''event'' = PStr ''transfer_submitted''"
  "value_of_attr demo_completion ''event'' = PStr ''transfer_completed''"
  "record_operation demo_submission = Some H2D_RESTORE"
  "record_operation demo_completion = Some H2D_RESTORE"
  "to_host_fact_event (PStr ''transfer_submitted'') = Inl ValueError"
  "to_host_fact_event (PStr ''transfer_completed'') = Inl ValueError"
  "plain (attr_or_none demo_submission ''job_id'') = PInt 7"
  "plain (attr_or_none demo_submission ''block_count'') = PInt 2"
  by code_simp+

lemma demo_fields [simp]:
  "b_callbacks demo_bound = Some demo_plugin" "b_pending demo_bound = []"
  "b_process_uuid demo_bound = demo_binding_uuid"
  "b_worker_generation demo_bound = worker_generation_of demo_binding_uuid"
  "cb_observe demo_plugin heard s = (heard @ [(s, True)], Inr (PBool True))"
  by (simp_all add: demo_bound_def demo_plugin_def logging_def is_true_def)

lemma demo_identity:
  "record_identity demo_bound demo_submission = Some (sub_identity demo_source)"
proof -
  have "valid_request_id ''r''" by code_simp
  with worker_generation_range [OF demo_binding_uuid_ok]
  have "observation_identity (PStr ''r'') (PInt (b_worker_generation demo_bound)) (PInt 1) PNone =
      Inr (sub_identity demo_source)"
    by (simp add: observation_identity_iff demo_source_def demo_bound_def opt_int_def
        valid_identity_def UINT64_MAX_def)
  then show ?thesis
    by (simp add: record_identity_def demo_submission_def reading_defs)
qed

lemma demo_submitted:
  "host_step (demo_bound, []) (HostRecord demo_submission) =
     (demo_bound\<lparr>b_pending := [(7, sub_identity demo_source, sub_transfer demo_source, H2D_RESTORE)]\<rparr>,
      [(SrcSubmitted demo_source, True)])"
proof -
  have "transfer_identity (transfer_text demo_bound 7) = Inr (job_transfer demo_binding_uuid 7)"
    using transfer_text_ok [of demo_bound 7] demo_binding_uuid_ok
    by (simp add: demo_bound_def uint64_def)
  then have "res_bind (transfer_identity (transfer_text demo_bound 7)) (\<lambda>t.
      res_bind (plain_attr demo_submission ''observed_at_ns'') (\<lambda>observed.
      core_transfer_submitted (PIdentity (sub_identity demo_source)) (PTransfer t)
        (POperation H2D_RESTORE) (PInt 2) observed)) = Inr demo_source"
    by (simp add: demo_submission_def reading_defs core_transfer_submitted_iff demo_source_def
        uint64_def)
  then have "observe_submitted demo_bound [] demo_submission =
      (demo_bound\<lparr>b_pending := [(7, sub_identity demo_source, sub_transfer demo_source,
         H2D_RESTORE)]\<rparr>, [(SrcSubmitted demo_source, True)], Inr True)"
    using demo_identity demo_reading
    by (simp add: observe_submitted_def is_true_def MAX_BINDING_TRANSFERS_def
        DEFAULT_MAX_CORRELATED_TRANSFERS_def del: res_bind_Inr)
  then show ?thesis using demo_reading by (simp add: host_step_def observe_host_def)
qed

lemma demo_completed:
  "host_step (demo_bound\<lparr>b_pending := [(7, sub_identity demo_source, sub_transfer demo_source,
       H2D_RESTORE)]\<rparr>, [(SrcSubmitted demo_source, True)]) (HostRecord demo_completion) =
     (demo_bound, [(SrcSubmitted demo_source, True), (SrcCompleted demo_finish, True)])"
proof -
  let ?b = "demo_bound\<lparr>b_pending := [(7, sub_identity demo_source, sub_transfer demo_source,
       H2D_RESTORE)]\<rparr>"
  have "receipt_identity (receipt_text ?b 7) = Inr (job_receipt_id demo_binding_uuid 7)"
    using receipt_text_ok [of ?b 7] demo_binding_uuid_ok by (simp add: uint64_def)
  then have "terminal_source ?b ''transfer_completed'' (PInt 7) (sub_transfer demo_source) H2D_RESTORE
      demo_completion = Inr (Some (SrcCompleted demo_finish))"
    by (simp add: terminal_source_def demo_completion_def reading_defs core_transfer_completed_iff
        demo_finish_def demo_source_def uint64_def opt_val_def in_range_def)
  moreover have "pending_key (PInt 7) = Inr (Some 7)"
    "plain (attr_or_none demo_completion ''job_id'') = PInt 7"
    "str_of (plain (attr_or_none demo_completion ''request_id'')) = Some (id_request_id (sub_identity demo_source))"
    "integral (plain (attr_or_none demo_completion ''rank'')) = Some (id_rank (sub_identity demo_source))"
    by (simp_all add: demo_completion_def reading_defs pending_key_def integral_def demo_source_def)
  ultimately have "observe_terminal ?b [(SrcSubmitted demo_source, True)] ''transfer_completed''
      demo_completion = (demo_bound, [(SrcSubmitted demo_source, True), (SrcCompleted demo_finish, True)],
        Inr True)"
    using demo_reading
    by (simp add: observe_terminal_def is_true_def demo_bound_def)
  then show ?thesis using demo_reading by (simp add: host_step_def observe_host_def)
qed

lemma binding_run:
  "run host_step [HostRecord demo_submission] (demo_bound, []) =
     (demo_bound\<lparr>b_pending := [(7, sub_identity demo_source, sub_transfer demo_source,
        H2D_RESTORE)]\<rparr>, [(SrcSubmitted demo_source, True)])"
  "run host_step [HostRecord demo_submission, HostRecord demo_completion] (demo_bound, []) =
     (demo_bound, [(SrcSubmitted demo_source, True), (SrcCompleted demo_finish, True)])"
  by (simp_all add: demo_submitted demo_completed)

section \<open>Properties\<close>

text \<open>
  C16: for every plugin and every sequence of host records after registration, each accepted
  submission of a job's transfer has been closed by exactly one forwarded completion or
  cancellation, unless it is still remembered; at most 4096 transfers are remembered.
\<close>

theorem forwarding_conserved:
  assumes "new_binding host api uuid = Inr b0" "process_uuid_ok uuid"
    "register_binding b0 (logging answer facts links) host_result correlated_result undo =
       (b1, calls, Inr handle)"
    "run host_step records (b1, []) = (b, heard)" "uint64 job"
  shows "how_many (opens (job_transfer uuid job)) heard =
      how_many (ends_transfer (job_transfer uuid job)) heard +
        (if map_of (b_pending b) job = None then 0 else 1) \<and>
    length (b_pending b) \<le> 4096"
proof -
  from serving_hears [OF assms(1-4)]
  have "b_process_uuid b = uuid" "forwarding_ok (b, heard)" "binding_inv b"
    by (simp_all add: hears_def)
  with assms(5) show ?thesis
    by (simp add: forwarding_ok_def binding_inv_def MAX_BINDING_TRANSFERS_def
        DEFAULT_MAX_CORRELATED_TRANSFERS_def)
qed

theorem forwarding_conserved_witness:
  "how_many (opens (job_transfer demo_binding_uuid 7)) [(SrcSubmitted demo_source, True)] =
   how_many (ends_transfer (job_transfer demo_binding_uuid 7)) [(SrcSubmitted demo_source, True)]
     + 1"
  using forwarding_conserved [OF demo_new_binding demo_binding_uuid_ok demo_registered binding_run(1),
      of 7]
  by (simp add: uint64_def)

text \<open>
  C17: a forwarded completion or cancellation closes an earlier submission the plugin accepted:
  it names the same transfer, a completion carries a receipt exactly when a restore succeeded,
  and a cancellation names the host's shutdown.
\<close>

theorem terminals_close_submissions:
  assumes "new_binding host api uuid = Inr b0" "process_uuid_ok uuid"
    "register_binding b0 (logging answer facts links) host_result correlated_result undo =
       (b1, calls, Inr handle)"
    "run host_step records (b1, []) = (b, heard)"
    "heard = before @ (source, ok) # after"
  shows "(\<exists>s. source = SrcSubmitted s) \<or>
    (\<exists>job s. (SrcSubmitted s, True) \<in> set before \<and> sub_transfer s = job_transfer uuid job \<and>
       closes uuid job (sub_identity s, sub_transfer s, sub_operation s) source)"
proof -
  from serving_hears [OF assms(1-4)]
  have "b_process_uuid b = uuid" "each_after (closes_earlier (b_process_uuid b)) heard"
    by (auto simp: hears_def told_ok_def)
  with assms(5) have "closes_earlier uuid before (source, ok)"
    unfolding each_after_def by blast
  then show ?thesis unfolding closes_earlier_def fst_conv .
qed

theorem terminals_close_submissions_witness:
  "(\<exists>s. SrcCompleted demo_finish = SrcSubmitted s) \<or>
    (\<exists>job s. (SrcSubmitted s, True) \<in> set [(SrcSubmitted demo_source, True)] \<and>
       sub_transfer s = job_transfer demo_binding_uuid job \<and>
       closes demo_binding_uuid job (sub_identity s, sub_transfer s, sub_operation s)
         (SrcCompleted demo_finish))"
  using terminals_close_submissions [OF demo_new_binding demo_binding_uuid_ok demo_registered
      binding_run(2), of "[(SrcSubmitted demo_source, True)]" "SrcCompleted demo_finish" True "[]"]
  by simp

text \<open>The exception a handler lets through.\<close>

definition raises :: "'w served \<Rightarrow> py_exc option" where
  "raises s = (case snd (snd s) of Inl e \<Rightarrow> Some e | Inr ok \<Rightarrow> None)"

lemma raises_simps [simp]:
  "raises (b, w, Inr ok) = None" "raises (b, w, Inl e) = Some e"
  by (simp_all add: raises_def)

lemma raises_claims:
  "raises (observe_host_fact b w r ev) = None"
  "raises (observe_correlated_host b w r) = None"
  by (simp_all add: observe_host_fact_def observe_correlated_host_def raises_def
      split: option.splits sum.splits prod.splits)

lemma raises_submitted: "raises (observe_submitted b w r) = None"
proof -
  consider "observe_submitted b w r = (b, w, Inr False)"
    | job s where "forwarded_submission b w r job s"
    using submitted_forwarded [of b w r] by blast
  then show ?thesis
    by cases (auto simp: forwarded_submission_def)
qed

lemma raises_terminal:
  "raises (observe_terminal b w event r) =
     (if hashable (plain (attr_or_none r ''job_id'')) then None else Some TypeError)"
proof -
  consider "observe_terminal b w event r = (b, w, Inr False)"
      "hashable (plain (attr_or_none r ''job_id''))"
    | "\<not> hashable (plain (attr_or_none r ''job_id''))"
    | job e source where "forwarded_terminal b w event r job e source"
    using terminal_forwarded [of b w event r] by blast
  then show ?thesis
    by cases (auto simp: forwarded_terminal_def observe_terminal_def pending_key_def split: if_splits)
qed

lemma raises_observe_host:
  "raises (observe_host b w r) =
     (if value_of_attr r ''event'' \<in> {PStr ''transfer_completed'', PStr ''transfer_cancelled''} \<and>
         \<not> hashable (plain (attr_or_none r ''job_id''))
      then Some TypeError else None)"
proof (cases "value_of_attr r ''event'' \<in> {PStr ''transfer_completed'', PStr ''transfer_cancelled''}")
  case True
  then obtain event where e: "value_of_attr r ''event'' = PStr event"
    "event = ''transfer_completed'' \<or> event = ''transfer_cancelled''" by auto
  then have "to_host_fact_event (PStr event) = Inl ValueError"
    by (auto simp: to_host_fact_event_def enum_lookup_def)
  with e have "observe_host b w r = observe_terminal b w event r"
    by (auto simp: observe_host_def)
  with True show ?thesis by (simp add: raises_terminal)
next
  case False
  have "raises (observe_host b w r) = None"
  proof (cases rule: observe_host_cases [of b w r])
    case (terminal event)
    with False show ?thesis by auto
  qed (simp_all add: raises_claims raises_submitted)
  with False show ?thesis by simp
qed

definition demo_unhashable :: host_obj where
  "demo_unhashable = HObj [(''event'', member ''transfer_completed''),
     (''job_id'', HVal (PList []))]"

text \<open>
  C18: the observer raises into the host exactly when a completion or cancellation carries an
  unhashable job id; every other record, however malformed, is answered with a bool, and so is
  every correlated record.
\<close>

theorem observer_contained:
  "raises (observe_host b w r) =
     (if value_of_attr r ''event'' \<in> {PStr ''transfer_completed'', PStr ''transfer_cancelled''} \<and>
         \<not> hashable (plain (attr_or_none r ''job_id''))
      then Some TypeError else None) \<and>
   raises (observe_correlated_host b w r) = None \<and>
   raises (observe_host b w demo_unhashable) = Some TypeError"
proof -
  have "value_of_attr demo_unhashable ''event'' = PStr ''transfer_completed''"
    "plain (attr_or_none demo_unhashable ''job_id'') = PList []"
    by code_simp+
  then show ?thesis by (simp add: raises_observe_host raises_claims)
qed

text \<open>
  C40: registration is all or nothing. When it fails, the callbacks and the pending transfers
  are as before, and either the binding was in use and nothing was called, or the host refused
  and nothing was registered, or the correlated API refused and the host observer that had
  been registered was taken back.
\<close>

theorem registration_all_or_nothing:
  assumes "register_binding b cb host_result correlated_result undo = (b', calls, Inl e)"
  shows "b_callbacks b' = b_callbacks b \<and> b_pending b' = b_pending b \<and>
    (b_callbacks b \<noteq> None \<and> b' = b \<and> calls = [] \<or>
     (\<forall>h. host_result = Inr h \<longrightarrow> h = PNone) \<and> b' = b \<and> calls = [RegisterHost] \<or>
     (\<exists>h. host_result = Inr h \<and> h \<noteq> PNone \<and> b_callbacks b' = None \<and>
        (\<forall>k. correlated_result = Inr k \<longrightarrow> k = PNone) \<and>
        calls = [RegisterHost, RegisterCorrelated, UnregisterHost h]))"
  using assms
  by (auto simp: register_binding_def Let_def split: if_splits sum.splits)

theorem registration_all_or_nothing_witness:
  "\<exists>b'. register_binding (demo_bound\<lparr>b_callbacks := None, b_correlated_api := True\<rparr>)
       (demo_plugin\<lparr>cb_correlated := Some (\<lambda>w _. (w, Inr PNone))\<rparr>)
       (Inr (PInt 1)) (Inr PNone) (Inr ()) =
       (b', [RegisterHost, RegisterCorrelated, UnregisterHost (PInt 1)], Inl RuntimeError) \<and>
     b_callbacks b' = None \<and> b_pending b' = []"
proof -
  let ?b = "demo_bound\<lparr>b_callbacks := None, b_correlated_api := True\<rparr>"
  let ?cb = "demo_plugin\<lparr>cb_correlated := Some (\<lambda>w _. (w, Inr PNone))\<rparr>"
  have "register_binding ?b ?cb (Inr (PInt 1)) (Inr PNone) (Inr ()) =
      (?b\<lparr>b_correlated_handle := None\<rparr>,
       [RegisterHost, RegisterCorrelated, UnregisterHost (PInt 1)], Inl RuntimeError)"
    by (simp add: register_binding_def demo_bound_def)
  from this registration_all_or_nothing [OF this] show ?thesis by simp
qed

end
