(* ===== verification/Json.thy ===== *)
theory Json
  imports Py_Values
begin

text \<open>
  The JSON values the package exchanges: Python's \<^verbatim>\<open>==\<close> on them, their canonical form (dicts
  sorted by key), and the text \<^verbatim>\<open>json.dumps\<close> writes with \<^verbatim>\<open>sort_keys\<close>, \<^verbatim>\<open>ensure_ascii\<close> and
  the separators \<^verbatim>\<open>,\<close> and \<^verbatim>\<open>:\<close>.
\<close>

section \<open>Equality\<close>

definition num_of :: "pyval \<Rightarrow> rat option" where
  "num_of v =
     (case v of
        PInt n \<Rightarrow> Some (of_int n)
      | PBool x \<Rightarrow> Some (if x then 1 else 0)
      | PFloat (Finite q) \<Rightarrow> Some q
      | _ \<Rightarrow> None)"

text \<open>
  Numbers compare by value, enum members as their strings, containers by content; two NaNs
  differ.
\<close>

definition scalar_eq :: "pyval \<Rightarrow> pyval \<Rightarrow> bool" where
  "scalar_eq v w =
     (if num_of v \<noteq> None then num_of v = num_of w
      else if str_of v \<noteq> None then str_of v = str_of w
      else v = w \<and> v \<noteq> PFloat NotANumber)"

fun py_eq :: "pyval \<Rightarrow> pyval \<Rightarrow> bool" where
  "py_eq (PList xs) w = (case w of PList ys \<Rightarrow> list_all2 py_eq xs ys | _ \<Rightarrow> False)"
| "py_eq (PTuple xs) w = (case w of PTuple ys \<Rightarrow> list_all2 py_eq xs ys | _ \<Rightarrow> False)"
| "py_eq (PDict d) w =
     (case w of
        PDict e \<Rightarrow>
          length d = length e \<and>
          list_all (\<lambda>p. case map_of e (fst p) of None \<Rightarrow> False | Some y \<Rightarrow> py_eq (snd p) y) d
      | _ \<Rightarrow> False)"
| "py_eq v w = scalar_eq v w"

section \<open>JSON values\<close>

text \<open>What \<^verbatim>\<open>json.loads\<close> can return, for hooks that refuse repeated keys and NaN.\<close>

fun json_value :: "pyval \<Rightarrow> bool" where
  "json_value PNone = True"
| "json_value (PBool x) = True"
| "json_value (PInt n) = True"
| "json_value (PFloat q) = (q \<noteq> NotANumber)"
| "json_value (PStr s) = True"
| "json_value (PList xs) = list_all json_value xs"
| "json_value (PDict d) = (dict_ok d \<and> list_all (\<lambda>p. json_value (snd p)) d)"
| "json_value _ = False"

text \<open>The same value with every dict sorted by key.\<close>

fun canon :: "pyval \<Rightarrow> pyval" where
  "canon (PList xs) = PList (map canon xs)"
| "canon (PTuple xs) = PTuple (map canon xs)"
| "canon (PDict d) = PDict (sort_key fst (map (\<lambda>p. (fst p, canon (snd p))) d))"
| "canon v = v"

lemma map_of_map_snd: "map_of (map (\<lambda>p. (fst p, f (snd p))) d) k = map_option f (map_of d k)"
  by (induction d) auto

lemma dict_ok_sort [simp]:
  assumes "dict_ok d"
  shows "dict_ok (sort_key fst d)"
  using assms unfolding distinct_map distinct_sort set_sort .

lemma map_of_sort:
  assumes "dict_ok d"
  shows "map_of (sort_key fst d) = map_of d"
  using map_of_inject_set [OF dict_ok_sort [OF assms] assms] by (simp only: set_sort)

lemma canon_dict_iff:
  assumes "dict_ok d" "dict_ok e"
  shows "canon (PDict d) = canon (PDict e) \<longleftrightarrow>
    (\<forall>k. map_option canon (map_of d k) = map_option canon (map_of e k))"
proof -
  let ?c = "map (\<lambda>p. (fst p, canon (snd p)))"
  have ok: "dict_ok (?c d)" "dict_ok (?c e)" using assms by (simp_all add: comp_def)
  have "canon (PDict d) = canon (PDict e) \<longleftrightarrow> sort_key fst (?c d) = sort_key fst (?c e)" by simp
  also have "\<dots> \<longleftrightarrow> map_of (?c d) = map_of (?c e)"
  proof
    assume "sort_key fst (?c d) = sort_key fst (?c e)"
    then have "map_of (sort_key fst (?c d)) = map_of (sort_key fst (?c e))" by (rule arg_cong)
    then show "map_of (?c d) = map_of (?c e)"
      by (simp only: map_of_sort [OF ok(1)] map_of_sort [OF ok(2)])
  next
    assume "map_of (?c d) = map_of (?c e)"
    then have same: "set (?c d) = set (?c e)" by (simp only: map_of_inject_set [OF ok])
    show "sort_key fst (?c d) = sort_key fst (?c e)"
    proof (rule map_sorted_distinct_set_unique [of fst])
      have "inj_on fst (set (?c d))" using ok(1) by (simp only: distinct_map)
      then show "inj_on fst (set (sort_key fst (?c d)) \<union> set (sort_key fst (?c e)))"
        using same by simp
    qed (use ok same in \<open>simp_all add: comp_def\<close>)
  qed
  also have "\<dots> \<longleftrightarrow> (\<forall>k. map_option canon (map_of d k) = map_option canon (map_of e k))"
    by (simp add: fun_eq_iff map_of_map_snd)
  finally show ?thesis .
qed

lemma canon_simps [simp]:
  "canon v = PStr s \<longleftrightarrow> v = PStr s" "PStr s = canon v \<longleftrightarrow> v = PStr s"
  "canon v = PInt n \<longleftrightarrow> v = PInt n" "PInt n = canon v \<longleftrightarrow> v = PInt n"
  "canon v = PBool x \<longleftrightarrow> v = PBool x" "PBool x = canon v \<longleftrightarrow> v = PBool x"
  "canon v = PFloat q \<longleftrightarrow> v = PFloat q" "PFloat q = canon v \<longleftrightarrow> v = PFloat q"
  "canon v = PNone \<longleftrightarrow> v = PNone" "PNone = canon v \<longleftrightarrow> v = PNone"
  by (cases v; auto)+

lemma py_eq_keys:
  assumes "py_eq (PDict d) (PDict e)" "dict_ok d" "dict_ok e"
  shows "map_of d k = None \<longleftrightarrow> map_of e k = None"
proof -
  have "fst p \<in> fst ` set e" if "p \<in> set d" for p
  proof -
    from assms(1) that have "map_of e (fst p) \<noteq> None"
      by (auto simp: list_all_iff split: option.splits)
    then show ?thesis by (simp add: map_of_eq_None_iff)
  qed
  then have sub: "fst ` set d \<subseteq> fst ` set e" by blast
  have len: "length d = length e" using assms(1) by simp
  have "card (fst ` set d) = card (fst ` set e)"
    using assms(2,3) len by (metis distinct_card length_map list.set_map)
  with sub have "fst ` set d = fst ` set e" by (simp add: card_subset_eq)
  then show ?thesis by (simp add: map_of_eq_None_iff)
qed

lemma py_eq_canon:
  "json_value v \<Longrightarrow> json_value w \<Longrightarrow> canon v = canon w \<Longrightarrow> py_eq v w"
proof (induction v w rule: py_eq.induct)
  case (1 xs w)
  then obtain ys where w: "w = PList ys" and maps: "map canon xs = map canon ys"
    by (cases w) auto
  then have len: "length xs = length ys" by (metis length_map)
  have "py_eq (xs ! i) (ys ! i)" if i: "i < length ys" for i
  proof -
    have "canon (xs ! i) = canon (ys ! i)" using maps i len by (metis nth_map)
    moreover have "json_value (xs ! i)" "json_value (ys ! i)"
      using 1(2,3) w i len by (auto simp: list_all_length)
    ultimately show ?thesis using 1(1) [OF w] i len by (metis nth_mem)
  qed
  with w len show ?case by (simp add: list_all2_conv_all_nth)
next
  case (3 d w)
  then obtain e where w: "w = PDict e" by (cases w) auto
  with 3 have ok: "dict_ok d" "dict_ok e" by simp_all
  have same: "map_option canon (map_of d k) = map_option canon (map_of e k)" for k
    using 3(4) w ok by (simp only: canon_dict_iff)
  have "py_eq v y" if "(k, v) \<in> set d" "map_of e k = Some y" for k v y
  proof -
    have "map_of d k = Some v" using that(1) ok by simp
    with same [of k] that(2) have "canon v = canon y" by simp
    moreover have "(k, y) \<in> set e" using that(2) by (rule map_of_SomeD)
    ultimately show ?thesis using 3 w that by (fastforce simp: list_all_iff)
  qed
  moreover have "map_of e k \<noteq> None" if "(k, v) \<in> set d" for k v
  proof -
    have "map_of d k = Some v" using that ok by simp
    with same [of k] show ?thesis by (cases "map_of e k") simp_all
  qed
  moreover have "length d = length e"
  proof -
    have "fst ` set d = fst ` set e"
      using same by (metis map_of_eq_None_iff option.map_disc_iff subsetI subset_antisym)
    with ok show ?thesis by (metis distinct_card length_map list.set_map)
  qed
  ultimately show ?case using w by (force simp: list_all_iff split: option.split)
qed (auto simp: scalar_eq_def num_of_def split: pyval.splits)

section \<open>Writing\<close>

text \<open>
  \<^verbatim>\<open>json.dumps\<close> of a value; enum members are strings, tuples are arrays, any other object is a
  TypeError. The text of a float is a parameter, CPython's \<^verbatim>\<open>float.__repr__\<close>.
\<close>

definition hex_digit :: "nat \<Rightarrow> char" where
  "hex_digit n = (if n < 10 then digit n else char_of (87 + n))"

definition escape_char :: "char \<Rightarrow> string" where
  "escape_char c =
     (if c = CHR 0x22 then [CHR 0x5C, CHR 0x22]
      else if c = CHR 0x5C then [CHR 0x5C, CHR 0x5C]
      else if c = CHR 0x0A then [CHR 0x5C, CHR ''n'']
      else if c = CHR 0x0D then [CHR 0x5C, CHR ''r'']
      else if c = CHR 0x09 then [CHR 0x5C, CHR ''t'']
      else if c = CHR 0x0C then [CHR 0x5C, CHR ''f'']
      else if c = CHR 0x08 then [CHR 0x5C, CHR ''b'']
      else if 32 \<le> code c \<and> code c \<le> 126 then [c]
      else [CHR 0x5C, CHR ''u'', CHR ''0'', CHR ''0'', hex_digit (code c div 16),
            hex_digit (code c mod 16)])"

definition quote :: "string \<Rightarrow> string" where
  "quote s = CHR 0x22 # concat (map escape_char s) @ [CHR 0x22]"

definition int_text :: "int \<Rightarrow> string" where
  "int_text n = (if n < 0 then CHR ''-'' # dec (nat (- n)) else dec (nat n))"

text \<open>\<^verbatim>\<open>",".join(parts)\<close>\<close>

fun join_comma :: "string list \<Rightarrow> string" where
  "join_comma [] = []"
| "join_comma [x] = x"
| "join_comma (x # xs) = x @ CHR '','' # join_comma xs"

definition member_text :: "string \<Rightarrow> string res \<Rightarrow> string res" where
  "member_text k r = res_bind r (\<lambda>t. Inr (quote k @ CHR '':'' # t))"

fun dumps_in_order :: "(py_float \<Rightarrow> string) \<Rightarrow> pyval \<Rightarrow> string res" where
  "dumps_in_order repr PNone = Inr ''null''"
| "dumps_in_order repr (PBool x) = Inr (if x then ''true'' else ''false'')"
| "dumps_in_order repr (PInt n) = Inr (int_text n)"
| "dumps_in_order repr (PFloat q) = Inr (repr q)"
| "dumps_in_order repr (PList xs) =
     res_bind (res_map (dumps_in_order repr) xs)
       (\<lambda>ts. Inr (CHR ''['' # join_comma ts @ '']''))"
| "dumps_in_order repr (PTuple xs) =
     res_bind (res_map (dumps_in_order repr) xs)
       (\<lambda>ts. Inr (CHR ''['' # join_comma ts @ '']''))"
| "dumps_in_order repr (PDict d) =
     res_bind (res_map (\<lambda>p. member_text (fst p) (dumps_in_order repr (snd p))) d)
       (\<lambda>ts. Inr (CHR ''{'' # join_comma ts @ ''}''))"
| "dumps_in_order repr v =
     (case str_of v of None \<Rightarrow> Inl TypeError | Some s \<Rightarrow> Inr (quote s))"

text \<open>\<^verbatim>\<open>json.dumps(v, ensure_ascii=True, separators=(",", ":"), sort_keys=True)\<close>\<close>

definition dumps :: "(py_float \<Rightarrow> string) \<Rightarrow> pyval \<Rightarrow> string res" where
  "dumps repr v = dumps_in_order repr (canon v)"

end
