(* ===== verification/Codec.thy ===== *)
theory Codec
  imports Json Correlated
begin

text \<open>
  validation.py: the decoders from JSON payloads back to the typed records. Each rebuilds the
  record through its constructor and then compares the record's own payload with the input,
  so a decoder accepts exactly the payloads a writer can produce.
\<close>

section \<open>Reading dicts\<close>

definition as_object :: "pyval \<Rightarrow> (string \<times> pyval) list res" where
  "as_object v = (case v of PDict d \<Rightarrow> Inr d | _ \<Rightarrow> Inl ValueError)"

text \<open>\<^verbatim>\<open>fields[key]\<close>\<close>

definition dict_item :: "(string \<times> pyval) list \<Rightarrow> string \<Rightarrow> pyval res" where
  "dict_item d k = (case map_of d k of None \<Rightarrow> Inl KeyError | Some v \<Rightarrow> Inr v)"

text \<open>\<^verbatim>\<open>except (KeyError, TypeError, ValueError) as exc: raise ValueError(...)\<close>\<close>

definition closed_record :: "'a res \<Rightarrow> 'a res" where
  "closed_record r =
     (case r of
        Inl e \<Rightarrow> if e \<in> {KeyError, TypeError, ValueError} then Inl ValueError else Inl e
      | Inr x \<Rightarrow> Inr x)"

text \<open>\<^verbatim>\<open>if name in fields: fields[name] = f(fields[name])\<close>\<close>

definition convert_field ::
  "string \<Rightarrow> (pyval \<Rightarrow> pyval res) \<Rightarrow> (string \<times> pyval) list \<Rightarrow> (string \<times> pyval) list res" where
  "convert_field name f d =
     (case map_of d name of
        None \<Rightarrow> Inr d
      | Some v \<Rightarrow> res_bind (f v) (\<lambda>x. Inr (AList.update name x d)))"

text \<open>
  \<^verbatim>\<open>if source in fields: ... fields[target] = f(fields.pop(source))\<close>, refusing a dict that has
  the target already.
\<close>

definition rename_field :: "string \<Rightarrow> string \<Rightarrow> (pyval \<Rightarrow> pyval res) \<Rightarrow>
    (string \<times> pyval) list \<Rightarrow> (string \<times> pyval) list res" where
  "rename_field source target f d =
     (case map_of d source of
        None \<Rightarrow> Inr d
      | Some v \<Rightarrow>
          if map_of d target \<noteq> None then Inl ValueError
          else res_bind (f v) (\<lambda>x. Inr (AList.update target x (AList.delete source d))))"

text \<open>\<^verbatim>\<open>obj.get("schema") == name\<close>\<close>

definition has_text :: "(string \<times> pyval) list \<Rightarrow> string \<Rightarrow> string \<Rightarrow> bool" where
  "has_text d k s = (case map_of d k of None \<Rightarrow> False | Some v \<Rightarrow> str_of v = Some s)"

definition identity_from_payload :: "pyval \<Rightarrow> observation_identity res" where
  "identity_from_payload v =
     res_bind (as_object v) (\<lambda>d.
     if fst ` set d \<noteq> {''request_id'', ''worker_generation'', ''rank'', ''recovery_epoch''}
     then Inl ValueError
     else observation_identity_kw d)"

section \<open>Observations\<close>

named_theorems reads "definitions of the field conversions"

definition read_direction :: "pyval \<Rightarrow> pyval res" where
  [reads]: "read_direction v = res_bind (to_direction v) (\<lambda>x. Inr (PDirection x))"

definition read_kind :: "pyval \<Rightarrow> pyval res" where
  [reads]: "read_kind v = res_bind (to_kind v) (\<lambda>x. Inr (PComputeKind x))"

definition read_requeue :: "pyval \<Rightarrow> pyval res" where
  [reads]: "read_requeue v = res_bind (to_requeue v) (\<lambda>x. Inr (PRequeueReason x))"

definition read_terminal :: "pyval \<Rightarrow> pyval res" where
  [reads]: "read_terminal v = res_bind (to_terminal v) (\<lambda>x. Inr (PTerminalReason x))"

definition read_transfer :: "pyval \<Rightarrow> pyval res" where
  [reads]: "read_transfer v = res_bind (transfer_identity v) (\<lambda>x. Inr (PTransfer x))"

definition read_receipt :: "pyval \<Rightarrow> pyval res" where
  [reads]: "read_receipt v = res_bind (receipt_identity v) (\<lambda>x. Inr (PReceipt x))"

definition transfer_list :: "pyval \<Rightarrow> pyval res" where
  "transfer_list v =
     (case v of
        PList xs \<Rightarrow> res_bind (res_map transfer_identity xs) (\<lambda>ts. Inr (PTuple (map PTransfer ts)))
      | _ \<Rightarrow> Inl ValueError)"

definition observation_fields :: "(string \<times> pyval) list \<Rightarrow> (string \<times> pyval) list res" where
  "observation_fields d =
     res_bind (dict_item (AList.delete ''schema'' d) ''identity'') (\<lambda>raw.
     res_bind (identity_from_payload raw) (\<lambda>i.
     let d1 = AList.update ''identity'' (PIdentity i) (AList.delete ''schema'' d) in
     res_bind (dict_item d1 ''event'') (\<lambda>e.
     res_bind (to_event e) (\<lambda>ev.
     res_bind (dict_item d ''observed_at_ns'') (\<lambda>observed.
     let d2 = AList.update ''observed_at_ns'' observed
       (AList.update ''event'' (PEvent ev) d1) in
     res_bind (convert_field ''direction''
       read_direction d2) (\<lambda>d3.
     res_bind (convert_field ''compute_kind''
       read_kind d3) (\<lambda>d4.
     res_bind (convert_field ''requeue_reason''
       read_requeue d4) (\<lambda>d5.
     res_bind (convert_field ''terminal_reason''
       read_terminal d5) (\<lambda>d6.
     res_bind (rename_field ''transfer_id'' ''transfer''
       read_transfer d6) (\<lambda>d7.
     res_bind (rename_field ''receipt_id'' ''receipt''
       read_receipt d7) (\<lambda>d8.
     rename_field ''associated_transfer_ids'' ''associated_transfers'' transfer_list d8)))))))))))"

text \<open>The clock of the constructor's default is never read: \<^verbatim>\<open>observed_at_ns\<close> is always given.\<close>

definition observation_from_payload :: "pyval \<Rightarrow> kv_observation res" where
  "observation_from_payload payload =
     res_bind (as_object payload) (\<lambda>d.
     if \<not> has_text d ''schema'' EVENT_SCHEMA then Inl ValueError
     else
       res_bind (closed_record (res_bind (observation_fields d) (kv_transfer_observation_kw 0)))
         (\<lambda>ob. if py_eq (observation_to_payload ob) payload then Inr ob else Inl ValueError))"

section \<open>Host facts\<close>

definition to_tuple :: "pyval \<Rightarrow> pyval res" where
  "to_tuple v = (case v of PList xs \<Rightarrow> Inr (PTuple xs) | _ \<Rightarrow> Inl ValueError)"

definition host_fact_kw :: "(string \<times> pyval) list \<Rightarrow> host_fact res" where
  "host_fact_kw kw =
     res_bind
       (check_kwargs [''event'', ''process_uuid'', ''observed_at_ns'', ''request_id'']
          [''job_id'', ''rank'', ''recovery_epoch'', ''job_ids'', ''ranks'', ''compute_kind'',
           ''requeue_reason''] kw)
       (\<lambda>_. make_host_fact
          \<lparr>h_event = kwarg kw ''event'' PNone, h_process_uuid = kwarg kw ''process_uuid'' PNone,
           h_observed_at_ns = kwarg kw ''observed_at_ns'' PNone,
           h_request_id = kwarg kw ''request_id'' PNone, h_job_id = kwarg kw ''job_id'' PNone,
           h_rank = kwarg kw ''rank'' PNone,
           h_recovery_epoch = kwarg kw ''recovery_epoch'' PNone,
           h_job_ids = kwarg kw ''job_ids'' (PTuple []), h_ranks = kwarg kw ''ranks'' (PTuple []),
           h_compute_kind = kwarg kw ''compute_kind'' PNone,
           h_requeue_reason = kwarg kw ''requeue_reason'' PNone\<rparr>)"

definition host_fact_fields :: "(string \<times> pyval) list \<Rightarrow> (string \<times> pyval) list res" where
  "host_fact_fields d =
     (let d1 = AList.delete ''scope'' (AList.delete ''schema'' d) in
     res_bind (dict_item d1 ''event'') (\<lambda>e.
     res_bind (to_host_fact_event e) (\<lambda>ev.
     let d2 = AList.update ''event'' (PHostFactEvent ev) d1 in
     res_bind (convert_field ''compute_kind''
       read_kind d2) (\<lambda>d3.
     res_bind (convert_field ''requeue_reason''
       read_requeue d3) (\<lambda>d4.
     res_bind (convert_field ''job_ids'' to_tuple d4) (\<lambda>d5.
     convert_field ''ranks'' to_tuple d5))))))"

definition host_fact_from_payload :: "pyval \<Rightarrow> host_fact res" where
  "host_fact_from_payload payload =
     res_bind (as_object payload) (\<lambda>d.
     if \<not> has_text d ''schema'' HOST_FACT_SCHEMA \<or> \<not> has_text d ''scope'' HOST_FACT_SCOPE
     then Inl ValueError
     else
       res_bind (closed_record (res_bind (host_fact_fields d) host_fact_kw))
         (\<lambda>f. if py_eq (host_fact_to_payload f) payload then Inr f else Inl ValueError))"

section \<open>Correlated records\<close>

definition worker_receipt_kw :: "(string \<times> pyval) list \<Rightarrow> worker_receipt res" where
  "worker_receipt_kw kw =
     res_bind (check_kwargs [''rank'', ''worker_generation''] [] kw)
       (\<lambda>_. make_worker_receipt (kwarg kw ''rank'' PNone) (kwarg kw ''worker_generation'' PNone))"

definition worker_from_payload :: "pyval \<Rightarrow> worker_receipt res" where
  "worker_from_payload v = res_bind (as_object v) worker_receipt_kw"

definition worker_list :: "pyval \<Rightarrow> pyval res" where
  "worker_list v =
     (case v of
        PList xs \<Rightarrow> res_bind (res_map worker_from_payload xs) (\<lambda>ws. Inr (PTuple (map PWorker ws)))
      | _ \<Rightarrow> Inl ValueError)"

definition job_from_payload :: "pyval \<Rightarrow> job_receipt res" where
  "job_from_payload v =
     res_bind (as_object v) (\<lambda>d.
     if fst ` set d \<noteq> {''job_id'', ''workers''} then Inl ValueError
     else
       res_bind (dict_item d ''workers'') (\<lambda>raw.
       res_bind (worker_list raw) (\<lambda>ws.
       res_bind (dict_item d ''job_id'') (\<lambda>job.
       make_job_receipt job ws))))"

definition job_list :: "pyval \<Rightarrow> pyval res" where
  "job_list v =
     (case v of
        PList xs \<Rightarrow> res_bind (res_map job_from_payload xs) (\<lambda>js. Inr (PTuple (map PJob js)))
      | _ \<Rightarrow> Inl ValueError)"

definition correlated_kw :: "(string \<times> pyval) list \<Rightarrow> correlated res" where
  "correlated_kw kw =
     res_bind
       (check_kwargs
          [''event'', ''scheduler_generation'', ''request_id'', ''recovery_epoch'',
           ''observed_at_ns'']
          [''job_id'', ''rank'', ''worker_generation'', ''block_count'', ''workers'', ''roster'',
           ''compute_kind''] kw)
       (\<lambda>_. make_correlated
          \<lparr>c_event = kwarg kw ''event'' PNone,
           c_scheduler_generation = kwarg kw ''scheduler_generation'' PNone,
           c_request_id = kwarg kw ''request_id'' PNone,
           c_recovery_epoch = kwarg kw ''recovery_epoch'' PNone,
           c_observed_at_ns = kwarg kw ''observed_at_ns'' PNone,
           c_job_id = kwarg kw ''job_id'' PNone, c_rank = kwarg kw ''rank'' PNone,
           c_worker_generation = kwarg kw ''worker_generation'' PNone,
           c_block_count = kwarg kw ''block_count'' PNone,
           c_workers = kwarg kw ''workers'' (PTuple []),
           c_roster = kwarg kw ''roster'' (PTuple []),
           c_compute_kind = kwarg kw ''compute_kind'' PNone\<rparr>)"

definition correlated_fields :: "(string \<times> pyval) list \<Rightarrow> (string \<times> pyval) list res" where
  "correlated_fields d =
     (let d1 = AList.delete ''schema'' d in
     res_bind (dict_item d1 ''event'') (\<lambda>e.
     res_bind (to_correlated_event e) (\<lambda>ev.
     let d2 = AList.update ''event'' (PCorrelatedEvent ev) d1 in
     res_bind (convert_field ''workers'' worker_list d2) (\<lambda>d3.
     convert_field ''roster'' job_list d3))))"

definition correlated_from_payload :: "pyval \<Rightarrow> correlated res" where
  "correlated_from_payload payload =
     res_bind (as_object payload) (\<lambda>d.
     if \<not> has_text d ''schema'' CORRELATED_SCHEMA then Inl ValueError
     else
       res_bind (closed_record (res_bind (correlated_fields d) correlated_kw))
         (\<lambda>c. if py_eq (correlated_to_payload c) payload then Inr c else Inl ValueError))"

section \<open>Lemmas on fields\<close>

text \<open>A converted dict, up to the order of its entries.\<close>

definition put :: "string \<Rightarrow> pyval option \<Rightarrow> (string \<times> pyval) list \<Rightarrow> (string \<times> pyval) list" where
  "put k y d = (case y of None \<Rightarrow> AList.delete k d | Some x \<Rightarrow> AList.update k x d)"

lemma map_of_put [simp]: "map_of (put k y d) = (map_of d)(k := y)"
  by (simp add: put_def split: option.split)

abbreviation converts :: "(pyval \<Rightarrow> pyval res) \<Rightarrow> pyval option \<Rightarrow> pyval option \<Rightarrow> bool" where
  "converts f \<equiv> rel_option (\<lambda>v x. f v = Inr x)"

lemma delete_absent: "map_of d k = None \<Longrightarrow> AList.delete k d = d"
  by (simp add: delete_idem map_of_eq_None_iff)

lemma convert_field_iff:
  "convert_field k f d = Inr d' \<longleftrightarrow> (\<exists>y. converts f (map_of d k) y \<and> d' = put k y d)"
  by (cases "map_of d k")
    (auto simp: convert_field_def put_def delete_absent rel_option_iff split: option.splits)

lemma rename_field_iff:
  assumes "map_of d target = None"
  shows "rename_field source target f d = Inr d' \<longleftrightarrow>
    (\<exists>y. converts f (map_of d source) y \<and> d' = put target y (AList.delete source d))"
  using assms
  by (cases "map_of d source")
    (auto simp: rename_field_def put_def delete_absent rel_option_iff split: option.splits)

lemma dict_item_iff: "dict_item d k = Inr v \<longleftrightarrow> map_of d k = Some v"
  by (simp add: dict_item_def split: option.split)

lemma closed_record_iff [simp]: "closed_record r = Inr x \<longleftrightarrow> r = Inr x"
  by (simp add: closed_record_def split: sum.split)

lemma as_object_iff [simp]: "as_object v = Inr d \<longleftrightarrow> v = PDict d"
  by (simp add: as_object_def split: pyval.split)

lemma check_kwargs_iff:
  "check_kwargs required defaulted kw = Inr () \<longleftrightarrow>
     (\<forall>k. map_of kw k \<noteq> None \<longrightarrow> k \<in> set (required @ defaulted)) \<and>
     (\<forall>k \<in> set required. map_of kw k \<noteq> None)"
  by (auto simp: check_kwargs_def list_all_iff map_of_eq_None_iff)

lemma json_text: "json_value v \<Longrightarrow> str_of v = Some s \<longleftrightarrow> v = PStr s"
  by (cases v) auto

lemma json_lookup: "json_value (PDict d) \<Longrightarrow> map_of d k = Some v \<Longrightarrow> json_value v"
  by (auto simp: list_all_iff dest: map_of_SomeD)

text \<open>An optional field that is converted, and one that is passed on as it is.\<close>

lemma converted_field:
  assumes "json_value (PDict d)"
    "\<And>v z. json_value v \<Longrightarrow> f v = Inr z \<longleftrightarrow> (\<exists>x. z = C x \<and> v = PStr (g x) \<and> V x)"
    "\<And>x. C x \<noteq> PNone" "\<And>x y. C x = C y \<Longrightarrow> x = y"
  shows "(\<exists>y. converts f (map_of d k) y \<and>
      (case y of None \<Rightarrow> PNone | Some v \<Rightarrow> v) = opt_val C w \<and> P y) \<longleftrightarrow>
    map_of d k = map_option (PStr \<circ> g) w \<and> pred_option V w \<and> P (map_option C w)"
proof (cases "map_of d k")
  case None
  with assms(3) show ?thesis by (cases w) (auto simp: opt_val_def option_rel_Some1 dest: sym)
next
  case (Some v)
  then have "json_value v" using assms(1) json_lookup by blast
  note f = assms(2) [OF this]
  from Some show ?thesis
    by (cases w)
      (auto simp: opt_val_def option_rel_Some1 f assms(3) dest: assms(4) intro!: exI [of _ "Some _"])
qed

lemma raw_field:
  assumes "map_of d k = None \<longleftrightarrow> x = None"
  shows "kwarg d k PNone = opt_val PInt x \<longleftrightarrow> map_of d k = map_option PInt x"
  using assms by (auto simp: kwarg_def opt_val_def split: option.splits)

lemma kwarg_simps [simp]:
  "kwarg (put k y d) k' z =
     (if k' = k then (case y of None \<Rightarrow> z | Some v \<Rightarrow> v) else kwarg d k' z)"
  "kwarg (AList.update k x d) k' z = (if k' = k then x else kwarg d k' z)"
  "kwarg (AList.delete k d) k' z = (if k' = k then z else kwarg d k' z)"
  by (simp_all add: kwarg_def)

lemma optional_field:
  assumes "json_value (PDict d)"
    "\<And>v z. json_value v \<Longrightarrow> f v = Inr z \<longleftrightarrow> (\<exists>x. z = C x \<and> v = PStr (g x) \<and> V x)"
    "\<And>x. C x \<noteq> PNone" "\<And>x y. C x = C y \<Longrightarrow> x = y"
  shows "(\<exists>y. converts f (map_of d k) y \<and>
      (case y of None \<Rightarrow> PNone | Some v \<Rightarrow> v) = opt_val C w) \<longleftrightarrow>
    map_of d k = map_option (PStr \<circ> g) w \<and> pred_option V w"
  using converted_field [OF assms, where P = "\<lambda>_. True"] by simp

section \<open>Payloads as dicts\<close>

definition observation_entries :: "kv_observation \<Rightarrow> (string \<times> pyval) list" where
  "observation_entries ob = (case observation_to_payload ob of PDict d \<Rightarrow> d | _ \<Rightarrow> [])"

lemma some_entries_lookup:
  "distinct (map fst xs) \<Longrightarrow>
     map_of (some_entries xs) k = (case map_of xs k of None \<Rightarrow> None | Some v \<Rightarrow> v)"
proof (induction xs)
  case (Cons x xs)
  obtain k' v where x: "x = (k', v)" by (cases x)
  have "map_of xs k' = None" using Cons.prems x by (auto simp: map_of_eq_None_iff)
  with Cons x show ?case
    by (cases v) (auto simp: some_entries_def map_filter_simps)
qed (simp add: some_entries_def map_filter_simps)

lemma some_entries_keys: "set (map fst (some_entries xs)) \<subseteq> set (map fst xs)"
  by (induction xs) (auto simp: some_entries_def map_filter_simps split: option.splits)

lemma some_entries_ok: "distinct (map fst xs) \<Longrightarrow> dict_ok (some_entries xs)"
proof (induction xs)
  case (Cons x xs)
  then show ?case using some_entries_keys [of xs]
    by (cases x) (auto simp: some_entries_def map_filter_simps split: option.splits)
qed (simp add: some_entries_def map_filter_simps)

lemma some_entries_all [simp]:
  "list_all P (some_entries [])"
  "list_all P (some_entries ((k, v) # xs)) \<longleftrightarrow>
     (case v of None \<Rightarrow> True | Some x \<Rightarrow> P (k, x)) \<and> list_all P (some_entries xs)"
  by (auto simp: some_entries_def map_filter_simps split: option.split)

lemma json_optional [simp]:
  "(case map_option g w of None \<Rightarrow> True | Some x \<Rightarrow> P x) \<longleftrightarrow> (\<forall>x. w = Some x \<longrightarrow> P (g x))"
  by (cases w) auto

lemma json_lists [simp]:
  "list_all json_value (map (PStr \<circ> g) xs)" "list_all json_value (map PInt ns)"
  by (induction xs, simp_all) (induction ns, simp_all)

lemma observation_payload: "observation_to_payload ob = PDict (observation_entries ob)"
  by (simp add: observation_entries_def observation_to_payload_def)

lemma entries_dict_ok: "distinct (map fst xs @ map fst ys) \<Longrightarrow> dict_ok (xs @ some_entries ys)"
  using some_entries_ok [of ys] some_entries_keys [of ys] by (auto simp: map_append)

definition OBSERVATION_KEYS :: "string list" where
  "OBSERVATION_KEYS =
     [''schema'', ''event'', ''identity'', ''observed_at_ns'', ''transfer_id'', ''direction'',
      ''receipt_id'', ''associated_transfer_ids'', ''compute_kind'', ''requeue_reason'',
      ''terminal_reason'', ''bytes_moved'', ''block_count'', ''duration_ns'',
      ''device_duration_ns'']"

lemma observation_entries_ok: "dict_ok (observation_entries ob)"
  unfolding observation_entries_def observation_to_payload_def pyval.case
  by (rule entries_dict_ok) simp

lemma observation_entries_keys: "map_of (observation_entries ob) k \<noteq> None \<Longrightarrow> k \<in> set OBSERVATION_KEYS"
  by (auto simp: observation_entries_def observation_to_payload_def OBSERVATION_KEYS_def
      some_entries_lookup split: if_splits)

lemma json_observation: "json_value (observation_to_payload ob)"
proof -
  have "list_all (\<lambda>p. json_value (snd p)) (observation_entries ob)"
    by (simp add: observation_entries_def observation_to_payload_def identity_to_payload_def
        opt_int_def split: option.split)
  then show ?thesis using observation_entries_ok by (simp add: observation_payload)
qed

text \<open>The entries of a dict that spells an observation.\<close>

definition spells :: "(string \<times> pyval) list \<Rightarrow> kv_observation \<Rightarrow> bool" where
  "spells d ob \<longleftrightarrow>
     map_of d ''schema'' = Some (PStr EVENT_SCHEMA) \<and>
     map_of d ''event'' = Some (PStr (event_value (ob_event ob))) \<and>
     map_option canon (map_of d ''identity'') = Some (canon (identity_to_payload (ob_identity ob))) \<and>
     map_of d ''observed_at_ns'' = Some (PInt (ob_observed_at_ns ob)) \<and>
     map_of d ''transfer_id'' = map_option (PStr \<circ> transfer_value) (ob_transfer ob) \<and>
     map_of d ''direction'' = map_option (PStr \<circ> direction_value) (ob_direction ob) \<and>
     map_of d ''receipt_id'' = map_option (PStr \<circ> receipt_value) (ob_receipt ob) \<and>
     map_of d ''associated_transfer_ids'' =
       (if ob_associated_transfers ob = [] then None
        else Some (PList (map (PStr \<circ> transfer_value) (ob_associated_transfers ob)))) \<and>
     map_of d ''compute_kind'' = map_option (PStr \<circ> kind_value) (ob_compute_kind ob) \<and>
     map_of d ''requeue_reason'' = map_option (PStr \<circ> requeue_value) (ob_requeue_reason ob) \<and>
     map_of d ''terminal_reason'' = map_option (PStr \<circ> terminal_value) (ob_terminal_reason ob) \<and>
     map_of d ''bytes_moved'' = map_option PInt (ob_bytes_moved ob) \<and>
     map_of d ''block_count'' = map_option PInt (ob_block_count ob) \<and>
     map_of d ''duration_ns'' = map_option PInt (ob_duration_ns ob) \<and>
     map_of d ''device_duration_ns'' = map_option PInt (ob_device_duration_ns ob) \<and>
     (\<forall>k. k \<notin> set OBSERVATION_KEYS \<longrightarrow> map_of d k = None)"

lemma canon_field:
  "map_option canon m = map_option canon (map_option (PStr \<circ> g) x) \<longleftrightarrow> m = map_option (PStr \<circ> g) x"
  "map_option canon m = map_option canon (map_option PInt y) \<longleftrightarrow> m = map_option PInt y"
  by (cases m; cases x; auto) (cases m; cases y; auto)

lemma canon_texts [simp]:
  "canon v = PList (map (PStr \<circ> g) xs) \<longleftrightarrow> v = PList (map (PStr \<circ> g) xs)"
proof (cases v)
  case (PList vs)
  have "map canon vs = map (PStr \<circ> g) xs \<longleftrightarrow> vs = map (PStr \<circ> g) xs"
  proof (induction xs arbitrary: vs)
    case (Cons x xs)
    then show ?case by (cases vs) simp_all
  qed simp
  with PList show ?thesis by simp
qed auto

lemma canon_comp [simp]:
  "canon \<circ> (PStr \<circ> g) = PStr \<circ> g" "canon \<circ> PInt = PInt"
  by (simp_all add: fun_eq_iff)

lemma all_keys_iff: "(\<forall>k. P k) \<longleftrightarrow> list_all P ks \<and> (\<forall>k. k \<notin> set ks \<longrightarrow> P k)"
  by (auto simp: list_all_iff)

lemma canon_keys_iff:
  assumes "dict_ok d" "dict_ok e" "\<And>k. k \<notin> set ks \<Longrightarrow> map_of e k = None"
  shows "canon (PDict d) = canon (PDict e) \<longleftrightarrow>
    list_all (\<lambda>k. map_option canon (map_of d k) = map_option canon (map_of e k)) ks \<and>
    (\<forall>k. k \<notin> set ks \<longrightarrow> map_of d k = None)"
proof -
  have "(map_option canon (map_of d k) = map_option canon (map_of e k)) = (map_of d k = None)"
    if "k \<notin> set ks" for k
    using assms(3) [OF that] by simp
  then show ?thesis
    unfolding canon_dict_iff [OF assms(1,2)] by (subst all_keys_iff [of _ ks]) auto
qed

lemma spells_iff:
  assumes "dict_ok d"
  shows "canon (PDict d) = canon (observation_to_payload ob) \<longleftrightarrow> spells d ob"
proof -
  have "map_of (observation_entries ob) k = None" if "k \<notin> set OBSERVATION_KEYS" for k
    using observation_entries_keys [of ob k] that by blast
  then have "canon (PDict d) = canon (observation_to_payload ob) \<longleftrightarrow>
      list_all (\<lambda>k. map_option canon (map_of d k) =
        map_option canon (map_of (observation_entries ob) k)) OBSERVATION_KEYS \<and>
      (\<forall>k. k \<notin> set OBSERVATION_KEYS \<longrightarrow> map_of d k = None)"
    unfolding observation_payload by (rule canon_keys_iff [OF assms observation_entries_ok])
  also have "\<dots> \<longleftrightarrow> spells d ob"
    by (simp add: OBSERVATION_KEYS_def observation_entries_def observation_to_payload_def
        spells_def canon_field some_entries_lookup)
  finally show ?thesis .
qed

lemma keys_iff: "fst ` set d = K \<longleftrightarrow> (\<forall>k. map_of d k \<noteq> None \<longleftrightarrow> k \<in> K)"
proof -
  have "k \<in> fst ` set d \<longleftrightarrow> map_of d k \<noteq> None" for k
    unfolding map_of_eq_None_iff by blast
  then show ?thesis unfolding set_eq_iff by blast
qed

lemma keys_exactly:
  assumes "\<forall>k \<in> S. m k \<noteq> None" "\<And>k. k \<notin> S \<Longrightarrow> m k = None"
  shows "\<forall>k. m k \<noteq> None \<longleftrightarrow> k \<in> S"
proof
  fix k
  show "m k \<noteq> None \<longleftrightarrow> k \<in> S"
    using bspec [OF assms(1), of k] assms(2) [of k] by argo
qed

lemma identity_payload_iff:
  assumes "json_value v"
  shows "identity_from_payload v = Inr i \<longleftrightarrow>
    valid_identity i \<and> canon v = canon (identity_to_payload i)"
proof (cases v)
  case (PDict d)
  let ?K = "[''request_id'', ''worker_generation'', ''rank'', ''recovery_epoch'']"
  let ?e = "[(''rank'', PInt (id_rank i)), (''recovery_epoch'', opt_int (id_recovery_epoch i)),
    (''request_id'', PStr (id_request_id i)), (''worker_generation'', PInt (id_worker_generation i))]"
  have "dict_ok d" using assms PDict by simp
  then have "canon v = canon (identity_to_payload i) \<longleftrightarrow>
      list_all (\<lambda>k. map_option canon (map_of d k) = map_option canon (map_of ?e k)) ?K \<and>
      (\<forall>k. k \<notin> set ?K \<longrightarrow> map_of d k = None)"
    unfolding PDict identity_to_payload_def by (rule canon_keys_iff) auto
  also have "\<dots> \<longleftrightarrow> map_of d ''rank'' = Some (PInt (id_rank i)) \<and>
      map_of d ''recovery_epoch'' = Some (opt_int (id_recovery_epoch i)) \<and>
      map_of d ''request_id'' = Some (PStr (id_request_id i)) \<and>
      map_of d ''worker_generation'' = Some (PInt (id_worker_generation i)) \<and>
      (\<forall>k. k \<notin> set ?K \<longrightarrow> map_of d k = None)"
    by (cases "id_recovery_epoch i") (auto simp: opt_int_def)
  finally have c: "canon v = canon (identity_to_payload i) \<longleftrightarrow> \<dots>" .
  have decode: "identity_from_payload v = Inr i \<longleftrightarrow>
      (\<forall>k. map_of d k \<noteq> None \<longleftrightarrow> k \<in> set ?K) \<and>
      kwarg d ''request_id'' PNone = PStr (id_request_id i) \<and>
      kwarg d ''worker_generation'' PNone = PInt (id_worker_generation i) \<and>
      kwarg d ''rank'' PNone = PInt (id_rank i) \<and>
      kwarg d ''recovery_epoch'' PNone = opt_int (id_recovery_epoch i) \<and> valid_identity i"
    unfolding keys_iff [symmetric]
    by (auto simp: identity_from_payload_def PDict observation_identity_kw_def
        observation_identity_iff check_kwargs_def list_all_iff)
  show ?thesis
  proof
    assume "identity_from_payload v = Inr i"
    then have k: "\<And>k. map_of d k \<noteq> None \<longleftrightarrow> k \<in> set ?K" and w: "valid_identity i"
      "kwarg d ''request_id'' PNone = PStr (id_request_id i)"
      "kwarg d ''worker_generation'' PNone = PInt (id_worker_generation i)"
      "kwarg d ''rank'' PNone = PInt (id_rank i)"
      "kwarg d ''recovery_epoch'' PNone = opt_int (id_recovery_epoch i)"
      unfolding decode by blast+
    have given: "map_of d k = Some (kwarg d k PNone)" if "k \<in> set ?K" for k
      using k [of k] that by (auto simp: kwarg_def)
    have "\<forall>k. k \<notin> set ?K \<longrightarrow> map_of d k = None" using k by blast
    then show "valid_identity i \<and> canon v = canon (identity_to_payload i)"
      unfolding c using w given [of "''request_id''"] given [of "''worker_generation''"]
        given [of "''rank''"] given [of "''recovery_epoch''"] by simp
  next
    assume "valid_identity i \<and> canon v = canon (identity_to_payload i)"
    then have i: "valid_identity i" and d: "map_of d ''rank'' = Some (PInt (id_rank i))"
      "map_of d ''recovery_epoch'' = Some (opt_int (id_recovery_epoch i))"
      "map_of d ''request_id'' = Some (PStr (id_request_id i))"
      "map_of d ''worker_generation'' = Some (PInt (id_worker_generation i))"
      and other: "\<And>k. k \<notin> set ?K \<Longrightarrow> map_of d k = None"
      unfolding c by blast+
    have "\<forall>k \<in> set ?K. map_of d k \<noteq> None" by (simp add: d)
    then have keys: "\<forall>k. map_of d k \<noteq> None \<longleftrightarrow> k \<in> set ?K" using other by (rule keys_exactly)
    show "identity_from_payload v = Inr i"
      unfolding decode using keys i by (simp only: kwarg_def d option.case simp_thms)
  qed
qed (simp_all add: identity_from_payload_def as_object_def identity_to_payload_def)

section \<open>Decoding observations\<close>

lemma enum_conversions:
  assumes "json_value v"
  shows
    "read_direction v = Inr z \<longleftrightarrow>
       (\<exists>x. z = PDirection x \<and> v = PStr (direction_value x) \<and> True)"
    "read_kind v = Inr z \<longleftrightarrow>
       (\<exists>x. z = PComputeKind x \<and> v = PStr (kind_value x) \<and> True)"
    "read_requeue v = Inr z \<longleftrightarrow>
       (\<exists>x. z = PRequeueReason x \<and> v = PStr (requeue_value x) \<and> True)"
    "read_terminal v = Inr z \<longleftrightarrow>
       (\<exists>x. z = PTerminalReason x \<and> v = PStr (terminal_value x) \<and> True)"
  using assms by (auto simp: reads enum_iff json_text)

lemma id_conversions:
  "read_transfer v = Inr z \<longleftrightarrow>
     (\<exists>x. z = PTransfer x \<and> v = PStr (transfer_value x) \<and> valid_transfer x)"
  "read_receipt v = Inr z \<longleftrightarrow>
     (\<exists>x. z = PReceipt x \<and> v = PStr (receipt_value x) \<and> valid_receipt x)"
  by (auto simp: reads transfer_identity_iff receipt_identity_iff)

lemma transfer_list_iff:
  "transfer_list v = Inr z \<longleftrightarrow>
     (\<exists>ts. z = PTuple (map PTransfer ts) \<and> v = PList (map (PStr \<circ> transfer_value) ts) \<and>
        (\<forall>t \<in> set ts. valid_transfer t))"
proof -
  have "res_map transfer_identity xs = Inr ts \<longleftrightarrow>
      xs = map (PStr \<circ> transfer_value) ts \<and> (\<forall>t \<in> set ts. valid_transfer t)" for xs ts
    by (rule res_map_iff) (simp add: transfer_identity_iff)
  then show ?thesis by (auto simp: transfer_list_def split: pyval.splits)
qed

text \<open>A list field: absent, or a converted array; an empty array spells no payload.\<close>

lemma list_field:
  assumes "\<And>v z. f v = Inr z \<longleftrightarrow> (\<exists>xs. z = PTuple (map C xs) \<and> v = PList (map g xs) \<and> V xs)"
    "\<And>x y. C x = C y \<Longrightarrow> x = y" "map_of d k = None \<longleftrightarrow> xs = []"
  shows "(\<exists>y. converts f (map_of d k) y \<and>
      (case y of None \<Rightarrow> PTuple [] | Some v \<Rightarrow> v) = PTuple (map C xs)) \<longleftrightarrow>
    map_of d k = (if xs = [] then None else Some (PList (map g xs))) \<and> (xs = [] \<or> V xs)"
proof (cases "map_of d k")
  case (Some v)
  have "map C ys = map C zs \<longleftrightarrow> ys = zs" for ys zs
    using assms(2) by (metis injI inj_map_eq_map)
  with Some assms(3) show ?thesis
    by (auto simp: option_rel_Some1 assms(1) intro!: exI [of _ "Some _"])
qed (use assms(3) in auto)

lemma res_bind_assoc: "res_bind (res_bind r f) g = res_bind r (\<lambda>x. res_bind (f x) g)"
  by (cases r) simp_all

lemma bind_item: "res_bind (dict_item d k) g = Inr r \<longleftrightarrow> (\<exists>v. map_of d k = Some v \<and> g v = Inr r)"
  by (simp add: dict_item_def split: option.split)

lemma bind_convert:
  "res_bind (convert_field k f d) g = Inr r \<longleftrightarrow>
     (\<exists>y. converts f (map_of d k) y \<and> g (put k y d) = Inr r)"
  by (auto simp: convert_field_iff)

lemma bind_rename:
  "map_of d target = None \<Longrightarrow>
   res_bind (rename_field source target f d) g = Inr r \<longleftrightarrow>
     (\<exists>y. converts f (map_of d source) y \<and> g (put target y (AList.delete source d)) = Inr r)"
  by (auto simp: rename_field_iff)

lemma observation_call_iff:
  "kv_transfer_observation_kw now kw = Inr ob \<longleftrightarrow>
     check_kwargs [''event'', ''identity'']
       [''observed_at_ns'', ''transfer'', ''direction'', ''receipt'', ''associated_transfers'',
        ''compute_kind'', ''requeue_reason'', ''terminal_reason'', ''bytes_moved'',
        ''block_count'', ''duration_ns'', ''device_duration_ns''] kw = Inr () \<and>
     legal_observation ob \<and>
     kwarg kw ''event'' PNone = PEvent (ob_event ob) \<and>
     kwarg kw ''identity'' PNone = PIdentity (ob_identity ob) \<and>
     kwarg kw ''observed_at_ns'' (PInt now) = PInt (ob_observed_at_ns ob) \<and>
     kwarg kw ''transfer'' PNone = opt_val PTransfer (ob_transfer ob) \<and>
     kwarg kw ''direction'' PNone = opt_val PDirection (ob_direction ob) \<and>
     kwarg kw ''receipt'' PNone = opt_val PReceipt (ob_receipt ob) \<and>
     kwarg kw ''associated_transfers'' (PTuple []) =
       PTuple (map PTransfer (ob_associated_transfers ob)) \<and>
     kwarg kw ''compute_kind'' PNone = opt_val PComputeKind (ob_compute_kind ob) \<and>
     kwarg kw ''requeue_reason'' PNone = opt_val PRequeueReason (ob_requeue_reason ob) \<and>
     kwarg kw ''terminal_reason'' PNone = opt_val PTerminalReason (ob_terminal_reason ob) \<and>
     kwarg kw ''bytes_moved'' PNone = opt_val PInt (ob_bytes_moved ob) \<and>
     kwarg kw ''block_count'' PNone = opt_val PInt (ob_block_count ob) \<and>
     kwarg kw ''duration_ns'' PNone = opt_val PInt (ob_duration_ns ob) \<and>
     kwarg kw ''device_duration_ns'' PNone = opt_val PInt (ob_device_duration_ns ob)"
  by (simp add: kv_transfer_observation_kw_def observation_iff args_of_def conj_ac)

text \<open>The two groups of conversions of an observation's fields.\<close>

definition observation_enums :: "pyval option \<Rightarrow> pyval option \<Rightarrow> pyval option \<Rightarrow> pyval option \<Rightarrow>
    (string \<times> pyval) list \<Rightarrow> (string \<times> pyval) list" where
  "observation_enums y1 y2 y3 y4 d = put ''terminal_reason'' y4 (put ''requeue_reason'' y3
     (put ''compute_kind'' y2 (put ''direction'' y1 d)))"

definition observation_ids :: "pyval option \<Rightarrow> pyval option \<Rightarrow> pyval option \<Rightarrow>
    (string \<times> pyval) list \<Rightarrow> (string \<times> pyval) list" where
  "observation_ids y5 y6 y7 d =
     put ''associated_transfers'' y7 (AList.delete ''associated_transfer_ids''
       (put ''receipt'' y6 (AList.delete ''receipt_id''
         (put ''transfer'' y5 (AList.delete ''transfer_id'' d)))))"

lemma observation_enums_iff:
  "res_bind (convert_field ''direction'' read_direction d) (\<lambda>d3.
     res_bind (convert_field ''compute_kind'' read_kind d3) (\<lambda>d4.
     res_bind (convert_field ''requeue_reason'' read_requeue d4) (\<lambda>d5.
     res_bind (convert_field ''terminal_reason'' read_terminal d5) g))) = Inr r \<longleftrightarrow>
    (\<exists>y1. converts read_direction (map_of d ''direction'') y1 \<and>
    (\<exists>y2. converts read_kind (map_of d ''compute_kind'') y2 \<and>
    (\<exists>y3. converts read_requeue (map_of d ''requeue_reason'') y3 \<and>
    (\<exists>y4. converts read_terminal (map_of d ''terminal_reason'') y4 \<and>
       g (observation_enums y1 y2 y3 y4 d) = Inr r))))"
  unfolding bind_convert observation_enums_def by simp

lemma observation_ids_iff:
  assumes "map_of d ''transfer'' = None" "map_of d ''receipt'' = None"
    "map_of d ''associated_transfers'' = None"
  shows "res_bind (rename_field ''transfer_id'' ''transfer'' read_transfer d) (\<lambda>d7.
     res_bind (rename_field ''receipt_id'' ''receipt'' read_receipt d7) (\<lambda>d8.
     res_bind (rename_field ''associated_transfer_ids'' ''associated_transfers'' transfer_list d8)
       g)) = Inr r \<longleftrightarrow>
    (\<exists>y5. converts read_transfer (map_of d ''transfer_id'') y5 \<and>
    (\<exists>y6. converts read_receipt (map_of d ''receipt_id'') y6 \<and>
    (\<exists>y7. converts transfer_list (map_of d ''associated_transfer_ids'') y7 \<and>
       g (observation_ids y5 y6 y7 d) = Inr r)))"
  using assms by (simp add: bind_rename observation_ids_def del: res_bind_Inr)

lemma observation_enums_lookup [simp]:
  "map_of (observation_enums y1 y2 y3 y4 d) =
     (map_of d)(''direction'' := y1, ''compute_kind'' := y2, ''requeue_reason'' := y3,
       ''terminal_reason'' := y4)"
  by (simp add: observation_enums_def)

lemma observation_ids_lookup [simp]:
  "map_of (observation_ids y5 y6 y7 d) =
     (map_of d)(''transfer_id'' := None, ''transfer'' := y5, ''receipt_id'' := None,
       ''receipt'' := y6, ''associated_transfer_ids'' := None, ''associated_transfers'' := y7)"
  by (simp add: observation_ids_def)

definition observation_base :: "observation_identity \<Rightarrow> observation_event \<Rightarrow> pyval \<Rightarrow>
    (string \<times> pyval) list \<Rightarrow> (string \<times> pyval) list" where
  "observation_base i ev observed d =
     AList.update ''observed_at_ns'' observed (AList.update ''event'' (PEvent ev)
       (AList.update ''identity'' (PIdentity i) (AList.delete ''schema'' d)))"

lemma observation_base_lookup [simp]:
  "map_of (observation_base i ev observed d) =
     (map_of d)(''schema'' := None, ''identity'' \<mapsto> PIdentity i, ''event'' \<mapsto> PEvent ev,
       ''observed_at_ns'' \<mapsto> observed)"
  by (simp add: observation_base_def)

lemma bind_event: "res_bind (to_event e) g = Inr r \<longleftrightarrow> (\<exists>ev. to_event e = Inr ev \<and> g ev = Inr r)"
  "res_bind (identity_from_payload v) h = Inr r \<longleftrightarrow>
     (\<exists>i. identity_from_payload v = Inr i \<and> h i = Inr r)"
  by simp_all

lemma observation_fields_iff:
  assumes "map_of d ''transfer'' = None" "map_of d ''receipt'' = None"
    "map_of d ''associated_transfers'' = None"
  shows "res_bind (observation_fields d) g = Inr r \<longleftrightarrow>
    (\<exists>raw. map_of d ''identity'' = Some raw \<and>
    (\<exists>i. identity_from_payload raw = Inr i \<and>
    (\<exists>v. map_of d ''event'' = Some v \<and>
    (\<exists>ev. to_event v = Inr ev \<and>
    (\<exists>observed. map_of d ''observed_at_ns'' = Some observed \<and>
    (\<exists>y1. converts read_direction (map_of d ''direction'') y1 \<and>
    (\<exists>y2. converts read_kind (map_of d ''compute_kind'') y2 \<and>
    (\<exists>y3. converts read_requeue (map_of d ''requeue_reason'') y3 \<and>
    (\<exists>y4. converts read_terminal (map_of d ''terminal_reason'') y4 \<and>
    (\<exists>y5. converts read_transfer (map_of d ''transfer_id'') y5 \<and>
    (\<exists>y6. converts read_receipt (map_of d ''receipt_id'') y6 \<and>
    (\<exists>y7. converts transfer_list (map_of d ''associated_transfer_ids'') y7 \<and>
       g (observation_ids y5 y6 y7 (observation_enums y1 y2 y3 y4
         (observation_base i ev observed d))) = Inr r))))))))))))"
proof -
  have ids: "res_bind (rename_field ''transfer_id'' ''transfer'' read_transfer e) (\<lambda>d7.
       res_bind (rename_field ''receipt_id'' ''receipt'' read_receipt d7) (\<lambda>d8.
       res_bind (rename_field ''associated_transfer_ids'' ''associated_transfers'' transfer_list d8)
         g)) = Inr r \<longleftrightarrow>
      (\<exists>y5. converts read_transfer (map_of d ''transfer_id'') y5 \<and>
      (\<exists>y6. converts read_receipt (map_of d ''receipt_id'') y6 \<and>
      (\<exists>y7. converts transfer_list (map_of d ''associated_transfer_ids'') y7 \<and>
         g (observation_ids y5 y6 y7 e) = Inr r)))"
    if "e = observation_enums y1 y2 y3 y4 (observation_base i ev observed d)"
    for e y1 y2 y3 y4 i ev observed
    using assms that by (subst observation_ids_iff) simp_all
  have enums: "map_of (observation_base i ev observed d) k = map_of d k"
    if "k \<in> {''direction'', ''compute_kind'', ''requeue_reason'', ''terminal_reason''}"
    for i ev observed k
    using that by auto
  show ?thesis
    unfolding observation_fields_def Let_def res_bind_assoc bind_item bind_event
      observation_base_def [symmetric] observation_enums_iff
    by (simp only: ids [OF refl] enums insert_iff simp_thms)
      (simp only: map_of_del map_of_update fun_upd_apply if_False list.inject char.inject
        simp_thms list.distinct)
qed

lemmas kw_lookup = observation_ids_lookup observation_enums_lookup observation_base_lookup
  fun_upd_apply list.inject char.inject list.distinct if_False if_True simp_thms

lemma observation_kwargs_ok:
  assumes "\<And>k. k \<notin> set OBSERVATION_KEYS \<Longrightarrow> map_of d k = None"
  shows "check_kwargs [''event'', ''identity'']
       [''observed_at_ns'', ''transfer'', ''direction'', ''receipt'', ''associated_transfers'',
        ''compute_kind'', ''requeue_reason'', ''terminal_reason'', ''bytes_moved'',
        ''block_count'', ''duration_ns'', ''device_duration_ns'']
       (observation_ids y5 y6 y7 (observation_enums y1 y2 y3 y4
         (observation_base i ev observed d))) = Inr ()"
  unfolding check_kwargs_iff
proof (intro conjI allI impI)
  fix k
  let ?kw = "observation_ids y5 y6 y7 (observation_enums y1 y2 y3 y4
         (observation_base i ev observed d))"
  assume "map_of ?kw k \<noteq> None"
  show "k \<in> set ([''event'', ''identity''] @
       [''observed_at_ns'', ''transfer'', ''direction'', ''receipt'', ''associated_transfers'',
        ''compute_kind'', ''requeue_reason'', ''terminal_reason'', ''bytes_moved'',
        ''block_count'', ''duration_ns'', ''device_duration_ns''])" (is "k \<in> set ?names")
  proof (rule ccontr)
    assume other: "k \<notin> set ?names"
    have "map_of ?kw k = None"
    proof (cases "k \<in> {''schema'', ''transfer_id'', ''receipt_id'', ''associated_transfer_ids''}")
      case True
      have "map_of ?kw ''schema'' = None" by (simp only: kw_lookup)
      moreover have "map_of ?kw ''transfer_id'' = None" by (simp only: kw_lookup)
      moreover have "map_of ?kw ''receipt_id'' = None" by (simp only: kw_lookup)
      moreover have "map_of ?kw ''associated_transfer_ids'' = None" by (simp only: kw_lookup)
      ultimately show ?thesis using True
        by (simp only: insert_iff empty_iff simp_thms) (elim disjE; simp only:)
    next
      case False
      with other have "k \<notin> set OBSERVATION_KEYS" by (simp add: OBSERVATION_KEYS_def)
      then have "map_of d k = None" by (rule assms)
      with other False show ?thesis
        by (simp only: kw_lookup set_simps append.simps insert_iff empty_iff de_Morgan_disj)
    qed
    with \<open>map_of ?kw k \<noteq> None\<close> show False ..
  qed
qed (simp only: list.set ball_simps kw_lookup option.distinct not_False_eq_True)

text \<open>What the decoder checks, one conjunct per field.\<close>

lemma observation_core:
  assumes "\<forall>k. k \<notin> set OBSERVATION_KEYS \<longrightarrow> map_of d k = None"
  shows "res_bind (observation_fields d) (kv_transfer_observation_kw 0) = Inr ob \<longleftrightarrow>
    legal_observation ob \<and>
    (\<exists>raw. map_of d ''identity'' = Some raw \<and>
       identity_from_payload raw = Inr (ob_identity ob)) \<and>
    (\<exists>v. map_of d ''event'' = Some v \<and> to_event v = Inr (ob_event ob)) \<and>
    map_of d ''observed_at_ns'' = Some (PInt (ob_observed_at_ns ob)) \<and>
    (\<exists>y. converts read_direction (map_of d ''direction'') y \<and>
       (case y of None \<Rightarrow> PNone | Some v \<Rightarrow> v) = opt_val PDirection (ob_direction ob)) \<and>
    (\<exists>y. converts read_kind (map_of d ''compute_kind'') y \<and>
       (case y of None \<Rightarrow> PNone | Some v \<Rightarrow> v) = opt_val PComputeKind (ob_compute_kind ob)) \<and>
    (\<exists>y. converts read_requeue (map_of d ''requeue_reason'') y \<and>
       (case y of None \<Rightarrow> PNone | Some v \<Rightarrow> v) = opt_val PRequeueReason (ob_requeue_reason ob)) \<and>
    (\<exists>y. converts read_terminal (map_of d ''terminal_reason'') y \<and>
       (case y of None \<Rightarrow> PNone | Some v \<Rightarrow> v) = opt_val PTerminalReason (ob_terminal_reason ob)) \<and>
    (\<exists>y. converts read_transfer (map_of d ''transfer_id'') y \<and>
       (case y of None \<Rightarrow> PNone | Some v \<Rightarrow> v) = opt_val PTransfer (ob_transfer ob)) \<and>
    (\<exists>y. converts read_receipt (map_of d ''receipt_id'') y \<and>
       (case y of None \<Rightarrow> PNone | Some v \<Rightarrow> v) = opt_val PReceipt (ob_receipt ob)) \<and>
    (\<exists>y. converts transfer_list (map_of d ''associated_transfer_ids'') y \<and>
       (case y of None \<Rightarrow> PTuple [] | Some v \<Rightarrow> v) =
         PTuple (map PTransfer (ob_associated_transfers ob))) \<and>
    kwarg d ''bytes_moved'' PNone = opt_val PInt (ob_bytes_moved ob) \<and>
    kwarg d ''block_count'' PNone = opt_val PInt (ob_block_count ob) \<and>
    kwarg d ''duration_ns'' PNone = opt_val PInt (ob_duration_ns ob) \<and>
    kwarg d ''device_duration_ns'' PNone = opt_val PInt (ob_device_duration_ns ob)"
    (is "?l \<longleftrightarrow> ?r")
proof -
  have other: "k \<notin> set OBSERVATION_KEYS \<Longrightarrow> map_of d k = None" for k using assms by simp
  have none: "map_of d ''transfer'' = None" "map_of d ''receipt'' = None"
    "map_of d ''associated_transfers'' = None"
    by (rule other, simp add: OBSERVATION_KEYS_def)+
  have call: "kv_transfer_observation_kw 0 (observation_ids y5 y6 y7
        (observation_enums y1 y2 y3 y4 (observation_base i ev observed d))) = Inr ob \<longleftrightarrow>
      legal_observation ob \<and> ev = ob_event ob \<and> i = ob_identity ob \<and>
      observed = PInt (ob_observed_at_ns ob) \<and>
      (case y5 of None \<Rightarrow> PNone | Some v \<Rightarrow> v) = opt_val PTransfer (ob_transfer ob) \<and>
      (case y1 of None \<Rightarrow> PNone | Some v \<Rightarrow> v) = opt_val PDirection (ob_direction ob) \<and>
      (case y6 of None \<Rightarrow> PNone | Some v \<Rightarrow> v) = opt_val PReceipt (ob_receipt ob) \<and>
      (case y7 of None \<Rightarrow> PTuple [] | Some v \<Rightarrow> v) =
        PTuple (map PTransfer (ob_associated_transfers ob)) \<and>
      (case y2 of None \<Rightarrow> PNone | Some v \<Rightarrow> v) = opt_val PComputeKind (ob_compute_kind ob) \<and>
      (case y3 of None \<Rightarrow> PNone | Some v \<Rightarrow> v) = opt_val PRequeueReason (ob_requeue_reason ob) \<and>
      (case y4 of None \<Rightarrow> PNone | Some v \<Rightarrow> v) = opt_val PTerminalReason (ob_terminal_reason ob) \<and>
      kwarg d ''bytes_moved'' PNone = opt_val PInt (ob_bytes_moved ob) \<and>
      kwarg d ''block_count'' PNone = opt_val PInt (ob_block_count ob) \<and>
      kwarg d ''duration_ns'' PNone = opt_val PInt (ob_duration_ns ob) \<and>
      kwarg d ''device_duration_ns'' PNone = opt_val PInt (ob_device_duration_ns ob)"
    for y1 y2 y3 y4 y5 y6 y7 i ev observed
    unfolding observation_call_iff
    using observation_kwargs_ok [OF other, of y5 y6 y7 y1 y2 y3 y4 i ev observed]
    by (simp only: observation_ids_def observation_enums_def observation_base_def kwarg_simps
        list.inject char.inject list.distinct if_False if_True simp_thms pyval.inject)
  show ?thesis
  proof
    assume ?l
    then show ?r unfolding observation_fields_iff [OF none] call
      by (elim exE conjE, intro conjI exI) (assumption | simp)+
  next
    assume ?r
    then show ?l unfolding observation_fields_iff [OF none] call
      by (elim exE conjE, intro exI conjI) (assumption | simp)+
  qed
qed

lemma pred_option_all: "pred_option V w \<longleftrightarrow> (\<forall>x. w = Some x \<longrightarrow> V x)"
  by (cases w) simp_all

text \<open>The same checks as lookups of the payload's entries.\<close>

lemma field_conversions:
  assumes "json_value (PDict d)"
  shows "(\<exists>y. converts read_direction (map_of d k) y \<and>
      (case y of None \<Rightarrow> PNone | Some v \<Rightarrow> v) = opt_val PDirection w1) \<longleftrightarrow>
      map_of d k = map_option (PStr \<circ> direction_value) w1"
    "(\<exists>y. converts read_kind (map_of d k) y \<and>
      (case y of None \<Rightarrow> PNone | Some v \<Rightarrow> v) = opt_val PComputeKind w2) \<longleftrightarrow>
      map_of d k = map_option (PStr \<circ> kind_value) w2"
    "(\<exists>y. converts read_requeue (map_of d k) y \<and>
      (case y of None \<Rightarrow> PNone | Some v \<Rightarrow> v) = opt_val PRequeueReason w3) \<longleftrightarrow>
      map_of d k = map_option (PStr \<circ> requeue_value) w3"
    "(\<exists>y. converts read_terminal (map_of d k) y \<and>
      (case y of None \<Rightarrow> PNone | Some v \<Rightarrow> v) = opt_val PTerminalReason w4) \<longleftrightarrow>
      map_of d k = map_option (PStr \<circ> terminal_value) w4"
    "(\<exists>y. converts read_transfer (map_of d k) y \<and>
      (case y of None \<Rightarrow> PNone | Some v \<Rightarrow> v) = opt_val PTransfer w5) \<longleftrightarrow>
      map_of d k = map_option (PStr \<circ> transfer_value) w5 \<and> (\<forall>t. w5 = Some t \<longrightarrow> valid_transfer t)"
    "(\<exists>y. converts read_receipt (map_of d k) y \<and>
      (case y of None \<Rightarrow> PNone | Some v \<Rightarrow> v) = opt_val PReceipt w6) \<longleftrightarrow>
      map_of d k = map_option (PStr \<circ> receipt_value) w6 \<and> (\<forall>r. w6 = Some r \<longrightarrow> valid_receipt r)"
  using optional_field [OF assms, of read_direction PDirection direction_value "\<lambda>_. True"]
    optional_field [OF assms, of read_kind PComputeKind kind_value "\<lambda>_. True"]
    optional_field [OF assms, of read_requeue PRequeueReason requeue_value "\<lambda>_. True"]
    optional_field [OF assms, of read_terminal PTerminalReason terminal_value "\<lambda>_. True"]
    optional_field [OF assms, of read_transfer PTransfer transfer_value valid_transfer]
    optional_field [OF assms, of read_receipt PReceipt receipt_value valid_receipt]
  by (simp_all add: enum_conversions id_conversions pred_option_all)

lemma canon_PDict: "canon v = PDict e \<Longrightarrow> \<exists>d. v = PDict d"
  by (cases v) simp_all

lemma canon_none: "map_option canon m = map_option canon m' \<Longrightarrow> m = None \<longleftrightarrow> m' = None"
  by (cases m; cases m') simp_all

text \<open>
  The shape of every decoder: \<open>core\<close> rebuilds the record, then the record's payload is compared
  with the input. It suffices to know the core for inputs with the payload's keys.
\<close>

lemma closed_decoder:
  assumes "json_value (PDict d)" "json_value (PDict e)"
    "(\<And>k. map_of d k = None \<longleftrightarrow> map_of e k = None) \<Longrightarrow>
       core \<longleftrightarrow> valid \<and> canon (PDict d) = canon (PDict e)"
  shows "core \<and> py_eq (PDict e) (PDict d) \<longleftrightarrow> valid \<and> canon (PDict d) = canon (PDict e)"
proof -
  have ok: "dict_ok d" "dict_ok e" using assms(1,2) by simp_all
  have same1: "map_of d k = None \<longleftrightarrow> map_of e k = None" if "py_eq (PDict e) (PDict d)" for k
    using py_eq_keys [OF that ok(2,1), of k] by argo
  have same2: "map_of d k = None \<longleftrightarrow> map_of e k = None" if "canon (PDict d) = canon (PDict e)" for k
    using that unfolding canon_dict_iff [OF ok] by (blast dest: canon_none)
  have eq: "py_eq (PDict e) (PDict d)" if "canon (PDict d) = canon (PDict e)"
    by (rule py_eq_canon) (simp_all only: assms that)
  show ?thesis using assms(3) same1 same2 eq by blast
qed

text \<open>
  On JSON values, the decoder returns a record exactly when the value is the record's payload,
  up to the order of keys, and the record is valid.
\<close>

lemma observation_decode_iff:
  assumes "json_value p"
  shows "observation_from_payload p = Inr ob \<longleftrightarrow>
    valid_observation ob \<and> canon p = canon (observation_to_payload ob)"
proof (cases "\<exists>d. p = PDict d")
  case False
  then have "canon p \<noteq> canon (observation_to_payload ob)"
    using canon_PDict [of p] by (auto simp: observation_payload)
  with False show ?thesis by (auto simp: observation_from_payload_def)
next
  case True
  then obtain d where p: "p = PDict d" ..
  with assms have d: "json_value (PDict d)" "dict_ok d" by simp_all
  define core where "core \<longleftrightarrow> has_text d ''schema'' EVENT_SCHEMA \<and>
    res_bind (observation_fields d) (kv_transfer_observation_kw 0) = Inr ob"
  have decode: "observation_from_payload p = Inr ob \<longleftrightarrow>
      core \<and> py_eq (PDict (observation_entries ob)) (PDict d)"
    unfolding observation_payload [symmetric]
    by (auto simp: observation_from_payload_def core_def p simp del: res_bind_Inr
        simp: res_bind_Inr [where r = "closed_record _"] res_bind_Inr [where r = "as_object _"])
  have "core \<longleftrightarrow> valid_observation ob \<and> spells d ob"
    if "\<And>k. map_of d k = None \<longleftrightarrow> map_of (observation_entries ob) k = None"
  proof -
    have none: "\<And>k. k \<notin> set OBSERVATION_KEYS \<Longrightarrow> map_of d k = None"
      using that observation_entries_keys [of ob] by blast
    then have none': "\<forall>k. k \<notin> set OBSERVATION_KEYS \<longrightarrow> map_of d k = None" by simp
    have schema: "has_text d ''schema'' s \<longleftrightarrow> map_of d ''schema'' = Some (PStr s)" for s
      using json_lookup [OF d(1)] by (auto simp: has_text_def json_text split: option.split)
    have identity: "(\<exists>raw. map_of d ''identity'' = Some raw \<and>
        identity_from_payload raw = Inr i) \<longleftrightarrow>
        map_option canon (map_of d ''identity'') = Some (canon (identity_to_payload i)) \<and>
        valid_identity i" for i
      using json_lookup [OF d(1)] by (auto simp: identity_payload_iff)
    have event: "(\<exists>v. map_of d ''event'' = Some v \<and> to_event v = Inr ev) \<longleftrightarrow>
        map_of d ''event'' = Some (PStr (event_value ev))" for ev
      using json_lookup [OF d(1)] by (auto simp: enum_iff json_text)
    have raws: "kwarg d ''bytes_moved'' PNone = opt_val PInt (ob_bytes_moved ob) \<longleftrightarrow>
        map_of d ''bytes_moved'' = map_option PInt (ob_bytes_moved ob)"
      "kwarg d ''block_count'' PNone = opt_val PInt (ob_block_count ob) \<longleftrightarrow>
        map_of d ''block_count'' = map_option PInt (ob_block_count ob)"
      "kwarg d ''duration_ns'' PNone = opt_val PInt (ob_duration_ns ob) \<longleftrightarrow>
        map_of d ''duration_ns'' = map_option PInt (ob_duration_ns ob)"
      "kwarg d ''device_duration_ns'' PNone = opt_val PInt (ob_device_duration_ns ob) \<longleftrightarrow>
        map_of d ''device_duration_ns'' = map_option PInt (ob_device_duration_ns ob)"
      by (rule raw_field, subst that,
          simp add: observation_entries_def observation_to_payload_def some_entries_lookup)+
    have associated: "(\<exists>y. converts transfer_list (map_of d ''associated_transfer_ids'') y \<and>
        (case y of None \<Rightarrow> PTuple [] | Some v \<Rightarrow> v) =
          PTuple (map PTransfer (ob_associated_transfers ob))) \<longleftrightarrow>
        map_of d ''associated_transfer_ids'' =
          (if ob_associated_transfers ob = [] then None
           else Some (PList (map (PStr \<circ> transfer_value) (ob_associated_transfers ob)))) \<and>
        (\<forall>t \<in> set (ob_associated_transfers ob). valid_transfer t)"
    proof -
      have "map_of d ''associated_transfer_ids'' = None \<longleftrightarrow> ob_associated_transfers ob = []"
        by (subst that) (simp add: observation_entries_def observation_to_payload_def
            some_entries_lookup)
      then show ?thesis
        using list_field [OF transfer_list_iff, of d "''associated_transfer_ids''"
            "ob_associated_transfers ob"] by auto
    qed
    note fields = observation_core [OF none']
    note others = eqTrueI [OF none']
    show ?thesis
      unfolding core_def fields schema identity event raws associated
        field_conversions [OF d(1)] spells_def valid_observation_def valid_parts_def
        others
      by (simp only: simp_thms conj_ac)
  qed
  then show ?thesis
    unfolding p decode [unfolded p] observation_payload spells_iff [OF d(2), of ob, unfolded observation_payload, symmetric]
    by (rule closed_decoder [OF d(1) json_observation [of ob, unfolded observation_payload]])
qed

end
