(* ===== verification/Codec_Host.thy ===== *)
theory Codec_Host
  imports Codec
begin

text \<open>
  The decoders of host facts and of correlated records accept exactly the payloads of valid
  records.
\<close>

section \<open>Decoding host facts\<close>

definition FACT_KEYS :: "string list" where
  "FACT_KEYS =
     [''schema'', ''scope'', ''event'', ''process_uuid'', ''observed_at_ns'', ''request_id'',
      ''job_id'', ''rank'', ''recovery_epoch'', ''job_ids'', ''ranks'', ''compute_kind'',
      ''requeue_reason'']"

definition fact_entries :: "host_fact \<Rightarrow> (string \<times> pyval) list" where
  "fact_entries f = (case host_fact_to_payload f of PDict d \<Rightarrow> d | _ \<Rightarrow> [])"

lemma fact_payload: "host_fact_to_payload f = PDict (fact_entries f)"
  by (simp add: fact_entries_def host_fact_to_payload_def)

lemma fact_entries_ok: "dict_ok (fact_entries f)"
  unfolding fact_entries_def host_fact_to_payload_def pyval.case
  by (rule entries_dict_ok) simp

lemma fact_entries_keys: "map_of (fact_entries f) k \<noteq> None \<Longrightarrow> k \<in> set FACT_KEYS"
  by (auto simp: fact_entries_def host_fact_to_payload_def FACT_KEYS_def some_entries_lookup
      split: if_splits)

lemma json_fact: "json_value (host_fact_to_payload f)"
proof -
  have "list_all (\<lambda>p. json_value (snd p)) (fact_entries f)"
    by (simp add: fact_entries_def host_fact_to_payload_def int_list_def split: option.split)
  then show ?thesis using fact_entries_ok by (simp add: fact_payload)
qed

definition fact_base :: "host_fact_event \<Rightarrow> (string \<times> pyval) list \<Rightarrow> (string \<times> pyval) list" where
  "fact_base ev d =
     AList.update ''event'' (PHostFactEvent ev) (AList.delete ''scope'' (AList.delete ''schema'' d))"

definition fact_conversions :: "pyval option \<Rightarrow> pyval option \<Rightarrow> pyval option \<Rightarrow> pyval option \<Rightarrow>
    (string \<times> pyval) list \<Rightarrow> (string \<times> pyval) list" where
  "fact_conversions y1 y2 y3 y4 d = put ''ranks'' y4 (put ''job_ids'' y3
     (put ''requeue_reason'' y2 (put ''compute_kind'' y1 d)))"

lemma fact_base_lookup:
  "map_of (fact_base ev d) =
     (map_of d)(''schema'' := None, ''scope'' := None, ''event'' \<mapsto> PHostFactEvent ev)"
  by (simp only: fact_base_def map_of_update map_of_del)

lemma fact_conversions_lookup:
  "map_of (fact_conversions y1 y2 y3 y4 d) =
     (map_of d)(''compute_kind'' := y1, ''requeue_reason'' := y2, ''job_ids'' := y3,
       ''ranks'' := y4)"
  by (simp only: fact_conversions_def map_of_put)

lemmas fact_lookup = fact_base_lookup fact_conversions_lookup fun_upd_apply list.inject
  char.inject list.distinct if_False if_True simp_thms

lemma fact_fields_iff:
  "res_bind (host_fact_fields d) g = Inr r \<longleftrightarrow>
    (\<exists>v. map_of d ''event'' = Some v \<and>
    (\<exists>ev. to_host_fact_event v = Inr ev \<and>
    (\<exists>y1. converts read_kind (map_of d ''compute_kind'') y1 \<and>
    (\<exists>y2. converts read_requeue (map_of d ''requeue_reason'') y2 \<and>
    (\<exists>y3. converts to_tuple (map_of d ''job_ids'') y3 \<and>
    (\<exists>y4. converts to_tuple (map_of d ''ranks'') y4 \<and>
       g (fact_conversions y1 y2 y3 y4 (fact_base ev d)) = Inr r))))))"
proof -
  have event: "res_bind (to_host_fact_event e) g = Inr r \<longleftrightarrow>
      (\<exists>ev. to_host_fact_event e = Inr ev \<and> g ev = Inr r)" for e and g :: "_ \<Rightarrow> 'b res" and r
    by simp
  show ?thesis
    unfolding host_fact_fields_def Let_def res_bind_assoc bind_item event bind_convert
      fact_base_def [symmetric] fact_conversions_def [symmetric]
    by (simp only: map_of_del map_of_put fact_lookup)
qed

lemma fact_kwargs_ok:
  assumes "\<And>k. k \<notin> set FACT_KEYS \<Longrightarrow> map_of d k = None"
    "map_of d ''process_uuid'' \<noteq> None" "map_of d ''observed_at_ns'' \<noteq> None"
    "map_of d ''request_id'' \<noteq> None"
  shows "check_kwargs [''event'', ''process_uuid'', ''observed_at_ns'', ''request_id'']
          [''job_id'', ''rank'', ''recovery_epoch'', ''job_ids'', ''ranks'', ''compute_kind'',
           ''requeue_reason''] (fact_conversions y1 y2 y3 y4 (fact_base ev d)) = Inr ()"
  unfolding check_kwargs_iff
proof (intro conjI allI impI)
  fix k
  let ?kw = "fact_conversions y1 y2 y3 y4 (fact_base ev d)"
  assume "map_of ?kw k \<noteq> None"
  show "k \<in> set ([''event'', ''process_uuid'', ''observed_at_ns'', ''request_id''] @
          [''job_id'', ''rank'', ''recovery_epoch'', ''job_ids'', ''ranks'', ''compute_kind'',
           ''requeue_reason''])" (is "k \<in> set ?names")
  proof (rule ccontr)
    assume other: "k \<notin> set ?names"
    have "map_of ?kw k = None"
    proof (cases "k \<in> {''schema'', ''scope''}")
      case True
      have "map_of ?kw ''schema'' = None" "map_of ?kw ''scope'' = None"
        by (simp_all only: fact_lookup)
      then show ?thesis using True
        by (simp only: insert_iff empty_iff simp_thms) (elim disjE; simp only:)
    next
      case False
      with other have "k \<notin> set FACT_KEYS" by (simp add: FACT_KEYS_def)
      then have "map_of d k = None" by (rule assms)
      with other False show ?thesis
        by (simp only: fact_lookup set_simps append.simps insert_iff empty_iff de_Morgan_disj)
    qed
    with \<open>map_of ?kw k \<noteq> None\<close> show False ..
  qed
qed (use assms in \<open>simp only: list.set ball_simps fact_lookup option.distinct not_False_eq_True\<close>)

text \<open>The entries of a dict that spells a fact.\<close>

definition spells_fact :: "(string \<times> pyval) list \<Rightarrow> host_fact \<Rightarrow> bool" where
  "spells_fact d f \<longleftrightarrow>
     map_of d ''schema'' = Some (PStr HOST_FACT_SCHEMA) \<and>
     map_of d ''scope'' = Some (PStr HOST_FACT_SCOPE) \<and>
     map_of d ''event'' = Some (PStr (host_fact_event_value (hf_event f))) \<and>
     map_of d ''process_uuid'' = Some (PStr (hf_process_uuid f)) \<and>
     map_of d ''observed_at_ns'' = Some (PInt (hf_observed_at_ns f)) \<and>
     map_of d ''request_id'' = Some (PStr (hf_request_id f)) \<and>
     map_of d ''job_id'' = map_option PInt (hf_job_id f) \<and>
     map_of d ''rank'' = map_option PInt (hf_rank f) \<and>
     map_of d ''recovery_epoch'' = map_option PInt (hf_recovery_epoch f) \<and>
     map_of d ''job_ids'' = int_list (hf_job_ids f) \<and>
     map_of d ''ranks'' = int_list (hf_ranks f) \<and>
     map_of d ''compute_kind'' = map_option (PStr \<circ> kind_value) (hf_compute_kind f) \<and>
     map_of d ''requeue_reason'' = map_option (PStr \<circ> requeue_value) (hf_requeue_reason f) \<and>
     (\<forall>k. k \<notin> set FACT_KEYS \<longrightarrow> map_of d k = None)"

lemma canon_ints [simp]: "canon v = PList (map PInt ns) \<longleftrightarrow> v = PList (map PInt ns)"
proof (cases v)
  case (PList vs)
  have "map canon vs = map PInt ns \<longleftrightarrow> vs = map PInt ns"
  proof (induction ns arbitrary: vs)
    case (Cons x ns)
    then show ?case by (cases vs) simp_all
  qed simp
  with PList show ?thesis by simp
qed auto

lemma canon_int_list: "map_option canon m = map_option canon (int_list ns) \<longleftrightarrow> m = int_list ns"
  by (cases m) (auto simp: int_list_def)

lemma spells_fact_iff:
  assumes "dict_ok d"
  shows "canon (PDict d) = canon (PDict (fact_entries f)) \<longleftrightarrow> spells_fact d f"
proof -
  have "map_of (fact_entries f) k = None" if "k \<notin> set FACT_KEYS" for k
    using fact_entries_keys [of f k] that by blast
  then have "canon (PDict d) = canon (PDict (fact_entries f)) \<longleftrightarrow>
      list_all (\<lambda>k. map_option canon (map_of d k) = map_option canon (map_of (fact_entries f) k))
        FACT_KEYS \<and>
      (\<forall>k. k \<notin> set FACT_KEYS \<longrightarrow> map_of d k = None)"
    by (rule canon_keys_iff [OF assms fact_entries_ok])
  also have "\<dots> \<longleftrightarrow> spells_fact d f"
    by (simp add: FACT_KEYS_def fact_entries_def host_fact_to_payload_def spells_fact_def
        canon_field canon_int_list some_entries_lookup)
  finally show ?thesis .
qed

lemma fact_call_iff:
  "host_fact_kw kw = Inr f \<longleftrightarrow>
     check_kwargs [''event'', ''process_uuid'', ''observed_at_ns'', ''request_id'']
          [''job_id'', ''rank'', ''recovery_epoch'', ''job_ids'', ''ranks'', ''compute_kind'',
           ''requeue_reason''] kw = Inr () \<and>
     valid_fact f \<and>
     kwarg kw ''event'' PNone = PHostFactEvent (hf_event f) \<and>
     kwarg kw ''process_uuid'' PNone = PStr (hf_process_uuid f) \<and>
     kwarg kw ''observed_at_ns'' PNone = PInt (hf_observed_at_ns f) \<and>
     kwarg kw ''request_id'' PNone = PStr (hf_request_id f) \<and>
     kwarg kw ''job_id'' PNone = opt_val PInt (hf_job_id f) \<and>
     kwarg kw ''rank'' PNone = opt_val PInt (hf_rank f) \<and>
     kwarg kw ''recovery_epoch'' PNone = opt_val PInt (hf_recovery_epoch f) \<and>
     kwarg kw ''job_ids'' (PTuple []) = PTuple (map PInt (hf_job_ids f)) \<and>
     kwarg kw ''ranks'' (PTuple []) = PTuple (map PInt (hf_ranks f)) \<and>
     kwarg kw ''compute_kind'' PNone = opt_val PComputeKind (hf_compute_kind f) \<and>
     kwarg kw ''requeue_reason'' PNone = opt_val PRequeueReason (hf_requeue_reason f)"
  by (simp add: host_fact_kw_def make_host_fact_iff fact_args_of_def conj_ac)

lemma raw_required: "map_of d k \<noteq> None \<Longrightarrow> kwarg d k PNone = v \<longleftrightarrow> map_of d k = Some v"
  by (auto simp: kwarg_def)

lemma tuple_field:
  assumes "map_of d k = None \<longleftrightarrow> ns = []"
  shows "(\<exists>y. converts to_tuple (map_of d k) y \<and>
      (case y of None \<Rightarrow> PTuple [] | Some v \<Rightarrow> v) = PTuple (map PInt ns)) \<longleftrightarrow>
    map_of d k = int_list ns"
proof -
  have tuple: "to_tuple v = Inr z \<longleftrightarrow>
      (\<exists>xs. z = PTuple (map (\<lambda>x. x) xs) \<and> v = PList (map (\<lambda>x. x) xs) \<and> True)" for v z
    by (auto simp: to_tuple_def split: pyval.split)
  show ?thesis
    using list_field [OF tuple, of d k "map PInt ns"] assms by (simp add: int_list_def)
qed

lemma fact_core:
  assumes "\<forall>k. k \<notin> set FACT_KEYS \<longrightarrow> map_of d k = None"
    "map_of d ''process_uuid'' \<noteq> None" "map_of d ''observed_at_ns'' \<noteq> None"
    "map_of d ''request_id'' \<noteq> None"
  shows "res_bind (host_fact_fields d) host_fact_kw = Inr f \<longleftrightarrow>
    valid_fact f \<and>
    (\<exists>v. map_of d ''event'' = Some v \<and> to_host_fact_event v = Inr (hf_event f)) \<and>
    map_of d ''process_uuid'' = Some (PStr (hf_process_uuid f)) \<and>
    map_of d ''observed_at_ns'' = Some (PInt (hf_observed_at_ns f)) \<and>
    map_of d ''request_id'' = Some (PStr (hf_request_id f)) \<and>
    kwarg d ''job_id'' PNone = opt_val PInt (hf_job_id f) \<and>
    kwarg d ''rank'' PNone = opt_val PInt (hf_rank f) \<and>
    kwarg d ''recovery_epoch'' PNone = opt_val PInt (hf_recovery_epoch f) \<and>
    (\<exists>y. converts to_tuple (map_of d ''job_ids'') y \<and>
       (case y of None \<Rightarrow> PTuple [] | Some v \<Rightarrow> v) = PTuple (map PInt (hf_job_ids f))) \<and>
    (\<exists>y. converts to_tuple (map_of d ''ranks'') y \<and>
       (case y of None \<Rightarrow> PTuple [] | Some v \<Rightarrow> v) = PTuple (map PInt (hf_ranks f))) \<and>
    (\<exists>y. converts read_kind (map_of d ''compute_kind'') y \<and>
       (case y of None \<Rightarrow> PNone | Some v \<Rightarrow> v) = opt_val PComputeKind (hf_compute_kind f)) \<and>
    (\<exists>y. converts read_requeue (map_of d ''requeue_reason'') y \<and>
       (case y of None \<Rightarrow> PNone | Some v \<Rightarrow> v) = opt_val PRequeueReason (hf_requeue_reason f))"
    (is "?l \<longleftrightarrow> ?r")
proof -
  have other: "k \<notin> set FACT_KEYS \<Longrightarrow> map_of d k = None" for k using assms(1) by simp
  have call: "host_fact_kw (fact_conversions y1 y2 y3 y4 (fact_base ev d)) = Inr f \<longleftrightarrow>
      valid_fact f \<and> ev = hf_event f \<and>
      kwarg d ''process_uuid'' PNone = PStr (hf_process_uuid f) \<and>
      kwarg d ''observed_at_ns'' PNone = PInt (hf_observed_at_ns f) \<and>
      kwarg d ''request_id'' PNone = PStr (hf_request_id f) \<and>
      kwarg d ''job_id'' PNone = opt_val PInt (hf_job_id f) \<and>
      kwarg d ''rank'' PNone = opt_val PInt (hf_rank f) \<and>
      kwarg d ''recovery_epoch'' PNone = opt_val PInt (hf_recovery_epoch f) \<and>
      (case y3 of None \<Rightarrow> PTuple [] | Some v \<Rightarrow> v) = PTuple (map PInt (hf_job_ids f)) \<and>
      (case y4 of None \<Rightarrow> PTuple [] | Some v \<Rightarrow> v) = PTuple (map PInt (hf_ranks f)) \<and>
      (case y1 of None \<Rightarrow> PNone | Some v \<Rightarrow> v) = opt_val PComputeKind (hf_compute_kind f) \<and>
      (case y2 of None \<Rightarrow> PNone | Some v \<Rightarrow> v) = opt_val PRequeueReason (hf_requeue_reason f)"
    for y1 y2 y3 y4 ev
    unfolding fact_call_iff
    using fact_kwargs_ok [OF other assms(2-4), of y1 y2 y3 y4 ev]
    by (simp only: fact_conversions_def fact_base_def kwarg_simps
        list.inject char.inject list.distinct if_False if_True simp_thms pyval.inject)
  show ?thesis
    unfolding fact_fields_iff call raw_required [OF assms(2)] raw_required [OF assms(3)]
      raw_required [OF assms(4)]
    by (rule iffI; elim exE conjE; intro exI conjI; (assumption | simp))
qed

lemma json_event:
  assumes "json_value (PDict d)"
  shows "(\<exists>v. map_of d k = Some v \<and> to_host_fact_event v = Inr ev) \<longleftrightarrow>
      map_of d k = Some (PStr (host_fact_event_value ev))"
    "(\<exists>v. map_of d k = Some v \<and> to_correlated_event v = Inr cev) \<longleftrightarrow>
      map_of d k = Some (PStr (correlated_event_value cev))"
    "has_text d k s \<longleftrightarrow> map_of d k = Some (PStr s)"
  using json_lookup [OF assms]
  by (auto simp: enum_iff json_text has_text_def split: option.split)

lemma fact_decode_iff:
  assumes "json_value p"
  shows "host_fact_from_payload p = Inr f \<longleftrightarrow>
    valid_fact f \<and> canon p = canon (host_fact_to_payload f)"
proof (cases "\<exists>d. p = PDict d")
  case False
  then have "canon p \<noteq> canon (host_fact_to_payload f)"
    using canon_PDict [of p] by (auto simp: fact_payload)
  with False show ?thesis by (auto simp: host_fact_from_payload_def)
next
  case True
  then obtain d where p: "p = PDict d" ..
  with assms have d: "json_value (PDict d)" "dict_ok d" by simp_all
  define core where "core \<longleftrightarrow> has_text d ''schema'' HOST_FACT_SCHEMA \<and>
    has_text d ''scope'' HOST_FACT_SCOPE \<and>
    res_bind (host_fact_fields d) host_fact_kw = Inr f"
  have decode: "host_fact_from_payload p = Inr f \<longleftrightarrow>
      core \<and> py_eq (PDict (fact_entries f)) (PDict d)"
    unfolding fact_payload [symmetric]
    by (auto simp: host_fact_from_payload_def core_def p simp del: res_bind_Inr
        simp: res_bind_Inr [where r = "closed_record _"] res_bind_Inr [where r = "as_object _"])
  have "core \<longleftrightarrow> valid_fact f \<and> spells_fact d f"
    if "\<And>k. map_of d k = None \<longleftrightarrow> map_of (fact_entries f) k = None"
  proof -
    have none: "\<And>k. k \<notin> set FACT_KEYS \<Longrightarrow> map_of d k = None"
      using that fact_entries_keys [of f] by blast
    then have none': "\<forall>k. k \<notin> set FACT_KEYS \<longrightarrow> map_of d k = None" by simp
    have required: "map_of d ''process_uuid'' \<noteq> None" "map_of d ''observed_at_ns'' \<noteq> None"
      "map_of d ''request_id'' \<noteq> None"
      by (subst that, simp add: fact_entries_def host_fact_to_payload_def)+
    have raws: "kwarg d ''job_id'' PNone = opt_val PInt (hf_job_id f) \<longleftrightarrow>
        map_of d ''job_id'' = map_option PInt (hf_job_id f)"
      "kwarg d ''rank'' PNone = opt_val PInt (hf_rank f) \<longleftrightarrow>
        map_of d ''rank'' = map_option PInt (hf_rank f)"
      "kwarg d ''recovery_epoch'' PNone = opt_val PInt (hf_recovery_epoch f) \<longleftrightarrow>
        map_of d ''recovery_epoch'' = map_option PInt (hf_recovery_epoch f)"
      by (rule raw_field, subst that,
          simp add: fact_entries_def host_fact_to_payload_def some_entries_lookup)+
    have lists: "map_of d ''job_ids'' = None \<longleftrightarrow> hf_job_ids f = []"
      "map_of d ''ranks'' = None \<longleftrightarrow> hf_ranks f = []"
      by (subst that,
          simp add: fact_entries_def host_fact_to_payload_def some_entries_lookup int_list_def)+
    note fields = fact_core [OF none' required]
    note others = eqTrueI [OF none']
    show ?thesis
      unfolding core_def fields json_event [OF d(1)] raws tuple_field [OF lists(1)]
        tuple_field [OF lists(2)] field_conversions [OF d(1)] spells_fact_def others
      by (simp only: simp_thms conj_ac)
  qed
  then show ?thesis
    unfolding p decode [unfolded p] fact_payload spells_fact_iff [OF d(2), symmetric]
    by (rule closed_decoder [OF d(1) json_fact [of f, unfolded fact_payload]])
qed

end
