(* ===== verification/Codec_Correlated.thy ===== *)
theory Codec_Correlated
  imports Codec_Host
begin

text \<open>
  The decoder of correlated records with its nested receipts, and the properties of the three
  decoders of validation.py.
\<close>

section \<open>Decoding correlated records\<close>

definition worker_ok :: "worker_receipt \<Rightarrow> bool" where
  "worker_ok w \<longleftrightarrow>
     0 \<le> wr_rank w \<and> wr_rank w \<le> UINT32_MAX \<and> process_uuid_ok (wr_generation w)"

definition job_ok :: "job_receipt \<Rightarrow> bool" where
  "job_ok j \<longleftrightarrow>
     0 \<le> jr_job_id j \<and> jr_job_id j \<le> UINT64_MAX \<and> jr_workers j \<noteq> [] \<and>
     valid_workers (jr_workers j) \<and> list_all worker_ok (jr_workers j)"

definition receipts_ok :: "correlated \<Rightarrow> bool" where
  "receipts_ok c \<longleftrightarrow> list_all worker_ok (co_workers c) \<and> list_all job_ok (co_roster c)"

text \<open>A dict with exactly two keys.\<close>

lemma two_fields:
  assumes "dict_ok d" "k1 \<noteq> k2"
  shows "canon (PDict d) = canon (PDict [(k1, v1), (k2, v2)]) \<longleftrightarrow>
    (\<forall>k. map_of d k \<noteq> None \<longleftrightarrow> k \<in> {k1, k2}) \<and>
    map_option canon (map_of d k1) = Some (canon v1) \<and>
    map_option canon (map_of d k2) = Some (canon v2)"
proof -
  have "canon (PDict d) = canon (PDict [(k1, v1), (k2, v2)]) \<longleftrightarrow>
      (\<forall>k. map_option canon (map_of d k) = map_option canon (map_of [(k1, v1), (k2, v2)] k))"
    using assms by (intro canon_dict_iff) simp_all
  also have "\<dots> \<longleftrightarrow> (\<forall>k. map_of d k \<noteq> None \<longleftrightarrow> k \<in> {k1, k2}) \<and>
      map_option canon (map_of d k1) = Some (canon v1) \<and>
      map_option canon (map_of d k2) = Some (canon v2)" (is "?l \<longleftrightarrow> ?r")
  proof
    assume l: ?l
    have "map_of d k \<noteq> None \<longleftrightarrow> k \<in> {k1, k2}" for k
      using spec [OF l, of k] by (cases "map_of d k") (auto split: if_splits)
    with l assms(2) show ?r by simp
  next
    assume ?r
    then show ?l using assms(2) by (auto simp del: not_None_eq)
  qed
  finally show ?thesis .
qed

lemma worker_payload_iff:
  assumes "json_value v"
  shows "worker_from_payload v = Inr w \<longleftrightarrow> worker_ok w \<and> canon v = canon (worker_to_payload w)"
proof (cases v)
  case (PDict d)
  then have "dict_ok d" using assms by simp
  note c = two_fields [OF this, of "''rank''" "''worker_generation''" "PInt (wr_rank w)"
    "PStr (wr_generation w)", simplified]
  have kwargs: "check_kwargs [''rank'', ''worker_generation''] [] d = Inr () \<longleftrightarrow>
      (\<forall>k. map_of d k \<noteq> None \<longleftrightarrow> k \<in> {''rank'', ''worker_generation''})"
    unfolding check_kwargs_iff by (auto simp del: not_None_eq)
  have "worker_from_payload v = Inr w \<longleftrightarrow>
      (\<forall>k. map_of d k \<noteq> None \<longleftrightarrow> k \<in> {''rank'', ''worker_generation''}) \<and>
      kwarg d ''rank'' PNone = PInt (wr_rank w) \<and>
      kwarg d ''worker_generation'' PNone = PStr (wr_generation w) \<and> worker_ok w"
    by (simp add: worker_from_payload_def PDict as_object_def worker_receipt_kw_def kwargs
        make_worker_receipt_iff worker_ok_def del: not_None_eq)
  then show ?thesis
    unfolding PDict worker_to_payload_def
    using c by (auto simp: kwarg_def split: option.splits)
qed (simp_all add: worker_from_payload_def as_object_def worker_to_payload_def)

text \<open>Lists of receipts.\<close>

lemma map_receipts_inject [simp]:
  "map PWorker xs = map PWorker ys \<longleftrightarrow> xs = ys" "map PJob js = map PJob ks \<longleftrightarrow> js = ks"
  by (rule inj_map_eq_map, simp add: inj_on_def)+

lemma res_map_canon:
  assumes "\<And>v y. v \<in> set xs \<Longrightarrow> f v = Inr y \<longleftrightarrow> V y \<and> canon v = canon (g y)"
  shows "res_map f xs = Inr ys \<longleftrightarrow> list_all V ys \<and> map canon xs = map (canon \<circ> g) ys"
  using assms
proof (induction xs arbitrary: ys)
  case (Cons x xs)
  have "f x = Inr y \<longleftrightarrow> V y \<and> canon x = canon (g y)" for y using Cons.prems by simp
  moreover have "res_map f xs = Inr ys \<longleftrightarrow> list_all V ys \<and> map canon xs = map (canon \<circ> g) ys" for ys
    using Cons by (simp add: comp_def)
  ultimately show ?case by (cases ys) auto
qed auto

lemma worker_list_iff:
  assumes "json_value v"
  shows "worker_list v = Inr z \<longleftrightarrow>
    (\<exists>ws. z = PTuple (map PWorker ws) \<and> list_all worker_ok ws \<and>
       canon v = canon (PList (map worker_to_payload ws)))"
proof (cases v)
  case (PList xs)
  have "res_map worker_from_payload xs = Inr ws \<longleftrightarrow>
      list_all worker_ok ws \<and> map canon xs = map (canon \<circ> worker_to_payload) ws" for ws
    by (rule res_map_canon) (use assms PList in \<open>simp add: list_all_iff worker_payload_iff\<close>)
  then show ?thesis by (auto simp: worker_list_def PList)
qed (simp_all add: worker_list_def)

lemma job_payload_iff:
  assumes "json_value v"
  shows "job_from_payload v = Inr j \<longleftrightarrow> job_ok j \<and> canon v = canon (job_to_payload j)"
proof (cases v)
  case (PDict d)
  then have d: "dict_ok d" "json_value (PDict d)" using assms by simp_all
  note c = two_fields [OF d(1), of "''job_id''" "''workers''" "PInt (jr_job_id j)"
    "PList (map worker_to_payload (jr_workers j))", simplified]
  have workers: "(\<exists>raw. map_of d ''workers'' = Some raw \<and>
      worker_list raw = Inr (PTuple (map PWorker ws))) \<longleftrightarrow>
      map_option canon (map_of d ''workers'') =
        Some (canon (PList (map worker_to_payload ws))) \<and> list_all worker_ok ws" for ws
    using json_lookup [OF d(2)] by (auto simp: worker_list_iff)
  have "job_from_payload v = Inr j \<longleftrightarrow>
      (\<forall>k. map_of d k \<noteq> None \<longleftrightarrow> k \<in> {''job_id'', ''workers''}) \<and>
      map_of d ''job_id'' = Some (PInt (jr_job_id j)) \<and>
      (\<exists>raw. map_of d ''workers'' = Some raw \<and>
        worker_list raw = Inr (PTuple (map PWorker (jr_workers j)))) \<and>
      0 \<le> jr_job_id j \<and> jr_job_id j \<le> UINT64_MAX \<and> jr_workers j \<noteq> [] \<and>
      valid_workers (jr_workers j)"
    unfolding keys_iff [symmetric]
    by (auto simp: job_from_payload_def PDict as_object_def dict_item_iff make_job_receipt_iff)
  then show ?thesis
    unfolding PDict job_to_payload_def workers
    using c by (auto simp: job_ok_def)
qed (simp_all add: job_from_payload_def as_object_def job_to_payload_def)


lemma job_list_iff:
  assumes "json_value v"
  shows "job_list v = Inr z \<longleftrightarrow>
    (\<exists>js. z = PTuple (map PJob js) \<and> list_all job_ok js \<and>
       canon v = canon (PList (map job_to_payload js)))"
proof (cases v)
  case (PList xs)
  have "res_map job_from_payload xs = Inr js \<longleftrightarrow>
      list_all job_ok js \<and> map canon xs = map (canon \<circ> job_to_payload) js" for js
    by (rule res_map_canon) (use assms PList in \<open>simp add: list_all_iff job_payload_iff\<close>)
  then show ?thesis by (auto simp: job_list_def PList)
qed (simp_all add: job_list_def)


text \<open>A list of receipts: absent, or a converted array; an empty array spells no payload.\<close>

lemma receipts_field:
  assumes "json_value (PDict d)"
    "\<And>v z. json_value v \<Longrightarrow> f v = Inr z \<longleftrightarrow>
       (\<exists>xs. z = PTuple (map C xs) \<and> list_all V xs \<and> canon v = canon (PList (map g xs)))"
    "\<And>xs ys. map C xs = map C ys \<longleftrightarrow> xs = ys" "map_of d k = None \<longleftrightarrow> xs = []"
  shows "(\<exists>y. converts f (map_of d k) y \<and>
      (case y of None \<Rightarrow> PTuple [] | Some v \<Rightarrow> v) = PTuple (map C xs)) \<longleftrightarrow>
    map_option canon (map_of d k) = map_option canon (nonempty_list (map g xs)) \<and> list_all V xs"
proof (cases "map_of d k")
  case (Some v)
  then have "json_value v" using assms(1) json_lookup by blast
  with Some assms(3,4) show ?thesis
    by (auto simp: option_rel_Some1 assms(2) nonempty_list_def intro!: exI [of _ "Some _"])
qed (use assms(4) in \<open>auto simp: nonempty_list_def\<close>)

definition CORRELATED_KEYS :: "string list" where
  "CORRELATED_KEYS =
     [''schema'', ''event'', ''scheduler_generation'', ''request_id'', ''recovery_epoch'',
      ''observed_at_ns'', ''job_id'', ''rank'', ''worker_generation'', ''block_count'',
      ''compute_kind'', ''workers'', ''roster'']"

definition correlated_entries :: "correlated \<Rightarrow> (string \<times> pyval) list" where
  "correlated_entries c = (case correlated_to_payload c of PDict d \<Rightarrow> d | _ \<Rightarrow> [])"

lemma correlated_payload: "correlated_to_payload c = PDict (correlated_entries c)"
  by (simp add: correlated_entries_def correlated_to_payload_def)

lemma correlated_entries_ok: "dict_ok (correlated_entries c)"
  unfolding correlated_entries_def correlated_to_payload_def pyval.case
  by (rule entries_dict_ok) simp

lemma correlated_entries_keys:
  "map_of (correlated_entries c) k \<noteq> None \<Longrightarrow> k \<in> set CORRELATED_KEYS"
  by (auto simp: correlated_entries_def correlated_to_payload_def CORRELATED_KEYS_def
      some_entries_lookup split: if_splits)

lemma json_worker [simp]: "json_value (worker_to_payload w)"
  by (simp add: worker_to_payload_def)

lemma json_workers [simp]: "list_all (json_value \<circ> worker_to_payload) ws"
  by (induction ws) simp_all

lemma json_job [simp]: "json_value (job_to_payload j)"
  by (simp add: job_to_payload_def list.pred_map)

lemma json_jobs [simp]: "list_all (json_value \<circ> job_to_payload) js"
  by (induction js) simp_all

lemma json_correlated:
  assumes "json_value (co_compute_kind c)"
  shows "json_value (correlated_to_payload c)"
proof -
  have "list_all (\<lambda>p. json_value (snd p)) (correlated_entries c)"
    using assms
    by (simp add: correlated_entries_def correlated_to_payload_def nonempty_list_def
        list.pred_map split: option.split)
  then show ?thesis using correlated_entries_ok by (simp add: correlated_payload)
qed

text \<open>A known compute kind, as JSON can carry it.\<close>

lemma kind_text_canon:
  assumes "v = PNone \<or> kind_text v"
  shows "canon w = canon v \<longleftrightarrow> w = v"
  using assms by (cases v; cases w) (simp_all add: kind_text_def)

definition corr_base :: "correlated_event \<Rightarrow> (string \<times> pyval) list \<Rightarrow> (string \<times> pyval) list" where
  "corr_base ev d = AList.update ''event'' (PCorrelatedEvent ev) (AList.delete ''schema'' d)"

definition corr_conversions :: "pyval option \<Rightarrow> pyval option \<Rightarrow>
    (string \<times> pyval) list \<Rightarrow> (string \<times> pyval) list" where
  "corr_conversions y1 y2 d = put ''roster'' y2 (put ''workers'' y1 d)"

lemma corr_base_lookup:
  "map_of (corr_base ev d) = (map_of d)(''schema'' := None, ''event'' \<mapsto> PCorrelatedEvent ev)"
  by (simp only: corr_base_def map_of_update map_of_del)

lemma corr_conversions_lookup:
  "map_of (corr_conversions y1 y2 d) = (map_of d)(''workers'' := y1, ''roster'' := y2)"
  by (simp only: corr_conversions_def map_of_put)

lemmas corr_lookup = corr_base_lookup corr_conversions_lookup fun_upd_apply list.inject
  char.inject list.distinct if_False if_True simp_thms

lemma corr_fields_iff:
  "res_bind (correlated_fields d) g = Inr r \<longleftrightarrow>
    (\<exists>v. map_of d ''event'' = Some v \<and>
    (\<exists>ev. to_correlated_event v = Inr ev \<and>
    (\<exists>y1. converts worker_list (map_of d ''workers'') y1 \<and>
    (\<exists>y2. converts job_list (map_of d ''roster'') y2 \<and>
       g (corr_conversions y1 y2 (corr_base ev d)) = Inr r))))"
proof -
  have event: "res_bind (to_correlated_event e) g = Inr r \<longleftrightarrow>
      (\<exists>ev. to_correlated_event e = Inr ev \<and> g ev = Inr r)" for e and g :: "_ \<Rightarrow> 'b res" and r
    by simp
  show ?thesis
    unfolding correlated_fields_def Let_def res_bind_assoc bind_item event bind_convert
      corr_base_def [symmetric] corr_conversions_def [symmetric]
    by (simp only: map_of_del map_of_put corr_lookup)
qed


lemma corr_kwargs_ok:
  assumes "\<And>k. k \<notin> set CORRELATED_KEYS \<Longrightarrow> map_of d k = None"
    "map_of d ''scheduler_generation'' \<noteq> None" "map_of d ''request_id'' \<noteq> None"
    "map_of d ''recovery_epoch'' \<noteq> None" "map_of d ''observed_at_ns'' \<noteq> None"
  shows "check_kwargs [''event'', ''scheduler_generation'', ''request_id'', ''recovery_epoch'',
           ''observed_at_ns'']
          [''job_id'', ''rank'', ''worker_generation'', ''block_count'', ''workers'', ''roster'',
           ''compute_kind''] (corr_conversions y1 y2 (corr_base ev d)) = Inr ()"
  unfolding check_kwargs_iff
proof (intro conjI allI impI)
  fix k
  let ?kw = "corr_conversions y1 y2 (corr_base ev d)"
  assume "map_of ?kw k \<noteq> None"
  show "k \<in> set ([''event'', ''scheduler_generation'', ''request_id'', ''recovery_epoch'',
           ''observed_at_ns''] @
          [''job_id'', ''rank'', ''worker_generation'', ''block_count'', ''workers'', ''roster'',
           ''compute_kind''])" (is "k \<in> set ?names")
  proof (rule ccontr)
    assume other: "k \<notin> set ?names"
    have "map_of ?kw k = None"
    proof (cases "k = ''schema''")
      case True
      have "map_of ?kw ''schema'' = None" by (simp_all only: corr_lookup)
      then show ?thesis using True by (simp only:)
    next
      case False
      with other have "k \<notin> set CORRELATED_KEYS" by (simp add: CORRELATED_KEYS_def)
      then have "map_of d k = None" by (rule assms)
      with other False show ?thesis
        by (simp only: corr_lookup set_simps append.simps insert_iff empty_iff de_Morgan_disj)
    qed
    with \<open>map_of ?kw k \<noteq> None\<close> show False ..
  qed
qed (use assms in \<open>simp only: list.set ball_simps corr_lookup option.distinct not_False_eq_True\<close>)

definition spells_correlated :: "(string \<times> pyval) list \<Rightarrow> correlated \<Rightarrow> bool" where
  "spells_correlated d c \<longleftrightarrow>
     map_of d ''schema'' = Some (PStr CORRELATED_SCHEMA) \<and>
     map_of d ''event'' = Some (PStr (correlated_event_value (co_event c))) \<and>
     map_of d ''scheduler_generation'' = Some (PStr (co_scheduler_generation c)) \<and>
     map_of d ''request_id'' = Some (PStr (co_request_id c)) \<and>
     map_of d ''recovery_epoch'' = Some (PInt (co_recovery_epoch c)) \<and>
     map_of d ''observed_at_ns'' = Some (PInt (co_observed_at_ns c)) \<and>
     map_of d ''job_id'' = map_option PInt (co_job_id c) \<and>
     map_of d ''rank'' = map_option PInt (co_rank c) \<and>
     map_of d ''worker_generation'' = map_option PStr (co_worker_generation c) \<and>
     map_of d ''block_count'' = map_option PInt (co_block_count c) \<and>
     map_of d ''compute_kind'' =
       (if co_compute_kind c = PNone then None else Some (co_compute_kind c)) \<and>
     map_option canon (map_of d ''workers'') =
       map_option canon (nonempty_list (map worker_to_payload (co_workers c))) \<and>
     map_option canon (map_of d ''roster'') =
       map_option canon (nonempty_list (map job_to_payload (co_roster c))) \<and>
     (\<forall>k. k \<notin> set CORRELATED_KEYS \<longrightarrow> map_of d k = None)"

lemma canon_text: "map_option canon m = map_option canon (map_option PStr x) \<longleftrightarrow> m = map_option PStr x"
  by (cases m; cases x) auto

lemma canon_kind:
  assumes "v = PNone \<or> kind_text v"
  shows "map_option canon m = map_option canon (if v = PNone then None else Some v) \<longleftrightarrow>
    m = (if v = PNone then None else Some v)"
  using kind_text_canon [OF assms] by (cases m) auto

lemma spells_correlated_iff:
  assumes "dict_ok d" "co_compute_kind c = PNone \<or> kind_text (co_compute_kind c)"
  shows "canon (PDict d) = canon (PDict (correlated_entries c)) \<longleftrightarrow> spells_correlated d c"
proof -
  have "map_of (correlated_entries c) k = None" if "k \<notin> set CORRELATED_KEYS" for k
    using correlated_entries_keys [of c k] that by blast
  then have "canon (PDict d) = canon (PDict (correlated_entries c)) \<longleftrightarrow>
      list_all (\<lambda>k. map_option canon (map_of d k) =
        map_option canon (map_of (correlated_entries c) k)) CORRELATED_KEYS \<and>
      (\<forall>k. k \<notin> set CORRELATED_KEYS \<longrightarrow> map_of d k = None)"
    by (rule canon_keys_iff [OF assms(1) correlated_entries_ok])
  also have "\<dots> \<longleftrightarrow> spells_correlated d c"
    using canon_kind [OF assms(2)]
    by (simp add: CORRELATED_KEYS_def correlated_entries_def correlated_to_payload_def
        spells_correlated_def canon_field canon_text some_entries_lookup)
  finally show ?thesis .
qed

lemma corr_call_iff:
  "correlated_kw kw = Inr c \<longleftrightarrow>
     check_kwargs [''event'', ''scheduler_generation'', ''request_id'', ''recovery_epoch'',
           ''observed_at_ns'']
          [''job_id'', ''rank'', ''worker_generation'', ''block_count'', ''workers'', ''roster'',
           ''compute_kind''] kw = Inr () \<and>
     valid_correlated c \<and>
     kwarg kw ''event'' PNone = PCorrelatedEvent (co_event c) \<and>
     kwarg kw ''scheduler_generation'' PNone = PStr (co_scheduler_generation c) \<and>
     kwarg kw ''request_id'' PNone = PStr (co_request_id c) \<and>
     kwarg kw ''recovery_epoch'' PNone = PInt (co_recovery_epoch c) \<and>
     kwarg kw ''observed_at_ns'' PNone = PInt (co_observed_at_ns c) \<and>
     kwarg kw ''job_id'' PNone = opt_val PInt (co_job_id c) \<and>
     kwarg kw ''rank'' PNone = opt_val PInt (co_rank c) \<and>
     kwarg kw ''worker_generation'' PNone = opt_val PStr (co_worker_generation c) \<and>
     kwarg kw ''block_count'' PNone = opt_val PInt (co_block_count c) \<and>
     kwarg kw ''workers'' (PTuple []) = PTuple (map PWorker (co_workers c)) \<and>
     kwarg kw ''roster'' (PTuple []) = PTuple (map PJob (co_roster c)) \<and>
     kwarg kw ''compute_kind'' PNone = co_compute_kind c"
  by (simp add: correlated_kw_def make_correlated_iff corr_args_of_def conj_ac)

lemma corr_core:
  assumes "\<forall>k. k \<notin> set CORRELATED_KEYS \<longrightarrow> map_of d k = None"
    "map_of d ''scheduler_generation'' \<noteq> None" "map_of d ''request_id'' \<noteq> None"
    "map_of d ''recovery_epoch'' \<noteq> None" "map_of d ''observed_at_ns'' \<noteq> None"
  shows "res_bind (correlated_fields d) correlated_kw = Inr c \<longleftrightarrow>
    valid_correlated c \<and>
    (\<exists>v. map_of d ''event'' = Some v \<and> to_correlated_event v = Inr (co_event c)) \<and>
    map_of d ''scheduler_generation'' = Some (PStr (co_scheduler_generation c)) \<and>
    map_of d ''request_id'' = Some (PStr (co_request_id c)) \<and>
    map_of d ''recovery_epoch'' = Some (PInt (co_recovery_epoch c)) \<and>
    map_of d ''observed_at_ns'' = Some (PInt (co_observed_at_ns c)) \<and>
    kwarg d ''job_id'' PNone = opt_val PInt (co_job_id c) \<and>
    kwarg d ''rank'' PNone = opt_val PInt (co_rank c) \<and>
    kwarg d ''worker_generation'' PNone = opt_val PStr (co_worker_generation c) \<and>
    kwarg d ''block_count'' PNone = opt_val PInt (co_block_count c) \<and>
    kwarg d ''compute_kind'' PNone = co_compute_kind c \<and>
    (\<exists>y. converts worker_list (map_of d ''workers'') y \<and>
       (case y of None \<Rightarrow> PTuple [] | Some v \<Rightarrow> v) = PTuple (map PWorker (co_workers c))) \<and>
    (\<exists>y. converts job_list (map_of d ''roster'') y \<and>
       (case y of None \<Rightarrow> PTuple [] | Some v \<Rightarrow> v) = PTuple (map PJob (co_roster c)))"
    (is "?l \<longleftrightarrow> ?r")
proof -
  have other: "k \<notin> set CORRELATED_KEYS \<Longrightarrow> map_of d k = None" for k using assms(1) by simp
  have call: "correlated_kw (corr_conversions y1 y2 (corr_base ev d)) = Inr c \<longleftrightarrow>
      valid_correlated c \<and> ev = co_event c \<and>
      kwarg d ''scheduler_generation'' PNone = PStr (co_scheduler_generation c) \<and>
      kwarg d ''request_id'' PNone = PStr (co_request_id c) \<and>
      kwarg d ''recovery_epoch'' PNone = PInt (co_recovery_epoch c) \<and>
      kwarg d ''observed_at_ns'' PNone = PInt (co_observed_at_ns c) \<and>
      kwarg d ''job_id'' PNone = opt_val PInt (co_job_id c) \<and>
      kwarg d ''rank'' PNone = opt_val PInt (co_rank c) \<and>
      kwarg d ''worker_generation'' PNone = opt_val PStr (co_worker_generation c) \<and>
      kwarg d ''block_count'' PNone = opt_val PInt (co_block_count c) \<and>
      (case y1 of None \<Rightarrow> PTuple [] | Some v \<Rightarrow> v) = PTuple (map PWorker (co_workers c)) \<and>
      (case y2 of None \<Rightarrow> PTuple [] | Some v \<Rightarrow> v) = PTuple (map PJob (co_roster c)) \<and>
      kwarg d ''compute_kind'' PNone = co_compute_kind c"
    for y1 y2 ev
    unfolding corr_call_iff
    using corr_kwargs_ok [OF other assms(2-5), of y1 y2 ev]
    by (simp only: corr_conversions_def corr_base_def kwarg_simps
        list.inject char.inject list.distinct if_False if_True simp_thms pyval.inject)
  show ?thesis
    unfolding corr_fields_iff call raw_required [OF assms(2)] raw_required [OF assms(3)]
      raw_required [OF assms(4)] raw_required [OF assms(5)]
    by (rule iffI; elim exE conjE; intro exI conjI; (assumption | simp))
qed


lemma valid_correlated_kind:
  "valid_correlated c \<Longrightarrow> co_compute_kind c = PNone \<or> kind_text (co_compute_kind c)"
  using make_correlated_iff [of "corr_args_of c" c] make_correlated_parts [of "corr_args_of c" c]
  by simp

lemma corr_core_parts:
  assumes "json_value (PDict d)" "res_bind (correlated_fields d) correlated_kw = Inr c"
  shows "valid_correlated c" "json_value (co_compute_kind c)"
proof -
  from assms(2) obtain y1 y2 ev where
    "correlated_kw (corr_conversions y1 y2 (corr_base ev d)) = Inr c"
    unfolding corr_fields_iff by blast
  then show "valid_correlated c" unfolding corr_call_iff by blast
  have "kwarg (corr_conversions y1 y2 (corr_base ev d)) ''compute_kind'' PNone = co_compute_kind c"
    using \<open>correlated_kw _ = Inr c\<close> unfolding corr_call_iff by blast
  then have "kwarg d ''compute_kind'' PNone = co_compute_kind c"
    by (simp only: corr_conversions_def corr_base_def kwarg_simps list.inject char.inject
        list.distinct if_False simp_thms)
  then show "json_value (co_compute_kind c)"
    using json_lookup [OF assms(1)] by (auto simp: kwarg_def split: option.splits)
qed

lemma correlated_decode_iff:
  assumes "json_value p"
  shows "correlated_from_payload p = Inr c \<longleftrightarrow>
    (valid_correlated c \<and> receipts_ok c) \<and> canon p = canon (correlated_to_payload c)"
proof (cases "(\<exists>d. p = PDict d) \<and> valid_correlated c \<and> json_value (co_compute_kind c)")
  case False
  show ?thesis
  proof (intro iffI; (elim conjE)?)
    assume decoded: "correlated_from_payload p = Inr c"
    then obtain d where p: "p = PDict d"
      and "res_bind (correlated_fields d) correlated_kw = Inr c"
      by (auto simp: correlated_from_payload_def simp del: res_bind_Inr
          simp: res_bind_Inr [where r = "closed_record _"] res_bind_Inr [where r = "as_object _"]
          split: if_splits)
    then have False using corr_core_parts [of d c] assms False by simp
    then show "(valid_correlated c \<and> receipts_ok c) \<and> canon p = canon (correlated_to_payload c)" ..
  next
    assume valid: "valid_correlated c" and payload: "canon p = canon (correlated_to_payload c)"
    then obtain d where p: "p = PDict d"
      using canon_PDict [of p] by (auto simp: correlated_payload)
    have "dict_ok d" using assms p by simp
    then have "spells_correlated d c"
      using payload p spells_correlated_iff [OF _ valid_correlated_kind [OF valid], of d]
      unfolding correlated_payload by blast
    then have "co_compute_kind c = PNone \<or> map_of d ''compute_kind'' = Some (co_compute_kind c)"
      unfolding spells_correlated_def by (cases "co_compute_kind c = PNone") simp_all
    then have "json_value (co_compute_kind c)"
      using json_lookup [of d "''compute_kind''"] assms p by auto
    with False valid p have False by blast
    then show "correlated_from_payload p = Inr c" ..
  qed
next
  case True
  then obtain d where p: "p = PDict d" and valid: "valid_correlated c"
    and kind: "json_value (co_compute_kind c)" by blast
  with assms have d: "json_value (PDict d)" "dict_ok d" by simp_all
  define core where "core \<longleftrightarrow> has_text d ''schema'' CORRELATED_SCHEMA \<and>
    res_bind (correlated_fields d) correlated_kw = Inr c"
  have decode: "correlated_from_payload p = Inr c \<longleftrightarrow>
      core \<and> py_eq (PDict (correlated_entries c)) (PDict d)"
    unfolding correlated_payload [symmetric]
    by (auto simp: correlated_from_payload_def core_def p simp del: res_bind_Inr
        simp: res_bind_Inr [where r = "closed_record _"] res_bind_Inr [where r = "as_object _"])
  have "core \<longleftrightarrow> (valid_correlated c \<and> receipts_ok c) \<and> spells_correlated d c"
    if keys: "\<And>k. map_of d k = None \<longleftrightarrow> map_of (correlated_entries c) k = None"
  proof -
    have none: "\<And>k. k \<notin> set CORRELATED_KEYS \<Longrightarrow> map_of d k = None"
      using keys correlated_entries_keys [of c] by blast
    then have none': "\<forall>k. k \<notin> set CORRELATED_KEYS \<longrightarrow> map_of d k = None" by simp
    note entries = correlated_entries_def correlated_to_payload_def some_entries_lookup
    have required: "map_of d ''scheduler_generation'' \<noteq> None" "map_of d ''request_id'' \<noteq> None"
      "map_of d ''recovery_epoch'' \<noteq> None" "map_of d ''observed_at_ns'' \<noteq> None"
      by (subst keys, simp add: entries)+
    have raws: "kwarg d ''job_id'' PNone = opt_val PInt (co_job_id c) \<longleftrightarrow>
        map_of d ''job_id'' = map_option PInt (co_job_id c)"
      "kwarg d ''rank'' PNone = opt_val PInt (co_rank c) \<longleftrightarrow>
        map_of d ''rank'' = map_option PInt (co_rank c)"
      "kwarg d ''block_count'' PNone = opt_val PInt (co_block_count c) \<longleftrightarrow>
        map_of d ''block_count'' = map_option PInt (co_block_count c)"
      by (rule raw_field, subst keys, simp add: entries)+
    have "map_of d ''worker_generation'' = None \<longleftrightarrow> co_worker_generation c = None"
      "map_of d ''compute_kind'' = None \<longleftrightarrow> co_compute_kind c = PNone"
      by (subst keys, simp add: entries)+
    then have texts: "kwarg d ''worker_generation'' PNone = opt_val PStr (co_worker_generation c)
        \<longleftrightarrow> map_of d ''worker_generation'' = map_option PStr (co_worker_generation c)"
      "kwarg d ''compute_kind'' PNone = co_compute_kind c \<longleftrightarrow> map_of d ''compute_kind'' =
        (if co_compute_kind c = PNone then None else Some (co_compute_kind c))"
      by (auto simp: kwarg_def opt_val_def split: option.splits)
    have lists: "map_of d ''workers'' = None \<longleftrightarrow> co_workers c = []"
      "map_of d ''roster'' = None \<longleftrightarrow> co_roster c = []"
      by (subst keys, simp add: entries nonempty_list_def)+
    have workers: "(\<exists>y. converts worker_list (map_of d ''workers'') y \<and>
        (case y of None \<Rightarrow> PTuple [] | Some v \<Rightarrow> v) = PTuple (map PWorker (co_workers c))) \<longleftrightarrow>
      map_option canon (map_of d ''workers'') =
        map_option canon (nonempty_list (map worker_to_payload (co_workers c))) \<and>
      list_all worker_ok (co_workers c)"
      by (rule receipts_field [OF d(1) _ map_receipts_inject(1) lists(1)]) (rule worker_list_iff)
    have roster: "(\<exists>y. converts job_list (map_of d ''roster'') y \<and>
        (case y of None \<Rightarrow> PTuple [] | Some v \<Rightarrow> v) = PTuple (map PJob (co_roster c))) \<longleftrightarrow>
      map_option canon (map_of d ''roster'') =
        map_option canon (nonempty_list (map job_to_payload (co_roster c))) \<and>
      list_all job_ok (co_roster c)"
      by (rule receipts_field [OF d(1) _ map_receipts_inject(2) lists(2)]) (rule job_list_iff)
    note others = eqTrueI [OF none']
    show ?thesis
      unfolding core_def corr_core [OF none' required] json_event [OF d(1)] raws texts workers
        roster spells_correlated_def receipts_ok_def others
      by (simp only: simp_thms conj_ac)
  qed
  then show ?thesis
    unfolding p decode [unfolded p] correlated_payload
      spells_correlated_iff [OF d(2) valid_correlated_kind [OF valid], symmetric]
    by (rule closed_decoder [OF d(1) json_correlated [OF kind, unfolded correlated_payload]])
qed


section \<open>Decoders raise nothing but ValueError\<close>

definition handled :: "'a res \<Rightarrow> bool" where
  "handled r \<longleftrightarrow> (\<forall>e. r = Inl e \<longrightarrow> e \<in> {KeyError, TypeError, ValueError})"

named_theorems handled_rules "operations raising only what the decoders catch"

lemma handled_basic [handled_rules]:
  "handled (Inr x)" "handled (Inl KeyError)" "handled (Inl TypeError)" "handled (Inl ValueError)"
  by (simp_all add: handled_def)

lemma handled_bind [handled_rules]:
  "handled r \<Longrightarrow> (\<And>x. handled (f x)) \<Longrightarrow> handled (res_bind r f)"
  by (cases r) (auto simp: handled_def)

lemma handled_if [handled_rules]: "handled r \<Longrightarrow> handled r' \<Longrightarrow> handled (if c then r else r')"
  by simp

lemma handled_let [handled_rules]: "(\<And>x. handled (f x)) \<Longrightarrow> handled (let x = y in f x)"
  by simp

lemma handled_map [handled_rules]: "(\<And>x. handled (f x)) \<Longrightarrow> handled (res_map f xs)"
  by (induction xs) (auto intro: handled_rules)

lemma handled_optional [handled_rules]: "(\<And>v. handled (f v)) \<Longrightarrow> handled (optional f v)"
  unfolding optional_def by (intro handled_rules)

lemma handled_value_error: "only_value_error r \<Longrightarrow> handled r"
  by (simp add: handled_def only_value_error_def)

lemmas handled_checks [handled_rules] = ove_checks [THEN handled_value_error]
  ove_observation [THEN handled_value_error]

lemma handled_enums [handled_rules]:
  "handled (to_event v)" "handled (to_direction v)" "handled (to_kind v)"
  "handled (to_requeue v)" "handled (to_terminal v)" "handled (to_host_fact_event v)"
  "handled (to_correlated_event v)"
  by (auto simp: handled_def to_event_def to_direction_def to_kind_def to_requeue_def
      to_terminal_def to_host_fact_event_def to_correlated_event_def enum_lookup_def
      split: option.splits)

lemma handled_reads [handled_rules]:
  "handled (as_object v)" "handled (dict_item d k)" "handled (check_kwargs ns ms kw)"
  "handled (to_tuple v)" "handled (as_fact_event v)" "handled (as_correlated_event v)"
  "handled (as_worker v)" "handled (as_job v)" "handled (require_uuid v)"
  "handled (in_str_set v ss)" "handled (require_printable_ascii v n)"
  "handled (require_scoped_id v c)"
  by (auto simp: handled_def as_object_def dict_item_def check_kwargs_def to_tuple_def py_defs
      require_uuid_def in_str_set_def require_printable_ascii_def require_scoped_id_def
      split: pyval.splits option.splits if_splits)

lemma handled_ids [handled_rules]:
  "handled (transfer_identity v)" "handled (receipt_identity v)" "handled (identity_from_payload v)"
  unfolding transfer_identity_def receipt_identity_def identity_from_payload_def
    observation_identity_kw_def observation_identity_def
  by (intro handled_rules)+

lemma handled_lists [handled_rules]:
  "handled (worker_roster v)" "handled (job_roster v)" "handled (uint_roster v m)"
  "handled (transfer_list v)"
  unfolding worker_roster_def job_roster_def uint_roster_def transfer_list_def
  by (cases v; simp only: pyval.case; intro handled_rules)+

lemma handled_receipts [handled_rules]:
  "handled (worker_from_payload v)" "handled (worker_list v)" "handled (job_from_payload v)"
  "handled (job_list v)"
proof -
  show worker: "handled (worker_from_payload v)" for v
    unfolding worker_from_payload_def worker_receipt_kw_def make_worker_receipt_def
    by (intro handled_rules)
  show workers: "handled (worker_list v)" for v
    unfolding worker_list_def by (cases v; simp only: pyval.case; intro handled_rules worker)
  show job: "handled (job_from_payload v)" for v
    unfolding job_from_payload_def make_job_receipt_def by (intro handled_rules workers)
  show "handled (job_list v)"
    unfolding job_list_def by (cases v; simp only: pyval.case; intro handled_rules job)
qed

lemma handled_fields [handled_rules]:
  "(\<And>v. handled (f v)) \<Longrightarrow> handled (convert_field k f d)"
  "(\<And>v. handled (f v)) \<Longrightarrow> handled (rename_field k k' f d)"
  by (cases "map_of d k"; simp only: convert_field_def rename_field_def option.case;
      intro handled_rules)+

lemma handled_decoders [handled_rules]:
  "handled (observation_fields d)" "handled (kv_transfer_observation_kw now kw)"
  "handled (host_fact_fields d)" "handled (host_fact_kw kw)"
  "handled (correlated_fields d)" "handled (correlated_kw kw)"
  unfolding observation_fields_def kv_transfer_observation_kw_def host_fact_fields_def
    host_fact_kw_def make_host_fact_def correlated_fields_def correlated_kw_def
    make_correlated_def check_compute_kind_def reads
  by (intro handled_rules)+

lemma closed_only_value_error: "handled r \<Longrightarrow> only_value_error (closed_record r)"
  by (cases r) (auto simp: handled_def closed_record_def only_value_error_def)

lemma decoders_only_value_error:
  "only_value_error (observation_from_payload v)"
  "only_value_error (host_fact_from_payload v)"
  "only_value_error (correlated_from_payload v)"
  unfolding observation_from_payload_def host_fact_from_payload_def correlated_from_payload_def
    as_object_def
  by (cases v; simp only: pyval.case;
      intro only_value_error_bind only_value_error_if only_value_error_intros
        closed_only_value_error handled_rules)+

lemma only_value_error_range:
  "only_value_error r \<Longrightarrow> r \<in> insert (Inl ValueError) (range Inr)"
  by (cases r) (simp_all add: only_value_error_def)

section \<open>Properties of the decoders\<close>

definition wire_observation :: kv_observation where
  "wire_observation =
     embed (ObservationIdentity ''req-1'' 3 0 (Some 1)) 70 (Recovery_Requeued TOKEN_BUDGET)"

definition wire_fact :: host_fact where
  "wire_fact = embed_fact ''00112233445566778899aabbccddeeff'' 20 ''req-1''
     (Receipt_Claim 7 [0, 1])"

definition wire_correlated :: correlated where
  "wire_correlated = embed_link ''00112233445566778899aabbccddeeff'' ''req-1'' 1 90
     (Receipt_Link 7 [WorkerReceipt 0 ''ffeeddccbbaa99887766554433221100''])"

lemma wire_valid:
  "valid_observation wire_observation" "valid_fact wire_fact" "valid_correlated wire_correlated"
  "receipts_ok wire_correlated"
proof -
  have "kv_transfer_observation (args_of wire_observation) = Inr wire_observation" by code_simp
  moreover have "observation_identity (PStr ''req-1'') (PInt 3) (PInt 0) (PInt 1) =
      Inr (ObservationIdentity ''req-1'' 3 0 (Some 1))" by code_simp
  ultimately show "valid_observation wire_observation"
    by (simp add: observation_iff observation_identity_iff valid_observation_def
        valid_parts_def wire_observation_def bare_def)
  have "make_host_fact (fact_args_of wire_fact) = Inr wire_fact" by code_simp
  then show "valid_fact wire_fact" by (simp add: make_host_fact_iff)
  have "make_correlated (corr_args_of wire_correlated) = Inr wire_correlated" by code_simp
  then show "valid_correlated wire_correlated" by (simp add: make_correlated_iff)
  have "make_worker_receipt (PInt 0) (PStr ''ffeeddccbbaa99887766554433221100'') =
      Inr (WorkerReceipt 0 ''ffeeddccbbaa99887766554433221100'')" by code_simp
  then show "receipts_ok wire_correlated"
    by (simp add: make_worker_receipt_iff receipts_ok_def wire_correlated_def bare_corr_def
        worker_ok_def)
qed

text \<open>
  C19: observation payloads are decoded exactly. Of the values JSON can carry, the decoder accepts
  a payload as an observation if and only if the observation is valid and the payload is its own
  payload, up to the order of keys. So a payload with an unknown, missing or repeated field, a
  number of another type, or a field its event does not have is refused, and no payload stands
  for two observations.
\<close>

theorem observation_decoder_exact:
  assumes "json_value p"
  shows "observation_from_payload p = Inr ob \<longleftrightarrow>
    valid_observation ob \<and> canon p = canon (observation_to_payload ob)"
  using assms by (rule observation_decode_iff)

theorem observation_decoder_exact_witness:
  "observation_from_payload
     (PDict [(''requeue_reason'', PStr ''token_budget''), (''schema'', PStr EVENT_SCHEMA),
        (''observed_at_ns'', PInt 70), (''event'', PStr ''recovery_requeued''),
        (''identity'', PDict [(''worker_generation'', PInt 3), (''rank'', PInt 0),
           (''request_id'', PStr ''req-1''), (''recovery_epoch'', PInt 1)])])
   = Inr wire_observation"
  (is "observation_from_payload ?p = _")
proof -
  have "json_value ?p" by code_simp
  moreover have "canon ?p = canon (observation_to_payload wire_observation)" by code_simp
  ultimately show ?thesis
    using observation_decoder_exact [of ?p wire_observation] wire_valid by blast
qed

text \<open>
  C20: host records are decoded exactly. A JSON value decodes to a host fact, or to a correlated
  record, if and only if that record is valid, with valid receipts inside, and the value is its
  payload up to the order of keys, in the record and in each of its nested receipts.
\<close>

theorem host_decoders_exact:
  assumes "json_value p"
  shows "(host_fact_from_payload p = Inr f \<longleftrightarrow>
      valid_fact f \<and> canon p = canon (host_fact_to_payload f)) \<and>
    (correlated_from_payload p = Inr c \<longleftrightarrow>
      valid_correlated c \<and> receipts_ok c \<and> canon p = canon (correlated_to_payload c))"
  using fact_decode_iff [OF assms] correlated_decode_iff [OF assms] by blast

theorem host_decoders_exact_witness:
  "correlated_from_payload
     (PDict [(''workers'', PList [PDict [
          (''worker_generation'', PStr ''ffeeddccbbaa99887766554433221100''),
          (''rank'', PInt 0)]]),
        (''job_id'', PInt 7), (''observed_at_ns'', PInt 90), (''recovery_epoch'', PInt 1),
        (''request_id'', PStr ''req-1''), (''event'', PStr ''transfer_receipt''),
        (''scheduler_generation'', PStr ''00112233445566778899aabbccddeeff''),
        (''schema'', PStr CORRELATED_SCHEMA)])
   = Inr wire_correlated"
  (is "correlated_from_payload ?p = _")
proof -
  have "json_value ?p" by code_simp
  moreover have "canon ?p = canon (correlated_to_payload wire_correlated)" by code_simp
  ultimately show ?thesis
    using host_decoders_exact [of ?p _ wire_correlated] wire_valid by blast
qed

text \<open>
  The decoders fail closed. Whatever value they are given, JSON or not, the three decoders
  return a record or raise ValueError: a missing key, an unknown keyword, an unhashable or
  wrongly typed field never escapes as another exception.
\<close>

theorem decoders_fail_closed:
  "observation_from_payload v \<in> insert (Inl ValueError) (range Inr) \<and>
   host_fact_from_payload v \<in> insert (Inl ValueError) (range Inr) \<and>
   correlated_from_payload v \<in> insert (Inl ValueError) (range Inr)"
  by (intro conjI only_value_error_range decoders_only_value_error)

end
