(* ===== verification/Json_Text.thy ===== *)
theory Json_Text
  imports Json
begin

text \<open>
  JSON as text: what \<^verbatim>\<open>json.loads\<close> does, for any hooks and for the package's (\<^verbatim>\<open>_unique_object\<close>,
  \<^verbatim>\<open>_invalid_constant\<close>), and the indented form of \<^verbatim>\<open>json.dumps\<close>. The writers are inverted.

  The value of a number with a fraction or an exponent is a parameter, \<^verbatim>\<open>float(text)\<close>; an
  escape \<^verbatim>\<open>\u\<close> above 255 yields the character 255, a non-ASCII one like any other. Integers of
  more than 4300 digits are refused, as CPython refuses them. The interpreter's recursion
  limit is not modelled.
\<close>

section \<open>Reading\<close>

definition is_space :: "char \<Rightarrow> bool" where
  "is_space c = (c = CHR '' '' \<or> c = CHR 0x09 \<or> c = CHR 0x0A \<or> c = CHR 0x0D)"

definition skip_ws :: "string \<Rightarrow> string" where
  "skip_ws s = dropWhile is_space s"

definition hex_value :: "char \<Rightarrow> nat option" where
  "hex_value c =
     (if is_digit c then Some (code c - 48)
      else if 97 \<le> code c \<and> code c \<le> 102 then Some (code c - 87)
      else if 65 \<le> code c \<and> code c \<le> 70 then Some (code c - 55)
      else None)"

definition unescape_unicode :: "char \<Rightarrow> char \<Rightarrow> char \<Rightarrow> char \<Rightarrow> char option" where
  "unescape_unicode a b c d =
     (case (hex_value a, hex_value b, hex_value c, hex_value d) of
        (Some w, Some x, Some y, Some z) \<Rightarrow>
          Some (char_of (min 255 (4096 * w + 256 * x + 16 * y + z)))
      | _ \<Rightarrow> None)"

definition unescape :: "char \<Rightarrow> char option" where
  "unescape c =
     (if c = CHR 0x22 \<or> c = CHR 0x5C \<or> c = CHR ''/'' then Some c
      else if c = CHR ''b'' then Some (CHR 0x08)
      else if c = CHR ''f'' then Some (CHR 0x0C)
      else if c = CHR ''n'' then Some (CHR 0x0A)
      else if c = CHR ''r'' then Some (CHR 0x0D)
      else if c = CHR ''t'' then Some (CHR 0x09)
      else None)"

text \<open>The rest of a string literal, after its opening quote.\<close>

fun scan_string :: "string \<Rightarrow> (string \<times> string) option" where
  "scan_string [] = None"
| "scan_string (c # cs) =
     (if c = CHR 0x22 then Some ([], cs)
      else if c = CHR 0x5C then
        (case cs of
           [] \<Rightarrow> None
         | e # es \<Rightarrow>
             if e = CHR ''u'' then
               (case es of
                  h1 # h2 # h3 # h4 # rest \<Rightarrow>
                    (case unescape_unicode h1 h2 h3 h4 of
                       None \<Rightarrow> None
                     | Some x \<Rightarrow> map_option (apfst ((#) x)) (scan_string rest))
                | _ \<Rightarrow> None)
             else
               (case unescape e of
                  None \<Rightarrow> None
                | Some x \<Rightarrow> map_option (apfst ((#) x)) (scan_string es)))
      else if code c < 32 then None
      else map_option (apfst ((#) c)) (scan_string cs))"

text \<open>Numbers: \<^verbatim>\<open>(-?(?:0|[1-9][0-9]*))(\.[0-9]+)?([eE][-+]?[0-9]+)?\<close>\<close>

definition scan_integer :: "string \<Rightarrow> (string \<times> string) option" where
  "scan_integer s =
     (case s of
        [] \<Rightarrow> None
      | c # cs \<Rightarrow>
          if c = CHR ''0'' then Some ([c], cs)
          else if is_digit c then Some (takeWhile is_digit s, dropWhile is_digit s)
          else None)"

definition scan_fraction :: "string \<Rightarrow> string \<times> string" where
  "scan_fraction s =
     (case s of
        c # d # ds \<Rightarrow>
          if c = CHR ''.'' \<and> is_digit d
          then (c # takeWhile is_digit (d # ds), dropWhile is_digit (d # ds))
          else ([], s)
      | _ \<Rightarrow> ([], s))"

definition scan_exponent :: "string \<Rightarrow> string \<times> string" where
  "scan_exponent s =
     (case s of
        c # cs \<Rightarrow>
          if c = CHR ''e'' \<or> c = CHR ''E'' then
            let sign = takeWhile (\<lambda>x. x = CHR ''+'' \<or> x = CHR ''-'') (take 1 cs);
                ds = drop (length sign) cs
            in if ds \<noteq> [] \<and> is_digit (hd ds)
               then (c # sign @ takeWhile is_digit ds, dropWhile is_digit ds)
               else ([], s)
          else ([], s)
      | [] \<Rightarrow> ([], s))"

definition MAX_INT_DIGITS :: nat where "MAX_INT_DIGITS = 4300"

text \<open>
  What a caller of \<^verbatim>\<open>json.loads\<close> chooses: \<^verbatim>\<open>object_pairs_hook\<close> (or the dict of the pairs),
  \<^verbatim>\<open>parse_constant\<close> (or the float the constant names), and the class in which it sees the
  decoder's own JSONDecodeError, a subclass of ValueError. \<^verbatim>\<open>int\<close> refuses long literals with a
  plain ValueError, whatever the hooks.
\<close>

record json_hooks =
  jh_float :: "string \<Rightarrow> py_float"
  jh_object :: "(string \<times> pyval) list \<Rightarrow> (string \<times> pyval) list res"
  jh_constant :: "string \<Rightarrow> pyval res"
  jh_error :: py_exc

definition scan_constant :: "json_hooks \<Rightarrow> string \<Rightarrow> (pyval \<times> string) res" where
  "scan_constant h s =
     (case List.find (\<lambda>t. take (length t) s = t) [''NaN'', ''Infinity'', ''-Infinity''] of
        None \<Rightarrow> Inl (jh_error h)
      | Some t \<Rightarrow> res_bind (jh_constant h t) (\<lambda>v. Inr (v, drop (length t) s)))"

definition scan_number :: "json_hooks \<Rightarrow> string \<Rightarrow> (pyval \<times> string) res" where
  "scan_number h s =
     (let neg = (s \<noteq> [] \<and> hd s = CHR ''-'') in
      case scan_integer (if neg then tl s else s) of
        None \<Rightarrow> scan_constant h s
      | Some (digits, rest) \<Rightarrow>
          let (frac, rest1) = scan_fraction rest;
              (expo, rest2) = scan_exponent rest1
          in if frac = [] \<and> expo = [] then
               if MAX_INT_DIGITS < length digits then Inl ValueError
               else Inr (PInt (if neg then - int (undec digits) else int (undec digits)), rest)
             else Inr (PFloat (jh_float h ((if neg then ''-'' else []) @ digits @ frac @ expo)), rest2))"

text \<open>\<^verbatim>\<open>_unique_object\<close>\<close>

fun unique_object :: "(string \<times> pyval) list \<Rightarrow> (string \<times> pyval) list \<Rightarrow> (string \<times> pyval) list res" where
  "unique_object obj [] = Inr obj"
| "unique_object obj ((k, v) # pairs) =
     (if map_of obj k \<noteq> None then Inl ValueError else unique_object (obj @ [(k, v)]) pairs)"

text \<open>\<^verbatim>\<open>_invalid_constant\<close>\<close>

definition invalid_constant :: "string \<Rightarrow> pyval res" where
  "invalid_constant t = Inl ValueError"

definition package_hooks :: "(string \<Rightarrow> py_float) \<Rightarrow> json_hooks" where
  "package_hooks fl =
     \<lparr>jh_float = fl, jh_object = unique_object [], jh_constant = invalid_constant,
      jh_error = ValueError\<rparr>"

text \<open>
  A value at the start of the text, with what follows it. The fuel bounds the nesting and the
  number of items; the length of the text is enough.
\<close>

fun scan_value :: "json_hooks \<Rightarrow> nat \<Rightarrow> string \<Rightarrow> (pyval \<times> string) res"
  and scan_items :: "json_hooks \<Rightarrow> nat \<Rightarrow> string \<Rightarrow> (pyval list \<times> string) res"
  and scan_members ::
    "json_hooks \<Rightarrow> nat \<Rightarrow> string \<Rightarrow> ((string \<times> pyval) list \<times> string) res" where
  "scan_value h 0 s = Inl (jh_error h)"
| "scan_value h (Suc n) s =
     (if s = [] then Inl (jh_error h)
      else if hd s = CHR 0x22 then
        (case scan_string (tl s) of None \<Rightarrow> Inl (jh_error h) | Some (t, r) \<Rightarrow> Inr (PStr t, r))
      else if hd s = CHR ''{'' then
        (let r = skip_ws (tl s) in
         if r \<noteq> [] \<and> hd r = CHR ''}'' then Inr (PDict [], tl r)
         else res_bind (scan_members h n r)
                (\<lambda>(pairs, r'). res_bind (jh_object h pairs) (\<lambda>d. Inr (PDict d, r'))))
      else if hd s = CHR ''['' then
        (let r = skip_ws (tl s) in
         if r \<noteq> [] \<and> hd r = CHR '']'' then Inr (PList [], tl r)
         else res_bind (scan_items h n r) (\<lambda>(xs, r'). Inr (PList xs, r')))
      else if take 4 s = ''null'' then Inr (PNone, drop 4 s)
      else if take 4 s = ''true'' then Inr (PBool True, drop 4 s)
      else if take 5 s = ''false'' then Inr (PBool False, drop 5 s)
      else scan_number h s)"
| "scan_items h 0 s = Inl (jh_error h)"
| "scan_items h (Suc n) s =
     res_bind (scan_value h n s) (\<lambda>(v, r).
     let r1 = skip_ws r in
     if r1 \<noteq> [] \<and> hd r1 = CHR '']'' then Inr ([v], tl r1)
     else if r1 \<noteq> [] \<and> hd r1 = CHR '','' then
       res_bind (scan_items h n (skip_ws (tl r1))) (\<lambda>(vs, r2). Inr (v # vs, r2))
     else Inl (jh_error h))"
| "scan_members h 0 s = Inl (jh_error h)"
| "scan_members h (Suc n) s =
     (if s = [] \<or> hd s \<noteq> CHR 0x22 then Inl (jh_error h)
      else case scan_string (tl s) of
        None \<Rightarrow> Inl (jh_error h)
      | Some (k, r) \<Rightarrow>
          let r1 = skip_ws r in
          if r1 = [] \<or> hd r1 \<noteq> CHR '':'' then Inl (jh_error h)
          else res_bind (scan_value h n (skip_ws (tl r1))) (\<lambda>(v, r2).
            let r3 = skip_ws r2 in
            if r3 \<noteq> [] \<and> hd r3 = CHR ''}'' then Inr ([(k, v)], tl r3)
            else if r3 \<noteq> [] \<and> hd r3 = CHR '','' then
              res_bind (scan_members h n (skip_ws (tl r3)))
                (\<lambda>(ps, r4). Inr ((k, v) # ps, r4))
            else Inl (jh_error h)))"

text \<open>\<^verbatim>\<open>json.loads\<close> with these hooks, and as the package calls it.\<close>

definition loads_with :: "json_hooks \<Rightarrow> string \<Rightarrow> pyval res" where
  "loads_with h s =
     (let t = skip_ws s in
      res_bind (scan_value h (2 * length t + 2) t)
        (\<lambda>(v, r). if skip_ws r = [] then Inr v else Inl (jh_error h)))"

definition loads :: "(string \<Rightarrow> py_float) \<Rightarrow> string \<Rightarrow> pyval res" where
  "loads fl s = loads_with (package_hooks fl) s"

section \<open>The fuel is enough\<close>

lemma length_skip_ws: "length (skip_ws s) \<le> length s"
  by (simp add: skip_ws_def length_dropWhile_le)

lemma scan_string_shorter: "scan_string s = Some (t, r) \<Longrightarrow> length r < length s"
proof (induction s arbitrary: t r rule: scan_string.induct)
  case (2 c cs)
  then show ?case
    by (fastforce split: if_splits list.splits option.splits)
qed simp

lemma scan_integer_shorter: "scan_integer s = Some (t, r) \<Longrightarrow> length r < length s"
  by (auto simp: scan_integer_def less_Suc_eq_le length_dropWhile_le split: list.splits if_splits)

lemma scan_fraction_shorter: "length (snd (scan_fraction s)) \<le> length s"
  by (auto simp: scan_fraction_def le_SucI length_dropWhile_le split: list.split)

lemma scan_exponent_shorter: "length (snd (scan_exponent s)) \<le> length s"
proof (cases s)
  case (Cons c cs)
  have "length (dropWhile is_digit (drop k cs)) \<le> Suc (length cs)" for k
    using length_dropWhile_le [of is_digit "drop k cs"] by simp
  with Cons show ?thesis by (simp add: scan_exponent_def Let_def)
qed (simp add: scan_exponent_def)

lemma scan_constant_shorter: "scan_constant h s = Inr (v, r) \<Longrightarrow> length r < length s"
  by (cases s) (auto simp: scan_constant_def split: if_splits)

lemma scan_number_shorter: "scan_number h s = Inr (v, r) \<Longrightarrow> length r < length s"
proof -
  assume number: "scan_number h s = Inr (v, r)"
  let ?u = "if s \<noteq> [] \<and> hd s = CHR ''-'' then tl s else s"
  show ?thesis
  proof (cases "scan_integer ?u")
    case None
    with number show ?thesis by (simp add: scan_number_def Let_def scan_constant_shorter split: if_splits)
  next
    case (Some p)
    then obtain digits rest where i: "scan_integer ?u = Some (digits, rest)" by (cases p) simp
    have "length rest < length ?u" by (rule scan_integer_shorter [OF i])
    moreover have "length ?u \<le> length s" by simp
    moreover have "length r \<le> length rest"
      using number i scan_fraction_shorter [of rest]
        scan_exponent_shorter [of "snd (scan_fraction rest)"]
      by (auto simp: scan_number_def Let_def split: prod.splits if_splits)
    ultimately show ?thesis by linarith
  qed
qed

lemma scan_shorter:
  "scan_value h m s = Inr (v, r) \<Longrightarrow> length r < length s"
  "scan_items h m s = Inr (vs, r) \<Longrightarrow> length r < length s"
  "scan_members h m s = Inr (ps, r) \<Longrightarrow> length r < length s"
proof (induction m arbitrary: s v vs ps r)
  case (Suc m)
  have skip: "length (skip_ws (tl u)) < length u" if "u \<noteq> []" for u
    using length_skip_ws [of "tl u"] that by (cases u) auto
  { case 1
    then have s: "s \<noteq> []" by auto
    note tail = skip [OF s]
    from 1 s show ?case
      by (auto simp: Let_def split: if_splits option.splits
          dest!: scan_string_shorter Suc.IH(2,3) scan_number_shorter
          intro: order.strict_trans [OF _ tail] diff_less)
  next
    case 2
    then obtain v r0 where v: "scan_value h m s = Inr (v, r0)" by auto
    note first = Suc.IH(1) [OF v] length_skip_ws [of r0]
    show ?case
    proof (cases "skip_ws r0 \<noteq> [] \<and> hd (skip_ws r0) = CHR '']''")
      case True
      with 2 v first show ?thesis by (auto simp: Let_def)
    next
      case False
      with 2 v obtain vs' where "scan_items h m (skip_ws (tl (skip_ws r0))) = Inr (vs', r)"
        "skip_ws r0 \<noteq> []" by (auto simp: Let_def split: if_splits)
      then show ?thesis using Suc.IH(2) skip [of "skip_ws r0"] first by fastforce
    qed
  next
    case 3
    then obtain k r0 where k: "s \<noteq> []" "scan_string (tl s) = Some (k, r0)"
      by (auto split: if_splits option.splits)
    have r0: "length r0 < length s" using scan_string_shorter [OF k(2)] k(1) by (cases s) auto
    from 3 k obtain v r2 where v: "scan_value h m (skip_ws (tl (skip_ws r0))) = Inr (v, r2)"
      "skip_ws r0 \<noteq> []" by (auto simp: Let_def split: if_splits)
    have r2: "length r2 < length s"
      using Suc.IH(1) [OF v(1)] skip [OF v(2)] length_skip_ws [of r0] r0 by linarith
    show ?case
    proof (cases "skip_ws r2 \<noteq> [] \<and> hd (skip_ws r2) = CHR ''}''")
      case True
      with 3 k v r2 length_skip_ws [of r2] show ?thesis by (auto simp: Let_def split: if_splits)
    next
      case False
      with 3 k v obtain ps' where "scan_members h m (skip_ws (tl (skip_ws r2))) = Inr (ps', r)"
        "skip_ws r2 \<noteq> []" by (auto simp: Let_def split: if_splits)
      then show ?thesis using Suc.IH(3) skip [of "skip_ws r2"] length_skip_ws [of r2] r2 by fastforce
    qed }
qed simp_all

lemma scan_enough:
  "2 * length s + 1 \<le> m \<Longrightarrow> scan_value h (Suc m) s = scan_value h m s"
  "2 * length s + 2 \<le> m \<Longrightarrow> scan_items h (Suc m) s = scan_items h m s"
  "2 * length s + 2 \<le> m \<Longrightarrow> scan_members h (Suc m) s = scan_members h m s"
proof (induction m arbitrary: s)
  case (Suc m)
  have skip: "2 * length (skip_ws (tl u)) + 2 \<le> 2 * length u" if "u \<noteq> []" for u
    using length_skip_ws [of "tl u"] that by (cases u) auto
  { case 1
    show ?case
    proof (cases "s = []")
      case False
      then have "2 * length (skip_ws (tl s)) + 2 \<le> m" using skip [OF False] 1 by linarith
      from Suc.IH(2,3) [OF this] show ?thesis
        by (simp only: scan_value.simps(2) [of h m] scan_value.simps(2) [of h "Suc m"] Let_def)
    qed simp
  next
    case 2
    have more: "scan_value h (Suc m) s = scan_value h m s" using Suc.IH(1) [of s] 2 by simp
    have items: "scan_items h (Suc m) (skip_ws (tl (skip_ws r))) =
        scan_items h m (skip_ws (tl (skip_ws r)))"
      if "scan_value h m s = Inr (v, r)" "skip_ws r \<noteq> []" for v r
      using scan_shorter(1) [OF that(1)] length_skip_ws [of r] skip [OF that(2)] 2
      by (intro Suc.IH(2)) linarith
    show ?case
      unfolding scan_items.simps(2) [of h m s] scan_items.simps(2) [of h "Suc m" s] more
      by (rule res_bind_cong) (auto simp: Let_def items simp del: scan_items.simps split: prod.split)
  next
    case 3
    show ?case
    proof (cases "s = [] \<or> hd s \<noteq> CHR 0x22 \<or> scan_string (tl s) = None")
      case True
      then show ?thesis by (elim disjE) simp_all
    next
      case False
      then obtain k r where k: "s \<noteq> []" "hd s = CHR 0x22" "scan_string (tl s) = Some (k, r)"
        by auto
      have r: "2 * length r + 4 \<le> 2 * length s"
        using scan_string_shorter [OF k(3)] k(1) by (cases s) auto
      have more: "scan_value h (Suc m) (skip_ws (tl (skip_ws r))) =
          scan_value h m (skip_ws (tl (skip_ws r)))"
        if "skip_ws r \<noteq> []"
        using skip [OF that] length_skip_ws [of r] r 3 by (intro Suc.IH(1)) linarith
      have members: "scan_members h (Suc m) (skip_ws (tl (skip_ws r2))) =
          scan_members h m (skip_ws (tl (skip_ws r2)))"
        if "scan_value h m (skip_ws (tl (skip_ws r))) = Inr (v, r2)" "skip_ws r \<noteq> []"
          "skip_ws r2 \<noteq> []" for v r2
        using scan_shorter(1) [OF that(1)] skip [OF that(2)] length_skip_ws [of r] r
          length_skip_ws [of r2] skip [OF that(3)] 3
        by (intro Suc.IH(3)) linarith
      show ?thesis
      proof (cases "skip_ws r = [] \<or> hd (skip_ws r) \<noteq> CHR '':''")
        case False
        then show ?thesis
          unfolding scan_members.simps(2) [of h m s] scan_members.simps(2) [of h "Suc m" s] Let_def
          using k more
          by (simp del: scan_value.simps scan_members.simps,
              intro res_bind_cong refl) (auto simp: members simp del: scan_members.simps split: prod.split)
      qed (use k in simp)
    qed }
qed simp_all

text \<open>So a failing \<open>loads_with\<close> never fails for want of fuel: any larger fuel gives the same result.\<close>

lemma loads_fuel:
  assumes "2 * length (skip_ws s) + 2 \<le> m"
  shows "loads_with h s = res_bind (scan_value h m (skip_ws s))
    (\<lambda>(v, r). if skip_ws r = [] then Inr v else Inl (jh_error h))"
proof -
  have "scan_value h m (skip_ws s) = scan_value h (2 * length (skip_ws s) + 2) (skip_ws s)"
    using assms by (induction m rule: dec_induct) (simp_all add: scan_enough(1) del: scan_value.simps)
  then show ?thesis by (simp only: loads_with_def Let_def)
qed

section \<open>Writing with a layout\<close>

text \<open>
  \<open>newline n\<close> is what stands before an item at nesting depth \<open>n\<close> and before the bracket that
  closes depth \<open>n\<close>, \<open>colon\<close> what separates a key from its value: nothing and \<^verbatim>\<open>:\<close> for the
  compact form, a line break with two blanks per level and \<^verbatim>\<open>: \<close> for \<^verbatim>\<open>indent=2\<close>.
\<close>

fun join_with :: "string \<Rightarrow> string list \<Rightarrow> string" where
  "join_with sep [] = []"
| "join_with sep [x] = x"
| "join_with sep (x # xs) = x @ sep @ join_with sep xs"

definition bracket :: "(nat \<Rightarrow> string) \<Rightarrow> nat \<Rightarrow> char \<Rightarrow> string list \<Rightarrow> char \<Rightarrow> string" where
  "bracket newline n l ts r =
     (if ts = [] then [l, r]
      else l # newline (Suc n) @ join_with (CHR '','' # newline (Suc n)) ts @ newline n @ [r])"

fun layout :: "(py_float \<Rightarrow> string) \<Rightarrow> (nat \<Rightarrow> string) \<Rightarrow> string \<Rightarrow> nat \<Rightarrow> pyval \<Rightarrow> string res" where
  "layout repr nl colon n PNone = Inr ''null''"
| "layout repr nl colon n (PBool x) = Inr (if x then ''true'' else ''false'')"
| "layout repr nl colon n (PInt i) = Inr (int_text i)"
| "layout repr nl colon n (PFloat q) = Inr (repr q)"
| "layout repr nl colon n (PList xs) =
     res_bind (res_map (layout repr nl colon (Suc n)) xs)
       (\<lambda>ts. Inr (bracket nl n CHR ''['' ts CHR '']''))"
| "layout repr nl colon n (PTuple xs) =
     res_bind (res_map (layout repr nl colon (Suc n)) xs)
       (\<lambda>ts. Inr (bracket nl n CHR ''['' ts CHR '']''))"
| "layout repr nl colon n (PDict d) =
     res_bind (res_map (\<lambda>p. res_bind (layout repr nl colon (Suc n) (snd p))
         (\<lambda>t. Inr (quote (fst p) @ colon @ t))) d)
       (\<lambda>ts. Inr (bracket nl n CHR ''{'' ts CHR ''}''))"
| "layout repr nl colon n v =
     (case str_of v of None \<Rightarrow> Inl TypeError | Some s \<Rightarrow> Inr (quote s))"

definition line_break :: "nat \<Rightarrow> string" where
  "line_break n = CHR 0x0A # replicate (2 * n) CHR '' ''"

text \<open>\<^verbatim>\<open>json.dumps(v, ensure_ascii=True, indent=2, sort_keys=True)\<close>\<close>

definition dumps_indented :: "(py_float \<Rightarrow> string) \<Rightarrow> pyval \<Rightarrow> string res" where
  "dumps_indented repr v = layout repr line_break '': '' 0 (canon v)"

section \<open>The compact layout is what \<open>dumps\<close> writes\<close>

lemma join_comma_with: "join_comma ts = join_with [CHR '',''] ts"
  by (induction ts rule: join_comma.induct) simp_all

lemma bracket_compact: "bracket (\<lambda>_. []) n l ts r = l # join_comma ts @ [r]"
  by (simp add: bracket_def join_comma_with)

lemma layout_compact: "layout repr (\<lambda>_. []) '':'' n v = dumps_in_order repr v"
proof (induction repr "\<lambda>_::nat. [] :: string" "'':''" n v rule: layout.induct)
  case (5 repr n xs)
  then have "res_map (layout repr (\<lambda>_. []) '':'' (Suc n)) xs = res_map (dumps_in_order repr) xs"
    by (intro res_map_cong) simp_all
  then show ?case by (simp add: bracket_compact)
next
  case (6 repr n xs)
  then have "res_map (layout repr (\<lambda>_. []) '':'' (Suc n)) xs = res_map (dumps_in_order repr) xs"
    by (intro res_map_cong) simp_all
  then show ?case by (simp add: bracket_compact)
next
  case (7 repr n d)
  then have "res_map (\<lambda>p. res_bind (layout repr (\<lambda>_. []) '':'' (Suc n) (snd p))
      (\<lambda>t. Inr (quote (fst p) @ '':'' @ t))) d =
    res_map (\<lambda>p. member_text (fst p) (dumps_in_order repr (snd p))) d"
    by (intro res_map_cong) (simp_all add: member_text_def)
  then show ?case by (simp add: bracket_compact)
qed simp_all

section \<open>Strings and numbers are read back\<close>

lemma code_bound: "code c < 256"
  using nat_of_char_less_256 [of c] by (simp add: code_def)

lemma char_of_code [simp]: "char_of (code c) = c"
  by (simp add: code_def)

lemma hex_value_digit: "k < 16 \<Longrightarrow> hex_value (hex_digit k) = Some k"
proof (cases "k < 10")
  case True
  then show ?thesis by (simp add: hex_value_def hex_digit_def)
next
  case False
  moreover assume "k < 16"
  moreover from this have "code (char_of (87 + k)) = 87 + k" by (simp add: code_def)
  ultimately show ?thesis by (simp add: hex_value_def hex_digit_def is_digit_def)
qed

lemma unescape_escaped:
  "unescape_unicode (CHR ''0'') (CHR ''0'') (hex_digit (code c div 16)) (hex_digit (code c mod 16))
     = Some c"
proof -
  have "hex_value (CHR ''0'') = Some 0" by code_simp
  moreover have "16 * (code c div 16) + code c mod 16 = code c" by simp
  ultimately show ?thesis
    using code_bound [of c] by (simp add: unescape_unicode_def hex_value_digit)
qed

lemma scan_escaped:
  "scan_string (escape_char c @ s) = map_option (apfst ((#) c)) (scan_string s)"
proof -
  have u: "unescape (CHR 0x22) = Some (CHR 0x22)" "unescape (CHR 0x5C) = Some (CHR 0x5C)"
    "unescape (CHR ''n'') = Some (CHR 0x0A)" "unescape (CHR ''r'') = Some (CHR 0x0D)"
    "unescape (CHR ''t'') = Some (CHR 0x09)" "unescape (CHR ''f'') = Some (CHR 0x0C)"
    "unescape (CHR ''b'') = Some (CHR 0x08)" by code_simp+
  show ?thesis
    by (simp add: escape_char_def u unescape_escaped)
qed

lemma scan_quoted: "scan_string (concat (map escape_char s) @ CHR 0x22 # r) = Some (s, r)"
  by (induction s) (simp_all add: scan_escaped)

text \<open>What may follow a value.\<close>

definition follow :: "string \<Rightarrow> bool" where
  "follow r \<longleftrightarrow> r = [] \<or> \<not> is_digit (hd r) \<and> hd r \<noteq> CHR ''.'' \<and> hd r \<noteq> CHR ''e'' \<and> hd r \<noteq> CHR ''E''"

lemma dec_shape: "dec n = ''0'' \<or> dec n \<noteq> [] \<and> is_digit (hd (dec n)) \<and> hd (dec n) \<noteq> CHR ''0''"
  using dec_head [of n] dec_digits [of n] by (cases "n = 0"; cases "dec n") auto

lemma scan_integer_dec:
  assumes "follow r"
  shows "scan_integer (dec n @ r) = Some (dec n, r)"
proof (cases "dec n = ''0''")
  case True
  then show ?thesis by (simp add: scan_integer_def)
next
  case False
  then obtain c cs where c: "dec n = c # cs" "is_digit c" "c \<noteq> CHR ''0''"
    using dec_shape [of n] by (cases "dec n") auto
  have "list_all is_digit (dec n)" by (rule dec_digits)
  then have take: "takeWhile is_digit (dec n @ r) = dec n @ takeWhile is_digit r"
    and drop: "dropWhile is_digit (dec n @ r) = dropWhile is_digit r"
    by (simp_all add: list_all_iff takeWhile_append2 dropWhile_append2)
  have "takeWhile is_digit r = []" "dropWhile is_digit r = r"
    using assms by (cases r; simp add: follow_def)+
  with take drop c show ?thesis by (simp add: scan_integer_def)
qed

lemma follow_number: "follow r \<Longrightarrow> scan_fraction r = ([], r) \<and> scan_exponent r = ([], r)"
  by (cases r) (auto simp: follow_def scan_fraction_def scan_exponent_def split: list.split)

lemma scan_int_text:
  assumes "follow r" "length (dec (nat \<bar>i\<bar>)) \<le> MAX_INT_DIGITS"
  shows "scan_number h (int_text i @ r) = Inr (PInt i, r)"
proof -
  define k where "k = nat \<bar>i\<bar>"
  have shape: "int_text i = (if i < 0 then CHR ''-'' # dec k else dec k)"
    by (simp add: int_text_def k_def)
  have i: "i = (if i < 0 then - int k else int k)" by (simp add: k_def)
  have "\<not> is_digit (CHR ''-'')" by code_simp
  moreover have "is_digit (hd (dec k))" using dec_digits [of k] dec_not_Nil [of k]
    by (simp add: list_all_iff)
  ultimately have "hd (dec k @ r) \<noteq> CHR ''-''" by (metis dec_not_Nil hd_append2)
  moreover have "length (dec k) \<le> MAX_INT_DIGITS" using assms(2) by (simp add: k_def)
  ultimately show ?thesis
    by (subst i) (simp add: shape scan_number_def scan_integer_dec [OF assms(1)]
        follow_number [OF assms(1)])
qed


section \<open>Values are read back\<close>

text \<open>The values the writers of the package produce: no float, every int printable.\<close>

fun writable :: "pyval \<Rightarrow> bool" where
  "writable PNone = True"
| "writable (PBool x) = True"
| "writable (PInt i) = (length (dec (nat \<bar>i\<bar>)) \<le> MAX_INT_DIGITS)"
| "writable (PStr s) = True"
| "writable (PList xs) = list_all writable xs"
| "writable (PDict d) = (dict_ok d \<and> list_all (\<lambda>p. writable (snd p)) d)"
| "writable _ = False"

definition reads_as :: "json_hooks \<Rightarrow> pyval \<Rightarrow> string \<Rightarrow> bool" where
  "reads_as h v t \<longleftrightarrow>
     t \<noteq> [] \<and> \<not> is_space (hd t) \<and> hd t \<noteq> CHR '']'' \<and> hd t \<noteq> CHR ''}'' \<and>
     (\<forall>m r. length t \<le> m \<longrightarrow> follow r \<longrightarrow> scan_value h m (t @ r) = Inr (v, r))"

lemma skip_ws_simps [simp]:
  "skip_ws [] = []" "\<not> is_space c \<Longrightarrow> skip_ws (c # s) = c # s"
  by (simp_all add: skip_ws_def)

lemma skip_ws_append: "list_all is_space w \<Longrightarrow> skip_ws (w @ s) = skip_ws s"
  by (induction w) (simp_all add: skip_ws_def)

lemma skip_ws_head: "s \<noteq> [] \<Longrightarrow> \<not> is_space (hd s) \<Longrightarrow> skip_ws (s @ r) = s @ r"
  by (cases s) simp_all

lemma marks [simp]:
  "\<not> is_space (CHR '','')" "\<not> is_space (CHR '']'')" "\<not> is_space (CHR ''}'')"
  "\<not> is_space (CHR '':'')" "\<not> is_space (CHR 0x22)" "\<not> is_space (CHR ''['')"
  "\<not> is_space (CHR ''{'')" "\<not> is_digit (CHR '','')" "\<not> is_digit (CHR '']'')"
  "\<not> is_digit (CHR ''}'')" "is_space (CHR '' '')"
  by code_simp+

lemma space_no_digit: "is_space c \<Longrightarrow> \<not> is_digit c \<and> c \<noteq> CHR ''.'' \<and> c \<noteq> CHR ''e'' \<and> c \<noteq> CHR ''E''"
  by (auto simp: is_space_def is_digit_def code_def)

lemma follow_ws: "list_all is_space w \<Longrightarrow> follow (c # r) \<Longrightarrow> follow (w @ c # r)"
  using space_no_digit by (cases w) (auto simp: follow_def)

lemma follow_marks [simp]: "follow (CHR '','' # r)" "follow (CHR '']'' # r)" "follow (CHR ''}'' # r)"
  by (simp_all add: follow_def)

lemma scan_items_texts:
  assumes "list_all2 (reads_as h) xs ts" "xs \<noteq> []" "list_all is_space sep" "list_all is_space final"
    "sum_list (map (\<lambda>t. length t + 1) ts) \<le> m"
  shows "scan_items h m (join_with (CHR '','' # sep) ts @ final @ CHR '']'' # r) = Inr (xs, r)"
  using assms
proof (induction xs ts arbitrary: m rule: list_all2_induct)
  case (Cons x xs t ts)
  from Cons.prems obtain k where m: "m = Suc k" by (cases m) auto
  have read: "scan_value h k (t @ s) = Inr (x, s)" if "follow s" for s
    using Cons.hyps(1) Cons.prems(4) m that by (simp add: reads_as_def)
  show ?case
  proof (cases ts)
    case Nil
    then have "xs = []" using Cons.hyps(2) by simp
    with Nil Cons.prems(3) show ?thesis
      by (simp add: m read follow_ws skip_ws_append)
  next
    case (Cons t' ts')
    then have "xs \<noteq> []" "reads_as h (hd xs) t'" using \<open>list_all2 (reads_as h) xs ts\<close>
      by (cases xs; simp)+
    let ?rest = "join_with (CHR '','' # sep) ts @ final @ CHR '']'' # r"
    have "scan_items h k ?rest = Inr (xs, r)"
      by (rule Cons.IH) (use Cons.prems \<open>xs \<noteq> []\<close> m in simp_all)
    moreover have "skip_ws ?rest = ?rest"
      using \<open>reads_as h (hd xs) t'\<close> Cons by (cases ts'; cases t') (auto simp: reads_as_def)
    ultimately show ?thesis using Cons Cons.prems(2)
      by (simp add: m read skip_ws_append)
  qed
qed simp


definition member_reads :: "json_hooks \<Rightarrow> string \<Rightarrow> string \<times> pyval \<Rightarrow> string \<Rightarrow> bool" where
  "member_reads h colon p t \<longleftrightarrow>
     (\<exists>u. t = quote (fst p) @ colon @ u \<and> reads_as h (snd p) u)"

lemma scan_members_texts:
  assumes "list_all2 (member_reads h (CHR '':'' # blank)) d ts" "d \<noteq> []"
    "list_all is_space blank" "list_all is_space sep" "list_all is_space final"
    "sum_list (map (\<lambda>t. length t + 1) ts) \<le> m"
  shows "scan_members h m (join_with (CHR '','' # sep) ts @ final @ CHR ''}'' # r) = Inr (d, r)"
  using assms
proof (induction d ts arbitrary: m rule: list_all2_induct)
  case (Cons p d t ts)
  from Cons.prems obtain k where m: "m = Suc k" by (cases m) auto
  obtain key v where p: "p = (key, v)" by (cases p)
  with Cons.hyps(1) obtain u where t: "t = quote key @ CHR '':'' # blank @ u" "reads_as h v u"
    by (auto simp: member_reads_def)
  have read: "scan_value h k (u @ s) = Inr (v, s)" if "follow s" for s
    using t Cons.prems(5) m that by (simp add: reads_as_def)
  have u: "skip_ws (blank @ u @ s) = u @ s" for s
    using t(2) Cons.prems(2) by (simp add: skip_ws_append skip_ws_head reads_as_def)
  have key: "scan_string (concat (map escape_char key) @ CHR 0x22 # s) = Some (key, s)" for s
    by (rule scan_quoted)
  show ?case
  proof (cases ts)
    case Nil
    then have "d = []" using Cons.hyps(2) by simp
    with Nil Cons.prems(4) show ?thesis
      by (simp add: m t(1) p quote_def key u read follow_ws skip_ws_append)
  next
    case (Cons t' ts')
    then have "d \<noteq> []" "member_reads h (CHR '':'' # blank) (hd d) t'"
      using \<open>list_all2 _ d ts\<close> by (cases d; simp)+
    let ?rest = "join_with (CHR '','' # sep) ts @ final @ CHR ''}'' # r"
    have "scan_members h k ?rest = Inr (d, r)"
      by (rule Cons.IH) (use Cons.prems \<open>d \<noteq> []\<close> m in simp_all)
    moreover have "skip_ws ?rest = ?rest"
      using \<open>member_reads h _ (hd d) t'\<close> Cons
      by (cases ts') (auto simp: member_reads_def quote_def)
    ultimately show ?thesis using Cons Cons.prems(3)
      by (simp add: m t(1) p quote_def key u read skip_ws_append)
  qed
qed simp

text \<open>The hook of objects keeps a dictionary whose keys differ.\<close>

locale object_hook =
  fixes h :: json_hooks
  assumes keeps: "dict_ok d \<Longrightarrow> jh_object h d = Inr d"

lemma unique_object_ok: "dict_ok (obj @ d) \<Longrightarrow> unique_object obj d = Inr (obj @ d)"
  by (induction obj d rule: unique_object.induct) (auto simp: map_of_eq_None_iff)

lemma length_join_with:
  "ts \<noteq> [] \<Longrightarrow> sum_list (map (\<lambda>t. length t + 1) ts) \<le> Suc (length (join_with (CHR '','' # sep) ts))"
  by (induction "CHR '','' # sep" ts rule: join_with.induct) auto

lemma reads_as_list:
  assumes "list_all2 (reads_as h) xs ts" "\<And>k. list_all is_space (nl k)"
  shows "reads_as h (PList xs) (bracket nl n (CHR ''['') ts (CHR '']''))"
proof (cases "ts = []")
  case True
  then have "xs = []" using assms(1) by simp
  with True show ?thesis
    by (auto simp: reads_as_def bracket_def not_less_eq_eq Suc_le_eq elim!: less_natE)
next
  case False
  then have xs: "xs \<noteq> []" using assms(1) by auto
  have "scan_value h m (bracket nl n (CHR ''['') ts (CHR '']'') @ r) = Inr (PList xs, r)"
    if "length (bracket nl n (CHR ''['') ts (CHR '']'')) \<le> m" for m r
  proof -
    from that False obtain k where m: "m = Suc k" by (cases m) (auto simp: bracket_def)
    let ?body = "join_with (CHR '','' # nl (Suc n)) ts @ nl n @ CHR '']'' # r"
    have "sum_list (map (\<lambda>t. length t + 1) ts) \<le> k"
      using that length_join_with [OF False, of "nl (Suc n)"] False m by (simp add: bracket_def)
    then have items: "scan_items h k ?body = Inr (xs, r)"
      by (intro scan_items_texts) (use assms xs in simp_all)
    obtain t ts' where t: "ts = t # ts'" "t \<noteq> []" "\<not> is_space (hd t)" "hd t \<noteq> CHR '']''"
      using assms(1) xs by (cases ts; cases xs) (auto simp: reads_as_def)
    then have "skip_ws (nl (Suc n) @ ?body) = ?body"
      using assms(2) by (cases t; cases ts') (simp_all add: skip_ws_append)
    moreover have "?body \<noteq> []" "hd ?body \<noteq> CHR '']''" using t by (cases ts'; simp)+
    ultimately show ?thesis using False items
      by (simp add: m bracket_def)
  qed
  with False show ?thesis by (simp add: reads_as_def bracket_def)
qed

lemma reads_as_atoms:
  "reads_as h PNone ''null''" "reads_as h (PBool x) (if x then ''true'' else ''false'')"
  "reads_as h (PStr s) (quote s)"
proof -
  have one: "Suc k \<le> m \<Longrightarrow> \<exists>j. m = Suc j" for k m by (cases m) simp_all
  have chars: "\<not> is_space (CHR ''n'')" "\<not> is_space (CHR ''t'')" "\<not> is_space (CHR ''f'')"
    by code_simp+
  show "reads_as h PNone ''null''"
    using chars by (auto simp: reads_as_def dest!: one)
  show "reads_as h (PBool x) (if x then ''true'' else ''false'')"
    using chars by (auto simp: reads_as_def dest!: one)
  show "reads_as h (PStr s) (quote s)"
    using scan_quoted [of s] by (auto simp: reads_as_def quote_def dest!: one)
qed

lemma int_text_head:
  "\<exists>c cs. int_text i = c # cs \<and> (is_digit c \<or> c = CHR ''-'')"
proof (cases "i < 0")
  case False
  obtain c cs where "dec (nat i) = c # cs" by (cases "dec (nat i)") auto
  with dec_digits [of "nat i"] False show ?thesis by (simp add: int_text_def)
qed (simp add: int_text_def)

lemma reads_as_int:
  assumes "length (dec (nat \<bar>i\<bar>)) \<le> MAX_INT_DIGITS"
  shows "reads_as h (PInt i) (int_text i)"
proof -
  obtain c cs where t: "int_text i = c # cs" "is_digit c \<or> c = CHR ''-''"
    using int_text_head [of i] by blast
  have other: "\<not> is_digit (CHR 0x22)" "\<not> is_digit (CHR ''{'')" "\<not> is_digit (CHR ''['')"
    "\<not> is_digit (CHR ''n'')" "\<not> is_digit (CHR ''t'')" "\<not> is_digit (CHR ''f'')"
    "\<not> is_digit (CHR '' '')" "\<not> is_digit (CHR 0x09)" "\<not> is_digit (CHR 0x0A)" "\<not> is_digit (CHR 0x0D)"
    by code_simp+
  then have c: "c \<noteq> CHR 0x22" "c \<noteq> CHR ''{''" "c \<noteq> CHR ''[''" "c \<noteq> CHR ''n''" "c \<noteq> CHR ''t''"
    "c \<noteq> CHR ''f''" "c \<noteq> CHR '']''" "c \<noteq> CHR ''}''" "\<not> is_space c"
    using t(2) by (auto simp: is_space_def)
  have "scan_value h m (int_text i @ r) = Inr (PInt i, r)"
    if len: "length (int_text i) \<le> m" and r: "follow r" for m r
  proof -
    obtain k where "m = Suc k" using len t(1) by (cases m) auto
    moreover have "scan_number h (c # cs @ r) = Inr (PInt i, r)"
      using scan_int_text [OF r assms] t(1) by simp
    ultimately show ?thesis using t(1) c by simp
  qed
  with t c show ?thesis by (simp add: reads_as_def)
qed

context object_hook
begin

lemma reads_as_dict:
  assumes "list_all2 (member_reads h (CHR '':'' # blank)) d ts" "\<And>k. list_all is_space (nl k)"
    "list_all is_space blank" "dict_ok d"
  shows "reads_as h (PDict d) (bracket nl n (CHR ''{'') ts (CHR ''}''))"
proof (cases "ts = []")
  case True
  then have "d = []" using assms(1) by simp
  with True show ?thesis
    by (auto simp: reads_as_def bracket_def not_less_eq_eq Suc_le_eq elim!: less_natE)
next
  case False
  then have d: "d \<noteq> []" using assms(1) by auto
  have "scan_value h m (bracket nl n (CHR ''{'') ts (CHR ''}'') @ r) = Inr (PDict d, r)"
    if "length (bracket nl n (CHR ''{'') ts (CHR ''}'')) \<le> m" for m r
  proof -
    from that False obtain k where m: "m = Suc k" by (cases m) (auto simp: bracket_def)
    let ?body = "join_with (CHR '','' # nl (Suc n)) ts @ nl n @ CHR ''}'' # r"
    have "sum_list (map (\<lambda>t. length t + 1) ts) \<le> k"
      using that length_join_with [OF False, of "nl (Suc n)"] False m by (simp add: bracket_def)
    then have members: "scan_members h k ?body = Inr (d, r)"
      by (intro scan_members_texts [where blank = blank]) (use assms d in simp_all)
    obtain p t ts' where t: "ts = t # ts'" "member_reads h (CHR '':'' # blank) p t"
      using assms(1) d by (cases ts; cases d) auto
    then obtain u where "t = CHR 0x22 # u" by (auto simp: member_reads_def quote_def)
    with t(1) have "skip_ws (nl (Suc n) @ ?body) = ?body" "?body \<noteq> []" "hd ?body = CHR 0x22"
      using assms(2) by (cases ts'; simp add: skip_ws_append)+
    then show ?thesis using False members keeps [OF assms(4)]
      by (simp add: m bracket_def)
  qed
  with False show ?thesis by (simp add: reads_as_def bracket_def)
qed


lemma layout_reads:
  assumes "layout repr nl (CHR '':'' # blank) n v = Inr t" "writable v"
    "\<And>k. list_all is_space (nl k)" "list_all is_space blank"
  shows "reads_as h v t"
  using assms
proof (induction repr nl "CHR '':'' # blank" n v arbitrary: t rule: layout.induct)
  case (5 repr nl n xs)
  from 5(2) obtain ts where ts: "res_map (layout repr nl (CHR '':'' # blank) (Suc n)) xs = Inr ts"
    "t = bracket nl n (CHR ''['') ts (CHR '']'')" by auto
  then have "list_all2 (\<lambda>x t. layout repr nl (CHR '':'' # blank) (Suc n) x = Inr t) xs ts"
    by (simp add: res_map_Inr)
  moreover have "\<forall>x \<in> set xs. writable x" using 5(3) by (simp add: list_all_iff)
  ultimately have "list_all2 (reads_as h) xs ts"
    using 5(1) 5(4,5) by (auto simp: list_all2_conv_all_nth)
  then show ?case unfolding ts(2) by (rule reads_as_list) (rule 5)
next
  case (7 repr nl n d)
  from 7(2) obtain ts where ts: "res_map (\<lambda>p. res_bind (layout repr nl (CHR '':'' # blank) (Suc n) (snd p))
      (\<lambda>t. Inr (quote (fst p) @ (CHR '':'' # blank) @ t))) d = Inr ts"
    "t = bracket nl n (CHR ''{'') ts (CHR ''}'')" by auto
  from ts(1) have "list_all2 (\<lambda>p t. \<exists>u. layout repr nl (CHR '':'' # blank) (Suc n) (snd p) = Inr u \<and>
      t = quote (fst p) @ (CHR '':'' # blank) @ u) d ts"
    unfolding res_map_Inr by (rule list.rel_mono_strong) auto
  then have "list_all2 (member_reads h (CHR '':'' # blank)) d ts"
  proof (rule list.rel_mono_strong)
    fix p t
    assume p: "p \<in> set d" and "\<exists>u. layout repr nl (CHR '':'' # blank) (Suc n) (snd p) = Inr u \<and>
      t = quote (fst p) @ (CHR '':'' # blank) @ u"
    then obtain u where u: "layout repr nl (CHR '':'' # blank) (Suc n) (snd p) = Inr u"
      "t = quote (fst p) @ (CHR '':'' # blank) @ u" by blast
    have "writable (snd p)" using 7(3) p by (simp add: list_all_iff)
    from 7(1) [OF p u(1) this 7(4,5)] u(2) show "member_reads h (CHR '':'' # blank) p t"
      by (auto simp: member_reads_def)
  qed
  then show ?case unfolding ts(2) by (rule reads_as_dict) (use 7 in simp_all)
qed (simp_all add: reads_as_atoms reads_as_int)


text \<open>\<^verbatim>\<open>json.loads\<close> inverts both forms of \<^verbatim>\<open>json.dumps\<close>, up to the order of keys.\<close>

lemma loads_reads:
  assumes "reads_as h v t" "list_all is_space w"
  shows "loads_with h (t @ w) = Inr v"
proof -
  have "skip_ws (t @ w) = t @ w" using assms(1) by (simp add: reads_as_def skip_ws_head)
  moreover have "follow w" using assms(2) follow_ws [of w] space_no_digit
    by (cases w) (auto simp: follow_def)
  moreover have "skip_ws w = []" using skip_ws_append [OF assms(2), of "[]"] by simp
  moreover have "scan_value h (2 * length (t @ w) + 2) (t @ w) = Inr (v, w)"
    using assms(1) \<open>follow w\<close> by (simp add: reads_as_def del: scan_value.simps)
  ultimately show ?thesis by (simp only: loads_with_def Let_def res_bind_simps prod.case if_True simp_thms)
qed

lemma loads_dumps:
  assumes "dumps repr v = Inr t" "writable (canon v)" "list_all is_space w"
  shows "loads_with h (t @ w) = Inr (canon v)"
proof -
  have "layout repr (\<lambda>_. []) (CHR '':'' # []) 0 (canon v) = Inr t"
    using assms(1) by (simp add: layout_compact dumps_def)
  from layout_reads [OF this assms(2)] show ?thesis using assms(3) by (simp add: loads_reads)
qed

lemma loads_indented:
  assumes "dumps_indented repr v = Inr t" "writable (canon v)" "list_all is_space w"
  shows "loads_with h (t @ w) = Inr (canon v)"
proof -
  have "list_all is_space (line_break k)" for k
  proof -
    have "is_space (CHR 0x0A)" by code_simp
    then show ?thesis by (simp add: line_break_def list_all_iff)
  qed
  then have "reads_as h (canon v) t"
    using layout_reads [of repr line_break "'' ''" 0 "canon v" t] assms
    by (simp add: dumps_indented_def)
  then show ?thesis using assms(3) by (rule loads_reads)
qed

end

interpretation package: object_hook "package_hooks fl" for fl
  by unfold_locales (simp add: package_hooks_def unique_object_ok)

lemmas loads_dumps = package.loads_dumps [folded loads_def]
lemmas loads_indented = package.loads_indented [folded loads_def]

end
