(* ===== verification/Events.thy ===== *)
theory Events
  imports Json Correlated
begin

text \<open>
  events.py: the bounded asynchronous JSONL sink. The sink is a record, its file a string; the
  caller's side (\<open>emit\<close>, \<open>begin_close\<close>, \<open>end_close\<close>) and the worker thread's side (\<open>worker_take\<close>,
  \<open>worker_finish\<close>) are separate atomic steps that interleave in any order. What the operating
  system answers to a call is an argument (\<open>file_io\<close>). The hosts are POSIX, so \<^verbatim>\<open>fcntl\<close> exists.

  Atomicity: the caller's steps run under the state lock. The worker's check of its loop
  condition and its \<^verbatim>\<open>get\<close> are one step: after the stop flag is set nothing is queued any more,
  so a check that went through before finds the queue as a later one does.
\<close>

section \<open>Counters and state\<close>

definition DEFAULT_MAX_PENDING_RECORDS :: int where "DEFAULT_MAX_PENDING_RECORDS = 4096"

definition DEFAULT_MAX_RECORD_BYTES :: int where "DEFAULT_MAX_RECORD_BYTES = 1024 * 1024"

definition DEFAULT_MAX_FILE_BYTES :: int where "DEFAULT_MAX_FILE_BYTES = 64 * 1024 * 1024"

definition MIN_RECORD_BYTES :: int where "MIN_RECORD_BYTES = 512"

record event_sink_counters =
  ec_enqueued :: nat
  ec_written :: nat
  ec_queue_dropped :: nat
  ec_record_size_dropped :: nat
  ec_file_capacity_dropped :: nat
  ec_serialization_errors :: nat
  ec_io_errors :: nat
  ec_closed_dropped :: nat
  ec_shutdown_timeouts :: nat

definition zero_event_counters :: event_sink_counters where
  "zero_event_counters =
     \<lparr>ec_enqueued = 0, ec_written = 0, ec_queue_dropped = 0, ec_record_size_dropped = 0,
      ec_file_capacity_dropped = 0, ec_serialization_errors = 0, ec_io_errors = 0,
      ec_closed_dropped = 0, ec_shutdown_timeouts = 0\<rparr>"

text \<open>
  The sink. A descriptor is only known to be open or not; \<open>sk_current\<close> is the record the worker
  holds, \<open>sk_unfinished\<close> the queue's count of unfinished tasks.
\<close>

record event_sink =
  sk_enabled :: bool
  sk_max_pending_records :: int
  sk_max_record_bytes :: int
  sk_max_file_bytes :: int
  sk_counters :: event_sink_counters
  sk_records :: "string list"
  sk_unfinished :: nat
  sk_current :: "string option"
  sk_stop :: bool
  sk_closed :: bool
  sk_file_descriptor :: bool
  sk_directory_fd :: bool
  sk_worker_alive :: bool

definition count_event ::
  "(event_sink_counters \<Rightarrow> event_sink_counters) \<Rightarrow> event_sink \<Rightarrow> event_sink" where
  "count_event f s = s\<lparr>sk_counters := f (sk_counters s)\<rparr>"

section \<open>Construction\<close>

definition positive_int :: "pyval \<Rightarrow> int res" where
  "positive_int v =
     (case v of PInt n \<Rightarrow> if n \<le> 0 then Inl ValueError else Inr n | _ \<Rightarrow> Inl ValueError)"

text \<open>What the file system says of the destination, and of opening it.\<close>

record destination =
  de_parent_is_dir :: bool
  de_is_symlink :: bool
  de_exists :: bool
  de_is_file :: bool
  de_parent_resolves :: bool
  de_directory_opens :: bool
  de_thread_starts :: bool

definition validate_destination :: "destination \<Rightarrow> unit res" where
  "validate_destination d =
     (if \<not> de_parent_is_dir d then Inl ValueError
      else if de_is_symlink d then Inl ValueError
      else if de_exists d \<and> \<not> de_is_file d then Inl ValueError
      else if \<not> de_parent_resolves d then Inl OSError
      else Inr ())"

definition jsonl_event_sink ::
  "destination option \<Rightarrow> pyval \<Rightarrow> pyval \<Rightarrow> pyval \<Rightarrow> event_sink res" where
  "jsonl_event_sink path max_pending max_record max_file =
     res_bind (case path of None \<Rightarrow> Inr () | Some d \<Rightarrow> validate_destination d) (\<lambda>_.
     res_bind (positive_int max_pending) (\<lambda>pending.
     res_bind (positive_int max_record) (\<lambda>record_bytes.
     res_bind (positive_int max_file) (\<lambda>file_bytes.
     if record_bytes < MIN_RECORD_BYTES then Inl ValueError
     else if file_bytes < record_bytes then Inl ValueError
     else
       let s = \<lparr>sk_enabled = path \<noteq> None, sk_max_pending_records = pending,
         sk_max_record_bytes = record_bytes, sk_max_file_bytes = file_bytes,
         sk_counters = zero_event_counters, sk_records = [], sk_unfinished = 0,
         sk_current = None, sk_stop = False, sk_closed = False, sk_file_descriptor = False,
         sk_directory_fd = False, sk_worker_alive = False\<rparr>
       in case path of
            None \<Rightarrow> Inr s
          | Some d \<Rightarrow>
              if \<not> de_directory_opens d then Inl OSError
              else if \<not> de_thread_starts d then Inl RuntimeError
              else Inr (s\<lparr>sk_directory_fd := True, sk_worker_alive := True\<rparr>)))))"

section \<open>The caller's side\<close>

datatype typed_record =
    Event_Record kv_observation
  | Fact_Record host_fact
  | Correlated_Record correlated
  | Other_Record

definition record_payload :: "typed_record \<Rightarrow> pyval res" where
  "record_payload r =
     (case r of
        Event_Record ob \<Rightarrow> Inr (observation_to_payload ob)
      | Fact_Record f \<Rightarrow> Inr (host_fact_to_payload f)
      | Correlated_Record c \<Rightarrow> Inr (correlated_to_payload c)
      | Other_Record \<Rightarrow> Inl TypeError)"

text \<open>One line of the file.\<close>

definition encode_record :: "(py_float \<Rightarrow> string) \<Rightarrow> typed_record \<Rightarrow> string res" where
  "encode_record repr r =
     res_bind (record_payload r) (\<lambda>p.
     res_bind (dumps repr p) (\<lambda>t. Inr (t @ [CHR 0x0A])))"

definition put_record :: "event_sink \<Rightarrow> string \<Rightarrow> event_sink \<times> bool res" where
  "put_record s encoded =
     (if sk_closed s
      then (count_event (\<lambda>c. c\<lparr>ec_closed_dropped := ec_closed_dropped c + 1\<rparr>) s, Inr False)
      else if sk_max_pending_records s \<le> int (length (sk_records s))
      then (count_event (\<lambda>c. c\<lparr>ec_queue_dropped := ec_queue_dropped c + 1\<rparr>) s, Inr False)
      else (count_event (\<lambda>c. c\<lparr>ec_enqueued := ec_enqueued c + 1\<rparr>)
              (s\<lparr>sk_records := sk_records s @ [encoded], sk_unfinished := sk_unfinished s + 1\<rparr>),
            Inr True))"

definition emit :: "(py_float \<Rightarrow> string) \<Rightarrow> event_sink \<Rightarrow> typed_record \<Rightarrow> event_sink \<times> bool res" where
  "emit repr s r =
     (if \<not> sk_enabled s then (s, Inr False)
      else case encode_record repr r of
        Inl e \<Rightarrow>
          if e \<in> {TypeError, ValueError, OverflowError}
          then (count_event (\<lambda>c. c\<lparr>ec_serialization_errors := ec_serialization_errors c + 1\<rparr>) s,
                Inr False)
          else (s, Inl e)
      | Inr encoded \<Rightarrow>
          if sk_max_record_bytes s < int (length encoded)
          then (count_event (\<lambda>c. c\<lparr>ec_record_size_dropped := ec_record_size_dropped c + 1\<rparr>) s,
                Inr False)
          else put_record s encoded)"

section \<open>Writing one record\<close>

text \<open>
  What \<^verbatim>\<open>os.open\<close> with the check of the file's type, \<^verbatim>\<open>flock\<close>, \<^verbatim>\<open>fstat\<close>, the successive calls
  of \<^verbatim>\<open>os.write\<close>, \<^verbatim>\<open>ftruncate\<close> and the unlocking \<^verbatim>\<open>flock\<close> answer.
\<close>

datatype open_result = Opened | Open_Error | Not_Regular

datatype write_result = Wrote int | Write_Error

record file_io =
  io_open :: open_result
  io_lock :: bool
  io_stat :: bool
  io_write :: "nat \<Rightarrow> write_result"
  io_truncate :: bool
  io_unlock :: bool

datatype write_outcome = Written | Capacity

definition open_descriptor :: "event_sink \<Rightarrow> file_io \<Rightarrow> unit res" where
  "open_descriptor s io =
     (if \<not> sk_enabled s then Inl RuntimeError
      else if \<not> sk_directory_fd s then Inl RuntimeError
      else case io_open io of
        Opened \<Rightarrow> Inr ()
      | Open_Error \<Rightarrow> Inl OSError
      | Not_Regular \<Rightarrow> Inl OSError)"

text \<open>
  The loop of \<^verbatim>\<open>_write_all\<close>: \<open>k\<close> counts the calls of \<^verbatim>\<open>os.write\<close>, each of which appends what it
  reports to the file.
\<close>

function write_all :: "(nat \<Rightarrow> write_result) \<Rightarrow> nat \<Rightarrow> string \<Rightarrow> string \<Rightarrow> string \<times> unit res" where
  "write_all os k contents data =
     (if data = [] then (contents, Inr ())
      else case os k of
        Write_Error \<Rightarrow> (contents, Inl OSError)
      | Wrote n \<Rightarrow>
          if n \<le> 0 then (contents, Inl OSError)
          else write_all os (Suc k) (contents @ take (nat n) data) (drop (nat n) data))"
  by pat_completeness auto
termination
  by (relation "measure (\<lambda>(os, k, contents, data). length data)") auto

declare write_all.simps [simp del]

definition locked_write :: "event_sink \<Rightarrow> string \<Rightarrow> string \<Rightarrow> file_io \<Rightarrow> string \<times> write_outcome res" where
  "locked_write s contents data io =
     (if \<not> io_stat io then (contents, Inl OSError)
      else if sk_max_file_bytes s < int (length contents + length data) then (contents, Inr Capacity)
      else case write_all (io_write io) 0 contents data of
             (contents', Inr _) \<Rightarrow> (contents', Inr Written)
           | (contents', Inl e) \<Rightarrow> (if io_truncate io then take (length contents) contents' else contents', Inl e))"

definition write_record ::
  "event_sink \<Rightarrow> string \<Rightarrow> string \<Rightarrow> file_io \<Rightarrow> event_sink \<times> string \<times> write_outcome res" where
  "write_record s contents data io =
     (case (if sk_file_descriptor s then Inr () else open_descriptor s io) of
        Inl e \<Rightarrow> (s, contents, Inl e)
      | Inr _ \<Rightarrow>
          let s' = s\<lparr>sk_file_descriptor := True\<rparr> in
          if \<not> io_lock io then (s', contents, Inl OSError)
          else
            let (contents', r) = locked_write s' contents data io in
            if \<not> io_unlock io then (s', contents', Inl OSError) else (s', contents', r))"

section \<open>The worker's side\<close>

definition worker_exit :: "event_sink \<Rightarrow> event_sink" where
  "worker_exit s =
     s\<lparr>sk_file_descriptor := False, sk_directory_fd := False, sk_worker_alive := False\<rparr>"

text \<open>One pass of the loop's head: leave the loop, find the queue empty, or take a record.\<close>

definition worker_take :: "event_sink \<Rightarrow> event_sink" where
  "worker_take s =
     (if \<not> sk_worker_alive s \<or> sk_current s \<noteq> None then s
      else if sk_stop s \<and> sk_records s = [] then worker_exit s
      else case sk_records s of
             [] \<Rightarrow> s
           | r # rs \<Rightarrow> s\<lparr>sk_records := rs, sk_current := Some r\<rparr>)"

definition task_done :: "event_sink \<Rightarrow> event_sink" where
  "task_done s = s\<lparr>sk_current := None, sk_unfinished := sk_unfinished s - 1\<rparr>"

text \<open>The loop's body. An exception the loop does not catch would end the worker.\<close>

definition worker_finish :: "event_sink \<Rightarrow> string \<Rightarrow> file_io \<Rightarrow> event_sink \<times> string" where
  "worker_finish s contents io =
     (case sk_current s of
        None \<Rightarrow> (s, contents)
      | Some data \<Rightarrow>
          if \<not> sk_worker_alive s then (s, contents)
          else
            let (s', contents', r) = write_record s contents data io in
            (case r of
               Inl e \<Rightarrow>
                 if e \<in> {OSError, RuntimeError}
                 then task_done (count_event (\<lambda>c. c\<lparr>ec_io_errors := ec_io_errors c + 1\<rparr>)
                        (s'\<lparr>sk_file_descriptor := False\<rparr>))
                 else worker_exit (task_done s')
             | Inr Written \<Rightarrow>
                 task_done (count_event (\<lambda>c. c\<lparr>ec_written := ec_written c + 1\<rparr>) s')
             | Inr Capacity \<Rightarrow>
                 task_done (count_event
                   (\<lambda>c. c\<lparr>ec_file_capacity_dropped := ec_file_capacity_dropped c + 1\<rparr>) s'),
             contents'))"

section \<open>Flush, close and fork\<close>

text \<open>
  A timeout is a finite number, not negative. \<^verbatim>\<open>math.isfinite\<close> of an int converts it to a
  float and overflows from \<open>2 ^ 1024 - 2 ^ 970\<close> on.
\<close>

definition check_timeout :: "pyval \<Rightarrow> unit res" where
  "check_timeout v =
     (case v of
        PInt n \<Rightarrow>
          if 2 ^ 1024 - 2 ^ 970 \<le> \<bar>n\<bar> then Inl OverflowError
          else if n < 0 then Inl ValueError else Inr ()
      | PFloat (Finite q) \<Rightarrow> if q < 0 then Inl ValueError else Inr ()
      | _ \<Rightarrow> Inl ValueError)"

text \<open>
  The loop of \<^verbatim>\<open>flush\<close>: each poll sees the unfinished tasks and whether the deadline has
  passed; None when the polls given end before the loop does.
\<close>

fun flush_polls :: "(nat \<times> bool) list \<Rightarrow> bool option" where
  "flush_polls [] = None"
| "flush_polls ((unfinished, expired) # polls) =
     (if unfinished = 0 then Some True else if expired then Some False else flush_polls polls)"

definition flush_sink :: "pyval \<Rightarrow> (nat \<times> bool) list \<Rightarrow> bool option res" where
  "flush_sink timeout polls = res_bind (check_timeout timeout) (\<lambda>_. Inr (flush_polls polls))"

definition sink_is_alive :: "event_sink \<Rightarrow> bool" where
  "sink_is_alive s \<longleftrightarrow> sk_enabled s \<and> sk_worker_alive s"

definition begin_close :: "event_sink \<Rightarrow> pyval \<Rightarrow> event_sink \<times> unit res" where
  "begin_close s timeout =
     (case check_timeout timeout of
        Inl e \<Rightarrow> (s, Inl e)
      | Inr _ \<Rightarrow> (if sk_closed s then s else s\<lparr>sk_closed := True, sk_stop := True\<rparr>, Inr ()))"

text \<open>After the join, which the worker may or may not have outlasted.\<close>

definition end_close :: "event_sink \<Rightarrow> event_sink \<times> bool" where
  "end_close s =
     (if \<not> sk_enabled s then (s, True)
      else if sk_worker_alive s
      then (count_event (\<lambda>c. c\<lparr>ec_shutdown_timeouts := ec_shutdown_timeouts c + 1\<rparr>) s, False)
      else (s, True))"

definition sink_abandon_after_fork :: "event_sink \<Rightarrow> event_sink" where
  "sink_abandon_after_fork s =
     s\<lparr>sk_closed := True, sk_file_descriptor := False, sk_directory_fd := False\<rparr>"

section \<open>Writing a record, in all outcomes\<close>

lemma write_all_prefix:
  "\<exists>m \<le> length data. fst (write_all os k contents data) = contents @ take m data \<and>
     (case snd (write_all os k contents data) of
        Inr _ \<Rightarrow> m = length data
      | Inl e \<Rightarrow> e = OSError \<and> m < length data)"
proof (induction os k contents data rule: write_all.induct)
  case (1 os k contents data)
  show ?case
  proof (cases "data = [] \<or> os k = Write_Error")
    case True
    then show ?thesis
      by (cases data) (auto simp: write_all.simps [of os k] intro!: exI [of _ 0])
  next
    case False
    then obtain n where n: "os k = Wrote n" "data \<noteq> []" by (cases "os k") auto
    show ?thesis
    proof (cases "n \<le> 0")
      case True
      then show ?thesis using n by (auto simp: write_all.simps [of os k] intro!: exI [of _ 0])
    next
      case False
      let ?rest = "write_all os (Suc k) (contents @ take (nat n) data) (drop (nat n) data)"
      have step: "write_all os k contents data = ?rest"
        using n False by (simp add: write_all.simps [of os k])
      from 1 n False obtain m where m: "m \<le> length (drop (nat n) data)"
        "fst ?rest = (contents @ take (nat n) data) @ take m (drop (nat n) data)"
        "case snd ?rest of Inr _ \<Rightarrow> m = length (drop (nat n) data)
         | Inl e \<Rightarrow> e = OSError \<and> m < length (drop (nat n) data)" by auto
      let ?m = "min (nat n) (length data) + m"
      have "take (nat n) data @ take m (drop (nat n) data) = take ?m data"
      proof -
        have "take ?m data = take (min (nat n) (length data)) data
            @ take m (drop (min (nat n) (length data)) data)" by (rule take_add)
        then show ?thesis by (simp add: min_def)
      qed
      then have "fst ?rest = contents @ take ?m data" using m(2) by simp
      moreover have "?m \<le> length data" using m(1) by simp
      moreover have "case snd ?rest of Inr _ \<Rightarrow> ?m = length data
          | Inl e \<Rightarrow> e = OSError \<and> ?m < length data"
        using m(3) by (auto split: sum.splits)
      ultimately show ?thesis unfolding step by blast
    qed
  qed
qed

lemma write_all_progress:
  "(\<And>i. k \<le> i \<Longrightarrow> i < k + length data \<Longrightarrow> \<exists>n > 0. os i = Wrote n) \<Longrightarrow>
     write_all os k contents data = (contents @ data, Inr ())"
proof (induction os k contents data rule: write_all.induct)
  case (1 os k contents data)
  show ?case
  proof (cases "data = []")
    case False
    with 1(2) [of k] obtain n where n: "os k = Wrote n" "n > 0" by auto
    have "write_all os (Suc k) (contents @ take (nat n) data) (drop (nat n) data) =
        ((contents @ take (nat n) data) @ drop (nat n) data, Inr ())"
      by (rule 1(1)) (use n False in \<open>auto intro!: 1(2)\<close>)
    then show ?thesis using n False by (simp add: write_all.simps [of os k])
  qed (simp add: write_all.simps [of os k])
qed

text \<open>What one call of \<open>locked_write\<close> leaves in the file, and what the caller is told.\<close>

lemma locked_write_cases:
  assumes "locked_write s contents data io = (contents', r)"
  shows "\<exists>m \<le> length data. contents' = contents @ take m data \<and>
      (m \<noteq> 0 \<longrightarrow> int (length contents + length data) \<le> sk_max_file_bytes s) \<and>
      (case r of
         Inr Written \<Rightarrow> m = length data \<and> int (length contents + length data) \<le> sk_max_file_bytes s
       | Inr Capacity \<Rightarrow> m = 0 \<and> sk_max_file_bytes s < int (length contents + length data)
       | Inl e \<Rightarrow> e = OSError \<and> (io_truncate io \<longrightarrow> m = 0))"
proof (cases "io_stat io \<and> int (length contents + length data) \<le> sk_max_file_bytes s")
  case False
  then have "contents' = contents"
    "r = (if io_stat io then Inr Capacity else Inl OSError)"
    using assms by (auto simp: locked_write_def split: if_splits)
  with False show ?thesis by (intro exI [of _ 0]) auto
next
  case True
  obtain m where m: "m \<le> length data"
    "fst (write_all (io_write io) 0 contents data) = contents @ take m data"
    "case snd (write_all (io_write io) 0 contents data) of
        Inr _ \<Rightarrow> m = length data | Inl e \<Rightarrow> e = OSError \<and> m < length data"
    using write_all_prefix [of data "io_write io" 0 contents] by blast
  show ?thesis
  proof (cases "snd (write_all (io_write io) 0 contents data)")
    case (Inr u)
    then show ?thesis using True m assms
      by (intro exI [of _ m]) (auto simp: locked_write_def split: prod.splits)
  next
    case (Inl e)
    then show ?thesis using True m assms
      by (intro exI [of _ "if io_truncate io then 0 else m"])
        (auto simp: locked_write_def split: prod.splits)
  qed
qed

end
