(* ===== verification/Descriptors.thy ===== *)
theory Descriptors
  imports Json_Text Events
begin

text \<open>
  descriptors.py: the descriptor inventory of one transfer, and its capture into a directory of
  files, one per inventory. A directory is a map from names to contents; what the operating
  system answers to each call is an argument, as in the event sink. \<open>publish\<close> is the sequence of
  file operations of \<^verbatim>\<open>_capture_locked\<close>; the asynchronous capture interleaves the callers'
  steps with the writer's.
\<close>

section \<open>Inventories\<close>

definition MAX_DESCRIPTOR_REGIONS :: nat where "MAX_DESCRIPTOR_REGIONS = 4096"

definition DEFAULT_MAX_DESCRIPTOR_RECORD_BYTES :: int where
  "DEFAULT_MAX_DESCRIPTOR_RECORD_BYTES = 1024 * 1024"

definition DEFAULT_MAX_PENDING_DESCRIPTORS :: int where "DEFAULT_MAX_PENDING_DESCRIPTORS = 16"

definition DESCRIPTOR_SCHEMA :: string where
  "DESCRIPTOR_SCHEMA = ''vllm-hust.kv-transfer-descriptor-layout.v2''"

record descriptor_region =
  dr_src_offset :: int
  dr_dst_offset :: int
  dr_size :: int
  dr_direction :: transfer_direction
  dr_src_region_id :: int
  dr_dst_region_id :: int

definition make_region :: "pyval \<Rightarrow> pyval \<Rightarrow> pyval \<Rightarrow> pyval \<Rightarrow> pyval \<Rightarrow> pyval \<Rightarrow> descriptor_region res" where
  "make_region src_offset dst_offset nbytes direction src_region_id dst_region_id =
     res_bind (require_uint src_offset UINT64_MAX) (\<lambda>src.
     res_bind (require_uint dst_offset UINT64_MAX) (\<lambda>dst.
     res_bind (require_uint nbytes UINT64_MAX) (\<lambda>sz.
     if sz = 0 then Inl ValueError else
     res_bind (as_direction direction) (\<lambda>dir.
     res_bind (require_uint src_region_id UINT32_MAX) (\<lambda>src_id.
     res_bind (require_uint dst_region_id UINT32_MAX) (\<lambda>dst_id.
     Inr \<lparr>dr_src_offset = src, dr_dst_offset = dst, dr_size = sz, dr_direction = dir,
          dr_src_region_id = src_id, dr_dst_region_id = dst_id\<rparr>))))))"

definition region_to_payload :: "descriptor_region \<Rightarrow> pyval" where
  "region_to_payload r = PDict
     [(''direction'', PStr (direction_value (dr_direction r))),
      (''dst_region_id'', PInt (dr_dst_region_id r)), (''dst_offset'', PInt (dr_dst_offset r)),
      (''size'', PInt (dr_size r)), (''src_region_id'', PInt (dr_src_region_id r)),
      (''src_offset'', PInt (dr_src_offset r))]"

record descriptor_inventory =
  di_identity :: observation_identity
  di_transfer :: transfer_identity
  di_job_id :: int
  di_direction :: transfer_direction
  di_regions :: "descriptor_region list"
  di_observed_at_ns :: int

text \<open>The \<^verbatim>\<open>regions\<close> argument: not a tuple, or a tuple of regions and other objects.\<close>

type_synonym regions_arg = "descriptor_region option list option"

definition as_region :: "descriptor_region option \<Rightarrow> descriptor_region res" where
  "as_region x = (case x of None \<Rightarrow> Inl ValueError | Some r \<Rightarrow> Inr r)"

definition make_inventory ::
  "pyval \<Rightarrow> pyval \<Rightarrow> pyval \<Rightarrow> pyval \<Rightarrow> regions_arg \<Rightarrow> pyval \<Rightarrow> descriptor_inventory res" where
  "make_inventory identity transfer job_id direction regions observed_at_ns =
     res_bind (as_identity identity) (\<lambda>i.
     res_bind (as_transfer transfer) (\<lambda>t.
     res_bind (require_uint job_id UINT64_MAX) (\<lambda>job.
     res_bind (as_direction direction) (\<lambda>dir.
     case regions of
       None \<Rightarrow> Inl ValueError
     | Some xs \<Rightarrow>
         if xs = [] then Inl ValueError
         else if MAX_DESCRIPTOR_REGIONS < length xs then Inl ValueError
         else res_bind (res_map as_region xs) (\<lambda>rs.
           if \<not> list_all (\<lambda>r. dr_direction r = dir) rs then Inl ValueError
           else res_bind (require_uint observed_at_ns UINT64_MAX) (\<lambda>observed.
             Inr \<lparr>di_identity = i, di_transfer = t, di_job_id = job, di_direction = dir,
                  di_regions = rs, di_observed_at_ns = observed\<rparr>))))))"

definition inventory_to_payload :: "evidence_label \<Rightarrow> descriptor_inventory \<Rightarrow> pyval" where
  "inventory_to_payload label v = PDict
     [(''descriptors'', PList (map region_to_payload (di_regions v))),
      (''direction'', PStr (direction_value (di_direction v))),
      (''evidence_label'', PStr (evidence_value label)),
      (''identity'', identity_to_payload (di_identity v)),
      (''job_id'', PInt (di_job_id v)), (''observed_at_ns'', PInt (di_observed_at_ns v)),
      (''schema'', PStr DESCRIPTOR_SCHEMA), (''transfer_id'', PStr (transfer_value (di_transfer v)))]"

section \<open>Publishing one inventory\<close>

record descriptor_counters =
  dc_written :: nat
  dc_invalid_records :: nat
  dc_capacity_dropped :: nat
  dc_conflicts :: nat
  dc_io_errors :: nat
  dc_closed_dropped :: nat

record layout_capture =
  lc_evidence_label :: evidence_label
  lc_max_regions :: int
  lc_max_record_bytes :: int
  lc_directory_fd :: bool
  lc_counters :: descriptor_counters
  lc_closed :: bool

definition zero_descriptor_counters :: descriptor_counters where
  "zero_descriptor_counters =
     \<lparr>dc_written = 0, dc_invalid_records = 0, dc_capacity_dropped = 0, dc_conflicts = 0,
      dc_io_errors = 0, dc_closed_dropped = 0\<rparr>"

definition count_descriptor ::
  "(descriptor_counters \<Rightarrow> descriptor_counters) \<Rightarrow> layout_capture \<Rightarrow> layout_capture" where
  "count_descriptor f c = c\<lparr>lc_counters := f (lc_counters c)\<rparr>"

text \<open>What the file system says of the capture directory, and of opening it.\<close>

record capture_directory =
  cd_is_symlink :: bool
  cd_is_dir :: bool
  cd_resolves :: bool
  cd_opens :: bool
  cd_fstat :: bool
  cd_still_dir :: bool

definition layout_capture_new ::
  "capture_directory \<Rightarrow> pyval \<Rightarrow> pyval \<Rightarrow> pyval \<Rightarrow> layout_capture res" where
  "layout_capture_new d evidence_label max_regions max_record_bytes =
     (if cd_is_symlink d \<or> \<not> cd_is_dir d then Inl ValueError
      else if \<not> cd_resolves d then Inl OSError
      else case to_evidence evidence_label of
        Inl _ \<Rightarrow> Inl ValueError
      | Inr label \<Rightarrow>
          res_bind (case max_regions of
              PInt n \<Rightarrow> if 0 < n \<and> n \<le> int MAX_DESCRIPTOR_REGIONS then Inr n else Inl ValueError
            | _ \<Rightarrow> Inl ValueError) (\<lambda>regions.
          res_bind (positive_int max_record_bytes) (\<lambda>record_bytes.
          if \<not> cd_opens d \<or> \<not> cd_fstat d then Inl OSError
          else if \<not> cd_still_dir d then Inl ValueError
          else Inr \<lparr>lc_evidence_label = label, lc_max_regions = regions,
            lc_max_record_bytes = record_bytes, lc_directory_fd = True,
            lc_counters = zero_descriptor_counters, lc_closed = False\<rparr>)))"

type_synonym directory = "string \<Rightarrow> string option"

text \<open>
  The answers to \<^verbatim>\<open>os.stat\<close> (None if it fails, else whether the directory is still the same),
  \<^verbatim>\<open>token_hex\<close> (None if it fails), \<^verbatim>\<open>open\<close>, \<^verbatim>\<open>write\<close>, \<^verbatim>\<open>fsync\<close>, \<^verbatim>\<open>close\<close>, \<^verbatim>\<open>link\<close>, \<^verbatim>\<open>unlink\<close> of the
  temporary name, \<^verbatim>\<open>fsync\<close> of the directory, and the two clean-up \<^verbatim>\<open>unlink\<close>s. Opening and linking
  fail with FileExistsError where the name is taken.
\<close>

record publish_io =
  pi_stat :: "bool option"
  pi_token :: "string option"
  pi_open :: bool
  pi_write :: "nat \<Rightarrow> write_result"
  pi_fsync :: bool
  pi_close :: bool
  pi_link :: bool
  pi_unlink :: bool
  pi_fsync_directory :: bool
  pi_unlink_final :: bool
  pi_unlink_temporary :: bool

definition final_name :: "descriptor_inventory \<Rightarrow> string" where
  "final_name v =
     ''rank'' @ int_text (id_rank (di_identity v)) @ ''-gen'' @
     int_text (id_worker_generation (di_identity v)) @ ''-'' @
     direction_value (di_direction v) @ ''-job'' @ int_text (di_job_id v) @ ''.json''"

definition temporary_name :: "string \<Rightarrow> string \<Rightarrow> string" where
  "temporary_name final token = ''.'' @ final @ ''.'' @ token @ ''.tmp''"

text \<open>The file operations, with \<open>temporary_exists\<close> and \<open>published\<close> when they end.\<close>

definition publish_steps ::
  "publish_io \<Rightarrow> string \<Rightarrow> string \<Rightarrow> string \<Rightarrow> directory \<Rightarrow> directory \<times> bool \<times> bool \<times> unit res" where
  "publish_steps io temporary final data dir =
     (if \<not> pi_open io then (dir, False, False, Inl OSError)
      else if dir temporary \<noteq> None then (dir, False, False, Inl FileExistsError)
      else case write_all (pi_write io) 0 [] data of
        (contents, Inl e) \<Rightarrow> (dir(temporary \<mapsto> contents), True, False, Inl e)
      | (contents, Inr _) \<Rightarrow>
          let dir1 = dir(temporary \<mapsto> contents) in
          if \<not> pi_fsync io \<or> \<not> pi_close io then (dir1, True, False, Inl OSError)
          else if \<not> pi_link io then (dir1, True, False, Inl OSError)
          else if dir1 final \<noteq> None then (dir1, True, False, Inl FileExistsError)
          else
            let dir2 = dir1(final \<mapsto> contents) in
            if \<not> pi_unlink io then (dir2, True, True, Inl OSError)
            else
              let dir3 = dir2(temporary := None) in
              if \<not> pi_fsync_directory io then (dir3, False, True, Inl OSError)
              else (dir3, False, True, Inr ()))"

definition count_io :: "layout_capture \<Rightarrow> layout_capture" where
  "count_io = count_descriptor (\<lambda>k. k\<lparr>dc_io_errors := dc_io_errors k + 1\<rparr>)"

text \<open>The \<^verbatim>\<open>finally\<close> clause.\<close>

definition remove_temporary ::
  "publish_io \<Rightarrow> string \<Rightarrow> bool \<Rightarrow> layout_capture \<times> directory \<Rightarrow> layout_capture \<times> directory" where
  "remove_temporary io temporary exists = (\<lambda>(c, dir).
     if \<not> exists then (c, dir)
     else if pi_unlink_temporary io then (c, dir(temporary := None))
     else (count_io c, dir))"

definition publish ::
  "layout_capture \<Rightarrow> publish_io \<Rightarrow> string \<Rightarrow> string \<Rightarrow> string \<Rightarrow> directory \<Rightarrow>
     layout_capture \<times> directory \<times> string option" where
  "publish c io temporary final data dir =
     (case publish_steps io temporary final data dir of
        (dir', exists, published, Inr _) \<Rightarrow>
          (let (c', dir'') = remove_temporary io temporary exists (c, dir') in
           (count_descriptor (\<lambda>k. k\<lparr>dc_written := dc_written k + 1\<rparr>) c', dir'', Some final))
      | (dir', exists, published, Inl e) \<Rightarrow>
          let handled =
            (if e = FileExistsError
             then (count_descriptor (\<lambda>k. k\<lparr>dc_conflicts := dc_conflicts k + 1\<rparr>) c, dir')
             else if \<not> published then (count_io c, dir')
             else if pi_unlink_final io then (count_io c, dir'(final := None))
             else (count_io (count_io c), dir'));
            (c', dir'') = remove_temporary io temporary exists handled
          in (c', dir'', None))"

text \<open>\<open>None\<close> stands for an object that is no inventory.\<close>

definition capture_layout ::
  "(py_float \<Rightarrow> string) \<Rightarrow> layout_capture \<Rightarrow> publish_io \<Rightarrow> descriptor_inventory option \<Rightarrow> directory \<Rightarrow>
     layout_capture \<times> directory \<times> string option" where
  "capture_layout repr c io inventory dir =
     (if lc_closed c
      then (count_descriptor (\<lambda>k. k\<lparr>dc_closed_dropped := dc_closed_dropped k + 1\<rparr>) c, dir, None)
      else if pi_stat io \<noteq> Some True then (count_io c, dir, None)
      else case inventory of
        None \<Rightarrow>
          (count_descriptor (\<lambda>k. k\<lparr>dc_invalid_records := dc_invalid_records k + 1\<rparr>) c, dir, None)
      | Some v \<Rightarrow>
          if lc_max_regions c < int (length (di_regions v))
          then (count_descriptor (\<lambda>k. k\<lparr>dc_capacity_dropped := dc_capacity_dropped k + 1\<rparr>) c,
                dir, None)
          else case dumps_indented repr (inventory_to_payload (lc_evidence_label c) v) of
            Inl _ \<Rightarrow>
              (count_descriptor (\<lambda>k. k\<lparr>dc_invalid_records := dc_invalid_records k + 1\<rparr>) c, dir,
               None)
          | Inr t \<Rightarrow>
              if lc_max_record_bytes c < int (length (t @ [CHR 0x0A]))
              then (count_descriptor (\<lambda>k. k\<lparr>dc_capacity_dropped := dc_capacity_dropped k + 1\<rparr>) c,
                    dir, None)
              else case pi_token io of
                None \<Rightarrow> (count_io c, dir, None)
              | Some token \<Rightarrow>
                  publish c io (temporary_name (final_name v) token) (final_name v)
                    (t @ [CHR 0x0A]) dir)"

text \<open>\<open>closes\<close>: whether closing the directory's descriptor succeeds.\<close>

definition close_layout :: "bool \<Rightarrow> layout_capture \<Rightarrow> layout_capture" where
  "close_layout closes c =
     (if lc_closed c then c
      else let c' = c\<lparr>lc_closed := True, lc_directory_fd := False\<rparr>
           in if closes then c' else count_io c')"

definition layout_abandon_after_fork :: "layout_capture \<Rightarrow> layout_capture" where
  "layout_abandon_after_fork c = c\<lparr>lc_directory_fd := False, lc_closed := True\<rparr>"

section \<open>The asynchronous capture\<close>

record async_counters =
  aq_accepted :: nat
  aq_queue_full :: nat
  aq_invalid_records :: nat
  aq_closed_dropped :: nat
  aq_written :: nat
  aq_failed :: nat
  aq_cleanup_errors :: nat
  aq_result_callback_errors :: nat

record async_capture =
  ac_capture :: layout_capture
  ac_max_pending :: int
  ac_max_regions :: int
  ac_queue :: "descriptor_inventory list"
  ac_current :: "descriptor_inventory option"
  ac_closing :: bool
  ac_counts :: async_counters
  ac_writer_alive :: bool

definition zero_async_counters :: async_counters where
  "zero_async_counters =
     \<lparr>aq_accepted = 0, aq_queue_full = 0, aq_invalid_records = 0, aq_closed_dropped = 0,
      aq_written = 0, aq_failed = 0, aq_cleanup_errors = 0, aq_result_callback_errors = 0\<rparr>"

definition count_async ::
  "(async_counters \<Rightarrow> async_counters) \<Rightarrow> async_capture \<Rightarrow> async_capture" where
  "count_async f s = s\<lparr>ac_counts := f (ac_counts s)\<rparr>"

definition async_capture_new ::
  "capture_directory \<Rightarrow> bool \<Rightarrow> pyval \<Rightarrow> pyval \<Rightarrow> pyval \<Rightarrow> pyval \<Rightarrow> async_capture res" where
  "async_capture_new d thread_starts evidence_label max_pending max_regions max_record_bytes =
     res_bind (case max_pending of
         PInt n \<Rightarrow> if 1 \<le> n \<and> n \<le> DEFAULT_MAX_PENDING_DESCRIPTORS then Inr n else Inl ValueError
       | _ \<Rightarrow> Inl ValueError) (\<lambda>pending.
     res_bind (layout_capture_new d evidence_label max_regions max_record_bytes) (\<lambda>c.
     if \<not> thread_starts then Inl RuntimeError
     else Inr \<lparr>ac_capture = c, ac_max_pending = pending, ac_max_regions = lc_max_regions c,
            ac_queue = [], ac_current = None, ac_closing = False,
            ac_counts = zero_async_counters, ac_writer_alive = True\<rparr>))"

definition capture_async :: "async_capture \<Rightarrow> descriptor_inventory option \<Rightarrow> async_capture \<times> bool" where
  "capture_async s inventory =
     (if ac_closing s
      then (count_async (\<lambda>k. k\<lparr>aq_closed_dropped := aq_closed_dropped k + 1\<rparr>) s, False)
      else case inventory of
        None \<Rightarrow> (count_async (\<lambda>k. k\<lparr>aq_invalid_records := aq_invalid_records k + 1\<rparr>) s, False)
      | Some v \<Rightarrow>
          if ac_max_regions s < int (length (di_regions v))
          then (count_async (\<lambda>k. k\<lparr>aq_invalid_records := aq_invalid_records k + 1\<rparr>) s, False)
          else if ac_max_pending s \<le> int (length (ac_queue s))
          then (count_async (\<lambda>k. k\<lparr>aq_queue_full := aq_queue_full k + 1\<rparr>) s, False)
          else (count_async (\<lambda>k. k\<lparr>aq_accepted := aq_accepted k + 1\<rparr>)
                  (s\<lparr>ac_queue := ac_queue s @ [v]\<rparr>), True))"

text \<open>
  The writer: take an inventory, wait, or leave the loop and close the directory. Closing the
  capture never raises, so the handler of clean-up errors is never entered.
\<close>

definition writer_take :: "bool \<Rightarrow> async_capture \<Rightarrow> async_capture" where
  "writer_take closes s =
     (if \<not> ac_writer_alive s \<or> ac_current s \<noteq> None then s
      else case ac_queue s of
        [] \<Rightarrow>
          if ac_closing s
          then s\<lparr>ac_capture := close_layout closes (ac_capture s), ac_writer_alive := False\<rparr>
          else s
      | v # vs \<Rightarrow> s\<lparr>ac_queue := vs, ac_current := Some v\<rparr>)"

text \<open>
  The result is reported to the \<^verbatim>\<open>on_result\<close> callback, which may raise (\<open>reports\<close>). The writer
  finishes its inventory; whether it was written is the third component.
\<close>

definition writer_finish ::
  "(py_float \<Rightarrow> string) \<Rightarrow> publish_io \<Rightarrow> bool \<Rightarrow> async_capture \<times> directory \<Rightarrow>
     async_capture \<times> directory \<times> bool option" where
  "writer_finish repr io reports = (\<lambda>(s, dir).
     case ac_current s of
       None \<Rightarrow> (s, dir, None)
     | Some v \<Rightarrow>
         let (c, dir', name) = capture_layout repr (ac_capture s) io (Some v) dir;
             written = (name \<noteq> None);
             s' = count_async (\<lambda>k. if written then k\<lparr>aq_written := aq_written k + 1\<rparr>
                    else k\<lparr>aq_failed := aq_failed k + 1\<rparr>)
                    (s\<lparr>ac_capture := c, ac_current := None\<rparr>)
         in (if reports then s'
             else count_async (\<lambda>k. k\<lparr>aq_result_callback_errors := aq_result_callback_errors k + 1\<rparr>) s',
             dir', Some written))"

definition begin_close_async :: "async_capture \<Rightarrow> pyval \<Rightarrow> async_capture \<times> unit res" where
  "begin_close_async s timeout =
     (case check_timeout timeout of
        Inl e \<Rightarrow> (s, Inl e)
      | Inr _ \<Rightarrow> (s\<lparr>ac_closing := True\<rparr>, Inr ()))"

definition end_close_async :: "async_capture \<Rightarrow> bool res" where
  "end_close_async s =
     (if ac_writer_alive s then Inr False
      else if aq_cleanup_errors (ac_counts s) \<noteq> 0 then Inl OSError
      else Inr True)"

definition async_abandon_after_fork :: "async_capture \<Rightarrow> async_capture" where
  "async_abandon_after_fork s =
     s\<lparr>ac_closing := True, ac_capture := layout_abandon_after_fork (ac_capture s)\<rparr>"

end
