(* ===== verification/Config.thy ===== *)
theory Config
  imports Descriptors Normalization
begin

text \<open>
  config.py: the closed configuration of the observer. ConfigurationError is a ValueError. A
  \<^verbatim>\<open>Path\<close> is its string; building one from a string is the identity here.
\<close>

section \<open>Bounds\<close>

definition DEFAULT_SHUTDOWN_TIMEOUT_SECONDS :: rat where "DEFAULT_SHUTDOWN_TIMEOUT_SECONDS = 5"

definition MAX_SHUTDOWN_TIMEOUT_SECONDS :: rat where "MAX_SHUTDOWN_TIMEOUT_SECONDS = 30"

definition bounded_int :: "pyval \<Rightarrow> int \<Rightarrow> int \<Rightarrow> int res" where
  "bounded_int v minimum maximum =
     (case v of
        PInt n \<Rightarrow> if minimum \<le> n \<and> n \<le> maximum then Inr n else Inl ValueError
      | _ \<Rightarrow> Inl ValueError)"

text \<open>\<^verbatim>\<open>math.isfinite\<close> converts an int to a float, and overflows where that does.\<close>

definition timeout_seconds :: "pyval \<Rightarrow> rat res" where
  "timeout_seconds v =
     (case v of
        PInt n \<Rightarrow>
          if 2 ^ 1024 - 2 ^ 970 \<le> \<bar>n\<bar> then Inl OverflowError
          else if 0 \<le> n \<and> of_int n \<le> MAX_SHUTDOWN_TIMEOUT_SECONDS then Inr (of_int n)
          else Inl ValueError
      | PFloat (Finite q) \<Rightarrow>
          if 0 \<le> q \<and> q \<le> MAX_SHUTDOWN_TIMEOUT_SECONDS then Inr q else Inl ValueError
      | _ \<Rightarrow> Inl ValueError)"

section \<open>The configuration\<close>

text \<open>An argument that should be a path: None, a \<^verbatim>\<open>Path\<close>, or any other object.\<close>

datatype path_arg = No_Path | Path_Of string | No_Path_Object

record config_args =
  g_enabled :: pyval
  g_event_path :: path_arg
  g_descriptor_dir :: path_arg
  g_evidence_label :: pyval
  g_max_pending_records :: pyval
  g_max_record_bytes :: pyval
  g_max_file_bytes :: pyval
  g_max_correlated_transfers :: pyval
  g_max_recovery_admissions :: pyval
  g_max_descriptor_regions :: pyval
  g_max_pending_descriptors :: pyval
  g_max_descriptor_record_bytes :: pyval
  g_shutdown_timeout_seconds :: pyval

record observer_config =
  oc_enabled :: bool
  oc_event_path :: "string option"
  oc_descriptor_dir :: "string option"
  oc_evidence_label :: "evidence_label option"
  oc_max_pending_records :: int
  oc_max_record_bytes :: int
  oc_max_file_bytes :: int
  oc_max_correlated_transfers :: int
  oc_max_recovery_admissions :: int
  oc_max_descriptor_regions :: int
  oc_max_pending_descriptors :: int
  oc_max_descriptor_record_bytes :: int
  oc_shutdown_timeout_seconds :: rat

definition as_path :: "path_arg \<Rightarrow> string option res" where
  "as_path p =
     (case p of No_Path \<Rightarrow> Inr None | Path_Of s \<Rightarrow> Inr (Some s) | No_Path_Object \<Rightarrow> Inl ValueError)"

definition as_label :: "pyval \<Rightarrow> evidence_label option res" where
  "as_label v =
     (case v of PNone \<Rightarrow> Inr None | PEvidenceLabel l \<Rightarrow> Inr (Some l) | _ \<Rightarrow> Inl ValueError)"

definition make_config :: "config_args \<Rightarrow> observer_config res" where
  "make_config g =
     res_bind (case g_enabled g of PBool b \<Rightarrow> Inr b | _ \<Rightarrow> Inl ValueError) (\<lambda>enabled.
     res_bind (as_path (g_event_path g)) (\<lambda>event_path.
     res_bind (as_path (g_descriptor_dir g)) (\<lambda>descriptor_dir.
     res_bind (as_label (g_evidence_label g)) (\<lambda>label.
     if enabled \<and> event_path = None then Inl ValueError
     else if (descriptor_dir = None) \<noteq> (label = None) then Inl ValueError
     else
     res_bind (bounded_int (g_max_pending_records g) 1 DEFAULT_MAX_PENDING_RECORDS) (\<lambda>pending.
     res_bind (bounded_int (g_max_record_bytes g) MIN_RECORD_BYTES DEFAULT_MAX_RECORD_BYTES)
       (\<lambda>record_bytes.
     res_bind (bounded_int (g_max_file_bytes g) record_bytes DEFAULT_MAX_FILE_BYTES)
       (\<lambda>file_bytes.
     res_bind (bounded_int (g_max_correlated_transfers g) 1 (int MAX_TRANSFER_ASSOCIATIONS))
       (\<lambda>transfers.
     res_bind (bounded_int (g_max_recovery_admissions g) 1 (int MAX_TRANSFER_ASSOCIATIONS))
       (\<lambda>admissions.
     res_bind (bounded_int (g_max_pending_descriptors g) 1 DEFAULT_MAX_PENDING_DESCRIPTORS)
       (\<lambda>descriptors.
     res_bind (bounded_int (g_max_descriptor_regions g) 1 (int MAX_DESCRIPTOR_REGIONS))
       (\<lambda>regions.
     res_bind (bounded_int (g_max_descriptor_record_bytes g) 1 DEFAULT_MAX_DESCRIPTOR_RECORD_BYTES)
       (\<lambda>descriptor_bytes.
     res_bind (timeout_seconds (g_shutdown_timeout_seconds g)) (\<lambda>timeout.
     Inr \<lparr>oc_enabled = enabled, oc_event_path = event_path, oc_descriptor_dir = descriptor_dir,
       oc_evidence_label = label, oc_max_pending_records = pending,
       oc_max_record_bytes = record_bytes, oc_max_file_bytes = file_bytes,
       oc_max_correlated_transfers = transfers, oc_max_recovery_admissions = admissions,
       oc_max_descriptor_regions = regions, oc_max_pending_descriptors = descriptors,
       oc_max_descriptor_record_bytes = descriptor_bytes,
       oc_shutdown_timeout_seconds = timeout\<rparr>)))))))))))))"

section \<open>From a mapping\<close>

definition config_path :: "pyval \<Rightarrow> path_arg res" where
  "config_path v =
     (case v of
        PNone \<Rightarrow> Inr No_Path
      | PStr s \<Rightarrow> if s = [] \<or> CHR 0x00 \<in> set s then Inl ValueError else Inr (Path_Of s)
      | _ \<Rightarrow> Inl ValueError)"

definition config_label :: "pyval \<Rightarrow> pyval res" where
  "config_label v =
     (case v of
        PNone \<Rightarrow> Inr PNone
      | _ \<Rightarrow> (case to_evidence v of Inl e \<Rightarrow> Inl ValueError | Inr l \<Rightarrow> Inr (PEvidenceLabel l)))"

definition CONFIG_FIELDS :: "string list" where
  "CONFIG_FIELDS =
     [''enabled'', ''event_path'', ''descriptor_dir'', ''evidence_label'',
      ''max_pending_records'', ''max_record_bytes'', ''max_file_bytes'',
      ''max_correlated_transfers'', ''max_recovery_admissions'', ''max_descriptor_regions'',
      ''max_pending_descriptors'', ''max_descriptor_record_bytes'',
      ''shutdown_timeout_seconds'']"

text \<open>The mapping: None for an object that is none; its keys need not be strings.\<close>

definition from_mapping :: "(pyval \<times> pyval) list option \<Rightarrow> observer_config res" where
  "from_mapping raw =
     (case raw of
        None \<Rightarrow> Inl ValueError
      | Some items \<Rightarrow>
          res_bind (res_map (\<lambda>(k, v). case k of PStr s \<Rightarrow> Inr (s, v) | _ \<Rightarrow> Inl ValueError) items)
            (\<lambda>d.
          if \<not> set (map fst d) \<subseteq> set CONFIG_FIELDS then Inl ValueError
          else
            res_bind (config_path (kwarg d ''event_path'' PNone)) (\<lambda>event_path.
            res_bind (config_path (kwarg d ''descriptor_dir'' PNone)) (\<lambda>descriptor_dir.
            res_bind (config_label (kwarg d ''evidence_label'' PNone)) (\<lambda>label.
            make_config
              \<lparr>g_enabled = kwarg d ''enabled'' (PBool False), g_event_path = event_path,
               g_descriptor_dir = descriptor_dir, g_evidence_label = label,
               g_max_pending_records =
                 kwarg d ''max_pending_records'' (PInt DEFAULT_MAX_PENDING_RECORDS),
               g_max_record_bytes =
                 kwarg d ''max_record_bytes'' (PInt DEFAULT_MAX_RECORD_BYTES),
               g_max_file_bytes = kwarg d ''max_file_bytes'' (PInt DEFAULT_MAX_FILE_BYTES),
               g_max_correlated_transfers =
                 kwarg d ''max_correlated_transfers'' (PInt (int DEFAULT_MAX_CORRELATED_TRANSFERS)),
               g_max_recovery_admissions =
                 kwarg d ''max_recovery_admissions'' (PInt (int DEFAULT_MAX_RECOVERY_ADMISSIONS)),
               g_max_descriptor_regions =
                 kwarg d ''max_descriptor_regions'' (PInt (int MAX_DESCRIPTOR_REGIONS)),
               g_max_pending_descriptors =
                 kwarg d ''max_pending_descriptors'' (PInt DEFAULT_MAX_PENDING_DESCRIPTORS),
               g_max_descriptor_record_bytes =
                 kwarg d ''max_descriptor_record_bytes''
                   (PInt DEFAULT_MAX_DESCRIPTOR_RECORD_BYTES),
               g_shutdown_timeout_seconds =
                 kwarg d ''shutdown_timeout_seconds''
                   (PFloat (Finite DEFAULT_SHUTDOWN_TIMEOUT_SECONDS))\<rparr>)))))"

section \<open>What a configuration accepts\<close>

text \<open>The configurations the observer can run with.\<close>

definition valid_config :: "observer_config \<Rightarrow> bool" where
  "valid_config c \<longleftrightarrow>
     (oc_enabled c \<longrightarrow> oc_event_path c \<noteq> None) \<and>
     (oc_descriptor_dir c = None \<longleftrightarrow> oc_evidence_label c = None) \<and>
     oc_max_pending_records c \<in> {1..4096} \<and>
     oc_max_record_bytes c \<in> {MIN_RECORD_BYTES..DEFAULT_MAX_RECORD_BYTES} \<and>
     oc_max_file_bytes c \<in> {oc_max_record_bytes c..DEFAULT_MAX_FILE_BYTES} \<and>
     oc_max_correlated_transfers c \<in> {1..4096} \<and> oc_max_recovery_admissions c \<in> {1..4096} \<and>
     oc_max_pending_descriptors c \<in> {1..16} \<and> oc_max_descriptor_regions c \<in> {1..4096} \<and>
     oc_max_descriptor_record_bytes c \<in> {1..1024 * 1024} \<and>
     oc_shutdown_timeout_seconds c \<in> {0..30}"

text \<open>The value an argument spells: an int, and a number of seconds.\<close>

definition spells_seconds :: "pyval \<Rightarrow> rat \<Rightarrow> bool" where
  "spells_seconds v q \<longleftrightarrow> v = PFloat (Finite q) \<or> (\<exists>n. v = PInt n \<and> q = of_int n)"

lemma bounded_int_iff:
  "bounded_int v lo hi = Inr n \<longleftrightarrow> v = PInt n \<and> n \<in> {lo..hi}"
  by (auto simp: bounded_int_def split: pyval.splits)

lemma small_int_converts: "\<bar>n\<bar> \<le> 30 \<Longrightarrow> \<not> (2 ^ 1024 - 2 ^ 970 \<le> \<bar>n :: int\<bar>)"
proof -
  have "(2 :: int) ^ 1024 = 2 ^ 970 * 2 ^ 54" by (simp flip: power_add)
  moreover have "(2 :: int) ^ 54 = 18014398509481984" "(1 :: int) \<le> 2 ^ 970" by simp_all
  ultimately have "(30 :: int) < 2 ^ 1024 - 2 ^ 970" by simp
  then show "\<bar>n\<bar> \<le> 30 \<Longrightarrow> ?thesis" by linarith
qed

lemma timeout_seconds_iff:
  "timeout_seconds v = Inr q \<longleftrightarrow> spells_seconds v q \<and> q \<in> {0..30}"
proof (cases v)
  case (PInt n)
  have "(of_int n \<le> (30 :: rat)) = (n \<le> 30)" by linarith
  then show ?thesis using small_int_converts [of n]
    by (auto simp: timeout_seconds_def PInt spells_seconds_def MAX_SHUTDOWN_TIMEOUT_SECONDS_def)
next
  case (PFloat f)
  then show ?thesis
    by (cases f) (auto simp: timeout_seconds_def spells_seconds_def MAX_SHUTDOWN_TIMEOUT_SECONDS_def)
qed (simp_all add: timeout_seconds_def spells_seconds_def)

definition path_arg_of :: "string option \<Rightarrow> path_arg" where
  "path_arg_of p = (case p of None \<Rightarrow> No_Path | Some s \<Rightarrow> Path_Of s)"

definition label_arg :: "evidence_label option \<Rightarrow> pyval" where
  "label_arg l = (case l of None \<Rightarrow> PNone | Some x \<Rightarrow> PEvidenceLabel x)"

definition spells_config :: "config_args \<Rightarrow> observer_config \<Rightarrow> bool" where
  "spells_config g c \<longleftrightarrow>
     g_enabled g = PBool (oc_enabled c) \<and> g_event_path g = path_arg_of (oc_event_path c) \<and>
     g_descriptor_dir g = path_arg_of (oc_descriptor_dir c) \<and>
     g_evidence_label g = label_arg (oc_evidence_label c) \<and>
     g_max_pending_records g = PInt (oc_max_pending_records c) \<and>
     g_max_record_bytes g = PInt (oc_max_record_bytes c) \<and>
     g_max_file_bytes g = PInt (oc_max_file_bytes c) \<and>
     g_max_correlated_transfers g = PInt (oc_max_correlated_transfers c) \<and>
     g_max_recovery_admissions g = PInt (oc_max_recovery_admissions c) \<and>
     g_max_descriptor_regions g = PInt (oc_max_descriptor_regions c) \<and>
     g_max_pending_descriptors g = PInt (oc_max_pending_descriptors c) \<and>
     g_max_descriptor_record_bytes g = PInt (oc_max_descriptor_record_bytes c) \<and>
     spells_seconds (g_shutdown_timeout_seconds g) (oc_shutdown_timeout_seconds c)"

lemma as_path_iff: "as_path p = Inr x \<longleftrightarrow> p = path_arg_of x"
  by (auto simp: as_path_def path_arg_of_def split: path_arg.splits option.splits)

lemma as_label_iff: "as_label v = Inr x \<longleftrightarrow> v = label_arg x"
  by (auto simp: as_label_def label_arg_def split: pyval.splits option.splits)

lemma enabled_iff: "(case v of PBool b \<Rightarrow> Inr b | _ \<Rightarrow> Inl ValueError) = Inr x \<longleftrightarrow> v = PBool x"
  by (auto split: pyval.splits)

lemma if_error: "(if P then Inl e else r) = Inr x \<longleftrightarrow> \<not> P \<and> r = Inr x"
  by simp

lemma make_config_iff: "make_config g = Inr c \<longleftrightarrow> spells_config g c \<and> valid_config c"
  by (cases c) (auto simp: make_config_def as_path_iff as_label_iff enabled_iff bounded_int_iff
      timeout_seconds_iff spells_config_def valid_config_def DEFAULT_MAX_PENDING_RECORDS_def
      MAX_TRANSFER_ASSOCIATIONS_def DEFAULT_MAX_PENDING_DESCRIPTORS_def MAX_DESCRIPTOR_REGIONS_def
      DEFAULT_MAX_DESCRIPTOR_RECORD_BYTES_def split: if_splits)

text \<open>How a configuration is refused.\<close>

definition huge_timeout :: "config_args \<Rightarrow> bool" where
  "huge_timeout g \<longleftrightarrow> (\<exists>n. g_shutdown_timeout_seconds g = PInt n \<and> 2 ^ 1024 - 2 ^ 970 \<le> \<bar>n\<bar>)"

definition refuses :: "py_exc set \<Rightarrow> 'a res \<Rightarrow> bool" where
  "refuses E r \<longleftrightarrow> (case r of Inl e \<Rightarrow> e \<in> E | Inr _ \<Rightarrow> True)"

lemma refuses_bind:
  assumes "refuses E r" "\<And>x. refuses E (f x)"
  shows "refuses E (res_bind r f)"
  using assms(1) assms(2) [of "projr r"] by (cases r) (auto simp: refuses_def res_bind_def)

lemma refuses_rules:
  "refuses E (Inr x)"
  "e \<in> E \<Longrightarrow> refuses E (Inl e)"
  "refuses E r \<Longrightarrow> refuses E s \<Longrightarrow> refuses E (if c then r else s)"
  by (auto simp: refuses_def res_bind_def split: sum.splits)

definition config_errors :: "config_args \<Rightarrow> py_exc set" where
  "config_errors g = {ValueError} \<union> (if huge_timeout g then {OverflowError} else {})"

lemma refuses_parts:
  assumes "ValueError \<in> E"
  shows "refuses E (bounded_int v lo hi)" "refuses E (as_path p)" "refuses E (as_label v)"
    "refuses E (case v of PBool b \<Rightarrow> Inr b | _ \<Rightarrow> Inl ValueError)"
    "refuses E (config_path v)" "refuses E (config_label v)"
  using assms
  by (auto simp: refuses_def bounded_int_def as_path_def as_label_def config_path_def
      config_label_def split: pyval.splits path_arg.splits sum.splits)

lemma refuses_timeout:
  "refuses (config_errors g) (timeout_seconds (g_shutdown_timeout_seconds g))"
  by (auto simp: refuses_def timeout_seconds_def config_errors_def huge_timeout_def
      split: pyval.splits py_float.splits)

lemma config_value_error: "ValueError \<in> config_errors g"
  by (simp add: config_errors_def)

lemma make_config_refuses: "refuses (config_errors g) (make_config g)"
  unfolding make_config_def
  by (intro refuses_bind refuses_rules refuses_parts refuses_timeout config_value_error)

section \<open>Properties\<close>

definition demo_huge_timeout :: "(pyval \<times> pyval) list" where
  "demo_huge_timeout = [(PStr ''shutdown_timeout_seconds'', PInt (10 ^ 400))]"

lemma huge_power: "2 ^ 1024 - 2 ^ 970 \<le> \<bar>(10 :: int) ^ 400\<bar>"
proof -
  have "(2 :: int) ^ 1024 \<le> (2 ^ 3) ^ 400" by (simp flip: power_mult)
  also have "\<dots> \<le> 10 ^ 400" by (rule power_mono) simp_all
  finally have "(2 :: int) ^ 1024 \<le> 10 ^ 400" .
  moreover have "(0 :: int) \<le> 2 ^ 970" "(0 :: int) \<le> 10 ^ 400" by simp_all
  ultimately show ?thesis by linarith
qed

lemma demo_huge_rejected: "from_mapping (Some demo_huge_timeout) = Inl OverflowError"
proof -
  have "timeout_seconds (PInt (10 ^ 400)) = Inl OverflowError"
    using huge_power by (simp only: timeout_seconds_def pyval.case if_True)
  then show ?thesis
    by (simp add: from_mapping_def demo_huge_timeout_def CONFIG_FIELDS_def kwarg_def
        config_path_def config_label_def make_config_def as_path_def as_label_def bounded_int_def
        DEFAULT_MAX_PENDING_RECORDS_def MIN_RECORD_BYTES_def DEFAULT_MAX_RECORD_BYTES_def
        DEFAULT_MAX_FILE_BYTES_def DEFAULT_MAX_CORRELATED_TRANSFERS_def
        DEFAULT_MAX_RECOVERY_ADMISSIONS_def MAX_TRANSFER_ASSOCIATIONS_def
        DEFAULT_MAX_PENDING_DESCRIPTORS_def MAX_DESCRIPTOR_REGIONS_def
        DEFAULT_MAX_DESCRIPTOR_RECORD_BYTES_def del: power_numeral)
qed

text \<open>
  C37: a configuration is accepted exactly when its arguments spell a valid one: an enabled
  observer has an event path, the descriptor directory comes with its evidence label, and every
  number is within its bounds. Otherwise it raises ConfigurationError, a ValueError, except that a
  timeout given as an integer too large for a float raises OverflowError, also when the
  configuration is read from a mapping.
\<close>

theorem config_exact:
  "(make_config g = Inr c \<longleftrightarrow> spells_config g c \<and> valid_config c) \<and>
   refuses (config_errors g) (make_config g) \<and>
   from_mapping (Some demo_huge_timeout) = Inl OverflowError"
  using make_config_iff make_config_refuses demo_huge_rejected by blast

end
