(* ===== verification/Adapter.thy ===== *)
theory Adapter
  imports Config Native Events
begin

text \<open>
  adapter.py: the host adapter, which owns a normalizer, an event sink and perhaps a descriptor
  capture between \<^verbatim>\<open>start\<close> and \<^verbatim>\<open>stop\<close>, and counts what becomes of every callback.

  The world of a step is the adapter with the event file and the capture directory. A binding is
  what its \<^verbatim>\<open>contract_version\<close>, \<^verbatim>\<open>register\<close> and \<^verbatim>\<open>unregister\<close> answer. While \<^verbatim>\<open>start\<close> and \<^verbatim>\<open>stop\<close>
  call the binding or join a writer, callbacks and writers go on: the lists of \<open>busy\<close> steps say
  which, in order. A callback is one step; the clock readings are arguments.
\<close>

section \<open>State and counters\<close>

datatype adapter_state = STOPPED | STARTING | ACTIVE | STOPPING

record adapter_counters =
  k_registrations :: nat
  k_observations_received :: nat
  k_observations_emitted :: nat
  k_host_facts_received :: nat
  k_host_facts_emitted :: nat
  k_host_facts_dropped :: nat
  k_correlated_received :: nat
  k_correlated_emitted :: nat
  k_correlated_dropped :: nat
  k_normalization_dropped :: nat
  k_sink_dropped :: nat
  k_descriptors_received :: nat
  k_descriptors_queued :: nat
  k_descriptors_written :: nat
  k_descriptors_dropped :: nat
  k_inactive_dropped :: nat
  k_callback_errors :: nat
  k_unregister_errors :: nat
  k_cleanup_errors :: nat
  k_shutdown_timeouts :: nat

record adapter =
  ad_config :: observer_config
  ad_retain_restore_receipts :: bool
  ad_state :: adapter_state
  ad_counters :: adapter_counters
  ad_binding :: bool
  ad_handle :: "pyval option"
  ad_normalizer :: "normalizer option"
  ad_sink :: "event_sink option"
  ad_capture :: "async_capture option"

definition zero_adapter_counters :: adapter_counters where
  "zero_adapter_counters =
     \<lparr>k_registrations = 0, k_observations_received = 0, k_observations_emitted = 0,
      k_host_facts_received = 0, k_host_facts_emitted = 0, k_host_facts_dropped = 0,
      k_correlated_received = 0, k_correlated_emitted = 0, k_correlated_dropped = 0,
      k_normalization_dropped = 0, k_sink_dropped = 0, k_descriptors_received = 0,
      k_descriptors_queued = 0, k_descriptors_written = 0, k_descriptors_dropped = 0,
      k_inactive_dropped = 0, k_callback_errors = 0, k_unregister_errors = 0,
      k_cleanup_errors = 0, k_shutdown_timeouts = 0\<rparr>"

text \<open>None: an object that is no configuration.\<close>

definition host_adapter :: "observer_config option \<Rightarrow> pyval \<Rightarrow> adapter res" where
  "host_adapter config retain =
     (case (config, retain) of
        (Some c, PBool keep) \<Rightarrow> Inr
          \<lparr>ad_config = c, ad_retain_restore_receipts = keep, ad_state = STOPPED,
           ad_counters = zero_adapter_counters, ad_binding = False, ad_handle = None,
           ad_normalizer = None, ad_sink = None, ad_capture = None\<rparr>
      | _ \<Rightarrow> Inl TypeError)"

definition count_adapter :: "(adapter_counters \<Rightarrow> adapter_counters) \<Rightarrow> adapter \<Rightarrow> adapter" where
  "count_adapter f a = a\<lparr>ad_counters := f (ad_counters a)\<rparr>"

section \<open>Callbacks\<close>

definition inactive :: "adapter \<Rightarrow> adapter \<times> bool" where
  "inactive a = (count_adapter (k_inactive_dropped_update Suc) a, False)"

text \<open>Both \<^verbatim>\<open>try\<close> blocks: an exception is counted and the call answers False.\<close>

definition callback_error :: "adapter \<Rightarrow> adapter \<times> bool" where
  "callback_error a = (count_adapter (k_callback_errors_update Suc) a, False)"

definition observe :: "(py_float \<Rightarrow> string) \<Rightarrow> adapter \<Rightarrow> source_observation \<Rightarrow> adapter \<times> bool" where
  "observe repr a source =
     (if ad_state a \<noteq> ACTIVE then inactive a
      else
        let a1 = count_adapter (k_observations_received_update Suc) a in
        case (ad_normalizer a, ad_sink a) of
          (Some n, Some s) \<Rightarrow>
            (case normalize n source of
               (n', Inl _) \<Rightarrow> callback_error (a1\<lparr>ad_normalizer := Some n'\<rparr>)
             | (n', Inr None) \<Rightarrow>
                 (count_adapter (k_normalization_dropped_update Suc) (a1\<lparr>ad_normalizer := Some n'\<rparr>),
                  False)
             | (n', Inr (Some ob)) \<Rightarrow>
                 let a2 = a1\<lparr>ad_normalizer := Some n'\<rparr> in
                 (case emit repr s (Event_Record ob) of
                    (s', Inl _) \<Rightarrow> callback_error (a2\<lparr>ad_sink := Some s'\<rparr>)
                  | (s', Inr False) \<Rightarrow>
                      (count_adapter (k_sink_dropped_update Suc) (a2\<lparr>ad_sink := Some s'\<rparr>), False)
                  | (s', Inr True) \<Rightarrow>
                      (count_adapter (k_observations_emitted_update Suc)
                         (a2\<lparr>ad_sink := Some s'\<rparr>), True)))
        | _ \<Rightarrow> callback_error a1)"

definition capture_descriptor :: "adapter \<Rightarrow> descriptor_inventory option \<Rightarrow> adapter \<times> bool" where
  "capture_descriptor a inventory =
     (if ad_state a \<noteq> ACTIVE then inactive a
      else
        let a1 = count_adapter (k_descriptors_received_update Suc) a in
        case ad_capture a of
          None \<Rightarrow> (count_adapter (k_descriptors_dropped_update Suc) a1, False)
        | Some c \<Rightarrow>
            let (c', output) = capture_async c inventory in
            (count_adapter
               (if output then k_descriptors_queued_update Suc else k_descriptors_dropped_update Suc)
               (a1\<lparr>ad_capture := Some c'\<rparr>), output))"

text \<open>\<^verbatim>\<open>sink is not None and sink.emit(record)\<close>, in a \<^verbatim>\<open>try\<close>.\<close>

definition offer_record :: "(py_float \<Rightarrow> string) \<Rightarrow> adapter \<Rightarrow> typed_record \<Rightarrow> adapter \<times> bool" where
  "offer_record repr a r =
     (case ad_sink a of
        None \<Rightarrow> (a, False)
      | Some s \<Rightarrow>
          (case emit repr s r of
             (s', Inl _) \<Rightarrow> callback_error (a\<lparr>ad_sink := Some s'\<rparr>)
           | (s', Inr accepted) \<Rightarrow> (a\<lparr>ad_sink := Some s'\<rparr>, accepted)))"

definition observe_host_fact_record ::
  "(py_float \<Rightarrow> string) \<Rightarrow> adapter \<Rightarrow> typed_record \<Rightarrow> adapter \<times> bool" where
  "observe_host_fact_record repr a f =
     (if ad_state a \<noteq> ACTIVE then inactive a
      else
        let (a', accepted) =
          offer_record repr (count_adapter (k_host_facts_received_update Suc) a) f in
        (count_adapter
           (if accepted then k_host_facts_emitted_update Suc else k_host_facts_dropped_update Suc) a',
         accepted))"

definition observe_correlated ::
  "(py_float \<Rightarrow> string) \<Rightarrow> adapter \<Rightarrow> typed_record \<Rightarrow> adapter \<times> bool" where
  "observe_correlated repr a r =
     (if ad_state a \<noteq> ACTIVE then inactive a
      else
        let (a', accepted) =
          offer_record repr (count_adapter (k_correlated_received_update Suc) a) r in
        (count_adapter
           (if accepted then k_correlated_emitted_update Suc else k_correlated_dropped_update Suc) a',
         accepted))"

definition descriptor_result :: "bool \<Rightarrow> adapter \<Rightarrow> adapter" where
  "descriptor_result ok =
     count_adapter
       (if ok then k_descriptors_written_update Suc else k_descriptors_dropped_update Suc)"

section \<open>Callbacks and writers in the world\<close>

record adapter_world =
  aw_adapter :: adapter
  aw_contents :: string
  aw_directory :: directory

datatype busy =
    Observe source_observation
  | Offer_Descriptor "descriptor_inventory option"
  | Offer_Fact typed_record
  | Offer_Correlated typed_record
  | Sink_Take
  | Sink_Finish file_io
  | Capture_Take bool
  | Capture_Finish publish_io

definition in_adapter :: "(adapter \<Rightarrow> adapter) \<Rightarrow> adapter_world \<Rightarrow> adapter_world" where
  "in_adapter f w = w\<lparr>aw_adapter := f (aw_adapter w)\<rparr>"

definition sink_finish :: "file_io \<Rightarrow> adapter_world \<Rightarrow> adapter_world" where
  "sink_finish io w =
     (case ad_sink (aw_adapter w) of
        None \<Rightarrow> w
      | Some s \<Rightarrow>
          let (s', contents) = worker_finish s (aw_contents w) io in
          in_adapter (ad_sink_update (\<lambda>_. Some s')) (w\<lparr>aw_contents := contents\<rparr>))"

text \<open>The capture's writer reports each result to \<^verbatim>\<open>_descriptor_result\<close>, which never raises.\<close>

definition capture_finish ::
  "(py_float \<Rightarrow> string) \<Rightarrow> publish_io \<Rightarrow> adapter_world \<Rightarrow> adapter_world" where
  "capture_finish repr io w =
     (case ad_capture (aw_adapter w) of
        None \<Rightarrow> w
      | Some c \<Rightarrow>
          let (c', dir, result) = writer_finish repr io True (c, aw_directory w) in
          in_adapter
            (\<lambda>a. (case result of None \<Rightarrow> id | Some b \<Rightarrow> descriptor_result b)
               (a\<lparr>ad_capture := Some c'\<rparr>))
            (w\<lparr>aw_directory := dir\<rparr>))"

fun busy_step :: "(py_float \<Rightarrow> string) \<Rightarrow> adapter_world \<Rightarrow> busy \<Rightarrow> adapter_world" where
  "busy_step repr w (Observe x) = in_adapter (\<lambda>a. fst (observe repr a x)) w"
| "busy_step repr w (Offer_Descriptor v) = in_adapter (\<lambda>a. fst (capture_descriptor a v)) w"
| "busy_step repr w (Offer_Fact f) = in_adapter (\<lambda>a. fst (observe_host_fact_record repr a f)) w"
| "busy_step repr w (Offer_Correlated r) = in_adapter (\<lambda>a. fst (observe_correlated repr a r)) w"
| "busy_step repr w Sink_Take = in_adapter (ad_sink_update (map_option worker_take)) w"
| "busy_step repr w (Sink_Finish io) = sink_finish io w"
| "busy_step repr w (Capture_Take released) =
     in_adapter (ad_capture_update (map_option (writer_take released))) w"
| "busy_step repr w (Capture_Finish io) = capture_finish repr io w"

section \<open>Closing the resources\<close>

definition count_cleanup :: "adapter \<Rightarrow> adapter" where
  "count_cleanup = count_adapter (k_cleanup_errors_update Suc)"

definition count_timeout :: "adapter \<Rightarrow> adapter" where
  "count_timeout = count_adapter (k_shutdown_timeouts_update Suc)"

text \<open>\<^verbatim>\<open>max(0.0, deadline - monotonic())\<close>\<close>

definition remaining :: "adapter \<Rightarrow> rat \<Rightarrow> rat \<Rightarrow> pyval" where
  "remaining a started now =
     PFloat (Finite (max 0 (started + oc_shutdown_timeout_seconds (ad_config a) - now)))"

definition close_capture ::
  "(py_float \<Rightarrow> string) \<Rightarrow> pyval \<Rightarrow> busy list \<Rightarrow> adapter_world \<Rightarrow> adapter_world \<times> bool" where
  "close_capture repr timeout during w =
     (case ad_capture (aw_adapter w) of
        None \<Rightarrow> (w, True)
      | Some c \<Rightarrow>
          (case begin_close_async c timeout of
             (c', Inl _) \<Rightarrow>
               (in_adapter (count_cleanup \<circ> ad_capture_update (\<lambda>_. Some c')) w, False)
           | (c', Inr _) \<Rightarrow>
               let w' = run (busy_step repr) during
                 (in_adapter (ad_capture_update (\<lambda>_. Some c')) w) in
               (case map_option end_close_async (ad_capture (aw_adapter w')) of
                  Some (Inr True) \<Rightarrow> (w', True)
                | Some (Inr False) \<Rightarrow> (in_adapter count_timeout w', False)
                | _ \<Rightarrow> (in_adapter count_cleanup w', False))))"

definition close_sink ::
  "(py_float \<Rightarrow> string) \<Rightarrow> pyval \<Rightarrow> busy list \<Rightarrow> adapter_world \<Rightarrow> adapter_world \<times> bool" where
  "close_sink repr timeout during w =
     (case ad_sink (aw_adapter w) of
        None \<Rightarrow> (w, True)
      | Some s \<Rightarrow>
          (case begin_close s timeout of
             (s', Inl _) \<Rightarrow> (in_adapter (count_cleanup \<circ> ad_sink_update (\<lambda>_. Some s')) w, False)
           | (s', Inr _) \<Rightarrow>
               let w' = run (busy_step repr) during
                 (in_adapter (ad_sink_update (\<lambda>_. Some s')) w) in
               (case ad_sink (aw_adapter w') of
                  None \<Rightarrow> (w', False)
                | Some s'' \<Rightarrow>
                    let (s3, ok) = end_close s''; w3 = in_adapter (ad_sink_update (\<lambda>_. Some s3)) w'
                    in (if ok then w3 else in_adapter count_timeout w3, ok))))"

text \<open>
  The readings of the clock when closing starts, before the capture and before the sink, and
  what happens while each of the two is joined.
\<close>

record closing =
  cl_started :: rat
  cl_capture_now :: rat
  cl_sink_now :: rat
  cl_during_capture :: "busy list"
  cl_during_sink :: "busy list"

definition close_prepared_resources ::
  "(py_float \<Rightarrow> string) \<Rightarrow> closing \<Rightarrow> adapter_world \<Rightarrow> adapter_world \<times> bool" where
  "close_prepared_resources repr cl w =
     (let left = remaining (aw_adapter w) (cl_started cl);
          w1 = in_adapter (ad_normalizer_update (map_option close_normalizer)) w;
          (w2, capture_ok) =
            close_capture repr (left (cl_capture_now cl)) (cl_during_capture cl) w1;
          (w3, sink_ok) = close_sink repr (left (cl_sink_now cl)) (cl_during_sink cl) w2
      in (w3, capture_ok \<and> sink_ok))"

section \<open>Starting\<close>

text \<open>
  What \<^verbatim>\<open>start\<close> meets: the binding's contract (the exception of looking it up), the event
  destination, the capture directory and whether its writer starts, what \<^verbatim>\<open>register\<close> returns,
  what happens meanwhile, and how closing goes where it must.
\<close>

record starting =
  st_contract :: "pyval res"
  st_destination :: destination
  st_capture_directory :: capture_directory
  st_capture_thread :: bool
  st_registered :: "pyval res"
  st_during_register :: "busy list"
  st_closing :: closing

definition prepare_resources ::
  "(py_float \<Rightarrow> string) \<Rightarrow> starting \<Rightarrow> adapter_world \<Rightarrow>
     adapter_world \<times> (normalizer \<times> event_sink \<times> async_capture option) res" where
  "prepare_resources repr st w =
     (let a = aw_adapter w; c = ad_config a;
          give_up = (\<lambda>n s e.
            let (w', _) = close_prepared_resources repr (st_closing st)
                  (in_adapter (\<lambda>a. a\<lparr>ad_normalizer := Some n, ad_sink := s, ad_capture := None\<rparr>) w)
            in (in_adapter (\<lambda>a. a\<lparr>ad_normalizer := None, ad_sink := None, ad_capture := None\<rparr>) w',
                Inl e))
      in case lifecycle_normalizer (PInt (oc_max_correlated_transfers c))
             (PInt (oc_max_recovery_admissions c)) (PBool (ad_retain_restore_receipts a)) of
           Inl e \<Rightarrow> (w, Inl e)
         | Inr n \<Rightarrow>
             (case jsonl_event_sink (map_option (\<lambda>_. st_destination st) (oc_event_path c))
                 (PInt (oc_max_pending_records c)) (PInt (oc_max_record_bytes c))
                 (PInt (oc_max_file_bytes c)) of
                Inl e \<Rightarrow> give_up n None e
              | Inr s \<Rightarrow>
                  if oc_descriptor_dir c = None then (w, Inr (n, s, None))
                  else
                    (case async_capture_new (st_capture_directory st) (st_capture_thread st)
                        (case oc_evidence_label c of None \<Rightarrow> PNone | Some l \<Rightarrow> PEvidenceLabel l)
                        (PInt (oc_max_pending_descriptors c)) (PInt (oc_max_descriptor_regions c))
                        (PInt (oc_max_descriptor_record_bytes c)) of
                       Inl e \<Rightarrow> give_up n (Some s) e
                     | Inr cap \<Rightarrow> (w, Inr (n, s, Some cap)))))"

definition release_resources :: "adapter_state \<Rightarrow> adapter \<Rightarrow> adapter" where
  "release_resources state a =
     a\<lparr>ad_normalizer := None, ad_sink := None, ad_capture := None, ad_state := state\<rparr>"

text \<open>Every error of \<^verbatim>\<open>start\<close> is an AdapterActivationError, a RuntimeError.\<close>

definition start ::
  "(py_float \<Rightarrow> string) \<Rightarrow> starting \<Rightarrow> adapter_world \<Rightarrow> adapter_world \<times> bool res" where
  "start repr st w =
     (let a = aw_adapter w in
      if \<not> oc_enabled (ad_config a) then (w, Inr False)
      else if ad_state a \<noteq> STOPPED then (w, Inr False)
      else case st_contract st of
        Inl _ \<Rightarrow> (w, Inl RuntimeError)
      | Inr contract \<Rightarrow>
          if str_of contract \<noteq> Some HOST_OBSERVER_CONTRACT then (w, Inl RuntimeError)
          else
            (case prepare_resources repr st w of
               (w', Inl _) \<Rightarrow> (w', Inl RuntimeError)
             | (w', Inr (n, s, c)) \<Rightarrow>
                 let w1 = run (busy_step repr) (st_during_register st)
                   (in_adapter (\<lambda>a. a\<lparr>ad_state := STARTING, ad_normalizer := Some n,
                      ad_sink := Some s, ad_capture := c\<rparr>) w')
                 in (case st_registered st of
                       Inr handle \<Rightarrow>
                         if handle = PNone
                         then (in_adapter (release_resources STOPPED)
                                 (fst (close_prepared_resources repr (st_closing st) w1)),
                               Inl RuntimeError)
                         else
                           (in_adapter (\<lambda>a. count_adapter (k_registrations_update Suc)
                              (a\<lparr>ad_binding := True, ad_handle := Some handle, ad_state := ACTIVE\<rparr>)) w1,
                            Inr True)
                     | Inl _ \<Rightarrow>
                         (in_adapter (release_resources STOPPED)
                            (fst (close_prepared_resources repr (st_closing st) w1)),
                          Inl RuntimeError))))"

section \<open>Stopping\<close>

record stopping =
  sp_unregistered :: "unit res"
  sp_during_unregister :: "busy list"
  sp_closing :: closing

definition writers_alive :: "adapter \<Rightarrow> bool" where
  "writers_alive a \<longleftrightarrow>
     (case ad_capture a of None \<Rightarrow> False | Some c \<Rightarrow> ac_writer_alive c) \<or>
     (case ad_sink a of None \<Rightarrow> False | Some s \<Rightarrow> sink_is_alive s)"

definition unregister_handle ::
  "(py_float \<Rightarrow> string) \<Rightarrow> stopping \<Rightarrow> adapter_world \<Rightarrow> adapter_world \<times> bool" where
  "unregister_handle repr sp w =
     (if ad_binding (aw_adapter w) \<and> ad_handle (aw_adapter w) \<noteq> None
      then
        let w' = run (busy_step repr) (sp_during_unregister sp) w in
        (case sp_unregistered sp of
           Inl _ \<Rightarrow> (in_adapter (count_adapter (k_unregister_errors_update Suc)) w', False)
         | Inr _ \<Rightarrow> (w', True))
      else (w, True))"

definition settle :: "adapter \<Rightarrow> adapter" where
  "settle a =
     (let a' = a\<lparr>ad_binding := False, ad_handle := None\<rparr> in
      if writers_alive a' then a'\<lparr>ad_state := STOPPING\<rparr> else release_resources STOPPED a')"

definition stop ::
  "(py_float \<Rightarrow> string) \<Rightarrow> stopping \<Rightarrow> adapter_world \<Rightarrow> adapter_world \<times> bool" where
  "stop repr sp w =
     (if ad_state (aw_adapter w) = STOPPED then (w, True)
      else
        let (w1, unregister_ok) =
              unregister_handle repr sp (in_adapter (ad_state_update (\<lambda>_. STOPPING)) w);
            (w2, shutdown_ok) =
              (if ad_normalizer (aw_adapter w1) \<noteq> None \<and> ad_sink (aw_adapter w1) \<noteq> None
               then close_prepared_resources repr (sp_closing sp) w1 else (w1, True))
        in (in_adapter settle w2, unregister_ok \<and> shutdown_ok))"

text \<open>In a forked child, whose parent keeps the writers.\<close>

definition adapter_abandon_after_fork :: "adapter \<Rightarrow> adapter" where
  "adapter_abandon_after_fork a =
     (let a' = a\<lparr>ad_state := STOPPED,
            ad_sink := map_option sink_abandon_after_fork (ad_sink a),
            ad_capture := map_option async_abandon_after_fork (ad_capture a)\<rparr>
      in a'\<lparr>ad_binding := False, ad_handle := None, ad_normalizer := None, ad_sink := None,
            ad_capture := None\<rparr>)"

end
