(* ===== verification/Event_History.thy ===== *)
theory Event_History
  imports Events
begin

text \<open>
  Histories of the event sink: any interleaving of the caller's and the worker's steps, with any
  answers of the operating system. The log keeps the lines \<open>emit\<close> accepted and, for every line
  the worker finished, how that ended.
\<close>

section \<open>Steps\<close>

record sink_run =
  ru_sink :: event_sink
  ru_contents :: string
  ru_emits :: nat
  ru_accepted :: "string list"
  ru_handled :: "(string \<times> write_outcome res) list"

datatype sink_action =
    Emit typed_record
  | Take
  | Finish file_io
  | Begin_Close pyval
  | End_Close

definition accepted_line :: "(py_float \<Rightarrow> string) \<Rightarrow> event_sink \<Rightarrow> typed_record \<Rightarrow> string list" where
  "accepted_line repr s r =
     (case (encode_record repr r, snd (emit repr s r)) of
        (Inr line, Inr True) \<Rightarrow> [line] | _ \<Rightarrow> [])"

definition finished_line ::
  "event_sink \<Rightarrow> string \<Rightarrow> file_io \<Rightarrow> (string \<times> write_outcome res) list" where
  "finished_line s contents io =
     (case sk_current s of
        None \<Rightarrow> []
      | Some data \<Rightarrow>
          if \<not> sk_worker_alive s then [] else [(data, snd (snd (write_record s contents data io)))])"

primrec sink_step :: "(py_float \<Rightarrow> string) \<Rightarrow> sink_run \<Rightarrow> sink_action \<Rightarrow> sink_run" where
  "sink_step repr w (Emit r) =
     w\<lparr>ru_sink := fst (emit repr (ru_sink w) r), ru_emits := ru_emits w + 1,
       ru_accepted := ru_accepted w @ accepted_line repr (ru_sink w) r\<rparr>"
| "sink_step repr w Take = w\<lparr>ru_sink := worker_take (ru_sink w)\<rparr>"
| "sink_step repr w (Finish io) =
     w\<lparr>ru_sink := fst (worker_finish (ru_sink w) (ru_contents w) io),
       ru_contents := snd (worker_finish (ru_sink w) (ru_contents w) io),
       ru_handled := ru_handled w @ finished_line (ru_sink w) (ru_contents w) io\<rparr>"
| "sink_step repr w (Begin_Close timeout) = w\<lparr>ru_sink := fst (begin_close (ru_sink w) timeout)\<rparr>"
| "sink_step repr w End_Close = w\<lparr>ru_sink := fst (end_close (ru_sink w))\<rparr>"

definition fresh_run :: "event_sink \<Rightarrow> string \<Rightarrow> sink_run" where
  "fresh_run s contents =
     \<lparr>ru_sink = s, ru_contents = contents, ru_emits = 0, ru_accepted = [], ru_handled = []\<rparr>"

section \<open>The invariant\<close>

abbreviation outcomes :: "write_outcome res \<Rightarrow> (string \<times> write_outcome res) list \<Rightarrow> nat" where
  "outcomes r h \<equiv> length (filter (\<lambda>p. snd p = r) h)"

definition waiting :: "event_sink \<Rightarrow> string list" where
  "waiting s = (case sk_current s of None \<Rightarrow> [] | Some d \<Rightarrow> [d]) @ sk_records s"

text \<open>Lines come out in the order they went in.\<close>

definition queue_inv :: "sink_run \<Rightarrow> bool" where
  "queue_inv w \<longleftrightarrow>
     ru_accepted w = map fst (ru_handled w) @ waiting (ru_sink w) \<and>
     sk_unfinished (ru_sink w) = length (waiting (ru_sink w)) \<and>
     int (length (sk_records (ru_sink w))) \<le> sk_max_pending_records (ru_sink w) \<and>
     list_all (\<lambda>l. int (length l) \<le> sk_max_record_bytes (ru_sink w))
       (map fst (ru_handled w) @ waiting (ru_sink w))"

text \<open>The counters are the lengths of the logs.\<close>

definition count_inv :: "sink_run \<Rightarrow> bool" where
  "count_inv w \<longleftrightarrow> (let c = sk_counters (ru_sink w); h = ru_handled w in
     ec_enqueued c = length (ru_handled w) + length (waiting (ru_sink w)) \<and>
     ec_written c = outcomes (Inr Written) h \<and>
     ec_file_capacity_dropped c = outcomes (Inr Capacity) h \<and>
     ec_io_errors c = outcomes (Inl OSError) h \<and>
     (sk_enabled (ru_sink w) \<longrightarrow>
        length h + length (waiting (ru_sink w)) + ec_queue_dropped c + ec_record_size_dropped c +
        ec_serialization_errors c + ec_closed_dropped c = ru_emits w))"

text \<open>The worker lives until the sink is closed and its queue is empty.\<close>

definition life_inv :: "event_sink \<Rightarrow> bool" where
  "life_inv s \<longleftrightarrow>
     (sk_stop s \<longleftrightarrow> sk_closed s) \<and>
     (sk_worker_alive s \<longrightarrow> sk_enabled s \<and> sk_directory_fd s) \<and>
     (\<not> sk_worker_alive s \<longrightarrow> waiting s = [] \<and> (sk_enabled s \<longrightarrow> sk_closed s) \<and>
        \<not> sk_directory_fd s) \<and>
     (sk_file_descriptor s \<longrightarrow> sk_worker_alive s)"

definition sink_inv :: "sink_run \<Rightarrow> bool" where
  "sink_inv w \<longleftrightarrow>
     life_inv (ru_sink w) \<and> queue_inv w \<and> count_inv w \<and>
     list_all (\<lambda>p. snd p \<in> {Inr Written, Inr Capacity, Inl OSError}) (ru_handled w)"

lemma count_event_simps [simp]:
  "sk_counters (count_event f s) = f (sk_counters s)"
  "sk_enabled (count_event f s) = sk_enabled s"
  "sk_max_pending_records (count_event f s) = sk_max_pending_records s"
  "sk_max_record_bytes (count_event f s) = sk_max_record_bytes s"
  "sk_max_file_bytes (count_event f s) = sk_max_file_bytes s"
  "sk_records (count_event f s) = sk_records s" "sk_unfinished (count_event f s) = sk_unfinished s"
  "sk_current (count_event f s) = sk_current s" "sk_stop (count_event f s) = sk_stop s"
  "sk_closed (count_event f s) = sk_closed s"
  "sk_file_descriptor (count_event f s) = sk_file_descriptor s"
  "sk_directory_fd (count_event f s) = sk_directory_fd s"
  "sk_worker_alive (count_event f s) = sk_worker_alive s"
  by (simp_all add: count_event_def)

lemma res_map_Inl: "res_map f xs = Inl e \<Longrightarrow> \<exists>x \<in> set xs. f x = Inl e"
  by (induction xs) (auto simp: res_bind_def split: sum.splits)

lemma dumps_errors: "dumps repr v = Inl e \<Longrightarrow> e = TypeError"
proof -
  have "dumps_in_order repr v = Inl e \<Longrightarrow> e = TypeError" for v
  proof (induction repr v rule: dumps_in_order.induct)
    case (5 repr xs)
    then show ?case by (auto simp: res_bind_def dest!: res_map_Inl split: sum.splits)
  next
    case (6 repr xs)
    then show ?case by (auto simp: res_bind_def dest!: res_map_Inl split: sum.splits)
  next
    case (7 repr d)
    then show ?case
      by (auto simp: res_bind_def member_text_def dest!: res_map_Inl split: sum.splits)
  qed (auto split: option.splits)
  then show "dumps repr v = Inl e \<Longrightarrow> e = TypeError" by (simp add: dumps_def)
qed

lemma encode_errors: "encode_record repr r = Inl e \<Longrightarrow> e = TypeError"
  by (cases r) (auto simp: encode_record_def record_payload_def res_bind_def
      split: sum.splits dest: dumps_errors)


text \<open>The outcomes of \<open>emit\<close>.\<close>

lemma emit_simps:
  assumes "sk_enabled s"
  shows
    "encode_record repr r = Inl e \<Longrightarrow> emit repr s r =
       (count_event (\<lambda>c. c\<lparr>ec_serialization_errors := ec_serialization_errors c + 1\<rparr>) s, Inr False)"
    "encode_record repr r = Inr l \<Longrightarrow> sk_max_record_bytes s < int (length l) \<Longrightarrow> emit repr s r =
       (count_event (\<lambda>c. c\<lparr>ec_record_size_dropped := ec_record_size_dropped c + 1\<rparr>) s, Inr False)"
    "encode_record repr r = Inr l \<Longrightarrow> \<not> sk_max_record_bytes s < int (length l) \<Longrightarrow>
       emit repr s r = put_record s l"
  using assms encode_errors [of repr r e] by (simp_all add: emit_def)

lemma write_record_cases:
  assumes "write_record s contents data io = (s', contents', r)" "sk_enabled s" "sk_directory_fd s"
  shows "\<exists>fd. s' = s\<lparr>sk_file_descriptor := fd\<rparr>"
    "r \<in> {Inr Written, Inr Capacity, Inl OSError}"
proof -
  have "r' \<in> {Inr Written, Inr Capacity, Inl OSError}"
    if "locked_write t contents data io = (contents'', r')" for t contents'' r'
    using locked_write_cases [OF that]
    by (cases r'; cases "projr r'") (auto split: write_outcome.splits)
  note locked = this
  show "r \<in> {Inr Written, Inr Capacity, Inl OSError}"
    using assms locked
    by (auto simp: write_record_def open_descriptor_def Let_def
        split: if_splits sum.splits prod.splits open_result.splits)
  show "\<exists>fd. s' = s\<lparr>sk_file_descriptor := fd\<rparr>"
    using assms
    by (auto simp: write_record_def Let_def intro: exI [of _ "sk_file_descriptor s"]
        split: if_splits sum.splits prod.splits)
qed

text \<open>Every step keeps the three parts.\<close>

lemma waiting_simps [simp]:
  "waiting (count_event f s) = waiting s"
  "waiting (s\<lparr>sk_records := rs\<rparr>) = (case sk_current s of None \<Rightarrow> [] | Some d \<Rightarrow> [d]) @ rs"
  "waiting (s\<lparr>sk_unfinished := n\<rparr>) = waiting s" "waiting (s\<lparr>sk_counters := c\<rparr>) = waiting s"
  "waiting (s\<lparr>sk_stop := b\<rparr>) = waiting s" "waiting (s\<lparr>sk_closed := b\<rparr>) = waiting s"
  "waiting (s\<lparr>sk_file_descriptor := b\<rparr>) = waiting s"
  "waiting (s\<lparr>sk_current := x\<rparr>) = (case x of None \<Rightarrow> [] | Some d \<Rightarrow> [d]) @ sk_records s"
  "waiting (worker_exit s) = waiting s" "waiting (task_done s) = sk_records s"
  by (simp_all add: waiting_def worker_exit_def task_done_def)

text \<open>What \<open>emit\<close> may do to the sink: count one drop, or append one line.\<close>

lemma emit_disabled: "\<not> sk_enabled s \<Longrightarrow> emit repr s r = (s, Inr False) \<and> accepted_line repr s r = []"
  by (simp add: emit_def accepted_line_def split: sum.split)

lemma emit_cases:
  assumes "sk_enabled s"
  obtains (serial) "emit repr s r = (count_event
       (\<lambda>c. c\<lparr>ec_serialization_errors := ec_serialization_errors c + 1\<rparr>) s, Inr False)"
     "accepted_line repr s r = []"
  | (size) "emit repr s r = (count_event
       (\<lambda>c. c\<lparr>ec_record_size_dropped := ec_record_size_dropped c + 1\<rparr>) s, Inr False)"
     "accepted_line repr s r = []"
  | (closed) "emit repr s r = (count_event
       (\<lambda>c. c\<lparr>ec_closed_dropped := ec_closed_dropped c + 1\<rparr>) s, Inr False)"
     "accepted_line repr s r = []"
  | (full) "emit repr s r = (count_event
       (\<lambda>c. c\<lparr>ec_queue_dropped := ec_queue_dropped c + 1\<rparr>) s, Inr False)"
     "accepted_line repr s r = []"
  | (taken) l where "\<not> sk_closed s" "int (length (sk_records s)) < sk_max_pending_records s"
     "int (length l) \<le> sk_max_record_bytes s" "accepted_line repr s r = [l]"
     "emit repr s r = (count_event (\<lambda>c. c\<lparr>ec_enqueued := ec_enqueued c + 1\<rparr>)
       (s\<lparr>sk_records := sk_records s @ [l], sk_unfinished := sk_unfinished s + 1\<rparr>), Inr True)"
proof (cases "encode_record repr r")
  case (Inl e)
  then show ?thesis using emit_simps(1) [OF assms Inl] serial by (simp add: accepted_line_def)
next
  case (Inr l)
  note line = Inr
  show ?thesis
  proof (cases "sk_max_record_bytes s < int (length l)")
    case True
    then show ?thesis using emit_simps(2) [OF assms line True] size line
      by (simp add: accepted_line_def)
  next
    case False
    note put = emit_simps(3) [OF assms line False]
    consider "sk_closed s" | "\<not> sk_closed s" "sk_max_pending_records s \<le> int (length (sk_records s))"
      | "\<not> sk_closed s" "int (length (sk_records s)) < sk_max_pending_records s" by linarith
    then show ?thesis
    proof cases
      case 1
      then show ?thesis using put closed line by (simp add: put_record_def accepted_line_def)
    next
      case 2
      then show ?thesis using put full line by (simp add: put_record_def accepted_line_def)
    next
      case 3
      then show ?thesis using put taken [of l] line False
        by (simp add: put_record_def accepted_line_def)
    qed
  qed
qed

lemma emit_keeps:
  assumes "sink_inv w"
  shows "sink_inv (sink_step repr w (Emit r))"
proof (cases "sk_enabled (ru_sink w)")
  case False
  with assms show ?thesis
    by (simp add: emit_disabled sink_inv_def queue_inv_def count_inv_def Let_def)
next
  case True
  then show ?thesis
  proof (cases rule: emit_cases [where repr = repr and r = r])
    case (taken l)
    then have "sk_worker_alive (ru_sink w)" using assms True
      by (auto simp: sink_inv_def life_inv_def)
    with taken assms show ?thesis
      by (simp add: sink_inv_def life_inv_def queue_inv_def count_inv_def Let_def)
        (simp add: waiting_def)
  qed (use assms in \<open>simp_all add: sink_inv_def life_inv_def queue_inv_def count_inv_def Let_def\<close>)
qed

lemma take_keeps:
  assumes "sink_inv w"
  shows "sink_inv (sink_step repr w Take)"
proof (cases "\<not> sk_worker_alive (ru_sink w) \<or> sk_current (ru_sink w) \<noteq> None")
  case False
  show ?thesis
  proof (cases "sk_records (ru_sink w)")
    case Nil
    with False assms show ?thesis
      by (simp add: worker_take_def sink_inv_def life_inv_def queue_inv_def count_inv_def Let_def
          waiting_def) (simp add: worker_exit_def)
  next
    case (Cons l ls)
    with False assms show ?thesis
      by (simp add: worker_take_def sink_inv_def life_inv_def queue_inv_def count_inv_def Let_def
          waiting_def)
  qed
qed (use assms in \<open>auto simp: worker_take_def\<close>)

lemma idle_worker:
  assumes "\<not> (sk_current s \<noteq> None \<and> sk_worker_alive s)"
  shows "worker_finish s contents io = (s, contents)" "finished_line s contents io = []"
  using assms by (auto simp: worker_finish_def finished_line_def split: option.split)

lemma finish_keeps:
  assumes "sink_inv w"
  shows "sink_inv (sink_step repr w (Finish io))"
proof (cases "sk_current (ru_sink w) \<noteq> None \<and> sk_worker_alive (ru_sink w)")
  case False
  with assms show ?thesis by (simp add: idle_worker)
next
  case True
  then obtain data where data: "sk_current (ru_sink w) = Some data" "sk_worker_alive (ru_sink w)"
    by auto
  obtain s' contents' r where
    wr: "write_record (ru_sink w) (ru_contents w) data io = (s', contents', r)"
    by (cases "write_record (ru_sink w) (ru_contents w) data io") auto
  have "sk_enabled (ru_sink w)" "sk_directory_fd (ru_sink w)"
    using assms data by (simp_all add: sink_inv_def life_inv_def)
  note outcome = write_record_cases [OF wr this]
  then obtain fd where s': "s' = (ru_sink w)\<lparr>sk_file_descriptor := fd\<rparr>" by blast
  note parts = worker_finish_def finished_line_def wr s' sink_inv_def life_inv_def queue_inv_def
    count_inv_def Let_def
  from outcome(2) consider "r = Inr Written" | "r = Inr Capacity" | "r = Inl OSError" by auto
  then show ?thesis
  proof cases
    case 1
    with assms data show ?thesis by (simp add: parts) (simp add: waiting_def task_done_def)
  next
    case 2
    with assms data show ?thesis by (simp add: parts) (simp add: waiting_def task_done_def)
  next
    case 3
    with assms data show ?thesis by (simp add: parts) (simp add: waiting_def task_done_def)
  qed
qed

lemma begin_close_keeps: "sink_inv w \<Longrightarrow> sink_inv (sink_step repr w (Begin_Close timeout))"
  by (cases "check_timeout timeout"; cases "sk_closed (ru_sink w)")
    (simp_all add: begin_close_def sink_inv_def life_inv_def queue_inv_def count_inv_def Let_def)

lemma end_close_keeps: "sink_inv w \<Longrightarrow> sink_inv (sink_step repr w End_Close)"
  by (cases "sk_enabled (ru_sink w)"; cases "sk_worker_alive (ru_sink w)")
    (auto simp: end_close_def sink_inv_def life_inv_def queue_inv_def count_inv_def Let_def)

lemma sink_step_keeps: "sink_inv w \<Longrightarrow> sink_inv (sink_step repr w a)"
  by (cases a) (simp_all only: emit_keeps take_keeps finish_keeps begin_close_keeps end_close_keeps)

interpretation sinks: machine "sink_step repr" "\<lambda>_. True" sink_inv for repr
  by unfold_locales (rule sink_step_keeps)

section \<open>The file\<close>

text \<open>
  What a finished line may leave in the file: all of it when it was counted as written, nothing
  when the file was full, and otherwise a beginning of it, which is empty unless truncating
  the file or unlocking it failed (\<open>torn\<close>).
\<close>

definition piece :: "bool \<Rightarrow> string \<Rightarrow> string \<times> write_outcome res \<Rightarrow> bool" where
  "piece torn p dr \<longleftrightarrow>
     (\<exists>m. p = take m (fst dr)) \<and>
     (snd dr = Inr Written \<longrightarrow> p = fst dr) \<and>
     (snd dr = Inr Capacity \<longrightarrow> p = []) \<and>
     (\<not> torn \<and> snd dr = Inl OSError \<longrightarrow> p = [])"

definition clean_io :: "sink_action \<Rightarrow> bool" where
  "clean_io a = (case a of Finish io \<Rightarrow> io_truncate io \<and> io_unlock io | _ \<Rightarrow> True)"

definition file_inv :: "bool \<Rightarrow> int \<Rightarrow> string \<Rightarrow> sink_run \<Rightarrow> bool" where
  "file_inv torn limit start w \<longleftrightarrow>
     sk_max_file_bytes (ru_sink w) = limit \<and>
     int (length (ru_contents w)) \<le> max limit (int (length start)) \<and>
     (\<exists>pieces. ru_contents w = start @ concat pieces \<and>
        list_all2 (piece torn) pieces (ru_handled w))"

lemma write_record_piece:
  assumes "write_record s contents data io = (s', contents', r)"
    "torn \<or> io_truncate io \<and> io_unlock io"
  shows "\<exists>p. contents' = contents @ p \<and> piece torn p (data, r) \<and>
    (p = [] \<or> int (length contents') \<le> sk_max_file_bytes s)"
    "sk_max_file_bytes s' = sk_max_file_bytes s"
proof -
  show "sk_max_file_bytes s' = sk_max_file_bytes s"
    using assms(1) by (auto simp: write_record_def Let_def split: sum.splits if_splits prod.splits)
  have unwritten: "\<exists>p. contents = contents @ p \<and> piece torn p (data, Inl e) \<and>
      (p = [] \<or> int (length contents) \<le> sk_max_file_bytes s)" for e
    by (rule exI [of _ "[]"]) (simp add: piece_def)
  show "\<exists>p. contents' = contents @ p \<and> piece torn p (data, r) \<and>
    (p = [] \<or> int (length contents') \<le> sk_max_file_bytes s)"
  proof (cases "contents' = contents \<and> (\<exists>e. r = Inl e)")
    case True
    then obtain e where same: "contents' = contents" "r = Inl e" by blast
    show ?thesis unfolding same by (rule unwritten)
  next
    case False
    let ?s = "s\<lparr>sk_file_descriptor := True\<rparr>"
    obtain r' where locked: "locked_write ?s contents data io = (contents', r')"
      and r: "r = (if io_unlock io then r' else Inl OSError)"
      using assms(1) False
      by (auto simp: write_record_def Let_def split: sum.splits if_splits prod.splits)
    have limit: "sk_max_file_bytes ?s = sk_max_file_bytes s" by simp
    from locked_write_cases [OF locked, unfolded limit] obtain m where m: "m \<le> length data"
      "contents' = contents @ take m data"
      "m \<noteq> 0 \<longrightarrow> int (length contents + length data) \<le> sk_max_file_bytes s"
      "case r' of Inr Written \<Rightarrow> m = length data \<and> int (length contents + length data) \<le> sk_max_file_bytes s
       | Inr Capacity \<Rightarrow> m = 0 \<and> sk_max_file_bytes s < int (length contents + length data)
       | Inl e \<Rightarrow> e = OSError \<and> (io_truncate io \<longrightarrow> m = 0)" by blast
    have "piece torn (take m data) (data, r)"
      unfolding piece_def using m(4) r assms(2)
      by (cases r'; cases "projr r'") (auto split: if_splits intro: exI [of _ "length data"])
    moreover have "take m data = [] \<or> int (length contents') \<le> sk_max_file_bytes s"
      using m(1-3) by (cases m) auto
    ultimately show ?thesis using m(2) by blast
  qed
qed

text \<open>No step changes the configuration.\<close>

definition sink_config :: "event_sink \<Rightarrow> bool \<times> int \<times> int \<times> int" where
  "sink_config s =
     (sk_enabled s, sk_max_pending_records s, sk_max_record_bytes s, sk_max_file_bytes s)"

lemma sink_config_simps [simp]:
  "sink_config (count_event f s) = sink_config s" "sink_config (worker_exit s) = sink_config s"
  "sink_config (task_done s) = sink_config s" "sink_config (s\<lparr>sk_records := rs\<rparr>) = sink_config s"
  "sink_config (s\<lparr>sk_unfinished := n\<rparr>) = sink_config s"
  "sink_config (s\<lparr>sk_current := x\<rparr>) = sink_config s"
  "sink_config (s\<lparr>sk_stop := b\<rparr>) = sink_config s" "sink_config (s\<lparr>sk_closed := b\<rparr>) = sink_config s"
  "sink_config (s\<lparr>sk_file_descriptor := b\<rparr>) = sink_config s"
  by (simp_all add: sink_config_def worker_exit_def task_done_def)

lemma write_record_config:
  "write_record s contents data io = (s', contents', r) \<Longrightarrow> sink_config s' = sink_config s"
  by (auto simp: write_record_def Let_def split: sum.splits if_splits prod.splits)

lemma sink_step_config: "sink_config (ru_sink (sink_step repr w a)) = sink_config (ru_sink w)"
proof (cases a)
  case (Emit r)
  then show ?thesis by (cases "sk_enabled (ru_sink w)")
      (auto simp: emit_def put_record_def split: sum.split)
next
  case (Finish io)
  then show ?thesis
    by (auto simp: worker_finish_def split: option.split prod.splits sum.splits
        write_outcome.splits dest!: write_record_config)
qed (auto simp: worker_take_def begin_close_def end_close_def split: list.splits sum.splits)

interpretation configs: machine "sink_step repr" "\<lambda>_. True" "\<lambda>w. sink_config (ru_sink w) = k"
  for repr k by unfold_locales (simp add: sink_step_config)

lemma run_config: "sink_config (ru_sink (run (sink_step repr) as w)) = sink_config (ru_sink w)"
  by (rule configs.run_keeps) (simp_all add: list.pred_True)

lemma sink_step_limit [simp]:
  "sk_max_file_bytes (ru_sink (sink_step repr w a)) = sk_max_file_bytes (ru_sink w)"
  using sink_step_config [of repr w a] by (simp add: sink_config_def)

lemma file_step_keeps:
  assumes "file_inv torn limit start w" "torn \<or> clean_io a"
  shows "file_inv torn limit start (sink_step repr w a)"
proof (cases "\<exists>io. a = Finish io \<and> sk_current (ru_sink w) \<noteq> None \<and> sk_worker_alive (ru_sink w)")
  case False
  then have "ru_contents (sink_step repr w a) = ru_contents w"
    "ru_handled (sink_step repr w a) = ru_handled w"
    by (cases a; simp add: idle_worker)+
  with assms(1) show ?thesis unfolding file_inv_def by simp
next
  case True
  then obtain io data where a: "a = Finish io" "sk_current (ru_sink w) = Some data"
    "sk_worker_alive (ru_sink w)" by auto
  obtain s' contents' r where
    wr: "write_record (ru_sink w) (ru_contents w) data io = (s', contents', r)"
    by (cases "write_record (ru_sink w) (ru_contents w) data io") auto
  have "torn \<or> io_truncate io \<and> io_unlock io" using assms(2) a by (simp add: clean_io_def)
  from write_record_piece(1) [OF wr this] obtain p where p: "contents' = ru_contents w @ p"
    "piece torn p (data, r)" "p = [] \<or> int (length contents') \<le> sk_max_file_bytes (ru_sink w)"
    by blast
  have step: "ru_contents (sink_step repr w a) = contents'"
    "ru_handled (sink_step repr w a) = ru_handled w @ [(data, r)]"
    using a wr by (simp_all add: worker_finish_def finished_line_def)
  from assms(1) obtain pieces where pieces: "ru_contents w = start @ concat pieces"
    "list_all2 (piece torn) pieces (ru_handled w)" unfolding file_inv_def by blast
  have "contents' = start @ concat (pieces @ [p])" using p(1) pieces(1) by simp
  moreover have "list_all2 (piece torn) (pieces @ [p]) (ru_handled w @ [(data, r)])"
    using pieces(2) p(2) by (simp add: list_all2_appendI)
  moreover have "int (length contents') \<le> max limit (int (length start))"
    using p assms(1) by (auto simp: file_inv_def)
  ultimately show ?thesis using assms(1) unfolding file_inv_def step sink_step_limit by blast
qed

interpretation files: machine "sink_step repr" "\<lambda>a. torn \<or> clean_io a" "file_inv torn limit start"
  for repr torn limit start
  by unfold_locales (rule file_step_keeps)

lemma clean_pieces:
  assumes "list_all2 (piece False) pieces h"
    "list_all (\<lambda>p. snd p \<in> {Inr Written, Inr Capacity, Inl OSError}) h"
  shows "concat pieces = concat (map fst (filter (\<lambda>p. snd p = Inr Written) h))"
  using assms by (induction rule: list_all2_induct) (auto simp: piece_def)

section \<open>The worker drains a closed sink\<close>

text \<open>
  A round of the worker, with steps of the caller before, between and after its own.
\<close>

definition caller_step :: "sink_action \<Rightarrow> bool" where
  "caller_step a = (case a of Take \<Rightarrow> False | Finish io \<Rightarrow> False | _ \<Rightarrow> True)"

definition worker_round :: "sink_action list \<times> sink_action list \<times> file_io \<Rightarrow> sink_action list" where
  "worker_round x = (case x of (before, between, io) \<Rightarrow> before @ Take # between @ [Finish io])"

definition load :: "event_sink \<Rightarrow> nat" where
  "load s = length (waiting s) + (if sk_worker_alive s then 1 else 0)"

lemma begin_close_closed: "sk_closed s \<Longrightarrow> fst (begin_close s timeout) = s"
  by (simp add: begin_close_def split: sum.split)

text \<open>On a closed sink the caller only moves counters.\<close>

definition same_work :: "event_sink \<Rightarrow> event_sink \<Rightarrow> bool" where
  "same_work s t \<longleftrightarrow>
     sk_records t = sk_records s \<and> sk_current t = sk_current s \<and> sk_stop t = sk_stop s \<and>
     sk_closed t = sk_closed s \<and> sk_worker_alive t = sk_worker_alive s \<and>
     sk_enabled t = sk_enabled s \<and> sk_directory_fd t = sk_directory_fd s \<and>
     sk_file_descriptor t = sk_file_descriptor s"

lemma caller_closed:
  assumes "sk_closed (ru_sink w)" "caller_step a"
  shows "same_work (ru_sink w) (ru_sink (sink_step repr w a))"
proof (cases a)
  case (Emit r)
  with assms show ?thesis
    by (auto simp: same_work_def emit_def put_record_def split: sum.split)
qed (use assms in \<open>auto simp: same_work_def caller_step_def begin_close_closed end_close_def\<close>)

lemma callers_closed:
  "sk_closed (ru_sink w) \<Longrightarrow> list_all caller_step as \<Longrightarrow>
     same_work (ru_sink w) (ru_sink (run (sink_step repr) as w))"
proof (induction as arbitrary: w)
  case (Cons a as)
  then have one: "same_work (ru_sink w) (ru_sink (sink_step repr w a))"
    by (simp add: caller_closed)
  then have "sk_closed (ru_sink (sink_step repr w a))" using Cons.prems by (simp add: same_work_def)
  with Cons have "same_work (ru_sink (sink_step repr w a))
      (ru_sink (run (sink_step repr) as (sink_step repr w a)))" by simp
  with one show ?case by (simp add: same_work_def)
qed (simp add: same_work_def)

lemma take_closed:
  assumes "sk_closed (ru_sink w)" "life_inv (ru_sink w)"
  shows "sk_closed (worker_take (ru_sink w))"
    "load (worker_take (ru_sink w)) = load (ru_sink w) \<and>
       (sk_current (worker_take (ru_sink w)) \<noteq> None) \<or>
     load (ru_sink w) \<le> 1 \<and> load (worker_take (ru_sink w)) = 0 \<and>
       \<not> sk_worker_alive (worker_take (ru_sink w))"
  using assms
  by (auto simp: worker_take_def load_def waiting_def life_inv_def worker_exit_def
      split: list.splits option.splits)

lemma finish_closed:
  assumes "sk_closed (ru_sink w)" "sink_inv w"
    "sk_current (ru_sink w) \<noteq> None \<or> \<not> sk_worker_alive (ru_sink w)"
  shows "sk_closed (ru_sink (sink_step repr w (Finish io)))"
    "load (ru_sink (sink_step repr w (Finish io))) = load (ru_sink w) - 1"
proof -
  let ?w' = "sink_step repr w (Finish io)"
  have "sk_closed (ru_sink ?w') \<and> load (ru_sink ?w') = load (ru_sink w) - 1"
  proof (cases "sk_current (ru_sink w) \<noteq> None \<and> sk_worker_alive (ru_sink w)")
    case False
    then have "\<not> sk_worker_alive (ru_sink w)" using assms(3) by blast
    then have "waiting (ru_sink w) = []" using assms(2) by (simp add: sink_inv_def life_inv_def)
    with False assms(1) \<open>\<not> sk_worker_alive (ru_sink w)\<close> show ?thesis
      by (simp add: idle_worker load_def)
  next
    case True
    then obtain data where data: "sk_current (ru_sink w) = Some data"
      "sk_worker_alive (ru_sink w)" by auto
    obtain s' contents' r where
      wr: "write_record (ru_sink w) (ru_contents w) data io = (s', contents', r)"
      by (cases "write_record (ru_sink w) (ru_contents w) data io") auto
    have "sk_enabled (ru_sink w)" "sk_directory_fd (ru_sink w)"
      using assms data by (simp_all add: sink_inv_def life_inv_def)
    note outcome = write_record_cases [OF wr this]
    then obtain fd where s': "s' = (ru_sink w)\<lparr>sk_file_descriptor := fd\<rparr>" by blast
    from outcome(2) consider "r = Inr Written" | "r = Inr Capacity" | "r = Inl OSError" by auto
    then show ?thesis using data assms(1)
      by cases (simp_all add: worker_finish_def wr s' load_def, simp_all add: task_done_def waiting_def)
  qed
  then show "sk_closed (ru_sink ?w')" "load (ru_sink ?w') = load (ru_sink w) - 1" by simp_all
qed


lemma same_work_load: "same_work s t \<Longrightarrow> load t = load s \<and> (sk_closed t \<longleftrightarrow> sk_closed s) \<and>
    sk_current t = sk_current s \<and> sk_worker_alive t = sk_worker_alive s"
  by (simp add: same_work_def load_def waiting_def)

lemma round_closed:
  assumes "sk_closed (ru_sink w)" "sink_inv w" "list_all caller_step before"
    "list_all caller_step between"
    and w'_def: "w' = run (sink_step repr) (worker_round (before, between, io)) w"
  shows "sk_closed (ru_sink w')" "sink_inv w'" "load (ru_sink w') = load (ru_sink w) - 1"
proof -
  define w1 where "w1 = run (sink_step repr) before w"
  define w2 where "w2 = sink_step repr w1 Take"
  define w3 where "w3 = run (sink_step repr) between w2"
  have w': "w' = sink_step repr w3 (Finish io)"
    by (simp add: w'_def worker_round_def w1_def w2_def w3_def)
  have "same_work (ru_sink w) (ru_sink w1)"
    unfolding w1_def by (rule callers_closed [OF assms(1,3)])
  note first = same_work_load [OF this]
  have inv1: "sink_inv w1" unfolding w1_def by (rule sinks.run_keeps) (simp_all add: assms list.pred_True)
  have inv2: "sink_inv w2" unfolding w2_def by (rule sink_step_keeps [OF inv1])
  have inv3: "sink_inv w3" unfolding w3_def by (rule sinks.run_keeps) (simp_all add: inv2 list.pred_True)
  have closed1: "sk_closed (ru_sink w1)" using first assms(1) by simp
  have "life_inv (ru_sink w1)" using inv1 by (simp add: sink_inv_def)
  note taken = take_closed [OF closed1 this]
  have closed2: "sk_closed (ru_sink w2)" using taken(1) by (simp add: w2_def)
  have "same_work (ru_sink w2) (ru_sink w3)"
    unfolding w3_def by (rule callers_closed [OF closed2 assms(4)])
  note third = same_work_load [OF this]
  have closed3: "sk_closed (ru_sink w3)" using third closed2 by simp
  have "sk_current (ru_sink w3) \<noteq> None \<or> \<not> sk_worker_alive (ru_sink w3)"
    using third taken(2) by (auto simp: w2_def)
  note finished = finish_closed [OF closed3 inv3 this]
  show "sk_closed (ru_sink w')" unfolding w' by (rule finished)
  show "sink_inv w'" unfolding w' by (rule sink_step_keeps [OF inv3])
  show "load (ru_sink w') = load (ru_sink w) - 1"
    unfolding w' finished(2) using first third taken(2) by (auto simp: w2_def)
qed

lemma rounds_drain:
  assumes "sk_closed (ru_sink w)" "sink_inv w"
    "list_all (\<lambda>(before, between, io). list_all caller_step before \<and> list_all caller_step between)
       rounds" "load (ru_sink w) \<le> length rounds"
  shows "load (ru_sink (run (sink_step repr) (concat (map worker_round rounds)) w)) = 0 \<and>
    sink_inv (run (sink_step repr) (concat (map worker_round rounds)) w)"
  using assms
proof (induction rounds arbitrary: w)
  case (Cons x rounds)
  obtain before between io where x: "x = (before, between, io)" by (cases x)
  let ?w = "run (sink_step repr) (worker_round x) w"
  have "sk_closed (ru_sink ?w)" "sink_inv ?w" "load (ru_sink ?w) = load (ru_sink w) - 1"
    using round_closed [OF Cons.prems(1,2) _ _ refl, of before between repr io] Cons.prems(3)
    unfolding x by simp_all
  with Cons.IH [of ?w] Cons.prems show ?case by simp
qed simp

section \<open>Fresh sinks\<close>

lemma fresh_inv:
  assumes "jsonl_event_sink path a b c = Inr s"
  shows "sink_inv (fresh_run s start)" "file_inv torn (sk_max_file_bytes s) start (fresh_run s start)"
    "0 < sk_max_pending_records s" "512 \<le> sk_max_record_bytes s"
    "sk_max_record_bytes s \<le> sk_max_file_bytes s" "sk_enabled s \<longleftrightarrow> path \<noteq> None"
proof -
  have fields: "0 < sk_max_pending_records s \<and> 512 \<le> sk_max_record_bytes s \<and>
      sk_max_record_bytes s \<le> sk_max_file_bytes s \<and> (sk_enabled s \<longleftrightarrow> path \<noteq> None) \<and>
      sk_counters s = zero_event_counters \<and> sk_records s = [] \<and> sk_unfinished s = 0 \<and>
      sk_current s = None \<and> \<not> sk_stop s \<and> \<not> sk_closed s \<and> \<not> sk_file_descriptor s \<and>
      (sk_worker_alive s \<longleftrightarrow> path \<noteq> None) \<and> (sk_directory_fd s \<longleftrightarrow> path \<noteq> None)"
    using assms
    by (cases path) (auto simp: jsonl_event_sink_def positive_int_def MIN_RECORD_BYTES_def Let_def
        split: pyval.splits if_splits)
  then show "sink_inv (fresh_run s start)"
    by (simp add: sink_inv_def life_inv_def queue_inv_def count_inv_def fresh_run_def waiting_def
        zero_event_counters_def)
  show "file_inv torn (sk_max_file_bytes s) start (fresh_run s start)"
    by (simp add: file_inv_def fresh_run_def)
  show "0 < sk_max_pending_records s" "512 \<le> sk_max_record_bytes s"
    "sk_max_record_bytes s \<le> sk_max_file_bytes s" "sk_enabled s \<longleftrightarrow> path \<noteq> None"
    using fields by simp_all
qed

lemma reachable:
  assumes "jsonl_event_sink path a b c = Inr s"
    and w_def: "w = run (sink_step repr) as (fresh_run s start)"
  shows "sink_inv w" "sink_config (ru_sink w) = sink_config s"
proof -
  show "sink_inv w"
    unfolding w_def by (rule sinks.run_keeps [OF fresh_inv(1) [OF assms(1)]]) (simp add: list.pred_True)
  show "sink_config (ru_sink w) = sink_config s"
    unfolding w_def run_config by (simp add: fresh_run_def)
qed

section \<open>An example history\<close>

definition demo_destination :: destination where
  "demo_destination =
     \<lparr>de_parent_is_dir = True, de_is_symlink = False, de_exists = False, de_is_file = False,
      de_parent_resolves = True, de_directory_opens = True, de_thread_starts = True\<rparr>"

definition demo_sink :: event_sink where
  "demo_sink = \<lparr>sk_enabled = True, sk_max_pending_records = 2,
     sk_max_record_bytes = 512, sk_max_file_bytes = 1024, sk_counters = zero_event_counters,
     sk_records = [], sk_unfinished = 0, sk_current = None, sk_stop = False, sk_closed = False,
     sk_file_descriptor = False, sk_directory_fd = True, sk_worker_alive = True\<rparr>"

definition demo_fact :: host_fact where
  "demo_fact = embed_fact ''00112233445566778899aabbccddeeff'' 20 ''req-1''
     (Receipt_Claim 7 [0, 1])"

definition demo_io :: file_io where
  "demo_io = \<lparr>io_open = Opened, io_lock = True, io_stat = True, io_write = (\<lambda>k. Wrote 150),
     io_truncate = True, io_unlock = True\<rparr>"

definition demo_actions :: "sink_action list" where
  "demo_actions =
     [Emit (Fact_Record demo_fact), Emit Other_Record, Take, Finish demo_io,
      Emit (Fact_Record demo_fact), Begin_Close (PInt 5)]"

definition demo_line :: string where
  "demo_line = projr (encode_record (\<lambda>_. []) (Fact_Record demo_fact))"

abbreviation demo_run_sink :: sink_run where
  "demo_run_sink \<equiv> run (sink_step (\<lambda>_. [])) demo_actions (fresh_run demo_sink [])"

lemma demo_sink_new:
  "jsonl_event_sink (Some demo_destination) (PInt 2) (PInt 512) (PInt 1024) = Inr demo_sink"
  by code_simp

lemma demo_line:
  "encode_record (\<lambda>_. []) (Fact_Record demo_fact) = Inr demo_line" "int (length demo_line) \<le> 512"
proof -
  have "is_ok (encode_record (\<lambda>_. []) (Fact_Record demo_fact))" by code_simp
  then show "encode_record (\<lambda>_. []) (Fact_Record demo_fact) = Inr demo_line"
    by (cases "encode_record (\<lambda>_. []) (Fact_Record demo_fact)") (simp_all add: demo_line_def)
  show "int (length demo_line) \<le> 512" by code_simp
qed

lemma demo_write: "write_all (io_write demo_io) 0 contents demo_line = (contents @ demo_line, Inr ())"
  by (rule write_all_progress) (simp add: demo_io_def)

lemma demo_history:
  "ru_handled demo_run_sink = [(demo_line, Inr Written)] \<and>
   waiting (ru_sink demo_run_sink) = [demo_line] \<and> sk_closed (ru_sink demo_run_sink) \<and>
   ru_contents demo_run_sink = demo_line"
proof -
  have other: "encode_record (\<lambda>_. []) Other_Record = Inl TypeError"
    by (simp add: encode_record_def record_payload_def)
  have io: "io_open demo_io = Opened" "io_lock demo_io" "io_stat demo_io" "io_unlock demo_io"
    by (simp_all add: demo_io_def)
  show ?thesis
    using demo_line(2)
    by (simp add: demo_actions_def fresh_run_def demo_sink_def emit_def demo_line(1) other
        put_record_def accepted_line_def worker_take_def worker_finish_def finished_line_def
        write_record_def open_descriptor_def locked_write_def demo_write io task_done_def
        count_event_def waiting_def begin_close_def check_timeout_def)
qed

lemma three_ends:
  assumes "list_all (\<lambda>p. snd p \<in> {Inr Written, Inr Capacity, Inl OSError}) h"
  shows "length h = outcomes (Inr Written) h + outcomes (Inr Capacity) h + outcomes (Inl OSError) h"
  using assms by (induction h) auto

section \<open>Properties of the sink\<close>

text \<open>
  C21: the queue is first-in first-out and loses nothing. After any interleaving of the caller's
  and the worker's steps, with any answers of the operating system, the lines \<open>emit\<close> accepted
  are, in order, the lines the worker finished, the line it holds and the lines still queued;
  the queue never exceeds its configured length, no line exceeds the record limit, and the
  count \<open>flush\<close> waits on is the number of lines not finished.
\<close>

theorem sink_fifo:
  assumes "jsonl_event_sink path a b c = Inr s"
  defines "w \<equiv> \<lambda>repr as start. run (sink_step repr) as (fresh_run s start)"
  shows "ru_accepted (w repr as start) =
      map fst (ru_handled (w repr as start)) @ waiting (ru_sink (w repr as start)) \<and>
    int (length (sk_records (ru_sink (w repr as start)))) \<le> sk_max_pending_records s \<and>
    list_all (\<lambda>l. int (length l) \<le> sk_max_record_bytes s) (ru_accepted (w repr as start)) \<and>
    sk_unfinished (ru_sink (w repr as start)) = length (waiting (ru_sink (w repr as start)))"
proof -
  note facts = reachable [OF assms(1) refl, of repr as start]
  have "sk_max_pending_records (ru_sink (w repr as start)) = sk_max_pending_records s"
    "sk_max_record_bytes (ru_sink (w repr as start)) = sk_max_record_bytes s"
    using facts(2) by (simp_all add: w_def sink_config_def)
  moreover have "queue_inv (w repr as start)" using facts(1) by (simp add: w_def sink_inv_def)
  ultimately show ?thesis unfolding queue_inv_def by simp
qed

theorem sink_fifo_witness:
  "ru_accepted demo_run_sink = [demo_line, demo_line] \<and>
   map fst (ru_handled demo_run_sink) = [demo_line] \<and> sk_unfinished (ru_sink demo_run_sink) = 1"
  using sink_fifo [OF demo_sink_new, of "\<lambda>_. []" demo_actions "[]"] demo_history by simp

text \<open>
  C22: every record is accounted for. On an enabled sink each call of \<open>emit\<close> moves exactly one of
  five counters, so these add up to the number of calls; the lines accepted are those written,
  dropped for capacity, lost to an I/O error and still waiting; and each of the three outcome
  counters counts exactly the lines the worker finished that way.
\<close>

theorem sink_accounts:
  assumes "jsonl_event_sink (Some d) a b c = Inr s"
  defines "w \<equiv> \<lambda>repr as start. run (sink_step repr) as (fresh_run s start)"
    and "k \<equiv> \<lambda>repr as start.
      sk_counters (ru_sink (run (sink_step repr) as (fresh_run s start)))"
  shows "ec_enqueued (k repr as start) + ec_queue_dropped (k repr as start) +
      ec_record_size_dropped (k repr as start) + ec_serialization_errors (k repr as start) +
      ec_closed_dropped (k repr as start) = ru_emits (w repr as start) \<and>
    ec_enqueued (k repr as start) = ec_written (k repr as start) +
      ec_file_capacity_dropped (k repr as start) + ec_io_errors (k repr as start) +
      length (waiting (ru_sink (w repr as start))) \<and>
    ec_written (k repr as start) = outcomes (Inr Written) (ru_handled (w repr as start)) \<and>
    ec_file_capacity_dropped (k repr as start) =
      outcomes (Inr Capacity) (ru_handled (w repr as start)) \<and>
    ec_io_errors (k repr as start) = outcomes (Inl OSError) (ru_handled (w repr as start))"
proof -
  note facts = reachable [OF assms(1) refl, of repr as start]
  have "sk_enabled (ru_sink (w repr as start))"
    using facts(2) fresh_inv(6) [OF assms(1)] by (simp add: w_def sink_config_def)
  moreover have "length (ru_handled (w repr as start)) = outcomes (Inr Written) (ru_handled (w repr as start))
      + outcomes (Inr Capacity) (ru_handled (w repr as start))
      + outcomes (Inl OSError) (ru_handled (w repr as start))"
    by (rule three_ends) (use facts(1) in \<open>simp add: w_def sink_inv_def\<close>)
  moreover have "count_inv (w repr as start)" using facts(1) by (simp add: w_def sink_inv_def)
  moreover have "k repr as start = sk_counters (ru_sink (w repr as start))"
    by (simp add: k_def w_def)
  ultimately show ?thesis unfolding count_inv_def Let_def by simp
qed

theorem sink_accounts_witness:
  "ec_enqueued (sk_counters (ru_sink demo_run_sink)) = 2 \<and>
   ec_written (sk_counters (ru_sink demo_run_sink)) = 1 \<and>
   ec_enqueued (sk_counters (ru_sink demo_run_sink)) +
     ec_queue_dropped (sk_counters (ru_sink demo_run_sink)) +
     ec_record_size_dropped (sk_counters (ru_sink demo_run_sink)) +
     ec_serialization_errors (sk_counters (ru_sink demo_run_sink)) +
     ec_closed_dropped (sk_counters (ru_sink demo_run_sink)) = 3"
proof -
  have "ru_emits demo_run_sink = 3" by (simp add: demo_actions_def fresh_run_def)
  then show ?thesis
    using sink_accounts [OF demo_sink_new, of "\<lambda>_. []" demo_actions "[]"] demo_history by simp
qed

text \<open>
  C23: the file consists of whole records. Where truncating and unlocking succeed, the file is
  what it was at the start followed by exactly the lines counted as written, in order: a
  failed or partial write leaves no trace. Without that assumption each line the worker
  finished still leaves only a beginning of itself, all of it when it was counted as written
  and nothing when the file was full. In both cases the file does not grow over the
  configured size.
\<close>

theorem file_whole_records:
  assumes "jsonl_event_sink path a b c = Inr s"
  defines "w \<equiv> \<lambda>repr as start. run (sink_step repr) as (fresh_run s start)"
  shows "(list_all clean_io as \<longrightarrow> ru_contents (w repr as start) =
      start @ concat (map fst (filter (\<lambda>p. snd p = Inr Written) (ru_handled (w repr as start))))) \<and>
    (\<exists>pieces. ru_contents (w repr as start) = start @ concat pieces \<and>
       list_all2 (piece True) pieces (ru_handled (w repr as start))) \<and>
    int (length (ru_contents (w repr as start))) \<le> max (sk_max_file_bytes s) (int (length start))"
proof -
  have "file_inv torn (sk_max_file_bytes s) start (w repr as start)"
    if "list_all (\<lambda>a. torn \<or> clean_io a) as" for torn
    unfolding w_def by (rule files.run_keeps [OF fresh_inv(2) [OF assms(1)] that])
  from this [of True] this [of False] have
    any: "file_inv True (sk_max_file_bytes s) start (w repr as start)" and
    clean: "list_all clean_io as \<Longrightarrow> file_inv False (sk_max_file_bytes s) start (w repr as start)"
    by (simp_all add: list.pred_True)
  have outcomes: "list_all (\<lambda>p. snd p \<in> {Inr Written, Inr Capacity, Inl OSError})
      (ru_handled (w repr as start))"
    using reachable(1) [OF assms(1) refl, of repr as start] by (simp add: w_def sink_inv_def)
  show ?thesis
  proof (intro conjI impI)
    assume "list_all clean_io as"
    then obtain pieces where "ru_contents (w repr as start) = start @ concat pieces"
      "list_all2 (piece False) pieces (ru_handled (w repr as start))"
      using clean unfolding file_inv_def by blast
    then show "ru_contents (w repr as start) = start @ concat
        (map fst (filter (\<lambda>p. snd p = Inr Written) (ru_handled (w repr as start))))"
      using clean_pieces [OF _ outcomes] by simp
  qed (use any in \<open>simp_all add: file_inv_def\<close>)
qed

theorem file_whole_records_witness:
  "ru_contents demo_run_sink = demo_line \<and> int (length (ru_contents demo_run_sink)) \<le> 1024"
proof -
  have "list_all clean_io demo_actions"
    by (simp add: demo_actions_def clean_io_def demo_io_def)
  moreover have "sk_max_file_bytes demo_sink = 1024" by (simp add: demo_sink_def)
  ultimately show ?thesis
    using file_whole_records [OF demo_sink_new, of demo_actions "\<lambda>_. []" "[]"] demo_history
    by simp
qed

text \<open>
  C24: a closed sink drains. Once the sink is closed, as many rounds of the worker as lines wait,
  and one more, end the worker with every accepted line finished, whatever the operating
  system answers and whatever the callers do in between; a \<open>close\<close> that joins after that
  returns True and counts no timeout.
\<close>

theorem closed_sink_drains:
  assumes "jsonl_event_sink path a b c = Inr s"
    "sk_closed (ru_sink (run (sink_step repr) as (fresh_run s start)))"
    "list_all (\<lambda>(before, between, io). list_all caller_step before \<and> list_all caller_step between)
       rounds"
    "length (waiting (ru_sink (run (sink_step repr) as (fresh_run s start)))) < length rounds"
  defines "w \<equiv> run (sink_step repr) (as @ concat (map worker_round rounds)) (fresh_run s start)"
  shows "\<not> sk_worker_alive (ru_sink w) \<and> ru_accepted w = map fst (ru_handled w) \<and>
    \<not> sk_file_descriptor (ru_sink w) \<and> \<not> sk_directory_fd (ru_sink w) \<and>
    end_close (ru_sink w) = (ru_sink w, True)"
proof -
  let ?v = "run (sink_step repr) as (fresh_run s start)"
  have w: "w = run (sink_step repr) (concat (map worker_round rounds)) ?v" by (simp add: w_def)
  have "load (ru_sink ?v) \<le> length rounds" using assms(4) by (simp add: load_def)
  from rounds_drain [OF assms(2) reachable(1) [OF assms(1) refl] assms(3) this]
  have "load (ru_sink w) = 0" "sink_inv w" unfolding w by simp_all
  then show ?thesis
    by (auto simp: load_def sink_inv_def life_inv_def queue_inv_def end_close_def split: if_splits)
qed

theorem closed_sink_drains_witness:
  "\<not> sk_worker_alive (ru_sink (run (sink_step (\<lambda>_. []))
     (demo_actions @ concat (map worker_round
        [([], [Emit Other_Record], demo_io), ([End_Close], [], demo_io)])) (fresh_run demo_sink [])))"
  using closed_sink_drains [OF demo_sink_new, of "\<lambda>_. []" demo_actions "[]"
      "[([], [Emit Other_Record], demo_io), ([End_Close], [], demo_io)]"] demo_history
  by (simp add: caller_step_def)

text \<open>
  C25: writing a record terminates and is all or a beginning. The loop over \<^verbatim>\<open>os.write\<close> outcomes for
  every behaviour of the call; it appends a beginning of the data, all of it exactly when it
  returns, and raises OSError otherwise. If each call makes progress, it returns.
\<close>

theorem write_all_terminates:
  "(\<exists>m \<le> length data. fst (write_all os 0 contents data) = contents @ take m data \<and>
      (case snd (write_all os 0 contents data) of
         Inr _ \<Rightarrow> m = length data
       | Inl e \<Rightarrow> e = OSError \<and> m < length data)) \<and>
   ((\<forall>i < length data. \<exists>n > 0. os i = Wrote n) \<longrightarrow>
      write_all os 0 contents data = (contents @ data, Inr ()))"
  using write_all_prefix [of data os 0 contents] write_all_progress [of 0 data os contents] by simp

theorem write_all_terminates_witness:
  "write_all (\<lambda>k. Wrote 2) 0 ''ab'' ''cdefg'' = (''abcdefg'', Inr ())"
  using write_all_terminates [of "''cdefg''" "\<lambda>k. Wrote 2" "''ab''"] by auto

text \<open>
  \<open>emit\<close> never raises and tells exactly whether it queued the record. It answers True if and
  only if the sink is enabled and open, the record is a typed one whose line fits the record
  limit, and the queue has room; then the line is appended to the queue. Otherwise it answers
  False. Nothing but the queue, its task count and the counters ever changes.
\<close>

theorem emit_exact:
  "snd (emit repr s r) = Inr (sk_enabled s \<and> \<not> sk_closed s \<and>
      int (length (sk_records s)) < sk_max_pending_records s \<and>
      (case encode_record repr r of
         Inl _ \<Rightarrow> False | Inr l \<Rightarrow> int (length l) \<le> sk_max_record_bytes s)) \<and>
   sk_records (fst (emit repr s r)) = sk_records s @
     (case (encode_record repr r, snd (emit repr s r)) of
        (Inr l, Inr True) \<Rightarrow> [l] | _ \<Rightarrow> []) \<and>
   (fst (emit repr s r))\<lparr>sk_records := sk_records s, sk_unfinished := sk_unfinished s,
      sk_counters := sk_counters s\<rparr> = s"
proof (cases "encode_record repr r")
  case (Inl e)
  with encode_errors [OF Inl] show ?thesis by (simp add: emit_def count_event_def)
next
  case (Inr l)
  then show ?thesis by (simp add: emit_def put_record_def count_event_def)
qed

end
