(* ===== verification/Descriptor_History.thy ===== *)
theory Descriptor_History
  imports Descriptors
begin

text \<open>
  What a capture does to its directory, in every outcome of the file operations, and histories of
  the asynchronous capture.
\<close>

section \<open>Publishing\<close>

lemma publish_steps_cases:
  assumes "temporary \<noteq> final"
  obtains (untouched) e where "publish_steps io temporary final data dir = (dir, False, False, Inl e)"
  | (partial) x e where "dir temporary = None"
      "publish_steps io temporary final data dir = (dir(temporary \<mapsto> x), True, False, Inl e)"
  | (linked) "dir temporary = None" "dir final = None"
      "publish_steps io temporary final data dir =
         (dir(temporary \<mapsto> data, final \<mapsto> data), True, True, Inl OSError)"
  | (unsynced) "dir temporary = None" "dir final = None"
      "publish_steps io temporary final data dir = (dir(final \<mapsto> data), False, True, Inl OSError)"
  | (published) "dir temporary = None" "dir final = None"
      "publish_steps io temporary final data dir = (dir(final \<mapsto> data), False, True, Inr ())"
proof -
  obtain x r where w: "write_all (pi_write io) 0 [] data = (x, r)"
    by (cases "write_all (pi_write io) 0 [] data")
  have whole: "r = Inr u \<Longrightarrow> x = data" for u
    using write_all_prefix [of data "pi_write io" 0 "[]"] w by auto
  show ?thesis
  proof (cases "pi_open io \<and> dir temporary = None")
    case False
    then have "\<exists>e. publish_steps io temporary final data dir = (dir, False, False, Inl e)"
      by (auto simp: publish_steps_def)
    then show ?thesis using untouched by blast
  next
    case True
    note start = this
    show ?thesis
    proof (cases "\<exists>u. r = Inr u \<and> pi_fsync io \<and> pi_close io \<and> pi_link io \<and> dir final = None")
      case False
      have "\<exists>e. publish_steps io temporary final data dir = (dir(temporary \<mapsto> x), True, False, Inl e)"
      proof (cases r)
        case (Inr u)
        with False start assms show ?thesis by (auto simp: publish_steps_def w Let_def)
      qed (use start in \<open>simp add: publish_steps_def w Let_def\<close>)
      with start partial show ?thesis by blast
    next
      case True
      then have final: "dir final = None" by blast
      have undo: "(dir(temporary \<mapsto> data, final \<mapsto> data))(temporary := None) = dir(final \<mapsto> data)"
        using start assms by (auto simp: fun_eq_iff)
      show ?thesis
        using True start assms whole undo linked [OF _ final] unsynced [OF _ final]
          published [OF _ final]
        by (cases "pi_unlink io"; cases "pi_fsync_directory io")
          (auto simp: publish_steps_def w Let_def)
    qed
  qed
qed

lemma final_not_temporary: "temporary_name final token \<noteq> final"
proof
  assume "temporary_name final token = final"
  then have "length (temporary_name final token) = length final" by simp
  then show False by (simp add: temporary_name_def)
qed

text \<open>
  The directory after a capture: no entry that was there is changed or removed; the only new
  entries are the temporary name and, with the whole data, the final one.
\<close>

definition publishes :: "directory \<Rightarrow> string \<Rightarrow> string \<Rightarrow> string \<Rightarrow> directory \<Rightarrow> string option \<Rightarrow> bool" where
  "publishes dir temporary final data dir' r \<longleftrightarrow>
     (\<forall>n. dir n \<noteq> None \<longrightarrow> dir' n = dir n) \<and>
     (\<forall>n. n \<noteq> temporary \<longrightarrow> dir' n = dir n \<or> n = final \<and> dir' n = Some data) \<and>
     (r = Some final \<and> dir final = None \<and> dir' = dir(final \<mapsto> data) \<or> r = None)"

lemma publish_publishes:
  assumes "temporary \<noteq> final" "publish c io temporary final data dir = (c', dir', r)"
  shows "publishes dir temporary final data dir' r"
    "r = None \<Longrightarrow> pi_unlink_final io \<Longrightarrow> pi_unlink_temporary io \<Longrightarrow> dir' = dir"
proof -
  have undone: "dir temporary = None \<Longrightarrow> dir(temporary := None) = dir"
    "dir final = None \<Longrightarrow> dir(final := None) = dir" by auto
  have "publishes dir temporary final data dir' r \<and>
    (r = None \<and> pi_unlink_final io \<and> pi_unlink_temporary io \<longrightarrow> dir' = dir)"
    using assms(1)
  proof (cases rule: publish_steps_cases [where io = io and data = data and dir = dir])
    case (untouched e)
    with assms(2) show ?thesis
      by (auto simp: publish_def remove_temporary_def publishes_def Let_def split: if_splits)
  next
    case (partial x e)
    with assms show ?thesis
      by (auto simp: publish_def remove_temporary_def publishes_def Let_def undone split: if_splits)
  next
    case linked
    with assms show ?thesis
      by (auto simp: publish_def remove_temporary_def publishes_def Let_def fun_upd_twist undone
          split: if_splits)
  next
    case unsynced
    with assms show ?thesis
      by (auto simp: publish_def remove_temporary_def publishes_def Let_def undone split: if_splits)
  next
    case published
    with assms show ?thesis
      by (auto simp: publish_def remove_temporary_def publishes_def Let_def split: if_splits)
  qed
  then show "publishes dir temporary final data dir' r"
    "r = None \<Longrightarrow> pi_unlink_final io \<Longrightarrow> pi_unlink_temporary io \<Longrightarrow> dir' = dir" by blast+
qed

text \<open>The text of an inventory, and what a call of \<open>capture_layout\<close> does.\<close>

definition inventory_text :: "(py_float \<Rightarrow> string) \<Rightarrow> evidence_label \<Rightarrow> descriptor_inventory \<Rightarrow> string" where
  "inventory_text repr label v =
     projr (dumps_indented repr (inventory_to_payload label v)) @ [CHR 0x0A]"

lemma capture_publishes:
  assumes "capture_layout repr c io inventory dir = (c', dir', r)"
  shows "dir' = dir \<and> r = None \<or>
    (\<exists>v token. inventory = Some v \<and>
       publishes dir (temporary_name (final_name v) token) (final_name v)
         (inventory_text repr (lc_evidence_label c) v) dir' r \<and>
       (r = None \<and> pi_unlink_final io \<and> pi_unlink_temporary io \<longrightarrow> dir' = dir))"
proof (cases "dir' = dir \<and> r = None")
  case False
  then obtain v t token where v: "inventory = Some v" "pi_token io = Some token"
    "dumps_indented repr (inventory_to_payload (lc_evidence_label c) v) = Inr t"
    "publish c io (temporary_name (final_name v) token) (final_name v) (t @ [CHR 0x0A]) dir =
       (c', dir', r)"
    using assms
    by (auto simp: capture_layout_def split: if_splits option.splits sum.splits)
  then have "t @ [CHR 0x0A] = inventory_text repr (lc_evidence_label c) v"
    by (simp add: inventory_text_def)
  with v publish_publishes [OF final_not_temporary v(4)] show ?thesis by metis
qed blast


lemma capture_label:
  "capture_layout repr c io inventory dir = (c', dir', r) \<Longrightarrow>
     lc_evidence_label c' = lc_evidence_label c"
  by (auto simp: capture_layout_def publish_def remove_temporary_def count_io_def
      count_descriptor_def Let_def
      split: if_splits option.splits sum.splits prod.splits)

section \<open>Histories of the asynchronous capture\<close>

record async_run =
  ar_capture :: async_capture
  ar_directory :: directory
  ar_offers :: nat
  ar_accepted :: "descriptor_inventory list"
  ar_finished :: "(descriptor_inventory \<times> bool) list"

datatype async_action =
    Offer "descriptor_inventory option"
  | Writer_Take bool
  | Writer_Finish publish_io bool
  | Close_Async pyval

definition offered :: "async_capture \<Rightarrow> descriptor_inventory option \<Rightarrow> descriptor_inventory list" where
  "offered s x = (case x of None \<Rightarrow> [] | Some v \<Rightarrow> if snd (capture_async s x) then [v] else [])"

definition outcome ::
  "(py_float \<Rightarrow> string) \<Rightarrow> publish_io \<Rightarrow> bool \<Rightarrow> async_capture \<times> directory \<Rightarrow>
     (descriptor_inventory \<times> bool) list" where
  "outcome repr io reports x =
     (case (ac_current (fst x), snd (snd (writer_finish repr io reports x))) of
        (Some v, Some written) \<Rightarrow> [(v, written)] | _ \<Rightarrow> [])"

primrec async_step :: "(py_float \<Rightarrow> string) \<Rightarrow> async_run \<Rightarrow> async_action \<Rightarrow> async_run" where
  "async_step repr w (Offer x) =
     w\<lparr>ar_capture := fst (capture_async (ar_capture w) x), ar_offers := ar_offers w + 1,
       ar_accepted := ar_accepted w @ offered (ar_capture w) x\<rparr>"
| "async_step repr w (Writer_Take closes) = w\<lparr>ar_capture := writer_take closes (ar_capture w)\<rparr>"
| "async_step repr w (Writer_Finish io reports) =
     (let x = (ar_capture w, ar_directory w); y = writer_finish repr io reports x in
      w\<lparr>ar_capture := fst y, ar_directory := fst (snd y),
        ar_finished := ar_finished w @ outcome repr io reports x\<rparr>)"
| "async_step repr w (Close_Async timeout) =
     w\<lparr>ar_capture := fst (begin_close_async (ar_capture w) timeout)\<rparr>"

definition pending :: "async_capture \<Rightarrow> descriptor_inventory list" where
  "pending s = (case ac_current s of None \<Rightarrow> [] | Some v \<Rightarrow> [v]) @ ac_queue s"

definition written :: "(descriptor_inventory \<times> bool) list \<Rightarrow> descriptor_inventory list" where
  "written h = map fst (filter snd h)"

definition admission_inv :: "int \<Rightarrow> async_run \<Rightarrow> bool" where
  "admission_inv limit w \<longleftrightarrow> (let s = ar_capture w; k = ac_counts s; h = ar_finished w in
     ar_accepted w = map fst h @ pending s \<and>
     ac_max_pending s = limit \<and> int (length (ac_queue s)) \<le> limit \<and>
     aq_accepted k = length h + length (pending s) \<and>
     aq_written k = length (written h) \<and> aq_written k + aq_failed k = length h \<and>
     length h + length (pending s) + aq_queue_full k + aq_invalid_records k +
       aq_closed_dropped k = ar_offers w \<and>
     aq_cleanup_errors k = 0 \<and>
     (\<not> ac_writer_alive s \<longrightarrow> pending s = [] \<and> ac_closing s))"

definition directory_inv ::
  "(py_float \<Rightarrow> string) \<Rightarrow> evidence_label \<Rightarrow> directory \<Rightarrow> async_run \<Rightarrow> bool" where
  "directory_inv repr label start w \<longleftrightarrow>
     lc_evidence_label (ac_capture (ar_capture w)) = label \<and>
     (\<forall>n. start n \<noteq> None \<longrightarrow> ar_directory w n = start n) \<and>
     (\<forall>v \<in> set (written (ar_finished w)). start (final_name v) = None \<and>
        ar_directory w (final_name v) = Some (inventory_text repr label v)) \<and>
     distinct (map final_name (written (ar_finished w)))"

lemma count_async_simps [simp]:
  "ac_capture (count_async f s) = ac_capture s" "ac_max_pending (count_async f s) = ac_max_pending s"
  "ac_max_regions (count_async f s) = ac_max_regions s" "ac_queue (count_async f s) = ac_queue s"
  "ac_current (count_async f s) = ac_current s" "ac_closing (count_async f s) = ac_closing s"
  "ac_counts (count_async f s) = f (ac_counts s)"
  "ac_writer_alive (count_async f s) = ac_writer_alive s"
  by (simp_all add: count_async_def)

lemma pending_simps [simp]:
  "pending (count_async f s) = pending s"
  "pending (s\<lparr>ac_queue := vs\<rparr>) = (case ac_current s of None \<Rightarrow> [] | Some v \<Rightarrow> [v]) @ vs"
  "pending (s\<lparr>ac_closing := b\<rparr>) = pending s"
  by (simp_all add: pending_def)

lemma written_simps [simp]:
  "written [] = []" "written (h @ [(v, b)]) = written h @ (if b then [v] else [])"
  by (simp_all add: written_def)

lemma offer_keeps:
  "admission_inv limit w \<Longrightarrow> admission_inv limit (async_step repr w (Offer x))"
proof (cases "ac_closing (ar_capture w) \<or> x = None \<or>
    ac_max_regions (ar_capture w) < int (length (di_regions (the x)))")
  case False
  then obtain v where "x = Some v" by auto
  assume "admission_inv limit w"
  with False \<open>x = Some v\<close> show ?thesis
    by (cases "ac_max_pending (ar_capture w) \<le> int (length (ac_queue (ar_capture w)))")
      (simp_all add: admission_inv_def Let_def capture_async_def offered_def,
       auto simp: pending_def)
qed (auto simp: admission_inv_def Let_def capture_async_def offered_def split: option.split)

lemma writer_take_keeps:
  "admission_inv limit w \<Longrightarrow> admission_inv limit (async_step repr w (Writer_Take closes))"
  by (auto simp: admission_inv_def Let_def writer_take_def pending_def split: list.split option.splits)

lemma writer_finish_keeps:
  assumes "admission_inv limit w"
  shows "admission_inv limit (async_step repr w (Writer_Finish io reports))"
proof (cases "ac_current (ar_capture w)")
  case None
  with assms show ?thesis by (simp add: writer_finish_def outcome_def Let_def)
next
  case (Some v)
  obtain c dir r where c: "capture_layout repr (ac_capture (ar_capture w)) io (Some v)
      (ar_directory w) = (c, dir, r)" by (metis prod_cases3)
  show ?thesis
    using assms Some
    by (cases r; cases reports)
      (simp_all add: writer_finish_def outcome_def c admission_inv_def Let_def, auto simp: pending_def)
qed

lemma close_async_keeps:
  "admission_inv limit w \<Longrightarrow> admission_inv limit (async_step repr w (Close_Async timeout))"
  by (cases "check_timeout timeout") (auto simp: admission_inv_def Let_def begin_close_async_def)

interpretation admissions: machine "async_step repr" "\<lambda>_. True" "admission_inv limit" for repr limit
proof
  show "admission_inv limit (async_step repr w a)" if "admission_inv limit w" for w a
    using that by (cases a) (simp_all only: offer_keeps writer_take_keeps writer_finish_keeps
        close_async_keeps)
qed

lemma directory_finish:
  assumes "directory_inv repr label start w"
  shows "directory_inv repr label start (async_step repr w (Writer_Finish io reports))"
proof (cases "ac_current (ar_capture w)")
  case None
  with assms show ?thesis by (simp add: writer_finish_def outcome_def Let_def)
next
  case (Some v)
  obtain c dir r where c: "capture_layout repr (ac_capture (ar_capture w)) io (Some v)
      (ar_directory w) = (c, dir, r)" by (metis prod_cases3)
  have label: "lc_evidence_label (ac_capture (ar_capture w)) = label"
    using assms by (simp add: directory_inv_def)
  have step: "ar_directory (async_step repr w (Writer_Finish io reports)) = dir"
    "ar_finished (async_step repr w (Writer_Finish io reports)) = ar_finished w @ [(v, r \<noteq> None)]"
    "lc_evidence_label (ac_capture (ar_capture (async_step repr w (Writer_Finish io reports)))) = label"
    using Some c capture_label [OF c] label by (simp_all add: writer_finish_def outcome_def Let_def)
  have old: "ar_directory w n \<noteq> None \<Longrightarrow> dir n = ar_directory w n" for n
    using capture_publishes [OF c] by (auto simp: publishes_def)
  have new: "r \<noteq> None \<Longrightarrow> ar_directory w (final_name v) = None \<and>
      dir (final_name v) = Some (inventory_text repr label v)"
    using capture_publishes [OF c] label
    by (auto simp: publishes_def dest: fun_cong [where x = "final_name v"])
  show ?thesis
    unfolding directory_inv_def step
    using assms old new
    by (cases r) (auto simp: directory_inv_def split: if_splits)
qed

interpretation directories: machine "async_step repr" "\<lambda>_. True" "directory_inv repr label start"
  for repr label start
proof
  show "directory_inv repr label start (async_step repr w a)" if "directory_inv repr label start w" for w a
  proof (cases a)
    case (Writer_Finish io reports)
    with that show ?thesis by (simp only: directory_finish)
  qed (use that in \<open>auto simp: directory_inv_def capture_async_def writer_take_def close_layout_def
      count_io_def count_descriptor_def begin_close_async_def Let_def
      split: option.split list.split sum.split\<close>)
qed

section \<open>Fresh captures and an example\<close>

definition fresh_async :: "async_capture \<Rightarrow> directory \<Rightarrow> async_run" where
  "fresh_async s dir =
     \<lparr>ar_capture = s, ar_directory = dir, ar_offers = 0, ar_accepted = [], ar_finished = []\<rparr>"

lemma fresh_async_inv:
  assumes "async_capture_new d starts label_arg a b c = Inr s"
  shows "admission_inv (ac_max_pending s) (fresh_async s dir)"
    "directory_inv repr (lc_evidence_label (ac_capture s)) dir (fresh_async s dir)"
    "1 \<le> ac_max_pending s" "ac_max_pending s \<le> 16"
  using assms
  by (auto simp: async_capture_new_def fresh_async_def admission_inv_def directory_inv_def
      pending_def zero_async_counters_def DEFAULT_MAX_PENDING_DESCRIPTORS_def
      split: pyval.splits if_splits)

definition demo_directory :: capture_directory where
  "demo_directory = \<lparr>cd_is_symlink = False, cd_is_dir = True, cd_resolves = True, cd_opens = True,
     cd_fstat = True, cd_still_dir = True\<rparr>"

definition demo_inventory :: descriptor_inventory where
  "demo_inventory =
     \<lparr>di_identity = ObservationIdentity ''req-1'' 3 0 (Some 1),
      di_transfer = TransferIdentity ''00112233445566778899aabbccddeeff:t:1'', di_job_id = 7,
      di_direction = D2H,
      di_regions = [\<lparr>dr_src_offset = 0, dr_dst_offset = 4096, dr_size = 512, dr_direction = D2H,
        dr_src_region_id = 0, dr_dst_region_id = 1\<rparr>],
      di_observed_at_ns = 99\<rparr>"

definition demo_publish :: publish_io where
  "demo_publish = \<lparr>pi_stat = Some True, pi_token = Some ''0123456789abcdef'', pi_open = True,
     pi_write = (\<lambda>k. Wrote 4096), pi_fsync = True, pi_close = True, pi_link = True,
     pi_unlink = True, pi_fsync_directory = True, pi_unlink_final = True,
     pi_unlink_temporary = True\<rparr>"

definition demo_layout :: layout_capture where
  "demo_layout = \<lparr>lc_evidence_label = REPLAY, lc_max_regions = 8, lc_max_record_bytes = 4096,
     lc_directory_fd = True, lc_counters = zero_descriptor_counters, lc_closed = False\<rparr>"

definition demo_async :: async_capture where
  "demo_async = \<lparr>ac_capture = demo_layout, ac_max_pending = 2, ac_max_regions = 8, ac_queue = [],
     ac_current = None, ac_closing = False, ac_counts = zero_async_counters,
     ac_writer_alive = True\<rparr>"

lemma demo_async_new:
  "async_capture_new demo_directory True (PStr ''replay'') (PInt 2) (PInt 8) (PInt 4096) =
     Inr demo_async"
  by code_simp

section \<open>Properties of the capture\<close>

text \<open>
  C26: an inventory is published atomically or not at all. Whatever each file operation answers,
  a capture never changes or removes an entry the directory had; it returns a name exactly when
  that name was free and now holds the whole text, with nothing else changed; the only entries
  it can add are this one, whole, and its own temporary name; and when it returns nothing and
  the clean-up unlinks succeed, the directory is what it was.
\<close>

theorem capture_atomic:
  assumes "capture_layout repr c io inventory dir = (c', dir', r)"
  shows "(\<forall>n. dir n \<noteq> None \<longrightarrow> dir' n = dir n) \<and>
    (r \<noteq> None \<longrightarrow> (\<exists>v. inventory = Some v \<and> r = Some (final_name v) \<and>
       dir (final_name v) = None \<and>
       dir' = dir(final_name v \<mapsto> inventory_text repr (lc_evidence_label c) v))) \<and>
    (\<forall>n. dir' n = dir n \<or> (\<exists>v token. inventory = Some v \<and>
       (n = temporary_name (final_name v) token \<or>
        n = final_name v \<and> dir' n = Some (inventory_text repr (lc_evidence_label c) v)))) \<and>
    (r = None \<and> pi_unlink_final io \<and> pi_unlink_temporary io \<longrightarrow> dir' = dir)"
  using capture_publishes [OF assms]
proof (elim disjE exE conjE)
  fix v token
  assume v: "inventory = Some v"
    and p: "publishes dir (temporary_name (final_name v) token) (final_name v)
       (inventory_text repr (lc_evidence_label c) v) dir' r"
    and clean: "r = None \<and> pi_unlink_final io \<and> pi_unlink_temporary io \<longrightarrow> dir' = dir"
  have "dir' n = dir n \<or> n = temporary_name (final_name v) token \<or>
      n = final_name v \<and> dir' n = Some (inventory_text repr (lc_evidence_label c) v)" for n
    using p by (auto simp: publishes_def)
  then show ?thesis using v p clean unfolding publishes_def by blast
qed simp

theorem capture_atomic_witness:
  "fst (snd (capture_layout (\<lambda>_. []) demo_layout demo_publish (Some demo_inventory)
     (\<lambda>n. Some ''old''))) = (\<lambda>n. Some ''old'')"
proof -
  obtain c' dir' r where c: "capture_layout (\<lambda>_. []) demo_layout demo_publish
      (Some demo_inventory) (\<lambda>n. Some ''old'') = (c', dir', r)" by (metis prod_cases3)
  have "pi_unlink_final demo_publish" "pi_unlink_temporary demo_publish"
    by (simp_all add: demo_publish_def)
  then have "dir' = (\<lambda>n. Some ''old'')" using capture_atomic [OF c] by (cases r) auto
  with c show ?thesis by simp
qed

text \<open>
  C27: the asynchronous capture loses nothing silently. After any interleaving of callers and
  writer, and any answers of the file system, the admitted inventories are, in order, the
  finished, the held and the queued ones; at most the configured number waits, never more than
  16; every offer and every finished inventory is counted once; and the directory still has all
  its old entries, and for each inventory counted as written its own file with the whole text.
\<close>

theorem async_capture_conserved:
  assumes "async_capture_new d starts label_arg a b c = Inr s"
  defines "w \<equiv> \<lambda>repr as dir. run (async_step repr) as (fresh_async s dir)"
  shows "ar_accepted (w repr as dir) =
      map fst (ar_finished (w repr as dir)) @ pending (ar_capture (w repr as dir)) \<and>
    int (length (ac_queue (ar_capture (w repr as dir)))) \<le> ac_max_pending s \<and>
    ac_max_pending s \<le> 16 \<and>
    aq_accepted (ac_counts (ar_capture (w repr as dir))) +
      aq_queue_full (ac_counts (ar_capture (w repr as dir))) +
      aq_invalid_records (ac_counts (ar_capture (w repr as dir))) +
      aq_closed_dropped (ac_counts (ar_capture (w repr as dir))) = ar_offers (w repr as dir) \<and>
    aq_written (ac_counts (ar_capture (w repr as dir))) =
      length (written (ar_finished (w repr as dir))) \<and>
    (\<forall>n. dir n \<noteq> None \<longrightarrow> ar_directory (w repr as dir) n = dir n) \<and>
    (\<forall>v \<in> set (written (ar_finished (w repr as dir))). dir (final_name v) = None \<and>
       ar_directory (w repr as dir) (final_name v) =
         Some (inventory_text repr (lc_evidence_label (ac_capture s)) v)) \<and>
    distinct (map final_name (written (ar_finished (w repr as dir))))"
proof -
  have "admission_inv (ac_max_pending s) (w repr as dir)"
    unfolding w_def
    by (rule admissions.run_keeps [OF fresh_async_inv(1) [OF assms(1)]]) (simp add: list.pred_True)
  moreover have "directory_inv repr (lc_evidence_label (ac_capture s)) dir (w repr as dir)"
    unfolding w_def
    by (rule directories.run_keeps [OF fresh_async_inv(2) [OF assms(1)]]) (simp add: list.pred_True)
  ultimately show ?thesis using fresh_async_inv(4) [OF assms(1)]
    unfolding admission_inv_def directory_inv_def Let_def
    by (elim conjE, intro conjI) (assumption | linarith)+
qed

theorem async_capture_conserved_witness:
  "let w = run (async_step (\<lambda>_. [])) [Offer (Some demo_inventory), Offer None, Writer_Take True]
       (fresh_async demo_async (\<lambda>_. None))
   in pending (ar_capture w) = [demo_inventory] \<and> ar_accepted w = [demo_inventory] \<and>
      ar_directory w ''rank0-gen3-d2h-job7.json'' = None"
proof -
  let ?w = "run (async_step (\<lambda>_. [])) [Offer (Some demo_inventory), Offer None, Writer_Take True]
       (fresh_async demo_async (\<lambda>_. None))"
  have "ar_finished ?w = []" "pending (ar_capture ?w) = [demo_inventory]"
    "ar_directory ?w = (\<lambda>_. None)"
    by (simp_all add: fresh_async_def demo_async_def capture_async_def demo_inventory_def
        offered_def writer_take_def pending_def)
  then show ?thesis
    using async_capture_conserved [OF demo_async_new, of "\<lambda>_. []"
        "[Offer (Some demo_inventory), Offer None, Writer_Take True]" "\<lambda>_. None"]
    by (simp add: Let_def)
qed

end
