(* ===== verification/Adapter_History.thy ===== *)
theory Adapter_History
  imports Adapter Event_History Descriptor_History Normalizer_History
begin

text \<open>
  Histories of the host adapter: every callback is accounted for, resources are owned exactly
  while the adapter is not stopped, and a stop that leaves a writer running keeps them.
\<close>

section \<open>The invariant\<close>

definition waiting_descriptors :: "adapter \<Rightarrow> nat" where
  "waiting_descriptors a = (case ad_capture a of None \<Rightarrow> 0 | Some c \<Rightarrow> length (pending c))"

definition accounts :: "adapter \<Rightarrow> bool" where
  "accounts a \<longleftrightarrow>
     (let k = ad_counters a in
      k_callback_errors k = 0 \<and>
      k_observations_received k =
        k_observations_emitted k + k_normalization_dropped k + k_sink_dropped k \<and>
      k_host_facts_received k = k_host_facts_emitted k + k_host_facts_dropped k \<and>
      k_correlated_received k = k_correlated_emitted k + k_correlated_dropped k \<and>
      k_descriptors_received k =
        k_descriptors_written k + k_descriptors_dropped k + waiting_descriptors a)"

definition owns_resources :: "adapter \<Rightarrow> bool" where
  "owns_resources a \<longleftrightarrow> ad_normalizer a \<noteq> None \<and> ad_sink a \<noteq> None"

definition ownership :: "adapter \<Rightarrow> bool" where
  "ownership a \<longleftrightarrow>
     (if ad_state a = STOPPED
      then ad_normalizer a = None \<and> ad_sink a = None \<and> ad_capture a = None \<and>
        \<not> ad_binding a \<and> ad_handle a = None
      else owns_resources a) \<and>
     (ad_state a = ACTIVE \<longrightarrow> ad_binding a \<and> ad_handle a \<noteq> None)"

text \<open>A capture whose writer has ended holds nothing, and one being registered neither.\<close>

definition drained :: "adapter \<Rightarrow> bool" where
  "drained a \<longleftrightarrow>
     (case ad_capture a of
        None \<Rightarrow> True
      | Some c \<Rightarrow> (ac_writer_alive c \<or> ac_closing c \<and> pending c = []) \<and>
          (ad_state a = STARTING \<longrightarrow> pending c = []))"

definition adapter_inv :: "adapter \<Rightarrow> bool" where
  "adapter_inv a \<longleftrightarrow> accounts a \<and> ownership a \<and> drained a"

text \<open>What no callback and no writer changes.\<close>

definition same_owner :: "adapter \<Rightarrow> adapter \<Rightarrow> bool" where
  "same_owner a b \<longleftrightarrow>
     ad_state b = ad_state a \<and> ad_config b = ad_config a \<and> ad_binding b = ad_binding a \<and>
     ad_handle b = ad_handle a \<and> (ad_normalizer b = None \<longleftrightarrow> ad_normalizer a = None) \<and>
     (ad_sink b = None \<longleftrightarrow> ad_sink a = None) \<and> (ad_capture b = None \<longleftrightarrow> ad_capture a = None)"

lemma same_owner_refl [simp]: "same_owner a a"
  by (simp add: same_owner_def)

lemma same_owner_trans: "same_owner a b \<Longrightarrow> same_owner b c \<Longrightarrow> same_owner a c"
  by (auto simp: same_owner_def)

lemma same_owner_ownership: "same_owner a b \<Longrightarrow> ownership a \<Longrightarrow> ownership b"
  by (auto simp: same_owner_def ownership_def owns_resources_def)

section \<open>Callbacks\<close>

lemma emit_returns: "\<exists>s' b. emit repr s r = (s', Inr b)"
proof -
  have "encode_record repr r = Inl e \<Longrightarrow> e \<in> {TypeError, ValueError, OverflowError}" for e
    using encode_errors [of repr r e] by simp
  then show ?thesis by (auto simp: emit_def put_record_def split: sum.splits)
qed

lemma normalize_returns: "\<exists>n' y. normalize n x = (n', Inr y)"
  using counted_locked [of n x]
  by (auto simp: normalize_def counted_def split: prod.splits sum.splits option.splits)

definition keeps :: "adapter \<Rightarrow> adapter \<Rightarrow> bool" where
  "keeps a b \<longleftrightarrow> same_owner a b \<and> (accounts a \<longrightarrow> drained a \<longrightarrow> accounts b \<and> drained b)"

lemma keeps_inv: "keeps a b \<Longrightarrow> adapter_inv a \<Longrightarrow> adapter_inv b \<and> same_owner a b"
  using same_owner_ownership by (auto simp: keeps_def adapter_inv_def)

lemma keeps_refl [simp]: "keeps a a"
  by (simp add: keeps_def)

lemma inactive_keeps: "keeps a (fst (inactive a))"
  by (simp add: inactive_def keeps_def same_owner_def accounts_def drained_def count_adapter_def
      waiting_descriptors_def Let_def split: option.splits)

lemma observe_keeps:
  assumes "owns_resources a"
  shows "keeps a (fst (observe repr a x))"
proof (cases "ad_state a = ACTIVE")
  case True
  from assms obtain n s where ns: "ad_normalizer a = Some n" "ad_sink a = Some s"
    by (auto simp: owns_resources_def)
  obtain n' y where n: "normalize n x = (n', Inr y)" using normalize_returns by blast
  show ?thesis
  proof (cases y)
    case None
    then show ?thesis using True
      by (simp add: observe_def ns n keeps_def same_owner_def accounts_def drained_def
          count_adapter_def waiting_descriptors_def Let_def split: option.splits)
  next
    case (Some ob)
    obtain s' b where "emit repr s (Event_Record ob) = (s', Inr b)" using emit_returns by blast
    then show ?thesis using True Some
      by (cases b) (simp_all add: observe_def ns n keeps_def same_owner_def accounts_def
          drained_def count_adapter_def waiting_descriptors_def Let_def split: option.splits)
  qed
qed (simp add: observe_def inactive_keeps)

lemma offer_record_returns:
  assumes "owns_resources a"
  shows "\<exists>s' b. offer_record repr a r = (a\<lparr>ad_sink := Some s'\<rparr>, b)"
proof -
  obtain s where s: "ad_sink a = Some s" using assms by (auto simp: owns_resources_def)
  obtain s' b where "emit repr s r = (s', Inr b)" using emit_returns by blast
  then show ?thesis by (auto simp: offer_record_def s)
qed

lemma fact_keeps:
  assumes "owns_resources a"
  shows "keeps a (fst (observe_host_fact_record repr a f))"
proof (cases "ad_state a = ACTIVE")
  case True
  let ?a = "count_adapter (k_host_facts_received_update Suc) a"
  have "owns_resources ?a" using assms by (simp add: owns_resources_def count_adapter_def)
  then obtain s' b where "offer_record repr ?a f = (?a\<lparr>ad_sink := Some s'\<rparr>, b)"
    using offer_record_returns by blast
  then show ?thesis using True assms
    by (cases b) (auto simp: observe_host_fact_record_def keeps_def same_owner_def accounts_def
        owns_resources_def drained_def count_adapter_def waiting_descriptors_def Let_def split: option.splits)
qed (simp add: observe_host_fact_record_def inactive_keeps)

lemma correlated_keeps:
  assumes "owns_resources a"
  shows "keeps a (fst (observe_correlated repr a r))"
proof (cases "ad_state a = ACTIVE")
  case True
  let ?a = "count_adapter (k_correlated_received_update Suc) a"
  have "owns_resources ?a" using assms by (simp add: owns_resources_def count_adapter_def)
  then obtain s' b where "offer_record repr ?a r = (?a\<lparr>ad_sink := Some s'\<rparr>, b)"
    using offer_record_returns by blast
  then show ?thesis using True assms
    by (cases b) (auto simp: observe_correlated_def keeps_def same_owner_def accounts_def
        owns_resources_def drained_def count_adapter_def waiting_descriptors_def Let_def split: option.splits)
qed (simp add: observe_correlated_def inactive_keeps)

lemma capture_async_pending:
  assumes "capture_async c v = (c', b)"
  shows "length (pending c') = length (pending c) + of_bool b" "ac_writer_alive c' = ac_writer_alive c"
    "ac_closing c' = ac_closing c" "ac_closing c \<Longrightarrow> \<not> b"
  using assms
  by (auto simp: capture_async_def pending_def count_async_def split: if_splits option.splits)

lemma descriptor_keeps: "keeps a (fst (capture_descriptor a v))"
proof (cases "ad_state a = ACTIVE")
  case True
  show ?thesis
  proof (cases "ad_capture a")
    case None
    then show ?thesis using True
      by (simp add: capture_descriptor_def keeps_def same_owner_def accounts_def drained_def
          count_adapter_def waiting_descriptors_def Let_def split: option.splits)
  next
    case (Some c)
    obtain c' b where c': "capture_async c v = (c', b)" by (cases "capture_async c v")
    show ?thesis using True Some capture_async_pending [OF c']
      by (cases b) (auto simp: capture_descriptor_def c' keeps_def same_owner_def accounts_def
          drained_def count_adapter_def waiting_descriptors_def Let_def split: option.splits)
  qed
qed (simp add: capture_descriptor_def inactive_keeps)

section \<open>Writers\<close>

lemma sink_update_keeps:
  "ad_sink a \<noteq> None \<Longrightarrow> keeps a (a\<lparr>ad_sink := Some s'\<rparr>)"
  by (auto simp: keeps_def same_owner_def accounts_def drained_def waiting_descriptors_def Let_def
      split: option.splits)

lemma writer_take_pending:
  "pending (writer_take b c) = pending c" "ac_closing (writer_take b c) = ac_closing c"
  "ac_writer_alive c \<Longrightarrow> \<not> ac_writer_alive (writer_take b c) \<Longrightarrow> ac_closing c \<and> pending c = []"
  "\<not> ac_writer_alive c \<Longrightarrow> writer_take b c = c"
  by (auto simp: writer_take_def pending_def split: list.splits option.splits if_splits)

lemma capture_take_keeps: "keeps a (ad_capture_update (map_option (writer_take b)) a)"
proof (cases "ad_capture a")
  case None
  then show ?thesis
    by (auto simp: keeps_def same_owner_def accounts_def drained_def waiting_descriptors_def Let_def)
next
  case (Some c)
  then show ?thesis using writer_take_pending [where b = b and c = c]
    by (cases "ac_writer_alive c"; cases "ac_writer_alive (writer_take b c)")
      (auto simp: keeps_def same_owner_def accounts_def drained_def waiting_descriptors_def Let_def)
qed

lemma writer_finish_pending:
  assumes "writer_finish repr io True (c, dir) = (c', dir', result)"
  shows "ac_closing c' = ac_closing c \<and> ac_writer_alive c' = ac_writer_alive c \<and>
    length (pending c) = length (pending c') + (if result = None then 0 else 1)"
  using assms
  by (cases "ac_current c")
    (auto simp: writer_finish_def pending_def count_async_def Let_def split: prod.splits)

lemma capture_finish_keeps: "keeps (aw_adapter w) (aw_adapter (capture_finish repr io w))"
proof (cases "ad_capture (aw_adapter w)")
  case (Some c)
  obtain c' dir result where f: "writer_finish repr io True (c, aw_directory w) = (c', dir, result)"
    by (rule prod_cases3)
  show ?thesis
  proof (cases result)
    case None
    with Some f writer_finish_pending [OF f] show ?thesis
      by (auto simp: capture_finish_def in_adapter_def keeps_def same_owner_def accounts_def
          drained_def waiting_descriptors_def Let_def)
  next
    case (Some b)
    with \<open>ad_capture (aw_adapter w) = _\<close> f writer_finish_pending [OF f] show ?thesis
      by (cases b) (auto simp: capture_finish_def in_adapter_def keeps_def same_owner_def
          accounts_def drained_def waiting_descriptors_def descriptor_result_def count_adapter_def
          Let_def)
  qed
qed (simp add: capture_finish_def)

lemma busy_keeps:
  assumes "owns_resources (aw_adapter w)"
  shows "keeps (aw_adapter w) (aw_adapter (busy_step repr w b))"
proof (cases b)
  case Sink_Take
  obtain s where "ad_sink (aw_adapter w) = Some s" using assms by (auto simp: owns_resources_def)
  then have "ad_sink_update (map_option worker_take) (aw_adapter w) =
      (aw_adapter w)\<lparr>ad_sink := Some (worker_take s)\<rparr>"
    by simp
  then show ?thesis using Sink_Take sink_update_keeps [of "aw_adapter w" "worker_take s"] assms
    by (simp add: in_adapter_def owns_resources_def)
next
  case (Sink_Finish io)
  obtain s where s: "ad_sink (aw_adapter w) = Some s" using assms by (auto simp: owns_resources_def)
  obtain s' x where "worker_finish s (aw_contents w) io = (s', x)"
    by (cases "worker_finish s (aw_contents w) io")
  then show ?thesis using Sink_Finish s sink_update_keeps [of "aw_adapter w" s']
    by (simp add: sink_finish_def in_adapter_def)
qed (use assms in \<open>simp_all add: in_adapter_def observe_keeps descriptor_keeps fact_keeps
      correlated_keeps capture_take_keeps capture_finish_keeps\<close>)

lemma keeps_trans: "keeps a b \<Longrightarrow> keeps b c \<Longrightarrow> keeps a c"
  using same_owner_trans by (auto simp: keeps_def)

lemma same_owner_owns: "same_owner a b \<Longrightarrow> owns_resources b = owns_resources a"
  by (auto simp: same_owner_def owns_resources_def)

lemma keeps_owns: "keeps a b \<Longrightarrow> owns_resources a \<Longrightarrow> owns_resources b"
  using same_owner_owns [of a b] by (simp add: keeps_def)

lemma run_keeps_owner:
  assumes "owns_resources (aw_adapter w)"
  shows "keeps (aw_adapter w) (aw_adapter (run (busy_step repr) bs w))"
  using assms
proof (induction bs arbitrary: w)
  case (Cons b bs)
  have first: "keeps (aw_adapter w) (aw_adapter (busy_step repr w b))"
    by (rule busy_keeps [OF Cons.prems])
  then have "owns_resources (aw_adapter (busy_step repr w b))"
    by (rule keeps_owns) (rule Cons.prems)
  from keeps_trans [OF first Cons.IH [OF this]] show ?case by simp
qed simp

section \<open>Closing\<close>

lemma count_keeps:
  "keeps a (count_cleanup a)" "keeps a (count_timeout a)"
  "keeps a (count_adapter (k_unregister_errors_update Suc) a)"
  by (auto simp: count_cleanup_def count_timeout_def count_adapter_def keeps_def same_owner_def
      accounts_def drained_def waiting_descriptors_def Let_def split: option.splits)

lemma in_adapter_simps [simp]: "aw_adapter (in_adapter f w) = f (aw_adapter w)"
  by (simp add: in_adapter_def)

lemma normalizer_keeps: "keeps a (ad_normalizer_update (map_option close_normalizer) a)"
  by (auto simp: keeps_def same_owner_def accounts_def drained_def waiting_descriptors_def Let_def
      split: option.splits)

lemma begin_close_async_keeps:
  assumes "ad_capture a = Some c" "begin_close_async c timeout = (c', r)"
  shows "keeps a (a\<lparr>ad_capture := Some c'\<rparr>)"
proof -
  have "pending c' = pending c \<and> ac_writer_alive c' = ac_writer_alive c \<and>
      (ac_closing c \<longrightarrow> ac_closing c')"
    using assms(2) by (auto simp: begin_close_async_def pending_def split: sum.splits)
  then show ?thesis using assms(1)
    by (auto simp: keeps_def same_owner_def accounts_def drained_def waiting_descriptors_def Let_def)
qed

definition capture_ended :: "adapter \<Rightarrow> bool" where
  "capture_ended a \<longleftrightarrow> (case ad_capture a of None \<Rightarrow> True | Some c \<Rightarrow> \<not> ac_writer_alive c)"

lemma close_capture_keeps:
  assumes "owns_resources (aw_adapter w)" "close_capture repr timeout during w = (w', ok)"
  shows "keeps (aw_adapter w) (aw_adapter w')"
    "ok \<Longrightarrow> capture_ended (aw_adapter w')"
proof -
  show "keeps (aw_adapter w) (aw_adapter w')"
  proof (cases "ad_capture (aw_adapter w)")
    case (Some c)
    obtain c' r where opened: "begin_close_async c timeout = (c', r)"
      by (cases "begin_close_async c timeout")
    let ?w = "in_adapter (ad_capture_update (\<lambda>_. Some c')) w"
    have first: "keeps (aw_adapter w) (aw_adapter ?w)"
      using begin_close_async_keeps [OF Some opened] by simp
    have "keeps (aw_adapter w) (aw_adapter (run (busy_step repr) during ?w))"
      by (rule keeps_trans [OF first run_keeps_owner [OF keeps_owns [OF first assms(1)]]])
    note all = keeps_trans [OF this] keeps_trans [OF first]
    show ?thesis using assms(2) Some opened all [OF count_keeps(1)] all [OF count_keeps(2)]
        all [OF keeps_refl]
      by (auto simp: close_capture_def Let_def split: sum.splits option.splits bool.splits)
  qed (use assms in \<open>auto simp: close_capture_def\<close>)
  show "capture_ended (aw_adapter w')" if ok
    using assms(2) that
    by (auto simp: close_capture_def capture_ended_def end_close_async_def Let_def
        split: sum.splits option.splits bool.splits if_splits prod.splits)
qed

lemma callbacks_same_capture:
  "ad_capture (fst (inactive a)) = ad_capture a"
  "ad_capture (fst (observe repr a x)) = ad_capture a"
  "ad_capture (fst (offer_record repr a r)) = ad_capture a"
  "ad_capture (fst (observe_host_fact_record repr a r)) = ad_capture a"
  "ad_capture (fst (observe_correlated repr a r)) = ad_capture a"
proof -
  show inactive: "ad_capture (fst (inactive a)) = ad_capture a" for a
    by (simp add: inactive_def count_adapter_def)
  show "ad_capture (fst (observe repr a x)) = ad_capture a"
    by (auto simp: observe_def inactive callback_error_def count_adapter_def Let_def
        split: option.split prod.split sum.split bool.split)
  show offer: "ad_capture (fst (offer_record repr a r)) = ad_capture a" for a
    by (auto simp: offer_record_def callback_error_def count_adapter_def
        split: option.split prod.split sum.split)
  show "ad_capture (fst (observe_host_fact_record repr a r)) = ad_capture a"
    using offer [of "count_adapter (k_host_facts_received_update Suc) a"]
    by (auto simp: observe_host_fact_record_def inactive count_adapter_def Let_def
        split: prod.split)
  show "ad_capture (fst (observe_correlated repr a r)) = ad_capture a"
    using offer [of "count_adapter (k_correlated_received_update Suc) a"]
    by (auto simp: observe_correlated_def inactive count_adapter_def Let_def split: prod.split)
qed

lemma busy_capture_ended:
  assumes "capture_ended (aw_adapter w)"
  shows "capture_ended (aw_adapter (busy_step repr w b))"
proof (cases b)
  case (Offer_Descriptor v)
  have "capture_ended (fst (capture_descriptor a v))" if "capture_ended a" for a
  proof (cases "ad_state a = ACTIVE \<and> ad_capture a \<noteq> None")
    case True
    then obtain c where c: "ad_state a = ACTIVE" "ad_capture a = Some c" by blast
    obtain c' y where "capture_async c v = (c', y)" by (cases "capture_async c v")
    with capture_async_pending [OF this] c that show ?thesis
      by (simp add: capture_descriptor_def capture_ended_def count_adapter_def Let_def)
  qed (use that in \<open>auto simp: capture_descriptor_def capture_ended_def inactive_def
      count_adapter_def Let_def\<close>)
  with assms Offer_Descriptor show ?thesis by simp
next
  case (Sink_Finish io)
  with assms show ?thesis
    by (auto simp: sink_finish_def capture_ended_def in_adapter_def split: option.split prod.split)
next
  case (Capture_Take released)
  with assms show ?thesis
    by (auto simp: capture_ended_def writer_take_pending split: option.splits)
next
  case (Capture_Finish io)
  show ?thesis
  proof (cases "ad_capture (aw_adapter w)")
    case (Some c)
    obtain c' dir result where f: "writer_finish repr io True (c, aw_directory w) = (c', dir, result)"
      by (rule prod_cases3)
    with assms Some Capture_Finish writer_finish_pending [OF f] show ?thesis
      by (auto simp: capture_finish_def capture_ended_def in_adapter_def descriptor_result_def
          count_adapter_def Let_def split: option.split)
  qed (use assms Capture_Finish in \<open>simp add: capture_finish_def\<close>)
qed (use assms in \<open>simp_all add: capture_ended_def callbacks_same_capture\<close>)

lemma run_capture_ended:
  "capture_ended (aw_adapter w) \<Longrightarrow> capture_ended (aw_adapter (run (busy_step repr) bs w))"
  by (induction bs arbitrary: w) (simp_all add: busy_capture_ended)

lemma close_sink_keeps:
  assumes "owns_resources (aw_adapter w)" "close_sink repr timeout during w = (w', ok)"
  shows "keeps (aw_adapter w) (aw_adapter w')"
    "capture_ended (aw_adapter w) \<Longrightarrow> capture_ended (aw_adapter w')"
    "ok \<Longrightarrow> \<exists>s. ad_sink (aw_adapter w') = Some s \<and> \<not> sink_is_alive s"
proof -
  obtain s where s: "ad_sink (aw_adapter w) = Some s" using assms(1) by (auto simp: owns_resources_def)
  obtain s' r where opened: "begin_close s timeout = (s', r)" by (cases "begin_close s timeout")
  let ?w = "in_adapter (ad_sink_update (\<lambda>_. Some s')) w"
  let ?w' = "run (busy_step repr) during ?w"
  have first: "keeps (aw_adapter w) (aw_adapter ?w)"
    using sink_update_keeps [of "aw_adapter w" s'] s by simp
  note owns = keeps_owns [OF first assms(1)]
  have busy: "keeps (aw_adapter w) (aw_adapter ?w')"
    by (rule keeps_trans [OF first run_keeps_owner [OF owns]])
  then have "owns_resources (aw_adapter ?w')" using keeps_owns assms(1) by blast
  then obtain s2 where s2: "ad_sink (aw_adapter ?w') = Some s2" by (auto simp: owns_resources_def)
  obtain s3 b where closed: "end_close s2 = (s3, b)" by (cases "end_close s2")
  let ?w3 = "in_adapter (ad_sink_update (\<lambda>_. Some s3)) ?w'"
  have ended: "keeps (aw_adapter ?w') (aw_adapter ?w3)"
    using sink_update_keeps [of "aw_adapter ?w'" s3] s2 by simp
  have same: "capture_ended (ad_sink_update f a) = capture_ended a"
    "capture_ended (count_timeout a) = capture_ended a"
    "capture_ended (count_cleanup a) = capture_ended a" for f a
    by (simp_all add: capture_ended_def count_timeout_def count_cleanup_def count_adapter_def)
  have outcome: "w' = in_adapter (count_cleanup \<circ> ad_sink_update (\<lambda>_. Some s')) w \<and> \<not> ok \<or>
      w' = ?w3 \<and> ok \<and> b \<or> w' = in_adapter count_timeout ?w3 \<and> \<not> ok"
    using assms(2) s opened s2 closed
    by (cases r; cases b) (auto simp: close_sink_def Let_def)
  show "keeps (aw_adapter w) (aw_adapter w')"
    using outcome keeps_trans [OF first count_keeps(1)] keeps_trans [OF busy ended]
      keeps_trans [OF keeps_trans [OF busy ended] count_keeps(2)] by auto
  show "capture_ended (aw_adapter w')" if "capture_ended (aw_adapter w)"
    using outcome run_capture_ended [of ?w repr during] that by (auto simp: same)
  show "\<exists>s. ad_sink (aw_adapter w') = Some s \<and> \<not> sink_is_alive s" if ok
    using outcome that closed
    by (auto simp: end_close_def sink_is_alive_def split: if_splits)
qed

lemma close_prepared_keeps:
  assumes "owns_resources (aw_adapter w)" "close_prepared_resources repr cl w = (w', ok)"
  shows "keeps (aw_adapter w) (aw_adapter w')" "ok \<Longrightarrow> \<not> writers_alive (aw_adapter w')"
proof -
  let ?left = "remaining (aw_adapter w) (cl_started cl)"
  let ?w1 = "in_adapter (ad_normalizer_update (map_option close_normalizer)) w"
  obtain w2 b where c: "close_capture repr (?left (cl_capture_now cl)) (cl_during_capture cl) ?w1 =
      (w2, b)" by fastforce
  obtain w3 b' where s: "close_sink repr (?left (cl_sink_now cl)) (cl_during_sink cl) w2 = (w3, b')"
    by fastforce
  have result: "w' = w3" "ok = (b \<and> b')"
    using assms(2) c s by (simp_all add: close_prepared_resources_def)
  have first: "keeps (aw_adapter w) (aw_adapter ?w1)" using normalizer_keeps by simp
  note second = close_capture_keeps [OF keeps_owns [OF first assms(1)] c]
  have two: "keeps (aw_adapter w) (aw_adapter w2)" by (rule keeps_trans [OF first second(1)])
  note third = close_sink_keeps [OF keeps_owns [OF two assms(1)] s]
  show "keeps (aw_adapter w) (aw_adapter w')" unfolding result by (rule keeps_trans [OF two third(1)])
  show "\<not> writers_alive (aw_adapter w')" if ok
  proof -
    have "capture_ended (aw_adapter w3)" "\<exists>s. ad_sink (aw_adapter w3) = Some s \<and> \<not> sink_is_alive s"
      using that second third unfolding result by blast+
    then show ?thesis
      by (auto simp: result writers_alive_def capture_ended_def split: option.splits)
  qed
qed

section \<open>Stopping\<close>

text \<open>The world before \<^verbatim>\<open>stop\<close> decides whether it still owns the resources.\<close>

definition shut_down ::
  "(py_float \<Rightarrow> string) \<Rightarrow> stopping \<Rightarrow> adapter_world \<Rightarrow> adapter_world \<times> bool \<times> bool" where
  "shut_down repr sp w =
     (let (w1, unregister_ok) =
            unregister_handle repr sp (in_adapter (ad_state_update (\<lambda>_. STOPPING)) w);
          (w2, shutdown_ok) = close_prepared_resources repr (sp_closing sp) w1
      in (w2, unregister_ok, shutdown_ok))"

lemma stopping_keeps:
  "accounts (ad_state_update (\<lambda>_. STOPPING) a) = accounts a"
  "drained a \<Longrightarrow> drained (ad_state_update (\<lambda>_. STOPPING) a)"
  by (auto simp: accounts_def drained_def waiting_descriptors_def Let_def split: option.splits)

lemma unregister_keeps_all:
  assumes "owns_resources (aw_adapter w)" "unregister_handle repr sp w = (w', ok)"
  shows "keeps (aw_adapter w) (aw_adapter w')"
  using assms(2) run_keeps_owner [OF assms(1), of repr "sp_during_unregister sp"]
    keeps_trans [OF run_keeps_owner [OF assms(1)] count_keeps(3)]
  by (auto simp: unregister_handle_def Let_def split: if_splits sum.splits)

lemma shut_down_keeps:
  assumes "adapter_inv (aw_adapter w)" "ad_state (aw_adapter w) \<noteq> STOPPED"
    "shut_down repr sp w = (w', u, ok)"
  shows "accounts (aw_adapter w')" "drained (aw_adapter w')" "owns_resources (aw_adapter w')"
    "ad_state (aw_adapter w') = STOPPING" "ad_config (aw_adapter w') = ad_config (aw_adapter w)"
    "ok \<Longrightarrow> \<not> writers_alive (aw_adapter w')"
    "stop repr sp w = (in_adapter settle w', u \<and> ok)"
proof -
  let ?w = "in_adapter (ad_state_update (\<lambda>_. STOPPING)) w"
  obtain w1 where un: "unregister_handle repr sp ?w = (w1, u)"
    and close: "close_prepared_resources repr (sp_closing sp) w1 = (w', ok)"
    using assms(3) by (auto simp: shut_down_def split: prod.splits)
  have start: "owns_resources (aw_adapter ?w)" "accounts (aw_adapter ?w)" "drained (aw_adapter ?w)"
    using assms(1,2) stopping_keeps
    by (simp_all add: adapter_inv_def ownership_def owns_resources_def)
  have one: "keeps (aw_adapter ?w) (aw_adapter w1)" by (rule unregister_keeps_all [OF start(1) un])
  note owns = keeps_owns [OF one start(1)]
  note closed = close_prepared_keeps [OF owns close]
  have all: "keeps (aw_adapter ?w) (aw_adapter w')" by (rule keeps_trans [OF one closed(1)])
  then show "accounts (aw_adapter w')" "drained (aw_adapter w')"
    using start by (simp_all add: keeps_def)
  show "owns_resources (aw_adapter w')" by (rule keeps_owns [OF all start(1)])
  show "ad_state (aw_adapter w') = STOPPING" "ad_config (aw_adapter w') = ad_config (aw_adapter w)"
    using all by (simp_all add: keeps_def same_owner_def)
  show "ok \<Longrightarrow> \<not> writers_alive (aw_adapter w')" by (rule closed(2))
  show "stop repr sp w = (in_adapter settle w', u \<and> ok)"
    using assms(2) un close owns by (simp add: stop_def owns_resources_def)
qed

lemma settle_inv:
  assumes "accounts a" "drained a" "owns_resources a"
  shows "adapter_inv (settle a)" "ad_state (settle a) = (if writers_alive a then STOPPING else STOPPED)"
    "writers_alive (settle a) = writers_alive a" "ad_config (settle a) = ad_config a"
    "writers_alive a \<Longrightarrow> ad_sink (settle a) = ad_sink a \<and> ad_capture (settle a) = ad_capture a"
    "\<not> ad_binding (settle a) \<and> ad_handle (settle a) = None"
proof -
  have alive: "writers_alive (a\<lparr>ad_binding := False, ad_handle := None\<rparr>) = writers_alive a"
    by (simp add: writers_alive_def)
  have "waiting_descriptors a = 0" if "\<not> writers_alive a"
    using assms(2) that
    by (auto simp: drained_def writers_alive_def waiting_descriptors_def split: option.splits)
  then show "adapter_inv (settle a)"
    using assms alive
    by (auto simp: settle_def release_resources_def adapter_inv_def accounts_def ownership_def
        owns_resources_def drained_def waiting_descriptors_def Let_def split: option.splits)
  show "ad_state (settle a) = (if writers_alive a then STOPPING else STOPPED)"
    "ad_config (settle a) = ad_config a"
    "writers_alive a \<Longrightarrow> ad_sink (settle a) = ad_sink a \<and> ad_capture (settle a) = ad_capture a"
    "\<not> ad_binding (settle a) \<and> ad_handle (settle a) = None"
    using alive by (simp_all add: settle_def release_resources_def Let_def)
  show "writers_alive (settle a) = writers_alive a"
    using alive by (simp add: settle_def release_resources_def Let_def writers_alive_def)
qed

lemma stop_inv:
  assumes "adapter_inv (aw_adapter w)"
  shows "adapter_inv (aw_adapter (fst (stop repr sp w)))"
proof (cases "ad_state (aw_adapter w) = STOPPED")
  case False
  obtain w' u ok where s: "shut_down repr sp w = (w', u, ok)" by (rule prod_cases3)
  note facts = shut_down_keeps [OF assms False s]
  show ?thesis using settle_inv(1) [OF facts(1-3)] by (simp add: facts(7))
qed (use assms in \<open>simp add: stop_def\<close>)

section \<open>Starting\<close>

text \<open>Dropping the resources of an adapter that has no waiting descriptors.\<close>

definition without_resources :: "adapter \<Rightarrow> adapter" where
  "without_resources a = a\<lparr>ad_normalizer := None, ad_sink := None, ad_capture := None\<rparr>"

lemma without_resources_accounts:
  "accounts a \<Longrightarrow> waiting_descriptors a = 0 \<Longrightarrow> accounts (without_resources a) \<and> drained (without_resources a)"
  by (simp add: without_resources_def accounts_def drained_def waiting_descriptors_def Let_def)

lemma fresh_capture:
  "async_capture_new d b label n r z = Inr c \<Longrightarrow> pending c = [] \<and> ac_writer_alive c"
  by (auto simp: async_capture_new_def pending_def split: pyval.splits if_splits)

definition give_up ::
  "(py_float \<Rightarrow> string) \<Rightarrow> closing \<Rightarrow> adapter_world \<Rightarrow> normalizer \<Rightarrow> event_sink option \<Rightarrow> adapter_world"
  where
  "give_up repr cl w n s =
     in_adapter without_resources (fst (close_prepared_resources repr cl
       (in_adapter (\<lambda>a. a\<lparr>ad_normalizer := Some n, ad_sink := s, ad_capture := None\<rparr>) w)))"

lemma give_up_inv:
  assumes "adapter_inv (aw_adapter w)" "ad_state (aw_adapter w) = STOPPED"
  shows "adapter_inv (aw_adapter (give_up repr cl w n s)) \<and>
    ad_state (aw_adapter (give_up repr cl w n s)) = STOPPED"
proof -
  let ?w = "in_adapter (\<lambda>a. a\<lparr>ad_normalizer := Some n, ad_sink := s, ad_capture := None\<rparr>) w"
  have start: "accounts (aw_adapter ?w)" "drained (aw_adapter ?w)"
    using assms by (simp_all add: adapter_inv_def ownership_def accounts_def drained_def
        waiting_descriptors_def Let_def)
  have "same_owner (aw_adapter ?w) (aw_adapter (fst (close_prepared_resources repr cl ?w))) \<and>
      accounts (aw_adapter (fst (close_prepared_resources repr cl ?w)))"
  proof (cases s)
    case None
    then show ?thesis using start
      by (simp add: close_prepared_resources_def close_capture_def close_sink_def in_adapter_def
          same_owner_def accounts_def waiting_descriptors_def Let_def)
  next
    case (Some x)
    then have "owns_resources (aw_adapter ?w)" by (simp add: owns_resources_def)
    then have "keeps (aw_adapter ?w) (aw_adapter (fst (close_prepared_resources repr cl ?w)))"
      using close_prepared_keeps(1) by (metis prod.collapse)
    then show ?thesis using start by (simp add: keeps_def)
  qed
  then show ?thesis using assms(2)
      without_resources_accounts [of "aw_adapter (fst (close_prepared_resources repr cl ?w))"]
      assms(1)
    by (simp add: give_up_def adapter_inv_def same_owner_def ownership_def waiting_descriptors_def
        without_resources_def)
qed

lemma prepare_inv:
  assumes "adapter_inv (aw_adapter w)" "ad_state (aw_adapter w) = STOPPED"
    "prepare_resources repr st w = (w', r)"
  shows "adapter_inv (aw_adapter w') \<and> ad_state (aw_adapter w') = STOPPED \<and>
    (\<forall>n s c. r = Inr (n, s, Some c) \<longrightarrow> pending c = [] \<and> ac_writer_alive c)"
proof -
  have give: "adapter_inv (aw_adapter (give_up repr (st_closing st) w n s)) \<and>
      ad_state (aw_adapter (give_up repr (st_closing st) w n s)) = STOPPED" for n s
    by (rule give_up_inv [OF assms(1,2)])
  have "(r \<in> range Inl \<and> (\<exists>n s. w' = give_up repr (st_closing st) w n s)) \<or>
      w' = w \<and> (\<forall>n s c. r = Inr (n, s, Some c) \<longrightarrow> pending c = [] \<and> ac_writer_alive c)"
    using assms(3) unfolding prepare_resources_def Let_def case_prod_beta give_up_def [symmetric]
      without_resources_def [symmetric, abs_def]
    by (auto split: sum.splits if_splits dest: fresh_capture simp: give_up_def)
  then show ?thesis using give assms(1,2) by auto
qed

definition installed ::
  "adapter_world \<Rightarrow> normalizer \<times> event_sink \<times> async_capture option \<Rightarrow> adapter_world" where
  "installed w = (\<lambda>(n, s, c). in_adapter (\<lambda>a. a\<lparr>ad_state := STARTING, ad_normalizer := Some n,
     ad_sink := Some s, ad_capture := c\<rparr>) w)"

lemma installed_inv:
  assumes "adapter_inv (aw_adapter w)" "ad_state (aw_adapter w) = STOPPED"
    "\<forall>c. snd (snd r) = Some c \<longrightarrow> pending c = [] \<and> ac_writer_alive c"
  shows "accounts (aw_adapter (installed w r))" "drained (aw_adapter (installed w r))"
    "owns_resources (aw_adapter (installed w r))" "ad_state (aw_adapter (installed w r)) = STARTING"
    "\<not> ad_binding (aw_adapter (installed w r))" "ad_handle (aw_adapter (installed w r)) = None"
  using assms
  by (auto simp: installed_def adapter_inv_def ownership_def accounts_def drained_def
      owns_resources_def waiting_descriptors_def Let_def split: prod.splits option.splits)

lemma released_inv:
  assumes "accounts a" "drained a" "ad_state a = STARTING" "\<not> ad_binding a" "ad_handle a = None"
  shows "adapter_inv (release_resources STOPPED a)"
  using assms
  by (auto simp: release_resources_def adapter_inv_def accounts_def drained_def ownership_def
      waiting_descriptors_def Let_def split: option.splits)

lemma activated_inv:
  assumes "accounts a" "drained a" "owns_resources a"
  shows "adapter_inv (count_adapter (k_registrations_update Suc)
    (a\<lparr>ad_binding := True, ad_handle := Some h, ad_state := ACTIVE\<rparr>))"
  using assms
  by (auto simp: count_adapter_def adapter_inv_def accounts_def drained_def ownership_def
      owns_resources_def waiting_descriptors_def Let_def split: option.splits)

lemma start_inv:
  assumes "adapter_inv (aw_adapter w)"
  shows "adapter_inv (aw_adapter (fst (start repr st w)))"
proof -
  obtain w' r where p: "prepare_resources repr st w = (w', r)"
    by (cases "prepare_resources repr st w")
  show ?thesis
  proof (cases "oc_enabled (ad_config (aw_adapter w)) \<and> ad_state (aw_adapter w) = STOPPED \<and>
      (\<exists>v. st_contract st = Inr v \<and> str_of v = Some HOST_OBSERVER_CONTRACT)")
    case False
    then have "fst (start repr st w) = w" by (auto simp: start_def Let_def split: sum.split)
    then show ?thesis using assms by simp
  next
    case True
    then obtain v where go: "oc_enabled (ad_config (aw_adapter w))" "ad_state (aw_adapter w) = STOPPED"
      "st_contract st = Inr v" "str_of v = Some HOST_OBSERVER_CONTRACT" by blast
    note prepared = prepare_inv [OF assms go(2) p]
    show ?thesis
    proof (cases r)
      case (Inl e)
      then show ?thesis using prepared go p by (simp add: start_def)
    next
      case (Inr res)
      obtain n s c where res: "res = (n, s, c)" by (rule prod_cases3)
      have "\<forall>c'. snd (snd res) = Some c' \<longrightarrow> pending c' = [] \<and> ac_writer_alive c'"
        using prepared Inr res by auto
      note start = installed_inv [OF conjunct1 [OF prepared]
          conjunct1 [OF conjunct2 [OF prepared]] this]
      let ?w1 = "run (busy_step repr) (st_during_register st) (installed w' res)"
      have keep: "keeps (aw_adapter (installed w' res)) (aw_adapter ?w1)"
        by (rule run_keeps_owner [OF start(3)])
      note owns = keeps_owns [OF keep start(3)]
      obtain w2 ok where close: "close_prepared_resources repr (st_closing st) ?w1 = (w2, ok)"
        by fastforce
      have keep2: "keeps (aw_adapter (installed w' res)) (aw_adapter w2)"
        by (rule keeps_trans [OF keep close_prepared_keeps(1) [OF owns close]])
      have failed: "adapter_inv (release_resources STOPPED (aw_adapter w2))"
        by (rule released_inv) (use keep2 start in \<open>simp_all add: keeps_def same_owner_def\<close>)
      have active: "adapter_inv (count_adapter (k_registrations_update Suc)
          ((aw_adapter ?w1)\<lparr>ad_binding := True, ad_handle := Some h, ad_state := ACTIVE\<rparr>))" for h
        by (rule activated_inv) (use keep start owns in \<open>simp_all add: keeps_def\<close>)
      have "fst (start repr st w) = in_adapter (release_resources STOPPED) w2 \<or>
          (\<exists>h. fst (start repr st w) = in_adapter (\<lambda>a. count_adapter (k_registrations_update Suc)
             (a\<lparr>ad_binding := True, ad_handle := Some h, ad_state := ACTIVE\<rparr>)) ?w1)"
        using go p Inr res close
        by (auto simp: start_def installed_def Let_def split: sum.split)
      then show ?thesis using failed active by auto
    qed
  qed
qed

section \<open>Histories\<close>

datatype adapter_action = Start starting | Stop stopping | Busy busy

primrec adapter_step :: "(py_float \<Rightarrow> string) \<Rightarrow> adapter_world \<Rightarrow> adapter_action \<Rightarrow> adapter_world" where
  "adapter_step repr w (Start st) = fst (start repr st w)"
| "adapter_step repr w (Stop sp) = fst (stop repr sp w)"
| "adapter_step repr w (Busy b) = busy_step repr w b"

lemma stopped_busy:
  assumes "adapter_inv (aw_adapter w)" "ad_state (aw_adapter w) = STOPPED"
  shows "aw_adapter (busy_step repr w b) \<in> {aw_adapter w, fst (inactive (aw_adapter w))}"
  using assms
  by (cases b) (auto simp: adapter_inv_def ownership_def observe_def capture_descriptor_def
      observe_host_fact_record_def observe_correlated_def sink_finish_def capture_finish_def)

lemma busy_inv:
  assumes "adapter_inv (aw_adapter w)"
  shows "adapter_inv (aw_adapter (busy_step repr w b))"
proof (cases "ad_state (aw_adapter w) = STOPPED")
  case True
  have "adapter_inv (fst (inactive (aw_adapter w)))"
    using keeps_inv [OF inactive_keeps assms] by blast
  then show ?thesis using stopped_busy [OF assms True, of repr b] assms by auto
next
  case False
  then have "owns_resources (aw_adapter w)" using assms by (simp add: adapter_inv_def ownership_def)
  then show ?thesis using keeps_inv [OF busy_keeps assms] by blast
qed

interpretation adapter: machine "adapter_step repr" "\<lambda>_. True" "\<lambda>w. adapter_inv (aw_adapter w)"
  for repr
proof unfold_locales
  fix w :: adapter_world and e
  assume "adapter_inv (aw_adapter w)"
  then show "adapter_inv (aw_adapter (adapter_step repr w e))"
    by (cases e) (simp_all add: start_inv stop_inv busy_inv)
qed

definition adapter_start :: "adapter \<Rightarrow> string \<Rightarrow> directory \<Rightarrow> adapter_world" where
  "adapter_start a contents dir = \<lparr>aw_adapter = a, aw_contents = contents, aw_directory = dir\<rparr>"

lemma new_adapter_inv: "host_adapter (Some c) keep = Inr a \<Longrightarrow> adapter_inv a"
  by (auto simp: host_adapter_def adapter_inv_def accounts_def ownership_def drained_def
      waiting_descriptors_def zero_adapter_counters_def Let_def split: pyval.splits)

lemma reached_inv:
  assumes "host_adapter (Some c) keep = Inr a"
  shows "adapter_inv (aw_adapter (run (adapter_step repr) acts (adapter_start a contents dir)))"
  by (rule adapter.run_keeps) (use new_adapter_inv [OF assms] in \<open>simp_all add: adapter_start_def list_all_iff\<close>)

section \<open>A registration that fails\<close>

definition demo_config :: observer_config where
  "demo_config = \<lparr>oc_enabled = True, oc_event_path = Some ''/var/tmp/events.jsonl'',
     oc_descriptor_dir = None, oc_evidence_label = None, oc_max_pending_records = 2,
     oc_max_record_bytes = 1024, oc_max_file_bytes = 4096, oc_max_correlated_transfers = 4,
     oc_max_recovery_admissions = 4, oc_max_descriptor_regions = 8,
     oc_max_pending_descriptors = 2, oc_max_descriptor_record_bytes = 4096,
     oc_shutdown_timeout_seconds = 5\<rparr>"

definition demo_adapter :: adapter where
  "demo_adapter = \<lparr>ad_config = demo_config, ad_retain_restore_receipts = True, ad_state = STOPPED,
     ad_counters = zero_adapter_counters, ad_binding = False, ad_handle = None,
     ad_normalizer = None, ad_sink = None, ad_capture = None\<rparr>"

lemma demo_adapter_new: "host_adapter (Some demo_config) (PBool True) = Inr demo_adapter"
  by (simp add: host_adapter_def demo_adapter_def)

definition demo_closing :: closing where
  "demo_closing = \<lparr>cl_started = 10, cl_capture_now = 10, cl_sink_now = 11,
     cl_during_capture = [], cl_during_sink = []\<rparr>"

definition demo_starting :: "pyval res \<Rightarrow> starting" where
  "demo_starting handle = \<lparr>st_contract = Inr (PStr HOST_OBSERVER_CONTRACT),
     st_destination = demo_destination, st_capture_directory = demo_directory,
     st_capture_thread = True, st_registered = handle, st_during_register = [],
     st_closing = demo_closing\<rparr>"

definition demo_stopping :: stopping where
  "demo_stopping = \<lparr>sp_unregistered = Inr (), sp_during_unregister = [],
     sp_closing = demo_closing\<rparr>"

definition demo_calls_made :: "adapter_action list" where
  "demo_calls_made = [Start (demo_starting (Inr (PInt 1))), Busy (Offer_Fact Other_Record)]"

abbreviation demo_world :: adapter_world where
  "demo_world \<equiv> adapter_start demo_adapter [] (\<lambda>_. None)"

abbreviation demo_served :: adapter_world where
  "demo_served \<equiv> run (adapter_step (\<lambda>_. [])) demo_calls_made demo_world"

lemma demo_served:
  "k_host_facts_received (ad_counters (aw_adapter demo_served)) = 1"
  "ad_state (aw_adapter (fst (stop (\<lambda>_. []) demo_stopping demo_served))) = STOPPING"
  by code_simp+

section \<open>Properties of the adapter\<close>

text \<open>
  Nothing is lost in the adapter. After any history of starts, stops, callbacks and writer
  steps, no callback has raised, every received observation was emitted or dropped by the
  normalizer or the sink, every host fact and every correlated record was emitted or dropped,
  every received descriptor was written, dropped or still waits in the capture, and the adapter
  holds a normalizer, a sink and a registration exactly while it is active.
\<close>

theorem adapter_accounts:
  assumes "host_adapter (Some c) keep = Inr a"
  defines "w \<equiv> \<lambda>repr acts contents dir.
    aw_adapter (run (adapter_step repr) acts (adapter_start a contents dir))"
  shows "let x = w repr acts contents dir; k = ad_counters x in
    k_callback_errors k = 0 \<and>
    k_observations_received k =
      k_observations_emitted k + k_normalization_dropped k + k_sink_dropped k \<and>
    k_host_facts_received k = k_host_facts_emitted k + k_host_facts_dropped k \<and>
    k_correlated_received k = k_correlated_emitted k + k_correlated_dropped k \<and>
    k_descriptors_received k =
      k_descriptors_written k + k_descriptors_dropped k + waiting_descriptors x \<and>
    (ad_state x = STOPPED \<longleftrightarrow> ad_normalizer x = None \<and> ad_sink x = None) \<and>
    (ad_state x = ACTIVE \<longrightarrow> ad_handle x \<noteq> None)"
proof -
  have "adapter_inv (w repr acts contents dir)" unfolding w_def by (rule reached_inv [OF assms(1)])
  then show ?thesis
    by (auto simp: adapter_inv_def accounts_def ownership_def owns_resources_def Let_def
        split: if_splits)
qed

theorem adapter_accounts_witness:
  "k_host_facts_received (ad_counters (aw_adapter demo_served)) = 1 \<and>
   k_host_facts_emitted (ad_counters (aw_adapter demo_served)) +
     k_host_facts_dropped (ad_counters (aw_adapter demo_served)) = 1"
  using adapter_accounts [OF demo_adapter_new, of "\<lambda>_. []" demo_calls_made "[]" "\<lambda>_. None"]
    demo_served(1) by (simp add: Let_def)

text \<open>
  C36: a stop that times out keeps what it must. A stop after any history ends stopped, with no
  normalizer, sink, capture, binding or handle, or stopping with a writer still running, the
  resources still held and the handle gone: stopping exactly when a writer runs. It answers True
  only when it ends stopped; while it is stopping a start is refused and changes nothing, once it
  is stopped a further stop does nothing.
\<close>

theorem stop_keeps_ownership:
  assumes "host_adapter (Some c) keep = Inr a"
    "w = run (adapter_step repr) acts (adapter_start a contents dir)"
    "stop repr sp w = (w', ok)"
  shows "(ad_state (aw_adapter w') = STOPPING \<longleftrightarrow> writers_alive (aw_adapter w')) \<and>
    (ad_state (aw_adapter w') = STOPPED \<or> ad_state (aw_adapter w') = STOPPING) \<and>
    (ad_state (aw_adapter w') = STOPPED \<longrightarrow>
       ad_normalizer (aw_adapter w') = None \<and> ad_sink (aw_adapter w') = None \<and>
       ad_capture (aw_adapter w') = None) \<and>
    (ad_state (aw_adapter w') = STOPPING \<longrightarrow>
       ad_normalizer (aw_adapter w') \<noteq> None \<and> ad_sink (aw_adapter w') \<noteq> None) \<and>
    \<not> ad_binding (aw_adapter w') \<and> ad_handle (aw_adapter w') = None \<and>
    (ok \<longrightarrow> ad_state (aw_adapter w') = STOPPED) \<and>
    (ad_state (aw_adapter w') = STOPPING \<longrightarrow> start repr st w' = (w', Inr False)) \<and>
    (ad_state (aw_adapter w') = STOPPED \<longrightarrow> stop repr sp' w' = (w', True))"
proof (cases "ad_state (aw_adapter w) = STOPPED")
  case True
  have "adapter_inv (aw_adapter w)" unfolding assms(2) by (rule reached_inv [OF assms(1)])
  then have "\<not> writers_alive (aw_adapter w)" "ownership (aw_adapter w)"
    using True by (simp_all add: adapter_inv_def ownership_def writers_alive_def)
  moreover have "w' = w" "ok" using assms(3) True by (simp_all add: stop_def)
  ultimately show ?thesis using True by (simp add: stop_def ownership_def)
next
  case False
  have inv: "adapter_inv (aw_adapter w)" unfolding assms(2) by (rule reached_inv [OF assms(1)])
  obtain w1 u b where s: "shut_down repr sp w = (w1, u, b)" by (rule prod_cases3)
  note facts = shut_down_keeps [OF inv False s]
  note settled = settle_inv [OF facts(1-3)]
  have "w' = in_adapter settle w1" "ok = (u \<and> b)" using assms(3) facts(7) by simp_all
  moreover have "ownership (settle (aw_adapter w1))" using settled(1) by (simp add: adapter_inv_def)
  ultimately show ?thesis using settled(2,3,6) facts(6)
    by (auto simp: start_def stop_def Let_def ownership_def owns_resources_def split: if_splits)
qed

theorem stop_keeps_ownership_witness:
  "writers_alive (aw_adapter (fst (stop (\<lambda>_. []) demo_stopping demo_served))) \<and>
   snd (start (\<lambda>_. []) (demo_starting (Inr (PInt 1)))
     (fst (stop (\<lambda>_. []) demo_stopping demo_served))) = Inr False"
proof -
  obtain w' ok where s: "stop (\<lambda>_. []) demo_stopping demo_served = (w', ok)" by fastforce
  show ?thesis
    using stop_keeps_ownership [OF demo_adapter_new refl s,
        where st = "demo_starting (Inr (PInt 1))" and sp' = demo_stopping]
      demo_served(2) by (simp add: s)
qed

end
