(* ===== verification/Adapter_Threads.thy ===== *)
theory Adapter_Threads
  imports Adapter_History
begin

text \<open>
  adapter.py, thread by thread. \<open>Adapter\<close> takes a callback as one step; here every lock it takes is
  one. Callbacks in flight, at most one \<^verbatim>\<open>start\<close> or \<^verbatim>\<open>stop\<close> (they hold the lifecycle lock) and the
  writers of every resource set ever made interleave in any order, so a callback may be
  overtaken by another, by a stop, even by a restart.

  A callback copies references under the state lock and goes on without it. Resource sets are
  therefore numbered: those the adapter has let go are in \<open>th_retired\<close>, the one it holds has the
  next number, and a callback in flight names the set it saw.
\<close>

section \<open>State\<close>

record resources =
  rs_normalizer :: normalizer
  rs_sink :: event_sink
  rs_capture :: "async_capture option"

datatype counter =
    Observations_Emitted
  | Normalization_Dropped
  | Sink_Dropped
  | Facts_Emitted
  | Facts_Dropped
  | Links_Emitted
  | Links_Dropped
  | Descriptors_Queued
  | Descriptors_Dropped
  | Callback_Errors

text \<open>
  Where a callback in flight is: about to normalize, to emit, to queue a descriptor, or to
  increment counters and answer.
\<close>

datatype call =
    Normalizing nat source_observation
  | Emitting_Observation nat kv_observation
  | Emitting_Fact nat typed_record
  | Emitting_Link nat typed_record
  | Capturing nat "descriptor_inventory option"
  | Counting "counter list" bool

text \<open>
  Where the thread with the lifecycle lock is. \<open>unregistered\<close> and \<open>clean\<close> are its local booleans,
  the rational its deadline.
\<close>

datatype purpose = Failed_Start | Stopping (unregistered: bool)

datatype phase =
    Resting
  | Registering
  | Unregistering
  | Closing_Normalizer purpose
  | Closing_Capture purpose rat
  | Joining_Capture purpose rat
  | Closing_Sink purpose bool rat
  | Joining_Sink purpose bool
  | Settling purpose bool

record threads =
  th_world :: adapter_world
  th_retired :: "resources list"
  th_calls :: "call list"
  th_phase :: phase
  th_results :: "bool res list"

definition at_adapter :: "(adapter \<Rightarrow> adapter) \<Rightarrow> threads \<Rightarrow> threads" where
  "at_adapter f th = th\<lparr>th_world := in_adapter f (th_world th)\<rparr>"

abbreviation th_adapter :: "threads \<Rightarrow> adapter" where
  "th_adapter th \<equiv> aw_adapter (th_world th)"

definition held :: "adapter \<Rightarrow> resources option" where
  "held a =
     (case (ad_normalizer a, ad_sink a) of
        (Some n, Some s) \<Rightarrow>
          Some \<lparr>rs_normalizer = n, rs_sink = s, rs_capture = ad_capture a\<rparr>
      | _ \<Rightarrow> None)"

definition hold :: "resources \<Rightarrow> adapter \<Rightarrow> adapter" where
  "hold r a =
     a\<lparr>ad_normalizer := Some (rs_normalizer r), ad_sink := Some (rs_sink r),
       ad_capture := rs_capture r\<rparr>"

definition resources_at :: "nat \<Rightarrow> threads \<Rightarrow> resources option" where
  "resources_at g th =
     (if g < length (th_retired th) then Some (th_retired th ! g)
      else if g = length (th_retired th) then held (th_adapter th) else None)"

definition put_resources :: "nat \<Rightarrow> resources \<Rightarrow> threads \<Rightarrow> threads" where
  "put_resources g r th =
     (if g < length (th_retired th) then th\<lparr>th_retired := (th_retired th)[g := r]\<rparr>
      else at_adapter (hold r) th)"

section \<open>Callbacks\<close>

primrec increment :: "counter \<Rightarrow> adapter_counters \<Rightarrow> adapter_counters" where
  "increment Observations_Emitted = k_observations_emitted_update Suc"
| "increment Normalization_Dropped = k_normalization_dropped_update Suc"
| "increment Sink_Dropped = k_sink_dropped_update Suc"
| "increment Facts_Emitted = k_host_facts_emitted_update Suc"
| "increment Facts_Dropped = k_host_facts_dropped_update Suc"
| "increment Links_Emitted = k_correlated_emitted_update Suc"
| "increment Links_Dropped = k_correlated_dropped_update Suc"
| "increment Descriptors_Queued = k_descriptors_queued_update Suc"
| "increment Descriptors_Dropped = k_descriptors_dropped_update Suc"
| "increment Callback_Errors = k_callback_errors_update Suc"

text \<open>Under the state lock: the references a callback copies, and where it goes on.\<close>

fun admitted :: "nat \<Rightarrow> adapter \<Rightarrow> busy \<Rightarrow> call" where
  "admitted g a (Observe x) =
     (if ad_normalizer a = None \<or> ad_sink a = None then Counting [Callback_Errors] False
      else Normalizing g x)"
| "admitted g a (Offer_Descriptor v) =
     (if ad_capture a = None then Counting [Descriptors_Dropped] False else Capturing g v)"
| "admitted g a (Offer_Fact r) =
     (if ad_sink a = None then Counting [Facts_Dropped] False else Emitting_Fact g r)"
| "admitted g a (Offer_Correlated r) =
     (if ad_sink a = None then Counting [Links_Dropped] False else Emitting_Link g r)"
| "admitted g a _ = Counting [] False"

fun received :: "busy \<Rightarrow> adapter_counters \<Rightarrow> adapter_counters" where
  "received (Observe x) = k_observations_received_update Suc"
| "received (Offer_Descriptor v) = k_descriptors_received_update Suc"
| "received (Offer_Fact r) = k_host_facts_received_update Suc"
| "received (Offer_Correlated r) = k_correlated_received_update Suc"
| "received _ = id"

fun is_callback :: "busy \<Rightarrow> bool" where
  "is_callback (Observe x) = True"
| "is_callback (Offer_Descriptor v) = True"
| "is_callback (Offer_Fact r) = True"
| "is_callback (Offer_Correlated r) = True"
| "is_callback _ = False"

definition admit :: "busy \<Rightarrow> threads \<Rightarrow> threads" where
  "admit b th =
     (if \<not> is_callback b then th
      else if ad_state (th_adapter th) \<noteq> ACTIVE then at_adapter (\<lambda>a. fst (inactive a)) th
      else
        (at_adapter (count_adapter (received b)) th)
          \<lparr>th_calls := th_calls th @ [admitted (length (th_retired th)) (th_adapter th) b]\<rparr>)"

text \<open>\<^verbatim>\<open>sink.emit\<close> of set \<open>g\<close>; None when it raises.\<close>

definition emit_at ::
  "(py_float \<Rightarrow> string) \<Rightarrow> nat \<Rightarrow> resources \<Rightarrow> typed_record \<Rightarrow> threads \<Rightarrow> threads \<times> bool option" where
  "emit_at repr g r rec th =
     (case emit repr (rs_sink r) rec of
        (s', Inl _) \<Rightarrow> (put_resources g (r\<lparr>rs_sink := s'\<rparr>) th, None)
      | (s', Inr accepted) \<Rightarrow> (put_resources g (r\<lparr>rs_sink := s'\<rparr>) th, Some accepted))"

definition fate :: "counter \<Rightarrow> counter \<Rightarrow> counter list \<Rightarrow> bool option \<Rightarrow> call" where
  "fate taken dropped raised accepted =
     (case accepted of
        None \<Rightarrow> Counting raised False
      | Some b \<Rightarrow> Counting [if b then taken else dropped] b)"

text \<open>
  One step of a callback; None: it has answered. A callback never names a set that does not exist
  (\<open>threads_inv\<close>), the \<open>None\<close> of \<open>resources_at\<close> stands for no case of the code.
\<close>

fun advance :: "(py_float \<Rightarrow> string) \<Rightarrow> call \<Rightarrow> threads \<Rightarrow> threads \<times> call option" where
  "advance repr (Normalizing g x) th =
     (case resources_at g th of
        None \<Rightarrow> (th, None)
      | Some r \<Rightarrow>
          (case normalize (rs_normalizer r) x of
             (n', y) \<Rightarrow>
               (put_resources g (r\<lparr>rs_normalizer := n'\<rparr>) th,
                Some (case y of
                    Inl _ \<Rightarrow> Counting [Callback_Errors] False
                  | Inr None \<Rightarrow> Counting [Normalization_Dropped] False
                  | Inr (Some ob) \<Rightarrow> Emitting_Observation g ob))))"
| "advance repr (Emitting_Observation g ob) th =
     (case resources_at g th of
        None \<Rightarrow> (th, None)
      | Some r \<Rightarrow>
          (case emit_at repr g r (Event_Record ob) th of
             (th', accepted) \<Rightarrow>
               (th', Some (fate Observations_Emitted Sink_Dropped [Callback_Errors] accepted))))"
| "advance repr (Emitting_Fact g f) th =
     (case resources_at g th of
        None \<Rightarrow> (th, None)
      | Some r \<Rightarrow>
          (case emit_at repr g r f th of
             (th', accepted) \<Rightarrow>
               (th', Some (fate Facts_Emitted Facts_Dropped [Callback_Errors, Facts_Dropped] accepted))))"
| "advance repr (Emitting_Link g l) th =
     (case resources_at g th of
        None \<Rightarrow> (th, None)
      | Some r \<Rightarrow>
          (case emit_at repr g r l th of
             (th', accepted) \<Rightarrow>
               (th', Some (fate Links_Emitted Links_Dropped [Callback_Errors, Links_Dropped] accepted))))"
| "advance repr (Capturing g v) th =
     (case resources_at g th of
        None \<Rightarrow> (th, None)
      | Some r \<Rightarrow>
          (case rs_capture r of
             None \<Rightarrow> (th, None)
           | Some c \<Rightarrow>
               (case capture_async c v of
                  (c', output) \<Rightarrow>
                    (put_resources g (r\<lparr>rs_capture := Some c'\<rparr>) th,
                     Some (Counting [if output then Descriptors_Queued else Descriptors_Dropped]
                       output)))))"
| "advance repr (Counting [] answer) th = (th, None)"
| "advance repr (Counting (k # ks) answer) th =
     (at_adapter (count_adapter (increment k)) th,
      if ks = [] then None else Some (Counting ks answer))"

definition advance_call :: "(py_float \<Rightarrow> string) \<Rightarrow> nat \<Rightarrow> threads \<Rightarrow> threads" where
  "advance_call repr i th =
     (if i < length (th_calls th)
      then
        case advance repr (th_calls th ! i) th of
          (th', c) \<Rightarrow>
            th'\<lparr>th_calls := take i (th_calls th) @ (case c of None \<Rightarrow> [] | Some d \<Rightarrow> [d]) @
               drop (Suc i) (th_calls th)\<rparr>
      else th)"

section \<open>Writers\<close>

definition sink_writes :: "nat \<Rightarrow> (event_sink \<Rightarrow> string \<Rightarrow> event_sink \<times> string) \<Rightarrow> threads \<Rightarrow> threads" where
  "sink_writes g f th =
     (case resources_at g th of
        None \<Rightarrow> th
      | Some r \<Rightarrow>
          (case f (rs_sink r) (aw_contents (th_world th)) of
             (s', contents) \<Rightarrow>
               put_resources g (r\<lparr>rs_sink := s'\<rparr>)
                 (th\<lparr>th_world := (th_world th)\<lparr>aw_contents := contents\<rparr>\<rparr>)))"

definition capture_takes :: "nat \<Rightarrow> bool \<Rightarrow> threads \<Rightarrow> threads" where
  "capture_takes g released th =
     (case resources_at g th of
        None \<Rightarrow> th
      | Some r \<Rightarrow>
          put_resources g (r\<lparr>rs_capture := map_option (writer_take released) (rs_capture r)\<rparr>) th)"

definition capture_finishes :: "(py_float \<Rightarrow> string) \<Rightarrow> nat \<Rightarrow> publish_io \<Rightarrow> threads \<Rightarrow> threads" where
  "capture_finishes repr g io th =
     (case resources_at g th of
        None \<Rightarrow> th
      | Some r \<Rightarrow>
          (case rs_capture r of
             None \<Rightarrow> th
           | Some c \<Rightarrow>
               (case writer_finish repr io True (c, aw_directory (th_world th)) of
                  (c', dir, result) \<Rightarrow>
                    at_adapter (case result of None \<Rightarrow> id | Some b \<Rightarrow> descriptor_result b)
                      (put_resources g (r\<lparr>rs_capture := Some c'\<rparr>)
                        (th\<lparr>th_world := (th_world th)\<lparr>aw_directory := dir\<rparr>\<rparr>)))))"

section \<open>Starting and stopping\<close>

text \<open>
  \<^verbatim>\<open>start\<close> up to the call of \<^verbatim>\<open>register\<close>. Nothing outside it sees the resources before they are
  installed, so making them, and closing them when that fails, is one step.
\<close>

definition begin_start :: "(py_float \<Rightarrow> string) \<Rightarrow> starting \<Rightarrow> threads \<Rightarrow> threads" where
  "begin_start repr st th =
     (let answer = (\<lambda>r th. th\<lparr>th_results := th_results th @ [r]\<rparr>) in
      if th_phase th \<noteq> Resting then th
      else if \<not> oc_enabled (ad_config (th_adapter th)) then answer (Inr False) th
      else if ad_state (th_adapter th) \<noteq> STOPPED then answer (Inr False) th
      else case st_contract st of
        Inl _ \<Rightarrow> answer (Inl RuntimeError) th
      | Inr contract \<Rightarrow>
          if str_of contract \<noteq> Some HOST_OBSERVER_CONTRACT then answer (Inl RuntimeError) th
          else
            (case prepare_resources repr st (th_world th) of
               (w', Inl _) \<Rightarrow> answer (Inl RuntimeError) (th\<lparr>th_world := w'\<rparr>)
             | (w', Inr (n, s, c)) \<Rightarrow>
                 th\<lparr>th_world := in_adapter (\<lambda>a. a\<lparr>ad_state := STARTING, ad_normalizer := Some n,
                      ad_sink := Some s, ad_capture := c\<rparr>) w', th_phase := Registering\<rparr>))"

definition begin_stop :: "threads \<Rightarrow> threads" where
  "begin_stop th =
     (if th_phase th \<noteq> Resting then th
      else if ad_state (th_adapter th) = STOPPED
      then th\<lparr>th_results := th_results th @ [Inr True]\<rparr>
      else
        (at_adapter (ad_state_update (\<lambda>_. STOPPING)) th)
          \<lparr>th_phase :=
             (if ad_binding (th_adapter th) \<and> ad_handle (th_adapter th) \<noteq> None
              then Unregistering else Closing_Normalizer (Stopping True))\<rparr>)"

text \<open>What the thread with the lifecycle lock meets next: the binding's answers, the clock.\<close>

record answer =
  an_registered :: "pyval res"
  an_unregistered :: "unit res"
  an_now :: rat

text \<open>The reference of the adapter let go, its objects live on.\<close>

definition retire :: "threads \<Rightarrow> threads" where
  "retire th =
     at_adapter (release_resources STOPPED)
       (case held (th_adapter th) of
          None \<Rightarrow> th
        | Some r \<Rightarrow> th\<lparr>th_retired := th_retired th @ [r]\<rparr>)"

definition time_left :: "rat \<Rightarrow> answer \<Rightarrow> pyval" where
  "time_left deadline an = PFloat (Finite (max 0 (deadline - an_now an)))"

fun proceed :: "answer \<Rightarrow> phase \<Rightarrow> threads \<Rightarrow> threads" where
  "proceed an Resting th = th"
| "proceed an Registering th =
     (case an_registered an of
        Inr handle \<Rightarrow>
          if handle = PNone then th\<lparr>th_phase := Closing_Normalizer Failed_Start\<rparr>
          else
            (at_adapter (\<lambda>a. count_adapter (k_registrations_update Suc)
               (a\<lparr>ad_binding := True, ad_handle := Some handle, ad_state := ACTIVE\<rparr>)) th)
              \<lparr>th_phase := Resting, th_results := th_results th @ [Inr True]\<rparr>
      | Inl _ \<Rightarrow> th\<lparr>th_phase := Closing_Normalizer Failed_Start\<rparr>)"
| "proceed an Unregistering th =
     (case an_unregistered an of
        Inl _ \<Rightarrow>
          (at_adapter (count_adapter (k_unregister_errors_update Suc)) th)
            \<lparr>th_phase := Closing_Normalizer (Stopping False)\<rparr>
      | Inr _ \<Rightarrow> th\<lparr>th_phase := Closing_Normalizer (Stopping True)\<rparr>)"
| "proceed an (Closing_Normalizer p) th =
     (if ad_normalizer (th_adapter th) = None \<or> ad_sink (th_adapter th) = None
      then th\<lparr>th_phase := Settling p True\<rparr>
      else
        (at_adapter (ad_normalizer_update (map_option close_normalizer)) th)
          \<lparr>th_phase := Closing_Capture p
             (an_now an + oc_shutdown_timeout_seconds (ad_config (th_adapter th)))\<rparr>)"
| "proceed an (Closing_Capture p deadline) th =
     (case ad_capture (th_adapter th) of
        None \<Rightarrow> th\<lparr>th_phase := Closing_Sink p True deadline\<rparr>
      | Some c \<Rightarrow>
          (case begin_close_async c (time_left deadline an) of
             (c', Inl _) \<Rightarrow>
               (at_adapter (count_cleanup \<circ> ad_capture_update (\<lambda>_. Some c')) th)
                 \<lparr>th_phase := Closing_Sink p False deadline\<rparr>
           | (c', Inr _) \<Rightarrow>
               (at_adapter (ad_capture_update (\<lambda>_. Some c')) th)
                 \<lparr>th_phase := Joining_Capture p deadline\<rparr>))"
| "proceed an (Joining_Capture p deadline) th =
     (case map_option end_close_async (ad_capture (th_adapter th)) of
        Some (Inr True) \<Rightarrow> th\<lparr>th_phase := Closing_Sink p True deadline\<rparr>
      | Some (Inr False) \<Rightarrow>
          (at_adapter count_timeout th)\<lparr>th_phase := Closing_Sink p False deadline\<rparr>
      | _ \<Rightarrow> (at_adapter count_cleanup th)\<lparr>th_phase := Closing_Sink p False deadline\<rparr>)"
| "proceed an (Closing_Sink p ok deadline) th =
     (case ad_sink (th_adapter th) of
        None \<Rightarrow> th\<lparr>th_phase := Settling p ok\<rparr>
      | Some s \<Rightarrow>
          (case begin_close s (time_left deadline an) of
             (s', Inl _) \<Rightarrow>
               (at_adapter (count_cleanup \<circ> ad_sink_update (\<lambda>_. Some s')) th)
                 \<lparr>th_phase := Settling p False\<rparr>
           | (s', Inr _) \<Rightarrow>
               (at_adapter (ad_sink_update (\<lambda>_. Some s')) th)\<lparr>th_phase := Joining_Sink p ok\<rparr>))"
| "proceed an (Joining_Sink p ok) th =
     (case map_option end_close (ad_sink (th_adapter th)) of
        Some (s', True) \<Rightarrow>
          (at_adapter (ad_sink_update (\<lambda>_. Some s')) th)\<lparr>th_phase := Settling p ok\<rparr>
      | Some (s', False) \<Rightarrow>
          (at_adapter (count_timeout \<circ> ad_sink_update (\<lambda>_. Some s')) th)
            \<lparr>th_phase := Settling p False\<rparr>
      | None \<Rightarrow> th\<lparr>th_phase := Settling p ok\<rparr>)"
| "proceed an (Settling Failed_Start ok) th =
     (retire th)\<lparr>th_phase := Resting, th_results := th_results th @ [Inl RuntimeError]\<rparr>"
| "proceed an (Settling (Stopping u) ok) th =
     (let th' = at_adapter (\<lambda>a. a\<lparr>ad_binding := False, ad_handle := None\<rparr>) th in
      (if writers_alive (th_adapter th') then at_adapter (ad_state_update (\<lambda>_. STOPPING)) th'
       else retire th')
        \<lparr>th_phase := Resting, th_results := th_results th @ [Inr (u \<and> ok)]\<rparr>)"

section \<open>Any interleaving\<close>

datatype thread_action =
    Admit busy
  | Advance nat
  | Sink_Takes nat
  | Sink_Finishes nat file_io
  | Capture_Takes nat bool
  | Capture_Finishes nat publish_io
  | Begin_Start starting
  | Begin_Stop
  | Proceed answer

primrec thread_step :: "(py_float \<Rightarrow> string) \<Rightarrow> threads \<Rightarrow> thread_action \<Rightarrow> threads" where
  "thread_step repr th (Admit b) = admit b th"
| "thread_step repr th (Advance i) = advance_call repr i th"
| "thread_step repr th (Sink_Takes g) = sink_writes g (\<lambda>s contents. (worker_take s, contents)) th"
| "thread_step repr th (Sink_Finishes g io) =
     sink_writes g (\<lambda>s contents. worker_finish s contents io) th"
| "thread_step repr th (Capture_Takes g released) = capture_takes g released th"
| "thread_step repr th (Capture_Finishes g io) = capture_finishes repr g io th"
| "thread_step repr th (Begin_Start st) = begin_start repr st th"
| "thread_step repr th Begin_Stop = begin_stop th"
| "thread_step repr th (Proceed an) = proceed an (th_phase th) th"

definition threads_start :: "adapter \<Rightarrow> string \<Rightarrow> directory \<Rightarrow> threads" where
  "threads_start a contents dir =
     \<lparr>th_world = adapter_start a contents dir, th_retired = [], th_calls = [],
      th_phase = Resting, th_results = []\<rparr>"

end
