(* ===== verification/Threads_Invariant.thy ===== *)
theory Threads_Invariant
  imports Adapter_Threads
begin

text \<open>
  The accounts of the adapter however its threads interleave: what a callback in flight has not
  counted yet is what the ledgers lack.
\<close>

section \<open>All resource sets\<close>

definition th_sets :: "threads \<Rightarrow> resources list" where
  "th_sets th = th_retired th @ (case held (th_adapter th) of None \<Rightarrow> [] | Some r \<Rightarrow> [r])"

lemma held_hold [simp]: "held (hold r a) = Some r"
  by (simp add: held_def hold_def)

lemma held_simps [simp]:
  "held (count_adapter f a) = held a" "held (a\<lparr>ad_state := s\<rparr>) = held a"
  "held (a\<lparr>ad_binding := b\<rparr>) = held a" "held (a\<lparr>ad_handle := h\<rparr>) = held a"
  "held (release_resources s a) = None" "held (count_timeout a) = held a"
  "held (count_cleanup a) = held a"
  by (simp_all add: held_def count_adapter_def release_resources_def count_timeout_def
      count_cleanup_def split: option.split)

lemma at_adapter_simps [simp]:
  "th_adapter (at_adapter f th) = f (th_adapter th)" "th_retired (at_adapter f th) = th_retired th"
  "th_calls (at_adapter f th) = th_calls th" "th_phase (at_adapter f th) = th_phase th"
  "th_results (at_adapter f th) = th_results th"
  "aw_contents (th_world (at_adapter f th)) = aw_contents (th_world th)"
  "aw_directory (th_world (at_adapter f th)) = aw_directory (th_world th)"
  by (simp_all add: at_adapter_def in_adapter_def)

lemma at_adapter_id [simp]: "at_adapter id th = th"
  by (simp add: at_adapter_def in_adapter_def)

lemma put_simps [simp]:
  "th_calls (put_resources g r th) = th_calls th" "th_phase (put_resources g r th) = th_phase th"
  "th_results (put_resources g r th) = th_results th"
  "length (th_retired (put_resources g r th)) = length (th_retired th)"
  "aw_contents (th_world (put_resources g r th)) = aw_contents (th_world th)"
  "aw_directory (th_world (put_resources g r th)) = aw_directory (th_world th)"
  "ad_counters (th_adapter (put_resources g r th)) = ad_counters (th_adapter th)"
  "ad_state (th_adapter (put_resources g r th)) = ad_state (th_adapter th)"
  "ad_handle (th_adapter (put_resources g r th)) = ad_handle (th_adapter th)"
  "ad_binding (th_adapter (put_resources g r th)) = ad_binding (th_adapter th)"
  "ad_config (th_adapter (put_resources g r th)) = ad_config (th_adapter th)"
  by (simp_all add: put_resources_def hold_def)

lemma sets_at: "resources_at g th = (if g < length (th_sets th) then Some (th_sets th ! g) else None)"
  by (auto simp: resources_at_def th_sets_def nth_append split: option.split)

lemma sets_put:
  "g < length (th_sets th) \<Longrightarrow> th_sets (put_resources g r th) = (th_sets th)[g := r]"
  by (cases "held (th_adapter th)")
    (auto simp: th_sets_def put_resources_def list_update_append split: nat.split)

lemma sets_simps [simp]:
  "th_sets (th\<lparr>th_calls := cs\<rparr>) = th_sets th" "th_sets (th\<lparr>th_phase := p\<rparr>) = th_sets th"
  "th_sets (th\<lparr>th_results := rs\<rparr>) = th_sets th"
  "th_sets (th\<lparr>th_world := (th_world th)\<lparr>aw_contents := contents\<rparr>\<rparr>) = th_sets th"
  "th_sets (th\<lparr>th_world := (th_world th)\<lparr>aw_directory := dir\<rparr>\<rparr>) = th_sets th"
  by (simp_all add: th_sets_def)

lemma sets_at_adapter: "held (f (th_adapter th)) = held (th_adapter th) \<Longrightarrow>
    th_sets (at_adapter f th) = th_sets th"
  by (simp add: th_sets_def)

lemma sets_count [simp]: "th_sets (at_adapter (count_adapter f) th) = th_sets th"
  by (simp add: sets_at_adapter)

lemma sets_retire [simp]: "th_sets (retire th) = th_sets th"
  by (simp add: retire_def th_sets_def split: option.split)

lemma resources_at_simps [simp]:
  "resources_at g (th\<lparr>th_world := (th_world th)\<lparr>aw_contents := contents\<rparr>\<rparr>) = resources_at g th"
  "resources_at g (th\<lparr>th_world := (th_world th)\<lparr>aw_directory := dir\<rparr>\<rparr>) = resources_at g th"
  by (simp_all add: sets_at)

section \<open>Accounts\<close>

text \<open>What a callback in flight still has to count, in each ledger.\<close>

fun observation_due :: "call \<Rightarrow> nat" where
  "observation_due (Normalizing g x) = 1"
| "observation_due (Emitting_Observation g ob) = 1"
| "observation_due (Counting ks answer) =
     length (filter (\<lambda>k. k \<in> {Observations_Emitted, Normalization_Dropped, Sink_Dropped}) ks)"
| "observation_due _ = 0"

fun fact_due :: "call \<Rightarrow> nat" where
  "fact_due (Emitting_Fact g r) = 1"
| "fact_due (Counting ks answer) = length (filter (\<lambda>k. k \<in> {Facts_Emitted, Facts_Dropped}) ks)"
| "fact_due _ = 0"

fun link_due :: "call \<Rightarrow> nat" where
  "link_due (Emitting_Link g r) = 1"
| "link_due (Counting ks answer) = length (filter (\<lambda>k. k \<in> {Links_Emitted, Links_Dropped}) ks)"
| "link_due _ = 0"

fun descriptor_due :: "call \<Rightarrow> nat" where
  "descriptor_due (Capturing g v) = 1"
| "descriptor_due (Counting ks answer) = length (filter (\<lambda>k. k = Descriptors_Dropped) ks)"
| "descriptor_due _ = 0"

definition due :: "(call \<Rightarrow> nat) \<Rightarrow> threads \<Rightarrow> nat" where
  "due f th = sum_list (map f (th_calls th))"

definition waiting_in :: "resources \<Rightarrow> nat" where
  "waiting_in r = (case rs_capture r of None \<Rightarrow> 0 | Some c \<Rightarrow> length (pending c))"

definition waiting_anywhere :: "threads \<Rightarrow> nat" where
  "waiting_anywhere th = sum_list (map waiting_in (th_sets th))"

lemma waiting_anywhere_simps [simp]:
  "waiting_anywhere (th\<lparr>th_phase := p\<rparr>) = waiting_anywhere th"
  "waiting_anywhere (th\<lparr>th_calls := cs\<rparr>) = waiting_anywhere th"
  "waiting_anywhere (th\<lparr>th_results := rs\<rparr>) = waiting_anywhere th"
  by (simp_all add: waiting_anywhere_def)

fun call_ok :: "resources list \<Rightarrow> call \<Rightarrow> bool" where
  "call_ok sets (Normalizing g x) = (g < length sets)"
| "call_ok sets (Emitting_Observation g ob) = (g < length sets)"
| "call_ok sets (Emitting_Fact g r) = (g < length sets)"
| "call_ok sets (Emitting_Link g r) = (g < length sets)"
| "call_ok sets (Capturing g v) = (g < length sets \<and> rs_capture (sets ! g) \<noteq> None)"
| "call_ok sets (Counting ks answer) = (ks \<noteq> [] \<and> Callback_Errors \<notin> set ks)"

definition balanced :: "threads \<Rightarrow> bool" where
  "balanced th \<longleftrightarrow> (let k = ad_counters (th_adapter th) in
     k_callback_errors k = 0 \<and>
     k_observations_received k =
       k_observations_emitted k + k_normalization_dropped k + k_sink_dropped k +
       due observation_due th \<and>
     k_host_facts_received k = k_host_facts_emitted k + k_host_facts_dropped k + due fact_due th \<and>
     k_correlated_received k = k_correlated_emitted k + k_correlated_dropped k + due link_due th \<and>
     k_descriptors_received k =
       k_descriptors_written k + k_descriptors_dropped k + due descriptor_due th +
       waiting_anywhere th)"

text \<open>The adapter holds a set exactly while it is not stopped, and is active only at rest.\<close>

definition owning :: "threads \<Rightarrow> bool" where
  "owning th \<longleftrightarrow>
     (ad_state (th_adapter th) = STOPPED \<longleftrightarrow> held (th_adapter th) = None) \<and>
     (held (th_adapter th) = None \<longrightarrow> ad_sink (th_adapter th) = None \<and>
        ad_normalizer (th_adapter th) = None \<and> ad_capture (th_adapter th) = None) \<and>
     (ad_state (th_adapter th) = ACTIVE \<longrightarrow> ad_handle (th_adapter th) \<noteq> None) \<and>
     (if th_phase th = Resting then ad_state (th_adapter th) \<noteq> STARTING
      else ad_state (th_adapter th) \<in> {STARTING, STOPPING})"

definition threads_inv :: "threads \<Rightarrow> bool" where
  "threads_inv th \<longleftrightarrow> balanced th \<and> owning th \<and> list_all (call_ok (th_sets th)) (th_calls th)"

text \<open>Sets only grow in number, and keep having or lacking a capture.\<close>

definition grown :: "resources list \<Rightarrow> resources list \<Rightarrow> bool" where
  "grown sets sets' \<longleftrightarrow> length sets \<le> length sets' \<and>
     (\<forall>g < length sets. (rs_capture (sets' ! g) = None) = (rs_capture (sets ! g) = None))"

lemma grown_refl [simp]: "grown sets sets"
  by (simp add: grown_def)

lemma grown_update:
  "(rs_capture r = None) = (rs_capture (sets ! g) = None) \<Longrightarrow> grown sets (sets[g := r])"
  unfolding grown_def by (metis length_list_update nth_list_update nth_list_update_neq order_refl)

lemma grown_append [simp]: "grown sets (sets @ new)"
  by (simp add: grown_def nth_append)

lemma call_ok_grown: "grown sets sets' \<Longrightarrow> call_ok sets c \<Longrightarrow> call_ok sets' c"
  by (cases c) (auto simp: grown_def)

lemma calls_ok_grown: "grown sets sets' \<Longrightarrow> list_all (call_ok sets) cs \<Longrightarrow> list_all (call_ok sets') cs"
  using call_ok_grown by (auto simp: list_all_iff)

lemma waiting_update:
  "g < length sets \<Longrightarrow> sum_list (map waiting_in (sets[g := r])) + waiting_in (sets ! g) =
     sum_list (map waiting_in sets) + waiting_in r"
  by (induction sets arbitrary: g) (auto simp: nth_Cons' split: nat.split)


section \<open>Balanced moves\<close>

text \<open>
  What one step does to the ledgers: a callback in flight, \<open>c\<close>, becomes \<open>c'\<close>, and what it no
  longer has to count has been counted.
\<close>

definition due_of :: "(call \<Rightarrow> nat) \<Rightarrow> call option \<Rightarrow> nat" where
  "due_of f c = (case c of None \<Rightarrow> 0 | Some d \<Rightarrow> f d)"

lemma due_of_simps [simp]: "due_of f None = 0" "due_of f (Some d) = f d"
  by (simp_all add: due_of_def)

definition moves :: "call option \<Rightarrow> call option \<Rightarrow> threads \<Rightarrow> threads \<Rightarrow> bool" where
  "moves c c' th th' \<longleftrightarrow>
     (let k = ad_counters (th_adapter th); k' = ad_counters (th_adapter th') in
      k_callback_errors k' = k_callback_errors k \<and>
      k_observations_emitted k' + k_normalization_dropped k' + k_sink_dropped k' +
        due_of observation_due c' + k_observations_received k =
      k_observations_emitted k + k_normalization_dropped k + k_sink_dropped k +
        due_of observation_due c + k_observations_received k' \<and>
      k_host_facts_emitted k' + k_host_facts_dropped k' + due_of fact_due c' +
        k_host_facts_received k =
      k_host_facts_emitted k + k_host_facts_dropped k + due_of fact_due c +
        k_host_facts_received k' \<and>
      k_correlated_emitted k' + k_correlated_dropped k' + due_of link_due c' +
        k_correlated_received k =
      k_correlated_emitted k + k_correlated_dropped k + due_of link_due c +
        k_correlated_received k' \<and>
      k_descriptors_written k' + k_descriptors_dropped k' + due_of descriptor_due c' +
        waiting_anywhere th' + k_descriptors_received k =
      k_descriptors_written k + k_descriptors_dropped k + due_of descriptor_due c +
        waiting_anywhere th + k_descriptors_received k') \<and>
     grown (th_sets th) (th_sets th') \<and>
     (case c' of None \<Rightarrow> True | Some d \<Rightarrow> call_ok (th_sets th') d)"

lemma replaced_due:
  assumes "i < length cs"
  shows "sum_list (map f (take i cs @ (case c of None \<Rightarrow> [] | Some d \<Rightarrow> [d]) @ drop (Suc i) cs)) +
    f (cs ! i) = sum_list (map f cs) + due_of f c"
proof -
  have "sum_list (map f cs) = sum_list (map f (take i cs @ cs ! i # drop (Suc i) cs))"
    using id_take_nth_drop [OF assms] by metis
  then show ?thesis by (cases c) simp_all
qed

lemma replaced_ok:
  assumes "list_all P cs" "\<And>d. c = Some d \<Longrightarrow> P d"
  shows "list_all P (take i cs @ (case c of None \<Rightarrow> [] | Some d \<Rightarrow> [d]) @ drop (Suc i) cs)"
  using assms by (cases c) (auto simp: list_all_iff dest: in_set_takeD in_set_dropD)

lemma moves_call:
  assumes "moves (Some (th_calls th ! i)) c th th'" "i < length (th_calls th)"
    "balanced th" "list_all (call_ok (th_sets th)) (th_calls th)"
    "cs = take i (th_calls th) @ (case c of None \<Rightarrow> [] | Some d \<Rightarrow> [d]) @ drop (Suc i) (th_calls th)"
  shows "balanced (th'\<lparr>th_calls := cs\<rparr>) \<and> list_all (call_ok (th_sets th')) cs"
proof
  have d: "sum_list (map f cs) + f (th_calls th ! i) = due f th + due_of f c" for f
    unfolding due_def assms(5) by (rule replaced_due [OF assms(2)])
  from assms(1,3) d [of observation_due] d [of fact_due] d [of link_due] d [of descriptor_due]
  show "balanced (th'\<lparr>th_calls := cs\<rparr>)"
    by (simp add: balanced_def moves_def Let_def due_def waiting_anywhere_def)
  show "list_all (call_ok (th_sets th')) cs"
    unfolding assms(5) using assms(1) calls_ok_grown [OF _ assms(4)]
    by (intro replaced_ok) (simp_all add: moves_def)
qed

lemma moves_other:
  assumes "moves None None th th'" "th_calls th' = th_calls th"
    "balanced th" "list_all (call_ok (th_sets th)) (th_calls th)"
  shows "balanced th' \<and> list_all (call_ok (th_sets th')) (th_calls th')"
  using assms(1,3) calls_ok_grown [OF _ assms(4), of "th_sets th'"]
  by (simp add: balanced_def moves_def Let_def due_def assms(2))

section \<open>Callbacks in flight\<close>

lemma waiting_put:
  assumes "resources_at g th = Some r"
  shows "waiting_anywhere (put_resources g r' th) + waiting_in r = waiting_anywhere th + waiting_in r'"
    "(rs_capture r' = None) = (rs_capture r = None) \<Longrightarrow>
       grown (th_sets th) (th_sets (put_resources g r' th))"
    "length (th_sets (put_resources g r' th)) = length (th_sets th)" "g < length (th_sets th)"
    "th_sets (put_resources g r' th) ! g = r'"
proof -
  have g: "g < length (th_sets th)" "r = th_sets th ! g"
    using assms by (auto simp: sets_at split: if_splits)
  then show "waiting_anywhere (put_resources g r' th) + waiting_in r = waiting_anywhere th + waiting_in r'"
    "(rs_capture r' = None) = (rs_capture r = None) \<Longrightarrow>
       grown (th_sets th) (th_sets (put_resources g r' th))"
    "length (th_sets (put_resources g r' th)) = length (th_sets th)" "g < length (th_sets th)"
    "th_sets (put_resources g r' th) ! g = r'"
    using waiting_update [OF g(1), of r']
    by (simp_all add: waiting_anywhere_def sets_put grown_update)
qed

lemma emit_at_moves:
  assumes "emit_at repr g r rec th = (th', accepted)"
  obtains s' b where "th' = put_resources g (r\<lparr>rs_sink := s'\<rparr>) th" "accepted = Some b"
    "emit repr (rs_sink r) rec = (s', Inr b)"
proof -
  obtain s' b where "emit repr (rs_sink r) rec = (s', Inr b)" using emit_returns by blast
  with assms that show ?thesis by (auto simp: emit_at_def)
qed

lemma put_same_capture:
  assumes "resources_at g th = Some r" "rs_capture r' = rs_capture r"
  shows "waiting_anywhere (put_resources g r' th) = waiting_anywhere th"
    "grown (th_sets th) (th_sets (put_resources g r' th))"
  using waiting_put(1,2) [OF assms(1), of r'] assms(2) by (simp_all add: waiting_in_def)

lemma count_moves:
  assumes "k \<noteq> Callback_Errors" "ks \<noteq> [] \<longrightarrow> Callback_Errors \<notin> set ks"
  shows "moves (Some (Counting (k # ks) b)) (if ks = [] then None else Some (Counting ks b))
    th (at_adapter (count_adapter (increment k)) th)"
  using assms
  by (cases k) (auto simp: moves_def count_adapter_def Let_def waiting_anywhere_def
      due_of_def)

lemma advance_moves:
  assumes "call_ok (th_sets th) c" "advance repr c th = (th', c')"
  shows "moves (Some c) c' th th'"
proof (cases c)
  case (Normalizing g x)
  then obtain r where r: "resources_at g th = Some r" using assms(1) by (simp add: sets_at)
  obtain n' y where n: "normalize (rs_normalizer r) x = (n', Inr y)" using normalize_returns by blast
  note put = waiting_put(3,4) [OF r] put_same_capture [OF r, of "r\<lparr>rs_normalizer := n'\<rparr>"]
  show ?thesis
    using assms put by (cases y) (auto simp: Normalizing r n moves_def Let_def)
next
  case (Emitting_Observation g ob)
  then obtain r where r: "resources_at g th = Some r" using assms(1) by (simp add: sets_at)
  obtain s' b where e: "emit_at repr g r (Event_Record ob) th =
      (put_resources g (r\<lparr>rs_sink := s'\<rparr>) th, Some b)" using emit_at_moves by (metis prod.exhaust)
  note put = waiting_put(3,4) [OF r] put_same_capture [OF r, of "r\<lparr>rs_sink := s'\<rparr>"]
  show ?thesis
    using assms put by (auto simp: Emitting_Observation r e fate_def moves_def Let_def)
next
  case (Emitting_Fact g f)
  then obtain r where r: "resources_at g th = Some r" using assms(1) by (simp add: sets_at)
  obtain s' b where e: "emit_at repr g r f th =
      (put_resources g (r\<lparr>rs_sink := s'\<rparr>) th, Some b)" using emit_at_moves by (metis prod.exhaust)
  note put = waiting_put(3,4) [OF r] put_same_capture [OF r, of "r\<lparr>rs_sink := s'\<rparr>"]
  show ?thesis
    using assms put by (auto simp: Emitting_Fact r e fate_def moves_def Let_def)
next
  case (Emitting_Link g f)
  then obtain r where r: "resources_at g th = Some r" using assms(1) by (simp add: sets_at)
  obtain s' b where e: "emit_at repr g r f th =
      (put_resources g (r\<lparr>rs_sink := s'\<rparr>) th, Some b)" using emit_at_moves by (metis prod.exhaust)
  note put = waiting_put(3,4) [OF r] put_same_capture [OF r, of "r\<lparr>rs_sink := s'\<rparr>"]
  show ?thesis
    using assms put by (auto simp: Emitting_Link r e fate_def moves_def Let_def)
next
  case (Capturing g v)
  then obtain r c0 where r: "resources_at g th = Some r" "rs_capture r = Some c0"
    using assms(1) by (auto simp: sets_at)
  obtain c1 b where c1: "capture_async c0 v = (c1, b)" by (cases "capture_async c0 v")
  have "length (pending c1) = length (pending c0) + of_bool b"
    by (rule capture_async_pending(1) [OF c1])
  with assms r c1 waiting_put(1,2) [OF r(1), of "r\<lparr>rs_capture := Some c1\<rparr>"] show ?thesis
    by (cases b) (auto simp: Capturing moves_def Let_def waiting_in_def)
next
  case (Counting ks b)
  then obtain k ks' where "ks = k # ks'" using assms(1) by (cases ks) auto
  with Counting assms show ?thesis using count_moves [of k ks' b th] by auto
qed


lemma owning_simps [simp]:
  "owning (th\<lparr>th_calls := cs\<rparr>) = owning th" "owning (th\<lparr>th_results := rs\<rparr>) = owning th"
  "owning (th\<lparr>th_world := (th_world th)\<lparr>aw_contents := contents\<rparr>\<rparr>) = owning th"
  "owning (th\<lparr>th_world := (th_world th)\<lparr>aw_directory := dir\<rparr>\<rparr>) = owning th"
  "owning (at_adapter (count_adapter f) th) = owning th"
  by (simp_all add: owning_def) (simp_all add: count_adapter_def)

lemma owning_put:
  assumes "resources_at g th = Some r" "owning th"
  shows "owning (put_resources g r' th)"
proof (cases "g < length (th_retired th)")
  case True
  with assms(2) show ?thesis by (auto simp: owning_def put_resources_def)
next
  case False
  then have "held (th_adapter th) \<noteq> None" using assms(1) by (simp add: resources_at_def split: if_splits)
  moreover have "th_adapter (put_resources g r' th) = hold r' (th_adapter th)"
    using False by (simp add: put_resources_def)
  moreover have "ad_state (hold r' a) = ad_state a" "ad_handle (hold r' a) = ad_handle a" for a
    by (simp_all add: hold_def)
  ultimately show ?thesis using assms(2) by (auto simp: owning_def)
qed

lemma advance_owning:
  assumes "owning th" "call_ok (th_sets th) c" "advance repr c th = (th', c')"
  shows "owning th' \<and> th_calls th' = th_calls th"
proof (cases c)
  case (Counting ks b)
  then show ?thesis using assms by (cases ks) auto
next
  case (Capturing g v)
  with assms show ?thesis
    by (auto simp: sets_at owning_put split: option.splits prod.splits)
qed (use assms in \<open>auto simp: sets_at emit_at_def owning_put split: prod.splits sum.splits\<close>)

lemma advance_call_inv: "threads_inv th \<Longrightarrow> threads_inv (advance_call repr i th)"
proof (cases "i < length (th_calls th)")
  case True
  assume inv: "threads_inv th"
  obtain th' c' where step: "advance repr (th_calls th ! i) th = (th', c')" by fastforce
  have ok: "call_ok (th_sets th) (th_calls th ! i)"
    using inv True by (simp add: threads_inv_def list_all_length)
  have owns: "owning th'" "th_calls th' = th_calls th"
    using advance_owning [OF _ ok step] inv by (simp_all add: threads_inv_def)
  with moves_call [OF advance_moves [OF ok step] True _ _ refl] inv
  show ?thesis using True step by (simp add: threads_inv_def advance_call_def)
qed (simp add: advance_call_def)

text \<open>Admission.\<close>

lemma balanced_simps [simp]:
  "balanced (th\<lparr>th_phase := p\<rparr>) = balanced th" "balanced (th\<lparr>th_results := rs\<rparr>) = balanced th"
  by (simp_all add: balanced_def due_def waiting_anywhere_def)

lemma admit_inv: "threads_inv th \<Longrightarrow> threads_inv (admit b th)"
proof (cases "is_callback b")
  case True
  assume inv: "threads_inv th"
  show ?thesis
  proof (cases "ad_state (th_adapter th) = ACTIVE")
    case False
    have "at_adapter (\<lambda>a. fst (inactive a)) th =
        at_adapter (count_adapter (k_inactive_dropped_update Suc)) th"
      by (simp add: at_adapter_def in_adapter_def inactive_def)
    moreover have "balanced (at_adapter (count_adapter (k_inactive_dropped_update Suc)) th)"
      using inv by (simp add: threads_inv_def balanced_def due_def waiting_anywhere_def)
        (simp add: count_adapter_def Let_def)
    ultimately show ?thesis using inv True False by (simp add: admit_def threads_inv_def)
  next
    case active: True
    define c where "c = admitted (length (th_retired th)) (th_adapter th) b"
    have holds: "held (th_adapter th) \<noteq> None"
      using inv active by (auto simp: threads_inv_def owning_def Let_def)
    then have n: "length (th_retired th) < length (th_sets th)"
      and cap: "rs_capture (th_sets th ! length (th_retired th)) = ad_capture (th_adapter th)"
      and "ad_normalizer (th_adapter th) \<noteq> None" "ad_sink (th_adapter th) \<noteq> None"
      by (auto simp: th_sets_def held_def nth_append split: option.splits)
    then have ok: "call_ok (th_sets th) c" using True by (cases b) (auto simp: c_def)
    have "balanced ((at_adapter (count_adapter (received b)) th)\<lparr>th_calls := th_calls th @ [c]\<rparr>)"
      using inv True holds
      by (cases b) (auto simp: threads_inv_def balanced_def due_def waiting_anywhere_def c_def Let_def
          count_adapter_def held_def split: option.splits)
    with inv True active ok show ?thesis
      by (simp add: admit_def threads_inv_def c_def [symmetric])
  qed
qed (simp add: admit_def)

section \<open>Writers of any set\<close>

lemma writer_inv:
  assumes "threads_inv th" "moves None None th th'" "owning th'" "th_calls th' = th_calls th"
  shows "threads_inv th'"
  using moves_other [OF assms(2,4)] assms(1,3) by (simp add: threads_inv_def)

lemma sink_writes_inv:
  assumes "threads_inv th"
  shows "threads_inv (sink_writes g f th)"
proof (cases "resources_at g th")
  case (Some r)
  obtain s' contents where f: "f (rs_sink r) (aw_contents (th_world th)) = (s', contents)"
    by fastforce
  let ?th = "th\<lparr>th_world := (th_world th)\<lparr>aw_contents := contents\<rparr>\<rparr>"
  have r: "resources_at g ?th = Some r" using Some by simp
  note put = put_same_capture [OF r, of "r\<lparr>rs_sink := s'\<rparr>"]
  have "moves None None th (put_resources g (r\<lparr>rs_sink := s'\<rparr>) ?th)"
    using put by (simp add: moves_def Let_def waiting_anywhere_def)
  moreover have "owning (put_resources g (r\<lparr>rs_sink := s'\<rparr>) ?th)"
    by (rule owning_put [OF r]) (use assms in \<open>simp add: threads_inv_def\<close>)
  ultimately show ?thesis using writer_inv [OF assms] by (simp add: sink_writes_def Some f)
qed (use assms in \<open>simp add: sink_writes_def\<close>)

lemma capture_takes_inv:
  assumes "threads_inv th"
  shows "threads_inv (capture_takes g released th)"
proof (cases "resources_at g th")
  case (Some r)
  let ?r = "r\<lparr>rs_capture := map_option (writer_take released) (rs_capture r)\<rparr>"
  have "waiting_in ?r = waiting_in r"
    by (simp add: waiting_in_def writer_take_pending(1) split: option.split)
  then have "moves None None th (put_resources g ?r th)"
    using waiting_put(1,2) [OF Some, of ?r] by (simp add: moves_def Let_def)
  moreover have "owning (put_resources g ?r th)"
    by (rule owning_put [OF Some]) (use assms in \<open>simp add: threads_inv_def\<close>)
  ultimately show ?thesis using writer_inv [OF assms] by (simp add: capture_takes_def Some)
qed (use assms in \<open>simp add: capture_takes_def\<close>)

lemma capture_finishes_inv:
  assumes "threads_inv th"
  shows "threads_inv (capture_finishes repr g io th)"
proof (cases "\<exists>r c. resources_at g th = Some r \<and> rs_capture r = Some c")
  case True
  then obtain r c where rc: "resources_at g th = Some r" "rs_capture r = Some c" by blast
  obtain c' dir result where f: "writer_finish repr io True (c, aw_directory (th_world th)) =
      (c', dir, result)" by (rule prod_cases3)
  let ?th = "th\<lparr>th_world := (th_world th)\<lparr>aw_directory := dir\<rparr>\<rparr>"
  let ?put = "put_resources g (r\<lparr>rs_capture := Some c'\<rparr>) ?th"
  have r: "resources_at g ?th = Some r" using rc(1) by simp
  note put = waiting_put(1,2) [OF r, of "r\<lparr>rs_capture := Some c'\<rparr>"]
  have owns: "owning ?put"
    by (rule owning_put [OF r]) (use assms in \<open>simp add: threads_inv_def\<close>)
  show ?thesis
  proof (cases result)
    case None
    then have "moves None None th ?put"
      using put rc writer_finish_pending [OF f]
      by (simp add: moves_def Let_def waiting_in_def waiting_anywhere_def)
    then show ?thesis
      using writer_inv [OF assms _ owns] rc f None by (simp add: capture_finishes_def)
  next
    case (Some b)
    then have "moves None None th (at_adapter (descriptor_result b) ?put)"
      using put rc writer_finish_pending [OF f]
      by (cases b) (auto simp: moves_def Let_def waiting_in_def waiting_anywhere_def
          descriptor_result_def count_adapter_def)
    moreover have "owning (at_adapter (descriptor_result b) ?put)"
      using owns by (simp add: descriptor_result_def)
    ultimately show ?thesis
      using writer_inv [OF assms] rc f Some by (simp add: capture_finishes_def)
  qed
qed (use assms in \<open>auto simp: capture_finishes_def split: option.split\<close>)


section \<open>Starting and stopping\<close>

text \<open>A change of the adapter that the ledgers do not see.\<close>

definition ledger_counts :: "adapter_counters \<Rightarrow> nat list" where
  "ledger_counts k =
     [k_callback_errors k, k_observations_received k, k_observations_emitted k,
      k_normalization_dropped k, k_sink_dropped k, k_host_facts_received k,
      k_host_facts_emitted k, k_host_facts_dropped k, k_correlated_received k,
      k_correlated_emitted k, k_correlated_dropped k, k_descriptors_received k,
      k_descriptors_written k, k_descriptors_dropped k]"

definition unseen :: "adapter \<Rightarrow> adapter \<Rightarrow> bool" where
  "unseen a b \<longleftrightarrow>
     ledger_counts (ad_counters b) = ledger_counts (ad_counters a) \<and>
     (ad_normalizer b = None \<longleftrightarrow> ad_normalizer a = None) \<and>
     (ad_sink b = None \<longleftrightarrow> ad_sink a = None) \<and> (ad_capture b = None \<longleftrightarrow> ad_capture a = None) \<and>
     waiting_descriptors b = waiting_descriptors a"

lemma held_None: "held a = None \<longleftrightarrow> ad_normalizer a = None \<or> ad_sink a = None"
  by (simp add: held_def split: option.split)

lemma held_capture: "held a = Some r \<Longrightarrow> rs_capture r = ad_capture a"
  by (auto simp: held_def split: option.splits)

lemma unseen_sets:
  assumes "unseen (th_adapter th) (f (th_adapter th))"
  shows "waiting_anywhere (at_adapter f th) = waiting_anywhere th"
    "grown (th_sets th) (th_sets (at_adapter f th))"
proof -
  let ?a = "th_adapter th"
  have "waiting_anywhere (at_adapter f th) = waiting_anywhere th \<and>
      grown (th_sets th) (th_sets (at_adapter f th))"
  proof (cases "held ?a")
    case None
    then have "held (f ?a) = None" using assms by (auto simp: unseen_def held_None)
    with None show ?thesis by (simp add: waiting_anywhere_def th_sets_def)
  next
    case (Some r)
    then obtain r' where r': "held (f ?a) = Some r'"
      using assms by (cases "held (f ?a)") (auto simp: unseen_def held_None held_def split: option.splits)
    have "waiting_in r' = waiting_in r" "(rs_capture r' = None) = (rs_capture r = None)"
      using assms held_capture [OF Some] held_capture [OF r']
      by (simp_all add: unseen_def waiting_in_def waiting_descriptors_def)
    moreover have "grown (xs @ [r]) (xs @ [r'])" if "(rs_capture r' = None) = (rs_capture r = None)" for xs
      using that by (simp add: grown_def nth_append)
    ultimately show ?thesis using Some r' by (simp add: waiting_anywhere_def th_sets_def)
  qed
  then show "waiting_anywhere (at_adapter f th) = waiting_anywhere th"
    "grown (th_sets th) (th_sets (at_adapter f th))" by simp_all
qed

lemma unseen_inv:
  assumes "threads_inv th" "unseen (th_adapter th) (f (th_adapter th))"
  shows "balanced (at_adapter f th)" "list_all (call_ok (th_sets (at_adapter f th))) (th_calls th)"
  using assms calls_ok_grown [OF unseen_sets(2) [where f = f, OF assms(2)]] unseen_sets(1) [where f = f, OF assms(2)]
  by (simp_all add: threads_inv_def balanced_def due_def unseen_def ledger_counts_def Let_def)

text \<open>Steps of a close, which leave state and handle alone.\<close>

lemma closing_inv:
  assumes "threads_inv th" "unseen (th_adapter th) (f (th_adapter th))"
    "ad_state (f (th_adapter th)) = ad_state (th_adapter th)"
    "ad_handle (f (th_adapter th)) = ad_handle (th_adapter th)"
    "th_phase th \<noteq> Resting" "p \<noteq> Resting"
  shows "threads_inv ((at_adapter f th)\<lparr>th_phase := p\<rparr>)"
proof -
  have "held (f (th_adapter th)) = None \<longleftrightarrow> held (th_adapter th) = None"
    using assms(2) by (simp add: unseen_def held_None)
  then show ?thesis
    using unseen_inv [where f = f, OF assms(1,2)] assms
    by (auto simp: threads_inv_def owning_def unseen_def)
qed

lemma phase_inv:
  assumes "threads_inv th" "th_phase th \<noteq> Resting" "p \<noteq> Resting"
  shows "threads_inv (th\<lparr>th_phase := p\<rparr>)"
  using assms by (simp add: threads_inv_def owning_def)

lemma count_owner [simp]:
  "ad_state (count_adapter f a) = ad_state a" "ad_handle (count_adapter f a) = ad_handle a"
  "ad_state (count_timeout a) = ad_state a" "ad_handle (count_timeout a) = ad_handle a"
  "ad_state (count_cleanup a) = ad_state a" "ad_handle (count_cleanup a) = ad_handle a"
  by (simp_all add: count_adapter_def count_timeout_def count_cleanup_def)

lemma unseen_counts:
  "unseen a (count_adapter (k_unregister_errors_update Suc) a)" "unseen a (count_timeout a)"
  "unseen a (count_cleanup a)"
  by (simp_all add: unseen_def ledger_counts_def count_timeout_def count_cleanup_def
      count_adapter_def waiting_descriptors_def cong: option.case_cong)

lemma begin_close_async_pending:
  "begin_close_async c timeout = (c', r) \<Longrightarrow> pending c' = pending c"
  by (auto simp: begin_close_async_def pending_def split: sum.splits)

lemma unseen_closings:
  "unseen a (ad_normalizer_update (map_option close_normalizer) a)"
  "ad_capture a = Some c \<Longrightarrow> pending c' = pending c \<Longrightarrow>
     unseen a (ad_capture_update (\<lambda>_. Some c') a)"
  "ad_sink a = Some s \<Longrightarrow> unseen a (ad_sink_update (\<lambda>_. Some s') a)"
  by (simp_all add: unseen_def waiting_descriptors_def cong: option.case_cong)

lemma unseen_trans: "unseen a b \<Longrightarrow> unseen b c \<Longrightarrow> unseen a c"
  by (simp add: unseen_def)


lemma retire_simps [simp]:
  "th_adapter (retire th) = release_resources STOPPED (th_adapter th)"
  "th_calls (retire th) = th_calls th" "th_phase (retire th) = th_phase th"
  "aw_contents (th_world (retire th)) = aw_contents (th_world th)"
  "th_results (retire th) = th_results th"
  by (simp_all add: retire_def split: option.split)

lemma release_simps [simp]:
  "ad_counters (release_resources s a) = ad_counters a" "ad_state (release_resources s a) = s"
  "ad_sink (release_resources s a) = None" "ad_normalizer (release_resources s a) = None"
  "ad_capture (release_resources s a) = None"
  by (simp_all add: release_resources_def)

lemma retire_inv:
  assumes "threads_inv th"
  shows "threads_inv ((retire th)\<lparr>th_phase := Resting, th_results := rs\<rparr>)"
  using assms
  by (simp add: threads_inv_def owning_def balanced_def due_def waiting_anywhere_def)

lemma registered_inv:
  assumes "threads_inv th" "th_phase th \<noteq> Resting"
  shows "threads_inv ((at_adapter (\<lambda>a. count_adapter (k_registrations_update Suc)
     (a\<lparr>ad_binding := True, ad_handle := Some h, ad_state := ACTIVE\<rparr>)) th)
       \<lparr>th_phase := Resting, th_results := rs\<rparr>)"
proof -
  let ?f = "\<lambda>a. count_adapter (k_registrations_update Suc)
     (a\<lparr>ad_binding := True, ad_handle := Some h, ad_state := ACTIVE\<rparr>)"
  have "unseen (th_adapter th) (?f (th_adapter th))"
    by (simp add: unseen_def ledger_counts_def count_adapter_def waiting_descriptors_def
        cong: option.case_cong)
  from unseen_inv [where f = ?f, OF assms(1) this] assms show ?thesis
    by (auto simp: threads_inv_def owning_def count_adapter_def held_None)
qed

lemma unregistered_inv:
  assumes "threads_inv th" "th_phase th \<noteq> Resting"
  shows "threads_inv (at_adapter (\<lambda>a. a\<lparr>ad_binding := False, ad_handle := None\<rparr>) th)"
proof -
  let ?f = "\<lambda>a. a\<lparr>ad_binding := False, ad_handle := None\<rparr>"
  have "unseen (th_adapter th) (?f (th_adapter th))"
    by (simp add: unseen_def waiting_descriptors_def cong: option.case_cong)
  from unseen_inv [where f = ?f, OF assms(1) this] assms show ?thesis
    by (auto simp: threads_inv_def owning_def held_None)
qed

lemma stopping_inv:
  assumes "threads_inv th" "ad_state (th_adapter th) \<noteq> STOPPED"
  shows "threads_inv ((at_adapter (ad_state_update (\<lambda>_. STOPPING)) th)
     \<lparr>th_phase := p, th_results := rs\<rparr>)"
proof -
  let ?f = "ad_state_update (\<lambda>_. STOPPING)"
  have "unseen (th_adapter th) (?f (th_adapter th))"
    by (simp add: unseen_def waiting_descriptors_def cong: option.case_cong)
  from unseen_inv [where f = ?f, OF assms(1) this] assms show ?thesis
    by (auto simp: threads_inv_def owning_def held_None)
qed

lemma proceed_closing_inv:
  assumes "threads_inv th" "th_phase th = ph" "ph \<noteq> Resting" "ph \<noteq> Registering"
    "\<And>p ok. ph \<noteq> Settling p ok"
  shows "threads_inv (proceed an ph th)"
proof -
  have phase: "threads_inv (th\<lparr>th_phase := p\<rparr>)" if "p \<noteq> Resting" for p
    using phase_inv [OF assms(1)] assms(2,3) that by simp
  have quiet: "threads_inv ((at_adapter f th)\<lparr>th_phase := p\<rparr>)"
    if "unseen (th_adapter th) (f (th_adapter th))"
      "ad_state (f (th_adapter th)) = ad_state (th_adapter th)"
      "ad_handle (f (th_adapter th)) = ad_handle (th_adapter th)" "p \<noteq> Resting" for f p
    by (rule closing_inv [OF assms(1)]) (use assms(2,3) that in simp_all)
  show ?thesis
  proof (cases ph)
    case Unregistering
    then show ?thesis
      using quiet [of "count_adapter (k_unregister_errors_update Suc)"] phase
      by (auto simp: unseen_counts split: sum.split)
  next
    case (Closing_Normalizer p)
    then show ?thesis
      using quiet [of "ad_normalizer_update (map_option close_normalizer)"] phase
      by (simp add: unseen_closings)
  next
    case (Closing_Capture p deadline)
    show ?thesis
    proof (cases "ad_capture (th_adapter th)")
      case None
      with Closing_Capture phase show ?thesis by simp
    next
      case (Some c)
      obtain c' r where b: "begin_close_async c (time_left deadline an) = (c', r)" by fastforce
      note u = unseen_closings(2) [OF Some begin_close_async_pending [OF b]]
      show ?thesis
        using quiet [of "ad_capture_update (\<lambda>_. Some c')"] u
          quiet [of "count_cleanup \<circ> ad_capture_update (\<lambda>_. Some c')"] unseen_trans [OF u unseen_counts(3)]
        by (cases r) (simp_all add: Closing_Capture Some b)
    qed
  next
    case (Joining_Capture p deadline)
    then show ?thesis
      using quiet [of count_timeout] quiet [of count_cleanup] phase unseen_counts
      by (auto split: option.split sum.split bool.split)
  next
    case (Closing_Sink p ok deadline)
    show ?thesis
    proof (cases "ad_sink (th_adapter th)")
      case None
      with Closing_Sink phase show ?thesis by simp
    next
      case (Some s)
      obtain s' r where b: "begin_close s (time_left deadline an) = (s', r)" by fastforce
      note u = unseen_closings(3) [OF Some, of s']
      show ?thesis
        using quiet [of "ad_sink_update (\<lambda>_. Some s')"] u
          quiet [of "count_cleanup \<circ> ad_sink_update (\<lambda>_. Some s')"] unseen_trans [OF u unseen_counts(3)]
        by (cases r) (simp_all add: Closing_Sink Some b)
    qed
  next
    case (Joining_Sink p ok)
    show ?thesis
    proof (cases "ad_sink (th_adapter th)")
      case None
      with Joining_Sink phase show ?thesis by simp
    next
      case (Some s)
      obtain s' b where e: "end_close s = (s', b)" by fastforce
      note u = unseen_closings(3) [OF Some, of s']
      show ?thesis
        using quiet [of "ad_sink_update (\<lambda>_. Some s')"] u
          quiet [of "count_timeout \<circ> ad_sink_update (\<lambda>_. Some s')"] unseen_trans [OF u unseen_counts(2)]
        by (cases b) (simp_all add: Joining_Sink Some e)
    qed
  qed (use assms in auto)
qed


lemma th_same [simp]: "th\<lparr>th_phase := th_phase th\<rparr> = th" "th\<lparr>th_results := th_results th\<rparr> = th"
  by simp_all

lemma proceed_inv:
  assumes "threads_inv th"
  shows "threads_inv (proceed an (th_phase th) th)"
proof (cases "th_phase th")
  case Registering
  have closing: "threads_inv (th\<lparr>th_phase := Closing_Normalizer Failed_Start\<rparr>)"
    by (rule phase_inv [OF assms]) (simp_all add: Registering)
  show ?thesis
  proof (cases "an_registered an")
    case (Inr handle)
    then show ?thesis
      using closing registered_inv [OF assms, where h = handle] Registering by simp
  qed (use closing Registering in simp)
next
  case (Settling p ok)
  show ?thesis
  proof (cases p)
    case Failed_Start
    then show ?thesis using Settling retire_inv [OF assms] by simp
  next
    case (Stopping u)
    let ?th = "at_adapter (\<lambda>a. a\<lparr>ad_binding := False, ad_handle := None\<rparr>) th"
    have inv: "threads_inv ?th"
      by (rule unregistered_inv [OF assms]) (simp add: Settling)
    have "ad_state (th_adapter ?th) \<noteq> STOPPED"
      using assms Settling by (auto simp: threads_inv_def owning_def)
    with retire_inv [OF inv] stopping_inv [OF inv] show ?thesis
      by (simp add: Settling Stopping Let_def)
  qed
qed (use assms proceed_closing_inv [OF assms refl] in simp_all)


lemma begin_stop_inv: "threads_inv th \<Longrightarrow> threads_inv (begin_stop th)"
  using stopping_inv [where rs = "th_results th"]
  by (auto simp: begin_stop_def threads_inv_def)

text \<open>
  Resources that are closed before they were installed: the adapter is stopped, so nothing reaches
  their queue, the file or the ledgers.
\<close>

definition idle :: "adapter_world \<Rightarrow> adapter_world \<Rightarrow> bool" where
  "idle w w' \<longleftrightarrow>
     ad_state (aw_adapter w') = STOPPED \<and> ad_capture (aw_adapter w') = None \<and>
     (case ad_sink (aw_adapter w') of None \<Rightarrow> True | Some s \<Rightarrow> waiting s = []) \<and>
     aw_contents w' = aw_contents w \<and> aw_directory w' = aw_directory w \<and>
     ad_config (aw_adapter w') = ad_config (aw_adapter w) \<and>
     ad_handle (aw_adapter w') = ad_handle (aw_adapter w) \<and>
     ledger_counts (ad_counters (aw_adapter w')) = ledger_counts (ad_counters (aw_adapter w))"

lemma idle_take: "waiting s = [] \<Longrightarrow> waiting (worker_take s) = []"
  by (auto simp: worker_take_def waiting_def worker_exit_def split: list.split option.splits)

lemma idle_finish: "waiting s = [] \<Longrightarrow> worker_finish s contents io = (s, contents)"
  by (rule idle_worker(1)) (auto simp: waiting_def)

lemma idle_count: "ledger_counts (f k) = ledger_counts k \<Longrightarrow>
    idle w w' \<Longrightarrow> k = ad_counters (aw_adapter w') \<Longrightarrow> idle w (in_adapter (count_adapter f) w')"
  by (simp add: idle_def in_adapter_def count_adapter_def)

lemma idle_inactive: "idle w w' \<Longrightarrow> idle w (in_adapter (\<lambda>a. fst (inactive a)) w')"
  by (simp add: idle_def inactive_def in_adapter_def count_adapter_def ledger_counts_def)

lemma idle_sink: "idle w w' \<Longrightarrow> waiting s = [] \<Longrightarrow> idle w (in_adapter (ad_sink_update (\<lambda>_. Some s)) w')"
  by (simp add: idle_def in_adapter_def)

lemma idle_step: "idle w w' \<Longrightarrow> idle w (busy_step repr w' b)"
proof (cases b)
  case Sink_Take
  assume "idle w w'"
  then show ?thesis using Sink_Take
    by (auto simp: idle_def in_adapter_def idle_take split: option.splits)
next
  case (Sink_Finish io)
  assume "idle w w'"
  then show ?thesis using Sink_Finish
    by (auto simp: idle_def sink_finish_def in_adapter_def idle_finish split: option.splits)
qed (auto simp: idle_def in_adapter_def observe_def capture_descriptor_def inactive_def
    observe_host_fact_record_def observe_correlated_def capture_finish_def count_adapter_def
    ledger_counts_def split: option.splits)

interpretation idleness: machine "busy_step repr" "\<lambda>_. True" "idle w" for repr w
  by unfold_locales (rule idle_step)

lemma idle_close_sink:
  assumes "idle w w'"
  shows "idle w (fst (close_sink repr timeout during w'))"
proof (cases "ad_sink (aw_adapter w')")
  case (Some s)
  obtain s' r where b: "begin_close s timeout = (s', r)" by fastforce
  have "waiting s = []" using assms Some by (simp add: idle_def)
  then have "waiting s' = []" using b by (auto simp: begin_close_def split: sum.splits if_splits)
  then have opened: "idle w (in_adapter (ad_sink_update (\<lambda>_. Some s')) w')"
    by (rule idle_sink [OF assms])
  then have cleaned: "idle w (in_adapter (count_cleanup \<circ> ad_sink_update (\<lambda>_. Some s')) w')"
    by (simp add: idle_def in_adapter_def count_cleanup_def count_adapter_def ledger_counts_def)
  let ?w = "run (busy_step repr) during (in_adapter (ad_sink_update (\<lambda>_. Some s')) w')"
  have ran: "idle w ?w"
    by (rule idleness.run_keeps [OF opened]) (simp add: list.pred_True)
  show ?thesis
  proof (cases "ad_sink (aw_adapter ?w)")
    case None
    with Some b ran cleaned show ?thesis by (cases r) (simp_all add: close_sink_def Let_def)
  next
    case (Some s2)
    obtain s3 ok where e: "end_close s2 = (s3, ok)" by fastforce
    have "waiting s2 = []" using ran Some by (simp add: idle_def)
    then have "waiting s3 = []" using e by (auto simp: end_close_def split: if_splits)
    then have ended: "idle w (in_adapter (ad_sink_update (\<lambda>_. Some s3)) ?w)"
      by (rule idle_sink [OF ran])
    then have "idle w (in_adapter count_timeout (in_adapter (ad_sink_update (\<lambda>_. Some s3)) ?w))"
      by (simp add: idle_def in_adapter_def count_timeout_def count_adapter_def ledger_counts_def)
    with \<open>ad_sink (aw_adapter w') = Some s\<close> Some b ended cleaned e show ?thesis
      by (cases r) (simp_all add: close_sink_def Let_def)
  qed
qed (use assms in \<open>simp add: close_sink_def\<close>)

lemma idle_give_up:
  assumes "ad_state (aw_adapter w) = STOPPED" "case s of None \<Rightarrow> True | Some s \<Rightarrow> waiting s = []"
  shows "idle w (give_up repr cl w n s)"
proof -
  let ?w = "in_adapter (\<lambda>a. a\<lparr>ad_normalizer := Some n, ad_sink := s, ad_capture := None\<rparr>) w"
  let ?w1 = "in_adapter (ad_normalizer_update (map_option close_normalizer)) ?w"
  have start: "idle w ?w1" using assms by (simp add: idle_def in_adapter_def)
  then have "close_capture repr timeout during ?w1 = (?w1, True)" for timeout during
    by (simp add: close_capture_def idle_def)
  then have "fst (close_prepared_resources repr cl ?w) =
      fst (close_sink repr (remaining (aw_adapter ?w) (cl_started cl) (cl_sink_now cl))
        (cl_during_sink cl) ?w1)"
    by (simp add: close_prepared_resources_def Let_def split: prod.split)
  then have "idle w (fst (close_prepared_resources repr cl ?w))"
    using idle_close_sink [OF start] by simp
  then show ?thesis by (simp add: give_up_def idle_def in_adapter_def without_resources_def)
qed

lemma idle_prepare:
  assumes "prepare_resources repr st w = (w', r)" "ad_state (aw_adapter w) = STOPPED"
    "ad_capture (aw_adapter w) = None" "ad_sink (aw_adapter w) = None" "ad_normalizer (aw_adapter w) = None"
  shows "idle w w' \<and> ad_sink (aw_adapter w') = None \<and> ad_normalizer (aw_adapter w') = None"
proof -
  have new: "jsonl_event_sink path a b c = Inr s \<Longrightarrow> waiting s = []" for path a b c s
    by (auto simp: jsonl_event_sink_def positive_int_def waiting_def Let_def
        split: pyval.splits if_splits option.splits)
  have "w' = w \<or> (\<exists>n s. w' = give_up repr (st_closing st) w n s \<and>
      (case s of None \<Rightarrow> True | Some s \<Rightarrow> waiting s = []))"
    using assms(1) unfolding prepare_resources_def Let_def case_prod_beta give_up_def [symmetric]
      without_resources_def [symmetric, abs_def]
    by (fastforce split: sum.splits if_splits dest: new simp: give_up_def)
  moreover have "idle w w" using assms by (simp add: idle_def)
  moreover have "ad_sink (aw_adapter (give_up repr cl w n s)) = None"
    "ad_normalizer (aw_adapter (give_up repr cl w n s)) = None" for cl n s
    by (simp_all add: give_up_def in_adapter_def without_resources_def)
  ultimately show ?thesis using assms(2-) idle_give_up by auto
qed


lemma prepared_new:
  assumes "prepare_resources repr st w = (w', Inr (n, s, c))"
  shows "w' = w"
    "lifecycle_normalizer (PInt (oc_max_correlated_transfers (ad_config (aw_adapter w))))
       (PInt (oc_max_recovery_admissions (ad_config (aw_adapter w))))
       (PBool (ad_retain_restore_receipts (aw_adapter w))) = Inr n"
    "jsonl_event_sink (map_option (\<lambda>_. st_destination st) (oc_event_path (ad_config (aw_adapter w))))
       (PInt (oc_max_pending_records (ad_config (aw_adapter w))))
       (PInt (oc_max_record_bytes (ad_config (aw_adapter w))))
       (PInt (oc_max_file_bytes (ad_config (aw_adapter w)))) = Inr s"
    "c = Some c' \<Longrightarrow> pending c' = []"
  using assms unfolding prepare_resources_def Let_def
  by (auto split: sum.splits if_splits prod.splits dest: fresh_capture)

lemma installed_threads_inv:
  assumes "threads_inv th" "ad_state (th_adapter th) = STOPPED" "\<And>c'. c = Some c' \<Longrightarrow> pending c' = []"
  shows "threads_inv (th\<lparr>th_world := in_adapter (\<lambda>a. a\<lparr>ad_state := STARTING, ad_normalizer := Some n,
    ad_sink := Some s, ad_capture := c\<rparr>) (th_world th), th_phase := Registering\<rparr>)"
proof -
  let ?r = "\<lparr>rs_normalizer = n, rs_sink = s, rs_capture = c\<rparr>"
  let ?th = "th\<lparr>th_world := in_adapter (\<lambda>a. a\<lparr>ad_state := STARTING, ad_normalizer := Some n,
    ad_sink := Some s, ad_capture := c\<rparr>) (th_world th)\<rparr>"
  have none: "held (th_adapter th) = None" "th_phase th = Resting"
    using assms(1,2) by (auto simp: threads_inv_def owning_def split: if_splits)
  then have sets: "th_sets ?th = th_sets th @ [?r]"
    by (simp add: th_sets_def in_adapter_def held_def)
  moreover have "waiting_in ?r = 0" using assms(3) by (cases c) (simp_all add: waiting_in_def)
  ultimately have "waiting_anywhere ?th = waiting_anywhere th" by (simp add: waiting_anywhere_def)
  moreover have "list_all (call_ok (th_sets ?th)) (th_calls th)"
    unfolding sets using assms(1) by (intro calls_ok_grown [OF grown_append]) (simp add: threads_inv_def)
  ultimately show ?thesis
    using assms(1,2)
    by (simp add: threads_inv_def owning_def balanced_def due_def in_adapter_def held_def Let_def)
qed

lemma begin_start_inv:
  assumes "threads_inv th"
  shows "threads_inv (begin_start repr st th)"
proof -
  have answer: "threads_inv (th'\<lparr>th_results := rs\<rparr>) = threads_inv th'" for th' rs
    by (simp add: threads_inv_def)
  obtain w' r where p: "prepare_resources repr st (th_world th) = (w', r)" by fastforce
  show ?thesis
  proof (cases "th_phase th = Resting \<and> oc_enabled (ad_config (th_adapter th)) \<and>
      ad_state (th_adapter th) = STOPPED \<and>
      (\<exists>v. st_contract st = Inr v \<and> str_of v = Some HOST_OBSERVER_CONTRACT)")
    case False
    then have "begin_start repr st th = th \<or>
        (\<exists>rs. begin_start repr st th = th\<lparr>th_results := rs\<rparr>)"
      by (auto simp: begin_start_def Let_def split: sum.split)
    then show ?thesis using assms answer by auto
  next
    case True
    then obtain v where go: "th_phase th = Resting" "oc_enabled (ad_config (th_adapter th))"
      "ad_state (th_adapter th) = STOPPED" "st_contract st = Inr v"
      "str_of v = Some HOST_OBSERVER_CONTRACT" by blast
    show ?thesis
    proof (cases r)
      case (Inl e)
      have none: "ad_sink (th_adapter th) = None" "ad_normalizer (th_adapter th) = None"
        "ad_capture (th_adapter th) = None"
        using assms go(3) by (auto simp: threads_inv_def owning_def)
      have w': "idle (th_world th) w'" "ad_sink (aw_adapter w') = None"
        "ad_normalizer (aw_adapter w') = None"
        using idle_prepare [OF p go(3) none(3,1,2)] by simp_all
      have "held (aw_adapter w') = None" "held (th_adapter th) = None"
        using w'(2) none by (simp_all add: held_None)
      then have "threads_inv (th\<lparr>th_world := w'\<rparr>)"
        using assms w' go(1,3)
        by (simp add: threads_inv_def owning_def balanced_def due_def waiting_anywhere_def th_sets_def
            idle_def ledger_counts_def Let_def)
      then show ?thesis using go p Inl by (simp add: begin_start_def answer)
    next
      case (Inr res)
      obtain n s c where res: "res = (n, s, c)" by (rule prod_cases3)
      note new = prepared_new [OF p [unfolded Inr res]]
      from installed_threads_inv [OF assms go(3), where c = c and n = n and s = s] new(1,4) show ?thesis
        using go p by (simp add: begin_start_def Inr res)
    qed
  qed
qed

section \<open>Every interleaving\<close>

lemma thread_step_inv: "threads_inv th \<Longrightarrow> threads_inv (thread_step repr th a)"
  by (cases a) (simp_all add: admit_inv advance_call_inv sink_writes_inv capture_takes_inv
      capture_finishes_inv begin_start_inv begin_stop_inv proceed_inv)

interpretation threads: machine "thread_step repr" "\<lambda>_. True" threads_inv for repr
  by unfold_locales (rule thread_step_inv)

lemma threads_start_inv:
  assumes "host_adapter (Some c) keep = Inr a"
  shows "threads_inv (threads_start a contents dir)"
  using assms
  by (auto simp: host_adapter_def threads_start_def adapter_start_def threads_inv_def balanced_def
      owning_def due_def waiting_anywhere_def th_sets_def held_def zero_adapter_counters_def Let_def
      split: pyval.splits)

lemma reached_threads:
  assumes "host_adapter (Some c) keep = Inr a"
  shows "threads_inv (run (thread_step repr) acts (threads_start a contents dir))"
  by (rule threads.run_keeps [OF threads_start_inv [OF assms]]) (simp add: list.pred_True)

end
