(* ===== verification/Threads_Progress.thy ===== *)
theory Threads_Progress
  imports Threads_Invariant
begin

text \<open>
  A callback that nothing interrupts is the one step \<open>Adapter\<close> takes it for; and a resource set
  the adapter has let go accepts nothing any more.
\<close>

section \<open>A callback that is not interrupted\<close>

lemma hold_held:
  assumes "held a = Some r"
  shows "hold (r\<lparr>rs_normalizer := n\<rparr>) a = a\<lparr>ad_normalizer := Some n\<rparr>"
    "hold (r\<lparr>rs_sink := s\<rparr>) a = a\<lparr>ad_sink := Some s\<rparr>"
    "hold (r\<lparr>rs_capture := c\<rparr>) a = a\<lparr>ad_capture := c\<rparr>"
    "ad_normalizer a = Some (rs_normalizer r)" "ad_sink a = Some (rs_sink r)"
    "ad_capture a = rs_capture r"
  using assms by (cases a; auto simp: held_def hold_def split: option.splits)+

lemma held_set_normalizer [simp]:
  "held a = Some r \<Longrightarrow> held (a\<lparr>ad_normalizer := Some n\<rparr>) = Some (r\<lparr>rs_normalizer := n\<rparr>)"
  by (cases r) (auto simp: held_def split: option.splits)

lemma in_adapter_in_adapter [simp]: "in_adapter f (in_adapter g w) = in_adapter (f \<circ> g) w"
  by (simp add: in_adapter_def)

lemma in_adapter_cong: "f (aw_adapter w) = g (aw_adapter w) \<Longrightarrow> in_adapter f w = in_adapter g w"
  by (simp add: in_adapter_def)

lemma run_none:
  assumes "length (th_calls th) \<le> i"
  shows "run (thread_step repr) (replicate k (Advance i)) th = th"
  using assms by (induction k) (simp_all add: advance_call_def)

text \<open>The last callback in flight, run alone.\<close>

lemma last_call:
  assumes "th_calls th = cs @ [c]" "advance repr c th = (th', c')" "th_calls th' = th_calls th"
  shows "thread_step repr th (Advance (length cs)) =
    th'\<lparr>th_calls := cs @ (case c' of None \<Rightarrow> [] | Some d \<Rightarrow> [d])\<rparr>"
  using assms by (simp add: advance_call_def)

lemma held_at:
  assumes "held (th_adapter th) = Some r"
  shows "resources_at (length (th_retired th)) th = Some r"
    "put_resources (length (th_retired th)) r' th = at_adapter (hold r') th"
  using assms by (simp_all add: resources_at_def put_resources_def)


lemma alone_dropped:
  assumes "ad_state (th_adapter th) \<noteq> ACTIVE" "is_callback b"
  shows "run (thread_step repr) (Admit b # replicate 3 (Advance (length (th_calls th)))) th =
    th\<lparr>th_world := busy_step repr (th_world th) b\<rparr>"
proof -
  have "busy_step repr (th_world th) b = in_adapter (\<lambda>a. fst (inactive a)) (th_world th)"
    using assms by (cases b) (auto simp: in_adapter_def observe_def capture_descriptor_def
        observe_host_fact_record_def observe_correlated_def)
  then have "thread_step repr th (Admit b) = th\<lparr>th_world := busy_step repr (th_world th) b\<rparr>"
    using assms by (simp add: admit_def at_adapter_def)
  then show ?thesis by (simp add: run_none)
qed

text \<open>A callback alone, between its steps: the adapter, and the callback unless it has answered.\<close>

definition midway :: "threads \<Rightarrow> adapter \<Rightarrow> call option \<Rightarrow> threads" where
  "midway th a c =
     th\<lparr>th_world := in_adapter (\<lambda>_. a) (th_world th),
        th_calls := th_calls th @ (case c of None \<Rightarrow> [] | Some d \<Rightarrow> [d])\<rparr>"

lemma midway_at [simp]:
  "held a = Some r \<Longrightarrow> resources_at (length (th_retired th)) (midway th a c) = Some r"
  "put_resources (length (th_retired th)) r' (midway th a c) = midway th (hold r' a) c"
  "at_adapter f (midway th a c) = midway th (f a) c"
  by (simp_all add: midway_def resources_at_def put_resources_def at_adapter_def in_adapter_def)

lemma midway_step:
  assumes "advance repr c (midway th a (Some c)) = (midway th a' (Some c), c')"
  shows "thread_step repr (midway th a (Some c)) (Advance (length (th_calls th))) = midway th a' c'"
proof -
  have "th_calls (midway th a (Some c)) = th_calls th @ [c]" by (simp add: midway_def)
  with assms show ?thesis by (simp add: advance_call_def) (simp add: midway_def)
qed

lemma midway_done [simp]:
  "thread_step repr (midway th a None) (Advance (length (th_calls th))) = midway th a None"
  by (simp add: advance_call_def midway_def)

lemma midway_counts [simp]:
  "thread_step repr (midway th a (Some (Counting (k # ks) b))) (Advance (length (th_calls th))) =
     midway th (count_adapter (increment k) a) (if ks = [] then None else Some (Counting ks b))"
  by (rule midway_step) simp

lemma midway_normalizes [simp]:
  assumes "held a = Some r"
  shows "thread_step repr (midway th a (Some (Normalizing (length (th_retired th)) x)))
      (Advance (length (th_calls th))) =
    midway th (a\<lparr>ad_normalizer := Some (fst (normalize (rs_normalizer r) x))\<rparr>)
      (Some (case snd (normalize (rs_normalizer r) x) of
           Inl _ \<Rightarrow> Counting [Callback_Errors] False
         | Inr None \<Rightarrow> Counting [Normalization_Dropped] False
         | Inr (Some ob) \<Rightarrow> Emitting_Observation (length (th_retired th)) ob))"
  by (rule midway_step) (simp add: assms hold_held split: prod.split)

lemma midway_emits [simp]:
  assumes "held a = Some r"
  shows "thread_step repr (midway th a (Some (Emitting_Observation (length (th_retired th)) ob)))
       (Advance (length (th_calls th))) =
     midway th (a\<lparr>ad_sink := Some (fst (emit repr (rs_sink r) (Event_Record ob)))\<rparr>)
       (Some (fate Observations_Emitted Sink_Dropped [Callback_Errors]
         (case snd (emit repr (rs_sink r) (Event_Record ob)) of Inl _ \<Rightarrow> None | Inr b \<Rightarrow> Some b)))"
    "thread_step repr (midway th a (Some (Emitting_Fact (length (th_retired th)) f)))
       (Advance (length (th_calls th))) =
     midway th (a\<lparr>ad_sink := Some (fst (emit repr (rs_sink r) f))\<rparr>)
       (Some (fate Facts_Emitted Facts_Dropped [Callback_Errors, Facts_Dropped]
         (case snd (emit repr (rs_sink r) f) of Inl _ \<Rightarrow> None | Inr b \<Rightarrow> Some b)))"
    "thread_step repr (midway th a (Some (Emitting_Link (length (th_retired th)) l)))
       (Advance (length (th_calls th))) =
     midway th (a\<lparr>ad_sink := Some (fst (emit repr (rs_sink r) l))\<rparr>)
       (Some (fate Links_Emitted Links_Dropped [Callback_Errors, Links_Dropped]
         (case snd (emit repr (rs_sink r) l) of Inl _ \<Rightarrow> None | Inr b \<Rightarrow> Some b)))"
  by (rule midway_step; simp add: assms hold_held emit_at_def split: prod.split sum.split)+

lemma midway_captures [simp]:
  assumes "held a = Some r" "rs_capture r = Some c"
  shows "thread_step repr (midway th a (Some (Capturing (length (th_retired th)) v)))
       (Advance (length (th_calls th))) =
     midway th (a\<lparr>ad_capture := Some (fst (capture_async c v))\<rparr>)
       (Some (Counting [if snd (capture_async c v) then Descriptors_Queued else Descriptors_Dropped]
         (snd (capture_async c v))))"
  by (rule midway_step) (simp add: assms hold_held split: prod.split)

lemma midway_admits:
  assumes "ad_state (th_adapter th) = ACTIVE" "is_callback b"
  shows "thread_step repr th (Admit b) = midway th (count_adapter (received b) (th_adapter th))
    (Some (admitted (length (th_retired th)) (th_adapter th) b))"
  using assms by (simp add: admit_def midway_def at_adapter_def in_adapter_def)

lemma midway_None: "midway th a None = th\<lparr>th_world := in_adapter (\<lambda>_. a) (th_world th)\<rparr>"
  by (simp add: midway_def)

lemma alone_served:
  assumes "ad_state (th_adapter th) = ACTIVE" "held (th_adapter th) = Some r" "is_callback b"
  shows "run (thread_step repr) (Admit b # replicate 3 (Advance (length (th_calls th)))) th =
    th\<lparr>th_world := busy_step repr (th_world th) b\<rparr>"
proof -
  note r = hold_held(4-6) [OF assms(2)]
  note start = midway_admits [OF assms(1,3), where repr = repr]
  show ?thesis
  proof (cases b)
    case (Observe x)
    obtain n' y where n: "normalize (rs_normalizer r) x = (n', Inr y)" using normalize_returns by blast
    show ?thesis
    proof (cases y)
      case None
      then show ?thesis using assms(1,2) start n
        by (simp add: Observe r numeral_3_eq_3 del: thread_step.simps)
          (simp add: midway_None in_adapter_def observe_def r)
    next
      case (Some ob)
      obtain s' c where e: "emit repr (rs_sink r) (Event_Record ob) = (s', Inr c)"
        using emit_returns by blast
      then show ?thesis using assms(1,2) start n Some
        by (cases c; simp add: Observe r numeral_3_eq_3 fate_def del: thread_step.simps;
            simp add: midway_None in_adapter_def r observe_def)
    qed
  next
    case (Offer_Descriptor v)
    show ?thesis
    proof (cases "rs_capture r")
      case None
      then show ?thesis using assms(1,2) start
        by (simp add: Offer_Descriptor r numeral_3_eq_3 del: thread_step.simps)
          (simp add: midway_None in_adapter_def capture_descriptor_def r)
    next
      case (Some c)
      obtain c' a where "capture_async c v = (c', a)" by fastforce
      then show ?thesis using assms(1,2) start Some
        by (cases a; simp add: Offer_Descriptor r numeral_3_eq_3 fate_def del: thread_step.simps;
            simp add: midway_None in_adapter_def r capture_descriptor_def)
    qed
  next
    case (Offer_Fact f)
    obtain s' c where "emit repr (rs_sink r) f = (s', Inr c)" using emit_returns by blast
    then show ?thesis using assms(1,2) start
      by (cases c; simp add: Offer_Fact r numeral_3_eq_3 fate_def del: thread_step.simps;
            simp add: midway_None in_adapter_def r observe_host_fact_record_def offer_record_def count_adapter_def)
  next
    case (Offer_Correlated l)
    obtain s' c where "emit repr (rs_sink r) l = (s', Inr c)" using emit_returns by blast
    then show ?thesis using assms(1,2) start
      by (cases c; simp add: Offer_Correlated r numeral_3_eq_3 fate_def del: thread_step.simps;
            simp add: midway_None in_adapter_def r observe_correlated_def offer_record_def count_adapter_def)
  qed (use assms(3) in simp_all)
qed


section \<open>Closing is final\<close>

text \<open>A set that accepts nothing any more, and what a step may do to a set.\<close>

definition inert :: "resources \<Rightarrow> bool" where
  "inert r \<longleftrightarrow> n_closed (rs_normalizer r) \<and> sk_closed (rs_sink r) \<and>
     (case rs_capture r of None \<Rightarrow> True | Some c \<Rightarrow> ac_closing c)"

definition later :: "resources \<Rightarrow> resources \<Rightarrow> bool" where
  "later r r' \<longleftrightarrow>
     (n_closed (rs_normalizer r) \<longrightarrow> n_closed (rs_normalizer r')) \<and>
     (sk_closed (rs_sink r) \<longrightarrow> sk_closed (rs_sink r')) \<and>
     ((case rs_capture r of None \<Rightarrow> True | Some c \<Rightarrow> ac_closing c) \<longrightarrow>
        (case rs_capture r' of None \<Rightarrow> True | Some c \<Rightarrow> ac_closing c))"

text \<open>How far the close of the set the adapter holds has come.\<close>

fun stage :: "phase \<Rightarrow> resources \<Rightarrow> bool" where
  "stage (Closing_Capture p deadline) r = n_closed (rs_normalizer r)"
| "stage (Joining_Capture p deadline) r = (n_closed (rs_normalizer r) \<and>
     (case rs_capture r of None \<Rightarrow> True | Some c \<Rightarrow> ac_closing c))"
| "stage (Closing_Sink p ok deadline) r = (n_closed (rs_normalizer r) \<and>
     (case rs_capture r of None \<Rightarrow> True | Some c \<Rightarrow> ac_closing c))"
| "stage (Joining_Sink p ok) r = inert r"
| "stage (Settling p ok) r = inert r"
| "stage _ r = True"

definition finality :: "threads \<Rightarrow> bool" where
  "finality th \<longleftrightarrow> list_all inert (th_retired th) \<and>
     (\<forall>r. held (th_adapter th) = Some r \<longrightarrow> stage (th_phase th) r)"

lemma later_refl [simp]: "later r r"
  by (simp add: later_def)

lemma later_inert: "later r r' \<Longrightarrow> inert r \<Longrightarrow> inert r'"
  by (simp add: later_def inert_def)

lemma later_stage: "later r r' \<Longrightarrow> stage p r \<Longrightarrow> stage p r'"
  by (cases p) (auto simp: later_inert, simp_all add: later_def)

lemma finality_put:
  assumes "resources_at g th = Some r" "later r r'" "finality th"
  shows "finality (put_resources g r' th)"
proof (cases "g < length (th_retired th)")
  case True
  with assms show ?thesis using later_inert
    by (auto simp: finality_def put_resources_def resources_at_def list_all_length nth_list_update)
next
  case False
  then have "held (th_adapter th) = Some r" using assms(1) by (simp add: resources_at_def split: if_splits)
  with False assms show ?thesis using later_stage
    by (auto simp: finality_def put_resources_def)
qed

lemma finality_simps [simp]:
  "finality (th\<lparr>th_calls := cs\<rparr>) = finality th" "finality (th\<lparr>th_results := rs\<rparr>) = finality th"
  "finality (th\<lparr>th_world := (th_world th)\<lparr>aw_contents := contents\<rparr>\<rparr>) = finality th"
  "finality (th\<lparr>th_world := (th_world th)\<lparr>aw_directory := dir\<rparr>\<rparr>) = finality th"
  "finality (at_adapter (count_adapter f) th) = finality th"
  by (simp_all add: finality_def)

lemma normalize_closed: "normalize n x = (n', y) \<Longrightarrow> n_closed n \<Longrightarrow> n_closed n' \<and> y = Inr None"
  by (auto simp: normalize_def bump_def)

lemma emit_closed: "emit repr s r = (s', y) \<Longrightarrow> sk_closed s \<Longrightarrow> sk_closed s' \<and> y = Inr False"
  by (cases "sk_enabled s"; cases "encode_record repr r")
    (auto simp: emit_def put_record_def split: if_splits dest: encode_errors)

lemma finish_after_close: "worker_finish s contents io = (s', contents') \<Longrightarrow> sk_closed s' = sk_closed s"
  by (auto simp: worker_finish_def write_record_def worker_exit_def task_done_def Let_def
      split: option.splits prod.splits sum.splits if_splits write_outcome.splits)


lemma finality_emit:
  assumes "resources_at g th = Some r" "emit_at repr g r rec th = (th', accepted)" "finality th"
  shows "finality th'"
proof -
  obtain s' b where e: "th' = put_resources g (r\<lparr>rs_sink := s'\<rparr>) th"
    "emit repr (rs_sink r) rec = (s', Inr b)" using emit_at_moves [OF assms(2)] by metis
  have "later r (r\<lparr>rs_sink := s'\<rparr>)" using emit_closed [OF e(2)] by (simp add: later_def)
  then show ?thesis unfolding e(1) by (rule finality_put [OF assms(1) _ assms(3)])
qed

lemma advance_finality:
  assumes "finality th" "advance repr c th = (th', c')"
  shows "finality th'"
proof (cases c)
  case (Normalizing g x)
  then show ?thesis using assms
    by (auto simp: later_def intro!: finality_put dest: normalize_closed
        split: option.splits prod.splits)
next
  case (Capturing g v)
  have "capture_async c v = (c', b) \<Longrightarrow> ac_closing c' = ac_closing c" for c c' b
    by (rule capture_async_pending(3))
  with Capturing assms show ?thesis
    by (auto simp: later_def intro!: finality_put split: option.splits prod.splits)
next
  case (Counting ks b)
  then show ?thesis using assms by (cases ks) auto
qed (use assms finality_emit in \<open>auto split: option.splits prod.splits\<close>)

lemma finality_at:
  assumes "finality th"
    "\<And>r. held (f (th_adapter th)) = Some r \<Longrightarrow>
      stage (th_phase th) r \<or> (\<exists>r0. held (th_adapter th) = Some r0 \<and> later r0 r)"
  shows "finality (at_adapter f th)"
  using assms later_stage by (fastforce simp: finality_def)

lemma time_left_ok: "check_timeout (time_left deadline an) = Inr ()"
  by (simp add: check_timeout_def time_left_def)

lemma held_Some:
  "held a = Some r \<longleftrightarrow>
     ad_normalizer a = Some (rs_normalizer r) \<and> ad_sink a = Some (rs_sink r) \<and> ad_capture a = rs_capture r"
  by (cases r) (auto simp: held_def split: option.split)

lemma retire_finality:
  assumes "finality th" "\<And>r. held (th_adapter th) = Some r \<Longrightarrow> inert r"
  shows "finality (retire th)"
  using assms by (auto simp: finality_def retire_def split: option.split)

text \<open>Closing goes through its stages.\<close>

lemma closed_normalizer: "close_normalizer n = n' \<Longrightarrow> n_closed n'"
  by (auto simp: close_normalizer_def)

lemma finality_phase:
  "finality th \<Longrightarrow> (\<And>r. held (th_adapter th) = Some r \<Longrightarrow> stage p r) \<Longrightarrow>
     finality (th\<lparr>th_phase := p\<rparr>)"
  by (simp add: finality_def)

lemma finality_close:
  assumes "finality th" "\<And>r. held (f (th_adapter th)) = Some r \<Longrightarrow> stage p r"
  shows "finality ((at_adapter f th)\<lparr>th_phase := p\<rparr>)"
  using assms by (simp add: finality_def)

lemma proceed_finality:
  assumes "finality th" "owning th"
  shows "finality (proceed an (th_phase th) th)"
proof (cases "th_phase th")
  case Resting
  then show ?thesis using assms by simp
next
  case Registering
  then show ?thesis using assms(1)
    by (auto simp: intro!: finality_phase finality_close split: sum.split)
next
  case Unregistering
  then show ?thesis using assms(1)
    by (auto intro!: finality_phase finality_close split: sum.split)
next
  case (Closing_Normalizer p)
  have "stage (Closing_Capture p t) r"
    if "held (ad_normalizer_update (map_option close_normalizer) (th_adapter th)) = Some r" for t r
    using that by (auto simp: held_Some closed_normalizer)
  moreover have "held (th_adapter th) \<noteq> None"
    using assms(2) Closing_Normalizer by (auto simp: owning_def)
  ultimately show ?thesis using assms(1) Closing_Normalizer
    by (auto simp: held_None intro!: finality_close)
next
  case (Closing_Capture p deadline)
  have closed: "n_closed (rs_normalizer r)" if "held (th_adapter th) = Some r" for r
    using assms(1) Closing_Capture that by (simp add: finality_def)
  show ?thesis
  proof (cases "ad_capture (th_adapter th)")
    case None
    then show ?thesis using assms(1) Closing_Capture closed
      by (auto simp: held_Some intro!: finality_phase)
  next
    case (Some c)
    have "begin_close_async c (time_left deadline an) = (c\<lparr>ac_closing := True\<rparr>, Inr ())"
      by (simp add: begin_close_async_def time_left_ok)
    moreover have "stage (Joining_Capture p deadline) r"
      if "held (ad_capture_update (\<lambda>_. Some (c\<lparr>ac_closing := True\<rparr>)) (th_adapter th)) = Some r" for r
      using that closed [of "r\<lparr>rs_capture := Some c\<rparr>"] Some
      by (auto simp: held_Some split: option.split)
    ultimately show ?thesis using assms(1) Closing_Capture Some
      by (auto intro!: finality_close)
  qed
next
  case (Joining_Capture p deadline)
  have "stage (Closing_Sink p ok deadline) r" if "held (th_adapter th) = Some r" for r ok
    using assms(1) Joining_Capture that by (auto simp: finality_def)
  then show ?thesis using assms(1) Joining_Capture
    by (auto intro!: finality_phase finality_close split: option.split sum.split bool.split)
next
  case (Closing_Sink p ok deadline)
  have closed: "n_closed (rs_normalizer r) \<and> (case rs_capture r of None \<Rightarrow> True | Some c \<Rightarrow> ac_closing c)"
    if "held (th_adapter th) = Some r" for r
    using assms(1) Closing_Sink that by (simp add: finality_def)
  show ?thesis
  proof (cases "ad_sink (th_adapter th)")
    case None
    then show ?thesis using assms(1) Closing_Sink by (auto simp: held_Some intro!: finality_phase)
  next
    case (Some s)
    obtain s' where s': "begin_close s (time_left deadline an) = (s', Inr ())" "sk_closed s'"
      by (simp add: begin_close_def time_left_ok)
    have "stage (Joining_Sink p ok) r"
      if "held (ad_sink_update (\<lambda>_. Some s') (th_adapter th)) = Some r" for r
      using that closed [of "r\<lparr>rs_sink := s\<rparr>"] Some s'(2) by (auto simp: held_Some inert_def)
    then show ?thesis using assms(1) Closing_Sink Some s'(1)
      by (auto intro!: finality_close)
  qed
next
  case (Joining_Sink p ok)
  have closed: "inert r" if "held (th_adapter th) = Some r" for r
    using assms(1) Joining_Sink that by (simp add: finality_def)
  show ?thesis
  proof (cases "ad_sink (th_adapter th)")
    case None
    then show ?thesis using assms(1) Joining_Sink by (auto simp: held_Some intro!: finality_phase)
  next
    case (Some s)
    obtain s' b where e: "end_close s = (s', b)" by fastforce
    have "sk_closed s' = sk_closed s" using e by (auto simp: end_close_def split: if_splits)
    then have "inert r" if "held (ad_sink_update (\<lambda>_. Some s') (th_adapter th)) = Some r" for r
      using that closed [of "r\<lparr>rs_sink := s\<rparr>"] Some by (auto simp: held_Some inert_def)
    then show ?thesis using assms(1) Joining_Sink Some e
      by (cases b) (auto intro!: finality_close)
  qed
next
  case (Settling p ok)
  have closed: "inert r" if "held (th_adapter th) = Some r" for r
    using assms(1) Settling that by (simp add: finality_def)
  show ?thesis
  proof (cases p)
    case Failed_Start
    then show ?thesis using retire_finality [OF assms(1) closed] Settling
      by (auto intro!: finality_phase)
  next
    case (Stopping u)
    let ?th = "at_adapter (\<lambda>a. a\<lparr>ad_binding := False, ad_handle := None\<rparr>) th"
    have "finality ?th" using assms(1) by (simp add: finality_def)
    then have "finality (retire ?th)" by (rule retire_finality) (simp add: closed)
    with assms(1) show ?thesis
      by (auto simp: Settling Stopping Let_def intro!: finality_phase) (simp add: finality_def)
  qed
qed


lemma admit_finality: "finality th \<Longrightarrow> finality (admit b th)"
proof -
  assume "finality th"
  moreover have "at_adapter (\<lambda>a. fst (inactive a)) th =
      at_adapter (count_adapter (k_inactive_dropped_update Suc)) th"
    by (simp add: at_adapter_def in_adapter_def inactive_def)
  ultimately show ?thesis by (simp add: admit_def)
qed

lemma writers_finality:
  assumes "finality th"
  shows "(\<And>s c. sk_closed (fst (f s c)) = sk_closed s) \<Longrightarrow> finality (sink_writes g f th)"
    "finality (capture_takes g released th)" "finality (capture_finishes repr g io th)"
proof -
  assume f: "\<And>s c. sk_closed (fst (f s c)) = sk_closed s"
  show "finality (sink_writes g f th)"
  proof (cases "resources_at g th")
    case (Some r)
    obtain s' contents where s': "f (rs_sink r) (aw_contents (th_world th)) = (s', contents)"
      by fastforce
    then have "later r (r\<lparr>rs_sink := s'\<rparr>)"
      using f [of "rs_sink r" "aw_contents (th_world th)"] by (simp add: later_def)
    then show ?thesis using finality_put [of g _ r] assms Some s' by (simp add: sink_writes_def)
  qed (use assms in \<open>simp add: sink_writes_def\<close>)
next
  have "later r (r\<lparr>rs_capture := map_option (writer_take released) (rs_capture r)\<rparr>)" for r
    by (simp add: later_def writer_take_pending(2) split: option.split)
  then show "finality (capture_takes g released th)"
    using finality_put [OF _ _ assms] assms by (simp add: capture_takes_def split: option.split)
next
  have put: "finality (put_resources g (r\<lparr>rs_capture := Some c'\<rparr>)
      (th\<lparr>th_world := (th_world th)\<lparr>aw_directory := dir\<rparr>\<rparr>))"
    if "resources_at g th = Some r" "rs_capture r = Some c"
      "writer_finish repr io True (c, aw_directory (th_world th)) = (c', dir, result)" for r c c' dir result
  proof (rule finality_put)
    show "later r (r\<lparr>rs_capture := Some c'\<rparr>)"
      using that(2) writer_finish_pending [OF that(3)] by (simp add: later_def)
  qed (use that(1) assms in simp_all)
  then show "finality (capture_finishes repr g io th)"
    using assms
    by (auto simp: capture_finishes_def descriptor_result_def split: option.split prod.split)
qed

lemma begin_start_finality:
  assumes "finality th" "threads_inv th"
  shows "finality (begin_start repr st th)"
proof -
  obtain w' r where p: "prepare_resources repr st (th_world th) = (w', r)" by fastforce
  show ?thesis
  proof (cases "ad_state (th_adapter th) = STOPPED")
    case True
    then have none: "ad_sink (th_adapter th) = None" "ad_normalizer (th_adapter th) = None"
      "ad_capture (th_adapter th) = None"
      using assms(2) by (auto simp: threads_inv_def owning_def)
    have "ad_sink (aw_adapter w') = None"
      using idle_prepare [OF p True none(3,1,2)] by simp
    then have "held (aw_adapter w') = None" by (simp add: held_None)
    with assms(1) p show ?thesis
      by (auto simp: begin_start_def finality_def Let_def split: sum.splits)
  qed (use assms(1) in \<open>auto simp: begin_start_def Let_def\<close>)
qed

lemma begin_stop_finality: "finality th \<Longrightarrow> finality (begin_stop th)"
  by (auto simp: begin_stop_def finality_def)

lemma thread_step_finality:
  assumes "threads_inv th \<and> finality th"
  shows "threads_inv (thread_step repr th a) \<and> finality (thread_step repr th a)"
proof -
  have "sk_closed (worker_take s) = sk_closed s" for s
    by (auto simp: worker_take_def worker_exit_def split: list.split)
  moreover have "sk_closed (fst (worker_finish s c io)) = sk_closed s" for s c io
    using finish_after_close by (metis prod.collapse)
  moreover have "finality (advance_call repr i th)" for i
    using assms advance_finality [of th repr]
    by (simp add: advance_call_def split: prod.split)
  moreover have "owning th" using assms by (simp add: threads_inv_def)
  ultimately have "finality (thread_step repr th a)"
    using assms
    by (cases a) (simp_all add: admit_finality writers_finality begin_start_finality
        begin_stop_finality proceed_finality)
  then show ?thesis using thread_step_inv assms by blast
qed

interpretation final: machine "thread_step repr" "\<lambda>_. True" "\<lambda>th. threads_inv th \<and> finality th" for repr
  by unfold_locales (rule thread_step_finality)

end
