(* ===== verification/Reader.thy ===== *)
theory Reader
  imports Codec_Correlated Descriptor_History Chain_Validation
begin

text \<open>
  validation.py: reading artifacts back. Event files are read line by line under byte and record
  limits, descriptor files one by one; every payload goes through its decoder. \<open>artifact_check\<close>
  is \<^verbatim>\<open>main\<close> without its printing.

  \<open>loads_other\<close> is what \<^verbatim>\<open>json.loads\<close> does with bytes that are no plain ASCII text; the files of
  the package's own writers never reach it.
\<close>

section \<open>Decoding bytes\<close>

definition MAX_RECORD_BYTES :: nat where "MAX_RECORD_BYTES = 1024 * 1024"

definition MAX_ARTIFACT_BYTES :: nat where "MAX_ARTIFACT_BYTES = 64 * 1024 * 1024"

definition MAX_RECORDS :: nat where "MAX_RECORDS = 100000"

record json_reader =
  jr_float :: "string \<Rightarrow> py_float"
  jr_loads_other :: "string \<Rightarrow> pyval res"

definition plain_text :: "string \<Rightarrow> bool" where
  "plain_text s = list_all (\<lambda>c. 0 < code c \<and> code c < 128) s"

definition decode_json :: "json_reader \<Rightarrow> string \<Rightarrow> pyval res" where
  "decode_json j data =
     (if plain_text data then loads (jr_float j) data else jr_loads_other j data)"

section \<open>Reading events\<close>

text \<open>\<^verbatim>\<open>stream.readline(limit)\<close>: up to and with the next line break, and what is left.\<close>

definition read_line :: "nat \<Rightarrow> string \<Rightarrow> string \<times> string" where
  "read_line limit s =
     (let l = takeWhile (\<lambda>c. c \<noteq> CHR 0x0A) s;
          n = min limit (length l + (if length l < length s then 1 else 0))
      in (take n s, drop n s))"

text \<open>\<^verbatim>\<open>not line.strip()\<close>\<close>

definition blank_line :: "string \<Rightarrow> bool" where
  "blank_line s = list_all (\<lambda>c. is_space c \<or> c = CHR 0x0B \<or> c = CHR 0x0C) s"

definition schema_is :: "pyval \<Rightarrow> string \<Rightarrow> bool res" where
  "schema_is payload s = res_bind (as_object payload) (\<lambda>d. Inr (has_text d ''schema'' s))"

definition decode_record :: "json_reader \<Rightarrow> string \<Rightarrow> event_record res" where
  "decode_record j line =
     res_bind (decode_json j line) (\<lambda>payload.
     res_bind (schema_is payload HOST_FACT_SCHEMA) (\<lambda>is_fact.
     if is_fact then res_bind (host_fact_from_payload payload) (\<lambda>f. Inr (RecFact f))
     else res_bind (schema_is payload CORRELATED_SCHEMA) (\<lambda>is_correlated.
       if is_correlated
       then res_bind (correlated_from_payload payload) (\<lambda>c. Inr (RecCorrelated c))
       else res_bind (observation_from_payload payload) (\<lambda>ob. Inr (RecObservation ob)))))"

lemma read_line_shorter:
  assumes "s \<noteq> []" "0 < limit"
  shows "length (snd (read_line limit s)) < length s"
proof -
  let ?l = "takeWhile (\<lambda>c. c \<noteq> CHR 0x0A) s"
  have "0 < min limit (length ?l + (if length ?l < length s then 1 else 0))"
    using assms by (cases s) auto
  then show ?thesis using assms by (simp add: read_line_def Let_def)
qed

lemma read_line_rest:
  "s \<noteq> [] \<Longrightarrow> (l, r) = read_line (n + 1) s \<Longrightarrow> length r < length s"
  using read_line_shorter [of s "n + 1"] by (metis add_gr_0 less_one snd_conv)

function read_lines ::
  "json_reader \<Rightarrow> nat \<Rightarrow> event_record list \<Rightarrow> string \<Rightarrow> event_record list res" where
  "read_lines j used records s =
     (if s = [] then Inr records
      else
        let (line, rest) = read_line (MAX_RECORD_BYTES + 1) s;
            used' = used + length line
        in if MAX_RECORD_BYTES < length line \<or> MAX_ARTIFACT_BYTES < used' then Inl ValueError
           else if blank_line line then read_lines j used' records rest
           else if MAX_RECORDS \<le> length records then Inl ValueError
           else res_bind (decode_record j line)
                  (\<lambda>r. read_lines j used' (records @ [r]) rest))"
  by pat_completeness auto
termination
  by (relation "measure (\<lambda>(j, used, records, s). length s)")
    (simp_all del: One_nat_def add: read_line_rest)

declare read_lines.simps [simp del]

text \<open>The file's contents, or the error of opening or reading it.\<close>

definition read_events :: "json_reader \<Rightarrow> string res \<Rightarrow> event_record list res" where
  "read_events j contents =
     res_bind contents (\<lambda>s.
     res_bind (read_lines j 0 [] s) (\<lambda>records.
     if records = [] then Inl ValueError else Inr records))"


section \<open>Descriptor inventories\<close>

definition region_kw :: "(string \<times> pyval) list \<Rightarrow> descriptor_region res" where
  "region_kw kw =
     res_bind
       (check_kwargs [''src_offset'', ''dst_offset'', ''size'', ''direction'', ''src_region_id'',
          ''dst_region_id''] [] kw)
       (\<lambda>_. make_region (kwarg kw ''src_offset'' PNone) (kwarg kw ''dst_offset'' PNone)
          (kwarg kw ''size'' PNone) (kwarg kw ''direction'' PNone)
          (kwarg kw ''src_region_id'' PNone) (kwarg kw ''dst_region_id'' PNone))"

definition region_from_payload :: "pyval \<Rightarrow> descriptor_region res" where
  "region_from_payload v =
     res_bind (as_object v) (\<lambda>fields.
     res_bind (dict_item fields ''direction'') (\<lambda>x.
     res_bind (read_direction x) (\<lambda>d.
     region_kw (AList.update ''direction'' d fields))))"

definition region_list :: "pyval \<Rightarrow> descriptor_region list res" where
  "region_list v =
     (case v of PList xs \<Rightarrow> res_map region_from_payload xs | _ \<Rightarrow> Inl ValueError)"

definition inventory_from_fields ::
  "(string \<times> pyval) list \<Rightarrow> (descriptor_inventory \<times> evidence_label) res" where
  "inventory_from_fields d =
     res_bind (dict_item d ''descriptors'') (\<lambda>ds.
     res_bind (region_list ds) (\<lambda>regions.
     res_bind (dict_item d ''identity'') (\<lambda>raw.
     res_bind (identity_from_payload raw) (\<lambda>i.
     res_bind (dict_item d ''transfer_id'') (\<lambda>tid.
     res_bind (read_transfer tid) (\<lambda>t.
     res_bind (dict_item d ''job_id'') (\<lambda>job.
     res_bind (dict_item d ''direction'') (\<lambda>dd.
     res_bind (read_direction dd) (\<lambda>direction.
     res_bind (dict_item d ''observed_at_ns'') (\<lambda>observed.
     res_bind (make_inventory (PIdentity i) t job direction (Some (map Some regions)) observed)
       (\<lambda>v.
     res_bind (dict_item d ''evidence_label'') (\<lambda>l.
     res_bind (to_evidence l) (\<lambda>label.
     Inr (v, label))))))))))))))"

definition DESCRIPTOR_KEYS :: "string list" where
  "DESCRIPTOR_KEYS =
     [''schema'', ''identity'', ''transfer_id'', ''job_id'', ''direction'', ''descriptors'',
      ''observed_at_ns'', ''evidence_label'']"

definition descriptor_from_payload :: "pyval \<Rightarrow> descriptor_inventory res" where
  "descriptor_from_payload payload =
     res_bind (as_object payload) (\<lambda>d.
     if fst ` set d \<noteq> set DESCRIPTOR_KEYS then Inl ValueError
     else if \<not> has_text d ''schema'' DESCRIPTOR_SCHEMA then Inl ValueError
     else
       res_bind (closed_record (inventory_from_fields d)) (\<lambda>(v, label).
       if py_eq (inventory_to_payload label v) payload then Inr v else Inl ValueError))"

section \<open>Matching descriptors with events\<close>

type_synonym owners = "(transfer_identity \<times> observation_identity \<times> transfer_direction option) list"

fun transfer_owners :: "owners \<Rightarrow> event_record list \<Rightarrow> owners res" where
  "transfer_owners ts [] = Inr ts"
| "transfer_owners ts (r # rs) =
     (case r of
        RecObservation ob \<Rightarrow>
          (case ob_transfer ob of
             None \<Rightarrow> transfer_owners ts rs
           | Some t \<Rightarrow>
               let key = (ob_identity ob, ob_direction ob) in
               if map_of ts t \<notin> {None, Some key} then Inl ValueError
               else transfer_owners (AList.update t key ts) rs)
      | _ \<Rightarrow> transfer_owners ts rs)"

text \<open>The contents of the files of the directory, each with the error of opening or reading it.\<close>

fun check_files ::
  "json_reader \<Rightarrow> owners \<Rightarrow> nat \<Rightarrow> nat \<Rightarrow> transfer_identity list \<Rightarrow> string res list \<Rightarrow> nat res" where
  "check_files j ts count used seen [] = Inr count"
| "check_files j ts count used seen (f # fs) =
     res_bind f (\<lambda>contents.
       let data = take (MAX_RECORD_BYTES + 1) contents;
           used' = used + length data;
           count' = count + 1
       in if MAX_RECORD_BYTES < length data \<or> MAX_ARTIFACT_BYTES < used' \<or> MAX_RECORDS < count'
          then Inl ValueError
          else res_bind (decode_json j data) (\<lambda>payload.
            res_bind (descriptor_from_payload payload) (\<lambda>v.
            if di_transfer v \<in> set seen then Inl ValueError
            else if map_of ts (di_transfer v) \<noteq> Some (di_identity v, Some (di_direction v))
            then Inl ValueError
            else check_files j ts count' used' (di_transfer v # seen) fs)))"

text \<open>\<open>None\<close>: the capture directory is no directory.\<close>

definition validate_descriptors ::
  "json_reader \<Rightarrow> string res list option \<Rightarrow> event_record list \<Rightarrow> nat res" where
  "validate_descriptors j directory records =
     res_bind (transfer_owners [] records) (\<lambda>ts.
     case directory of
       None \<Rightarrow> Inl ValueError
     | Some files \<Rightarrow>
         res_bind (check_files j ts 0 0 [] files) (\<lambda>count.
         if count = 0 then Inl ValueError else Inr count))"

section \<open>The command\<close>

text \<open>An event file: what \<^verbatim>\<open>stat\<close> says of its size, and its contents.\<close>

record event_file =
  ef_size :: "nat res"
  ef_contents :: "string res"

record report =
  rp_events :: nat
  rp_unjoined_host_facts :: nat
  rp_correlated_records :: nat
  rp_restore_episodes :: "nat option"
  rp_descriptor_inventories :: "nat option"

definition optionally :: "('a \<Rightarrow> 'b res) \<Rightarrow> 'a option \<Rightarrow> 'b option res" where
  "optionally f x = (case x of None \<Rightarrow> Inr None | Some a \<Rightarrow> res_bind (f a) (\<lambda>b. Inr (Some b)))"

definition check_artifacts ::
  "json_reader \<Rightarrow> event_file list \<Rightarrow> string res list option option \<Rightarrow> string option \<Rightarrow> report res" where
  "check_artifacts j files capture_dir request =
     res_bind (res_map ef_size files) (\<lambda>sizes.
     if MAX_ARTIFACT_BYTES < sum_list sizes then Inl ValueError
     else
       res_bind (res_map (\<lambda>f. read_events j (ef_contents f)) files) (\<lambda>parts.
       let records = concat parts in
       if MAX_RECORDS < length records then Inl ValueError
       else
         res_bind (optionally (validate_restore_chain records) request) (\<lambda>chains.
         res_bind (optionally (\<lambda>dir. validate_descriptors j dir records) capture_dir) (\<lambda>inventories.
         Inr \<lparr>rp_events = length records,
              rp_unjoined_host_facts =
                length (filter (\<lambda>r. case r of RecFact _ \<Rightarrow> True | _ \<Rightarrow> False) records),
              rp_correlated_records =
                length (filter (\<lambda>r. case r of RecCorrelated _ \<Rightarrow> True | _ \<Rightarrow> False) records),
              rp_restore_episodes = chains, rp_descriptor_inventories = inventories\<rparr>))))"

text \<open>The exit status, with the report where there is one; other errors leave \<^verbatim>\<open>main\<close>.\<close>

definition validation_main ::
  "json_reader \<Rightarrow> event_file list \<Rightarrow> string res list option option \<Rightarrow> string option \<Rightarrow>
     (int \<times> report option) res" where
  "validation_main j files capture_dir request =
     (case check_artifacts j files capture_dir request of
        Inr r \<Rightarrow> Inr (0, Some r)
      | Inl e \<Rightarrow>
          if e \<in> {OSError, FileExistsError, ValueError, JSONDecodeError, TypeError, RecursionError}
          then Inr (1, None) else Inl e)"

end
