(* ===== verification/Read_Back.thy ===== *)
theory Read_Back
  imports Reader
begin

text \<open>
  The readers of validation.py against the writers of the package: the lines of the event sink
  and the files of the descriptor capture are read back as the records they were made of.
\<close>

section \<open>Values in written form\<close>

lemma uint_writable:
  assumes "0 \<le> n" "n \<le> UINT64_MAX"
  shows "writable (PInt n)"
proof -
  have "nat \<bar>n\<bar> < 10 ^ Suc 19" using assms by (simp add: UINT64_MAX_def)
  from length_dec [OF this] show ?thesis by (simp add: MAX_INT_DIGITS_def)
qed

lemma list_all_sort_key [simp]: "list_all P (sort_key f xs) \<longleftrightarrow> list_all P xs"
  by (simp add: list_all_iff)

lemma canon_dict_ok: "dict_ok d \<Longrightarrow> dict_ok (sort_key fst (map (\<lambda>p. (fst p, f (snd p))) d))"
  by (rule dict_ok_sort) (simp add: comp_def)

lemma canon_snd:
  "list_all (\<lambda>p. P (snd p)) (sort_key fst (map (\<lambda>p. (fst p, f (snd p))) d)) \<longleftrightarrow>
     list_all (\<lambda>p. P (f (snd p))) d"
  by (simp add: list_all_iff)

lemma writable_canon: "writable v \<Longrightarrow> writable (canon v)"
proof (induction v rule: writable.induct)
  case (6 d)
  then have "dict_ok d" "list_all (\<lambda>p. writable (canon (snd p))) d" by (auto simp: list_all_iff)
  then show ?case unfolding canon.simps writable.simps canon_snd by (blast intro: canon_dict_ok)
qed (auto simp: list_all_iff)

lemma json_canon: "json_value v \<Longrightarrow> json_value (canon v)"
proof (induction v rule: json_value.induct)
  case (7 d)
  then have "dict_ok d" "list_all (\<lambda>p. json_value (canon (snd p))) d" by (auto simp: list_all_iff)
  then show ?case unfolding canon.simps json_value.simps canon_snd by (blast intro: canon_dict_ok)
qed (auto simp: list_all_iff)

lemma canon_canon [simp]: "canon (canon v) = canon v"
proof (induction v rule: canon.induct)
  case (3 d)
  let ?e = "map (\<lambda>p. (fst p, canon (snd p))) d"
  have "map (\<lambda>p. (fst p, canon (snd p))) (sort_key fst ?e) = sort_key fst ?e"
    by (rule map_idI) (use 3 in force)
  then show ?case by (simp add: sort_key_id_if_sorted)
qed simp_all

definition printable :: "char \<Rightarrow> bool" where
  "printable c \<longleftrightarrow> 32 \<le> code c \<and> code c < 127"

lemma printable_hex:
  assumes "n < 16"
  shows "printable (hex_digit n)"
proof (cases "n < 10")
  case True
  then have "is_digit (hex_digit n)" by (simp add: hex_digit_def)
  then show ?thesis unfolding is_digit_def printable_def by arith
next
  case False
  with assms show ?thesis by (simp add: hex_digit_def printable_def code_def)
qed

lemma code_small: "code c < 256"
  by (simp add: code_def)

lemma printable_escape: "list_all printable (escape_char c)"
proof -
  have "code c div 16 < 16" "code c mod 16 < 16" using code_small [of c] by auto
  note hex = this [THEN printable_hex]
  have literals: "printable (CHR 0x22)" "printable (CHR 0x5C)" "printable (CHR ''n'')"
    "printable (CHR ''r'')" "printable (CHR ''t'')" "printable (CHR ''f'')"
    "printable (CHR ''b'')" "printable (CHR ''u'')" "printable (CHR ''0'')"
    by code_simp+
  have "32 \<le> code c \<and> code c \<le> 126 \<Longrightarrow> printable c" by (simp add: printable_def)
  with hex literals show ?thesis by (simp add: escape_char_def)
qed

lemma printable_dec: "list_all printable (dec n)"
proof -
  have "is_digit c \<Longrightarrow> printable c" for c unfolding is_digit_def printable_def by arith
  then show ?thesis using dec_digits [of n] by (simp add: list_all_iff)
qed

lemma printable_quote: "list_all printable (quote s)"
proof -
  have "printable (CHR 0x22)" by code_simp
  moreover have "list_all printable (concat (map escape_char s))"
    by (induction s) (simp_all add: printable_escape)
  ultimately show ?thesis by (simp add: quote_def)
qed

lemma printable_int: "list_all printable (int_text n)"
proof -
  have "printable (CHR ''-'')" by code_simp
  then show ?thesis by (simp add: int_text_def printable_dec)
qed

lemma printable_join:
  "list_all (list_all printable) ts \<Longrightarrow> list_all printable (join_comma ts)"
proof (induction ts rule: join_comma.induct)
  case (3 x y ys)
  moreover have "printable (CHR '','')" by code_simp
  ultimately show ?case by simp
qed simp_all

lemma printable_members:
  assumes "res_map f xs = Inr ts" "\<And>x t. x \<in> set xs \<Longrightarrow> f x = Inr t \<Longrightarrow> list_all printable t"
  shows "list_all printable (join_comma ts)"
proof (rule printable_join)
  show "list_all (list_all printable) ts"
    using assms
  proof (induction xs arbitrary: ts)
    case (Cons x xs)
    then obtain u us where ts: "ts = u # us" "f x = Inr u" "res_map f xs = Inr us" by auto
    have "list_all printable u" using Cons.prems(2) [of x u] ts(2) by simp
    moreover have "list_all (list_all printable) us"
      by (rule Cons.IH [OF ts(3)], rule Cons.prems(2)) simp_all
    ultimately show ?case by (simp add: ts(1))
  qed simp
qed

lemma printable_dumps:
  "writable v \<Longrightarrow> dumps_in_order repr v = Inr t \<Longrightarrow> list_all printable t"
proof (induction repr v arbitrary: t rule: dumps_in_order.induct)
  case (1 repr)
  have "list_all printable ''null''" by code_simp
  with 1 show ?case by simp
next
  case (2 repr x)
  have "list_all printable ''true''" "list_all printable ''false''" by code_simp+
  with 2 show ?case by (auto split: if_splits)
next
  case (3 repr n)
  then show ?case using printable_int by auto
next
  case (5 repr xs)
  then obtain ts where ts: "res_map (dumps_in_order repr) xs = Inr ts"
    and t: "t = CHR ''['' # join_comma ts @ '']''"
    by auto
  have "list_all printable (join_comma ts)"
    by (rule printable_members [OF ts]) (use 5 in \<open>auto simp: list_all_iff\<close>)
  moreover have "printable (CHR ''['')" "printable (CHR '']'')" by code_simp+
  ultimately show ?case by (simp add: t)
next
  case (7 repr d)
  then obtain ts where
    ts: "res_map (\<lambda>p. member_text (fst p) (dumps_in_order repr (snd p))) d = Inr ts"
    and t: "t = CHR ''{'' # join_comma ts @ ''}''"
    by auto
  have colon: "printable (CHR '':'')" "printable (CHR ''{'')" "printable (CHR ''}'')" by code_simp+
  have "list_all printable (join_comma ts)"
  proof (rule printable_members [OF ts])
    fix p u
    assume p: "p \<in> set d" "member_text (fst p) (dumps_in_order repr (snd p)) = Inr u"
    then obtain w where "dumps_in_order repr (snd p) = Inr w" and u: "u = quote (fst p) @ CHR '':'' # w"
      by (auto simp: member_text_def)
    then have "list_all printable w" using 7 p by (auto simp: list_all_iff)
    then show "list_all printable u" by (simp add: u printable_quote colon)
  qed
  then show ?case by (simp add: t colon)
qed (auto simp: printable_quote)

lemma dumps_line:
  assumes "dumps repr v = Inr t" "writable (canon v)"
  shows "list_all printable t"
  using printable_dumps [OF assms(2)] assms(1) by (simp add: dumps_def)

lemma dumps_brace: "dumps repr (PDict d) = Inr t \<Longrightarrow> \<exists>u. t = CHR ''{'' # u"
  by (auto simp: dumps_def)

section \<open>Payloads in written form\<close>

lemma small_writable: "0 \<le> n \<Longrightarrow> n \<le> UINT32_MAX \<Longrightarrow> writable (PInt n)"
  by (rule uint_writable) (simp_all add: UINT64_MAX_def UINT32_MAX_def)

lemma range_writable:
  "in_range lo UINT64_MAX (Some n) \<Longrightarrow> 0 \<le> lo \<Longrightarrow> writable (PInt n)"
  "in_range lo UINT32_MAX (Some n) \<Longrightarrow> 0 \<le> lo \<Longrightarrow> writable (PInt n)"
  by (rule uint_writable small_writable; simp add: in_range_def)+

lemma texts_writable [simp]: "list_all writable (map (PStr \<circ> g) xs)"
  by (induction xs) simp_all

lemma uints_writable:
  "uint_set UINT64_MAX ns \<Longrightarrow> list_all writable (map PInt ns)"
  "uint_set UINT32_MAX ns \<Longrightarrow> list_all writable (map PInt ns)"
  by (auto simp: uint_set_def list_all_iff simp del: writable.simps(3)
      intro: uint_writable small_writable)

lemma identity_writable:
  assumes "valid_identity i"
  shows "writable (identity_to_payload i)"
proof -
  have "writable (PInt (id_worker_generation i))" "writable (PInt (id_rank i))"
    "\<And>e. id_recovery_epoch i = Some e \<Longrightarrow> writable (PInt e)"
    using assms by (auto simp: valid_identity_def intro: uint_writable small_writable
        simp del: writable.simps(3))
  then show ?thesis
    by (simp add: identity_to_payload_def opt_int_def del: writable.simps(3) split: option.split)
qed

lemma observation_writable:
  assumes "valid_observation ob"
  shows "writable (observation_to_payload ob)"
proof -
  from assms have b: "obs_bounded ob" and i: "valid_identity (ob_identity ob)"
    by (simp_all add: valid_observation_def legal_observation_def valid_parts_def)
  have ints: "writable (PInt (ob_observed_at_ns ob))"
    "\<And>n. ob_bytes_moved ob = Some n \<Longrightarrow> writable (PInt n)"
    "\<And>n. ob_block_count ob = Some n \<Longrightarrow> writable (PInt n)"
    "\<And>n. ob_duration_ns ob = Some n \<Longrightarrow> writable (PInt n)"
    "\<And>n. ob_device_duration_ns ob = Some n \<Longrightarrow> writable (PInt n)"
    using b unfolding obs_bounded_def by (auto intro: uint_writable range_writable
        simp del: writable.simps(3))
  have "list_all (\<lambda>p. writable (snd p)) (observation_entries ob)"
    using ints identity_writable [OF i]
    by (simp add: observation_entries_def observation_to_payload_def del: writable.simps(3)
        split: option.split)
  then show ?thesis using observation_entries_ok by (simp add: observation_payload)
qed

lemma fact_writable:
  assumes "valid_fact f"
  shows "writable (host_fact_to_payload f)"
proof -
  from assms obtain u t r c where f: "f = embed_fact u t r c" and "0 \<le> t" "t \<le> UINT64_MAX"
    and c: "claim_ok c"
    by (auto simp: valid_fact_def)
  then have "writable (PInt t)" by (intro uint_writable)
  then have "list_all (\<lambda>p. writable (snd p)) (fact_entries f)"
    using c f by (cases c) (simp_all add: fact_entries_def host_fact_to_payload_def int_list_def
        bare_fact_def uint_writable small_writable uints_writable del: writable.simps(3))
  then show ?thesis using fact_entries_ok by (simp add: fact_payload)
qed

lemma worker_writable: "worker_ok w \<Longrightarrow> writable (worker_to_payload w)"
  by (simp add: worker_ok_def worker_to_payload_def small_writable del: writable.simps(3))

lemma job_writable: "job_ok j \<Longrightarrow> writable (job_to_payload j)"
  by (auto simp: job_ok_def job_to_payload_def uint_writable list_all_iff worker_writable
      simp del: writable.simps(3))

lemma correlated_writable:
  assumes "valid_correlated c" "receipts_ok c" "json_value (co_compute_kind c)"
  shows "writable (correlated_to_payload c)"
proof -
  from assms(1) obtain s r e t l where c: "c = embed_link s r e t l" and l: "link_ok l"
    and "0 < e" "e \<le> UINT64_MAX" "0 \<le> t" "t \<le> UINT64_MAX"
    by (auto simp: valid_correlated_def)
  then have "writable (PInt e)" "writable (PInt t)" by (auto intro: uint_writable simp del: writable.simps(3))
  moreover have "writable (co_compute_kind c)"
    using valid_correlated_kind [OF assms(1)] assms(3)
    by (cases "co_compute_kind c") (simp_all add: kind_text_def)
  moreover have "list_all writable (map worker_to_payload (co_workers c))"
    "list_all writable (map job_to_payload (co_roster c))"
    using assms(2) by (auto simp: receipts_ok_def list_all_iff worker_writable job_writable)
  ultimately have "list_all (\<lambda>p. writable (snd p)) (correlated_entries c)"
    using c l by (cases l) (auto simp: correlated_entries_def correlated_to_payload_def
        nonempty_list_def bare_corr_def uint_writable small_writable simp del: writable.simps(3))
  then show ?thesis using correlated_entries_ok by (simp add: correlated_payload)
qed

section \<open>One line\<close>

primrec typed_of :: "event_record \<Rightarrow> typed_record" where
  "typed_of (RecObservation ob) = Event_Record ob"
| "typed_of (RecFact f) = Fact_Record f"
| "typed_of (RecCorrelated c) = Correlated_Record c"

text \<open>
  A record built by its constructor, its compute kind a string as JSON can carry it.
\<close>

primrec stored_record :: "event_record \<Rightarrow> bool" where
  "stored_record (RecObservation ob) = valid_observation ob"
| "stored_record (RecFact f) = valid_fact f"
| "stored_record (RecCorrelated c) =
     (valid_correlated c \<and> receipts_ok c \<and> json_value (co_compute_kind c))"

primrec record_json :: "event_record \<Rightarrow> pyval" where
  "record_json (RecObservation ob) = observation_to_payload ob"
| "record_json (RecFact f) = host_fact_to_payload f"
| "record_json (RecCorrelated c) = correlated_to_payload c"

lemma typed_payload: "record_payload (typed_of r) = Inr (record_json r)"
  by (cases r) (simp_all add: record_payload_def)

lemma stored_writable: "stored_record r \<Longrightarrow> writable (record_json r)"
  by (cases r) (auto intro: observation_writable fact_writable correlated_writable)

lemma stored_json: "stored_record r \<Longrightarrow> json_value (record_json r)"
  by (cases r) (auto intro: json_observation json_fact json_correlated)

lemma canon_lookup:
  assumes "dict_ok d"
  shows "map_of (sort_key fst (map (\<lambda>p. (fst p, canon (snd p))) d)) k = map_option canon (map_of d k)"
proof -
  have "dict_ok (map (\<lambda>p. (fst p, canon (snd p))) d)" using assms by (simp add: comp_def)
  then show ?thesis by (simp only: map_of_sort map_of_map_snd)
qed

primrec record_schema :: "event_record \<Rightarrow> string" where
  "record_schema (RecObservation ob) = EVENT_SCHEMA"
| "record_schema (RecFact f) = HOST_FACT_SCHEMA"
| "record_schema (RecCorrelated c) = CORRELATED_SCHEMA"

lemma record_dict:
  obtains d where "record_json r = PDict d" "dict_ok d"
    "map_of d ''schema'' = Some (PStr (record_schema r))"
proof (cases r)
  case (RecObservation ob)
  with that [of "observation_entries ob"] observation_entries_ok [of ob] show ?thesis
    by (simp add: observation_entries_def observation_to_payload_def)
next
  case (RecFact f)
  with that [of "fact_entries f"] fact_entries_ok [of f] show ?thesis
    by (simp add: fact_entries_def host_fact_to_payload_def)
next
  case (RecCorrelated c)
  with that [of "correlated_entries c"] correlated_entries_ok [of c] show ?thesis
    by (simp add: correlated_entries_def correlated_to_payload_def)
qed

lemma schema_of_record: "schema_is (canon (record_json r)) s = Inr (record_schema r = s)"
proof -
  obtain d where d: "record_json r = PDict d" "dict_ok d"
    "map_of d ''schema'' = Some (PStr (record_schema r))"
    by (rule record_dict)
  have "map_of (sort_key fst (map (\<lambda>p. (fst p, canon (snd p))) d)) ''schema'' =
      Some (PStr (record_schema r))"
    unfolding canon_lookup [OF d(2)] d(3) by simp
  then show ?thesis unfolding d(1) by (simp add: schema_is_def as_object_def has_text_def)
qed

lemma schemas_differ:
  "EVENT_SCHEMA \<noteq> HOST_FACT_SCHEMA" "EVENT_SCHEMA \<noteq> CORRELATED_SCHEMA"
  "CORRELATED_SCHEMA \<noteq> HOST_FACT_SCHEMA"
  by code_simp+

lemma decode_record_line:
  assumes stored: "stored_record r" and line: "encode_record repr (typed_of r) = Inr line"
  shows "\<exists>t. line = t @ [CHR 0x0A] \<and> CHR 0x0A \<notin> set t" "\<not> blank_line line"
    "decode_record j line = Inr r"
proof -
  from line obtain t where t: "dumps repr (record_json r) = Inr t" and l: "line = t @ [CHR 0x0A]"
    by (auto simp: encode_record_def typed_payload)
  note w = writable_canon [OF stored_writable [OF stored]]
  have printable: "list_all printable t" by (rule dumps_line [OF t w])
  have break: "\<not> printable (CHR 0x0A)" "0 < code (CHR 0x0A)" "code (CHR 0x0A) < 128"
    "is_space (CHR 0x0A)"
    by code_simp+
  then show "\<exists>t. line = t @ [CHR 0x0A] \<and> CHR 0x0A \<notin> set t"
    using printable l by (auto simp: list_all_iff)
  obtain d u where "record_json r = PDict d" "t = CHR ''{'' # u"
    using record_dict [of r] dumps_brace t by metis
  moreover have "\<not> is_space (CHR ''{'')" by code_simp
  ultimately show "\<not> blank_line line" using l by (simp add: blank_line_def)
  have "plain_text line"
    using printable break by (auto simp: plain_text_def l list_all_iff printable_def)
  then have json: "decode_json j line = Inr (canon (record_json r))"
    using loads_dumps [OF t w, of "[CHR 0x0A]" "jr_float j"] break l by (simp add: decode_json_def)
  show "decode_record j line = Inr r"
  proof (cases r)
    case (RecObservation ob)
    then have "observation_from_payload (canon (record_json r)) = Inr ob"
      using stored json_canon [OF stored_json [OF stored]] by (simp add: observation_decode_iff)
    then show ?thesis
      using RecObservation schema_of_record [of r] json
      by (simp add: decode_record_def schemas_differ)
  next
    case (RecFact f)
    then have "host_fact_from_payload (canon (record_json r)) = Inr f"
      using stored json_canon [OF stored_json [OF stored]] by (simp add: fact_decode_iff)
    then show ?thesis
      using RecFact schema_of_record [of r] json by (simp add: decode_record_def)
  next
    case (RecCorrelated c)
    then have "correlated_from_payload (canon (record_json r)) = Inr c"
      using stored json_canon [OF stored_json [OF stored]] by (simp add: correlated_decode_iff)
    then show ?thesis
      using RecCorrelated schema_of_record [of r] json
      by (simp add: decode_record_def schemas_differ)
  qed
qed

section \<open>The whole file\<close>

lemma read_line_break:
  assumes "CHR 0x0A \<notin> set t" "length t < limit"
  shows "read_line limit (t @ CHR 0x0A # rest) = (t @ [CHR 0x0A], rest)"
proof -
  have "takeWhile (\<lambda>c. c \<noteq> CHR 0x0A) (t @ CHR 0x0A # rest) = t"
    using assms(1) by (subst takeWhile_append2) auto
  then show ?thesis using assms(2) by (simp add: read_line_def)
qed

lemma read_lines_written:
  assumes "list_all2 (\<lambda>r line. stored_record r \<and> encode_record repr (typed_of r) = Inr line \<and>
      length line \<le> MAX_RECORD_BYTES) rs lines"
    "used + length (concat lines) \<le> MAX_ARTIFACT_BYTES" "length done + length rs \<le> MAX_RECORDS"
  shows "read_lines j used done (concat lines) = Inr (done @ rs)"
  using assms
proof (induction rs lines arbitrary: used "done" rule: list_all2_induct)
  case Nil
  then show ?case by (simp add: read_lines.simps)
next
  case (Cons r rs line lines)
  then have stored: "stored_record r" "encode_record repr (typed_of r) = Inr line"
    and len: "length line \<le> MAX_RECORD_BYTES" by simp_all
  note facts = decode_record_line [OF stored]
  then obtain t where t: "line = t @ [CHR 0x0A]" "CHR 0x0A \<notin> set t" by blast
  have "read_line (MAX_RECORD_BYTES + 1) (line @ concat lines) = (line, concat lines)"
    using read_line_break [OF t(2), of "MAX_RECORD_BYTES + 1" "concat lines"] len t(1) by simp
  moreover have "read_lines j (used + length line) (done @ [r]) (concat lines) = Inr ((done @ [r]) @ rs)"
    by (rule Cons.IH) (use Cons.prems in simp_all)
  moreover have "line @ concat lines \<noteq> []" using t(1) by simp
  ultimately show ?case
    using facts len Cons.prems by (subst read_lines.simps) simp
qed

end
