(* ===== verification/Inventory_Codec.thy ===== *)
theory Inventory_Codec
  imports Read_Back
begin

section \<open>Decoding inventories\<close>

definition region_ok :: "descriptor_region \<Rightarrow> bool" where
  "region_ok r \<longleftrightarrow>
     0 \<le> dr_src_offset r \<and> dr_src_offset r \<le> UINT64_MAX \<and>
     0 \<le> dr_dst_offset r \<and> dr_dst_offset r \<le> UINT64_MAX \<and>
     0 < dr_size r \<and> dr_size r \<le> UINT64_MAX \<and>
     0 \<le> dr_src_region_id r \<and> dr_src_region_id r \<le> UINT32_MAX \<and>
     0 \<le> dr_dst_region_id r \<and> dr_dst_region_id r \<le> UINT32_MAX"

definition valid_inventory :: "descriptor_inventory \<Rightarrow> bool" where
  "valid_inventory v \<longleftrightarrow>
     valid_identity (di_identity v) \<and> valid_transfer (di_transfer v) \<and>
     0 \<le> di_job_id v \<and> di_job_id v \<le> UINT64_MAX \<and>
     0 \<le> di_observed_at_ns v \<and> di_observed_at_ns v \<le> UINT64_MAX \<and>
     di_regions v \<noteq> [] \<and> length (di_regions v) \<le> MAX_DESCRIPTOR_REGIONS \<and>
     (\<forall>r \<in> set (di_regions v). region_ok r \<and> dr_direction r = di_direction v)"

lemma make_region_iff:
  "make_region src_offset dst_offset nbytes direction src_region dst_region = Inr r \<longleftrightarrow>
     src_offset = PInt (dr_src_offset r) \<and> dst_offset = PInt (dr_dst_offset r) \<and>
     nbytes = PInt (dr_size r) \<and> direction = PDirection (dr_direction r) \<and>
     src_region = PInt (dr_src_region_id r) \<and> dst_region = PInt (dr_dst_region_id r) \<and>
     region_ok r"
  by (cases r) (auto simp: make_region_def require_uint_iff region_ok_def as_direction_def
      split: pyval.splits)

text \<open>A dict spelling out exactly the given entries.\<close>

lemma exact_fields:
  assumes "dict_ok d" "dict_ok e"
  shows "canon (PDict d) = canon (PDict e) \<longleftrightarrow>
    (\<forall>k. map_of d k \<noteq> None \<longleftrightarrow> k \<in> fst ` set e) \<and>
    list_all (\<lambda>(k, v). map_option canon (map_of d k) = Some (canon v)) e"
proof -
  have some: "(k, v) \<in> set e \<longleftrightarrow> map_of e k = Some v" for k v
    using map_of_eq_Some_iff [OF assms(2)] by metis
  have mem: "k \<in> fst ` set e \<longleftrightarrow> map_of e k \<noteq> None" for k
    unfolding map_of_eq_None_iff by simp
  show ?thesis unfolding canon_dict_iff [OF assms]
  proof
    assume l: "\<forall>k. map_option canon (map_of d k) = map_option canon (map_of e k)"
    have "map_of d k \<noteq> None \<longleftrightarrow> map_of e k \<noteq> None" for k
      using spec [OF l, of k] by (cases "map_of d k"; cases "map_of e k") simp_all
    moreover have "map_option canon (map_of d k) = Some (canon v)" if "(k, v) \<in> set e" for k v
      using spec [OF l, of k] that some by simp
    ultimately show "(\<forall>k. map_of d k \<noteq> None \<longleftrightarrow> k \<in> fst ` set e) \<and>
        list_all (\<lambda>(k, v). map_option canon (map_of d k) = Some (canon v)) e"
      by (auto simp: list_all_iff mem simp del: not_None_eq)
  next
    assume r: "(\<forall>k. map_of d k \<noteq> None \<longleftrightarrow> k \<in> fst ` set e) \<and>
        list_all (\<lambda>(k, v). map_option canon (map_of d k) = Some (canon v)) e"
    have "map_option canon (map_of d k) = map_option canon (map_of e k)" for k
    proof (cases "map_of e k")
      case None
      with r mem [of k] have "map_of d k = None" by metis
      with None show ?thesis by simp
    next
      case (Some v)
      then have "(k, v) \<in> set e" by (simp add: some)
      with r have "map_option canon (map_of d k) = Some (canon v)" unfolding list_all_iff by auto
      with Some show ?thesis by simp
    qed
    then show "\<forall>k. map_option canon (map_of d k) = map_option canon (map_of e k)" by blast
  qed
qed

lemma canon_atom:
  "(\<exists>z. x = Some z \<and> canon z = PInt n) \<longleftrightarrow> x = Some (PInt n)"
  "(\<exists>z. x = Some z \<and> canon z = PStr s) \<longleftrightarrow> x = Some (PStr s)"
  by auto

definition REGION_KEYS :: "string list" where
  "REGION_KEYS = [''src_offset'', ''dst_offset'', ''size'', ''direction'', ''src_region_id'',
     ''dst_region_id'']"

lemma region_kwargs:
  assumes "map_of d ''direction'' \<noteq> None"
  shows "check_kwargs REGION_KEYS [] (AList.update ''direction'' x d) = Inr u \<longleftrightarrow>
    (\<forall>k. map_of d k \<noteq> None \<longleftrightarrow> k \<in> set REGION_KEYS)"
proof -
  have "''direction'' \<in> set REGION_KEYS" by (simp add: REGION_KEYS_def)
  moreover have "map_of (AList.update ''direction'' x d) k \<noteq> None \<longleftrightarrow> map_of d k \<noteq> None" for k
    using assms by (simp add: update_conv' del: not_None_eq)
  moreover have "u = ()" by simp
  ultimately show ?thesis unfolding check_kwargs_iff append_Nil2 by (simp only: check_kwargs_iff append_Nil2) blast
qed

definition region_entries :: "descriptor_region \<Rightarrow> (string \<times> pyval) list" where
  "region_entries r = (case region_to_payload r of PDict d \<Rightarrow> d | _ \<Rightarrow> [])"

lemma region_payload: "region_to_payload r = PDict (region_entries r)"
  by (simp add: region_entries_def region_to_payload_def)

lemmas region_entries = region_entries_def [unfolded region_to_payload_def pyval.case]

lemma region_payload_iff:
  assumes "json_value v"
  shows "region_from_payload v = Inr r \<longleftrightarrow> region_ok r \<and> canon v = canon (region_to_payload r)"
proof (cases v)
  case (PDict d)
  then have d: "dict_ok d" "json_value (PDict d)" using assms by simp_all
  have direction: "(\<exists>x. map_of d ''direction'' = Some x \<and> read_direction x = Inr (PDirection y)) \<longleftrightarrow>
      map_of d ''direction'' = Some (PStr (direction_value y))" for y
    using json_lookup [OF d(2)] by (auto simp: enum_conversions)
  have kw: "region_kw (AList.update ''direction'' z d) = Inr r \<longleftrightarrow>
      (\<forall>k. map_of d k \<noteq> None \<longleftrightarrow> k \<in> set REGION_KEYS) \<and>
      z = PDirection (dr_direction r) \<and>
      map_of d ''src_offset'' = Some (PInt (dr_src_offset r)) \<and>
      map_of d ''dst_offset'' = Some (PInt (dr_dst_offset r)) \<and>
      map_of d ''size'' = Some (PInt (dr_size r)) \<and>
      map_of d ''src_region_id'' = Some (PInt (dr_src_region_id r)) \<and>
      map_of d ''dst_region_id'' = Some (PInt (dr_dst_region_id r)) \<and> region_ok r"
    if "map_of d ''direction'' \<noteq> None" for z
  proof -
    have item: "kwarg d k PNone = PInt n \<longleftrightarrow> map_of d k = Some (PInt n)" for k n
      by (simp add: kwarg_def split: option.split)
    show ?thesis
      unfolding region_kw_def res_bind_Inr REGION_KEYS_def [symmetric] region_kwargs [OF that]
        make_region_iff kwarg_simps
      by (simp only: item list.inject char.inject list.distinct if_False if_True simp_thms)
        blast
  qed
  have keys: "fst ` set (region_entries r) = set REGION_KEYS"
    by (auto simp: region_entries REGION_KEYS_def)
  have decode: "region_from_payload v = Inr r \<longleftrightarrow>
      map_of d ''direction'' = Some (PStr (direction_value (dr_direction r))) \<and>
      (\<forall>k. map_of d k \<noteq> None \<longleftrightarrow> k \<in> set REGION_KEYS) \<and>
      map_of d ''src_offset'' = Some (PInt (dr_src_offset r)) \<and>
      map_of d ''dst_offset'' = Some (PInt (dr_dst_offset r)) \<and>
      map_of d ''size'' = Some (PInt (dr_size r)) \<and>
      map_of d ''src_region_id'' = Some (PInt (dr_src_region_id r)) \<and>
      map_of d ''dst_region_id'' = Some (PInt (dr_dst_region_id r)) \<and> region_ok r"
    unfolding PDict region_from_payload_def as_object_def pyval.case res_bind_Inr dict_item_iff
      direction [symmetric]
    using kw by (metis not_None_eq Inr_inject)
  have "canon v = canon (region_to_payload r) \<longleftrightarrow>
      (\<forall>k. map_of d k \<noteq> None \<longleftrightarrow> k \<in> set REGION_KEYS) \<and>
      list_all (\<lambda>(k, v). map_option canon (map_of d k) = Some (canon v)) (region_entries r)"
    unfolding PDict region_payload keys [symmetric]
    by (rule exact_fields [OF d(1)]) (simp add: region_entries)
  then show ?thesis unfolding decode by (auto simp: region_entries simp del: not_None_eq)
qed (simp_all add: region_from_payload_def as_object_def region_to_payload_def)

lemma region_list_iff:
  assumes "json_value v"
  shows "region_list v = Inr rs \<longleftrightarrow>
    (\<forall>r \<in> set rs. region_ok r) \<and> canon v = canon (PList (map region_to_payload rs))"
proof (cases v)
  case (PList xs)
  have "res_map region_from_payload xs = Inr rs \<longleftrightarrow>
      list_all region_ok rs \<and> map canon xs = map (canon \<circ> region_to_payload) rs"
    by (rule res_map_canon) (use assms PList in \<open>simp add: list_all_iff region_payload_iff\<close>)
  then show ?thesis by (simp add: region_list_def PList list_all_iff)
qed (simp_all add: region_list_def)

lemma make_inventory_iff:
  "make_inventory (PIdentity i) t job direction (Some (map Some rs)) observed = Inr v \<longleftrightarrow>
     i = di_identity v \<and> t = PTransfer (di_transfer v) \<and> job = PInt (di_job_id v) \<and>
     direction = PDirection (di_direction v) \<and> rs = di_regions v \<and>
     observed = PInt (di_observed_at_ns v) \<and>
     0 \<le> di_job_id v \<and> di_job_id v \<le> UINT64_MAX \<and>
     0 \<le> di_observed_at_ns v \<and> di_observed_at_ns v \<le> UINT64_MAX \<and>
     di_regions v \<noteq> [] \<and> length (di_regions v) \<le> MAX_DESCRIPTOR_REGIONS \<and>
     (\<forall>r \<in> set (di_regions v). dr_direction r = di_direction v)"
proof -
  have "res_map as_region (map Some rs) = Inr rs" by (induction rs) (simp_all add: as_region_def)
  then show ?thesis
    by (cases v) (auto simp: make_inventory_def as_identity_def as_transfer_def as_direction_def
        require_uint_iff list_all_iff split: pyval.splits if_splits)
qed

definition inventory_entries ::
  "evidence_label \<Rightarrow> descriptor_inventory \<Rightarrow> (string \<times> pyval) list" where
  "inventory_entries label v = (case inventory_to_payload label v of PDict d \<Rightarrow> d | _ \<Rightarrow> [])"

lemma inventory_payload: "inventory_to_payload label v = PDict (inventory_entries label v)"
  by (simp add: inventory_entries_def inventory_to_payload_def)

lemmas inventory_entries = inventory_entries_def [unfolded inventory_to_payload_def pyval.case]

lemma json_identity: "json_value (identity_to_payload i)"
  by (simp add: identity_to_payload_def opt_int_def split: option.split)

lemma json_inventory: "json_value (inventory_to_payload label v)"
  by (simp add: inventory_to_payload_def json_identity list_all_iff region_to_payload_def)

lemma inventory_fields_iff:
  assumes "json_value (PDict d)"
  shows "inventory_from_fields d = Inr (v, label) \<longleftrightarrow>
    valid_inventory v \<and>
    map_option canon (map_of d ''descriptors'') =
      Some (canon (PList (map region_to_payload (di_regions v)))) \<and>
    map_option canon (map_of d ''identity'') = Some (canon (identity_to_payload (di_identity v))) \<and>
    map_of d ''transfer_id'' = Some (PStr (transfer_value (di_transfer v))) \<and>
    map_of d ''job_id'' = Some (PInt (di_job_id v)) \<and>
    map_of d ''direction'' = Some (PStr (direction_value (di_direction v))) \<and>
    map_of d ''observed_at_ns'' = Some (PInt (di_observed_at_ns v)) \<and>
    map_of d ''evidence_label'' = Some (PStr (evidence_value label))"
proof -
  note json = json_lookup [OF assms]
  have regions: "(\<exists>x. map_of d ''descriptors'' = Some x \<and> region_list x = Inr rs) \<longleftrightarrow>
      (\<forall>r \<in> set rs. region_ok r) \<and>
      map_option canon (map_of d ''descriptors'') = Some (canon (PList (map region_to_payload rs)))"
    for rs using json by (auto simp: region_list_iff)
  have identity: "(\<exists>x. map_of d ''identity'' = Some x \<and> identity_from_payload x = Inr i) \<longleftrightarrow>
      valid_identity i \<and>
      map_option canon (map_of d ''identity'') = Some (canon (identity_to_payload i))"
    for i using json by (auto simp: identity_payload_iff)
  have transfer: "(\<exists>x. map_of d ''transfer_id'' = Some x \<and> read_transfer x = Inr (PTransfer t)) \<longleftrightarrow>
      valid_transfer t \<and> map_of d ''transfer_id'' = Some (PStr (transfer_value t))" for t
    by (auto simp: id_conversions)
  have direction: "(\<exists>x. map_of d ''direction'' = Some x \<and> read_direction x = Inr (PDirection y)) \<longleftrightarrow>
      map_of d ''direction'' = Some (PStr (direction_value y))" for y
    using json by (auto simp: enum_conversions)
  have evidence: "(\<exists>x. map_of d ''evidence_label'' = Some x \<and> to_evidence x = Inr l) \<longleftrightarrow>
      map_of d ''evidence_label'' = Some (PStr (evidence_value l))" for l
    using json by (auto simp: enum_iff json_text)
  have "inventory_from_fields d = Inr (v, label) \<longleftrightarrow>
      (\<exists>x. map_of d ''descriptors'' = Some x \<and> region_list x = Inr (di_regions v)) \<and>
      (\<exists>x. map_of d ''identity'' = Some x \<and> identity_from_payload x = Inr (di_identity v)) \<and>
      (\<exists>x. map_of d ''transfer_id'' = Some x \<and> read_transfer x = Inr (PTransfer (di_transfer v))) \<and>
      map_of d ''job_id'' = Some (PInt (di_job_id v)) \<and>
      (\<exists>x. map_of d ''direction'' = Some x \<and> read_direction x = Inr (PDirection (di_direction v))) \<and>
      map_of d ''observed_at_ns'' = Some (PInt (di_observed_at_ns v)) \<and>
      (\<exists>x. map_of d ''evidence_label'' = Some x \<and> to_evidence x = Inr label) \<and>
      0 \<le> di_job_id v \<and> di_job_id v \<le> UINT64_MAX \<and>
      0 \<le> di_observed_at_ns v \<and> di_observed_at_ns v \<le> UINT64_MAX \<and>
      di_regions v \<noteq> [] \<and> length (di_regions v) \<le> MAX_DESCRIPTOR_REGIONS \<and>
      (\<forall>r \<in> set (di_regions v). dr_direction r = di_direction v)"
    unfolding inventory_from_fields_def res_bind_Inr dict_item_iff make_inventory_iff sum.inject
      prod.inject by blast
  then show ?thesis
    unfolding regions identity transfer direction evidence valid_inventory_def by blast
qed

lemma descriptor_decode_iff:
  assumes "json_value p"
  shows "descriptor_from_payload p = Inr v \<longleftrightarrow>
    valid_inventory v \<and> (\<exists>label. canon p = canon (inventory_to_payload label v))"
proof (cases p)
  case (PDict d)
  then have d: "dict_ok d" "json_value (PDict d)" using assms by simp_all
  have keys: "fst ` set (inventory_entries label v) = set DESCRIPTOR_KEYS" for label
    by (auto simp: inventory_entries DESCRIPTOR_KEYS_def)
  have schema: "has_text d ''schema'' DESCRIPTOR_SCHEMA \<longleftrightarrow>
      map_of d ''schema'' = Some (PStr DESCRIPTOR_SCHEMA)"
    using json_lookup [OF d(2)] by (auto simp: has_text_def json_text split: option.splits)
  have exact: "canon p = canon (inventory_to_payload label v) \<longleftrightarrow>
      (\<forall>k. map_of d k \<noteq> None \<longleftrightarrow> k \<in> set DESCRIPTOR_KEYS) \<and>
      list_all (\<lambda>(k, v). map_option canon (map_of d k) = Some (canon v)) (inventory_entries label v)"
    for label
    unfolding PDict inventory_payload keys [of label, symmetric]
    by (rule exact_fields [OF d(1)]) (simp add: inventory_entries)
  have fields: "fst ` set d = set DESCRIPTOR_KEYS \<and> has_text d ''schema'' DESCRIPTOR_SCHEMA \<and>
      inventory_from_fields d = Inr (v, label) \<longleftrightarrow>
      valid_inventory v \<and> canon p = canon (inventory_to_payload label v)" for label
    unfolding exact keys_iff schema inventory_fields_iff [OF d(2)]
    by (auto simp: inventory_entries simp del: not_None_eq)
  have equal: "py_eq (inventory_to_payload label v) p"
    if "canon p = canon (inventory_to_payload label v)" for label
    by (rule py_eq_canon [OF json_inventory assms]) (simp add: that)
  have "descriptor_from_payload p = Inr v \<longleftrightarrow>
      (\<exists>label. (fst ` set d = set DESCRIPTOR_KEYS \<and> has_text d ''schema'' DESCRIPTOR_SCHEMA \<and>
         inventory_from_fields d = Inr (v, label)) \<and> py_eq (inventory_to_payload label v) p)"
    unfolding descriptor_from_payload_def PDict as_object_def pyval.case
    by (auto split: if_splits)
  then show ?thesis unfolding fields using equal by blast
qed (simp_all add: descriptor_from_payload_def as_object_def inventory_to_payload_def)

lemma region_writable: "region_ok r \<Longrightarrow> writable (region_to_payload r)"
  by (simp add: region_to_payload_def region_ok_def uint_writable small_writable
      del: writable.simps(3))

lemma inventory_writable:
  assumes "valid_inventory v"
  shows "writable (inventory_to_payload label v)"
proof -
  have "writable (identity_to_payload (di_identity v))" "writable (PInt (di_job_id v))"
    "writable (PInt (di_observed_at_ns v))"
    "list_all writable (map region_to_payload (di_regions v))"
    using assms by (auto simp: valid_inventory_def list_all_iff simp del: writable.simps(3)
        intro: identity_writable uint_writable region_writable)
  then have "list_all (\<lambda>p. writable (snd p)) (inventory_entries label v)"
    by (simp add: inventory_entries del: writable.simps(3))
  moreover have "dict_ok (inventory_entries label v)" by (simp add: inventory_entries)
  ultimately show ?thesis by (simp add: inventory_payload)
qed

section \<open>The indented text\<close>

definition plain :: "char \<Rightarrow> bool" where
  "plain c \<longleftrightarrow> 0 < code c \<and> code c < 128"

lemma plain_text_plain: "plain_text s = list_all plain s"
  by (simp add: plain_text_def plain_def [abs_def])

lemma printable_plain: "list_all printable t \<Longrightarrow> list_all plain t"
  by (auto simp: list_all_iff printable_def plain_def)

lemma plain_break: "list_all plain (line_break n)"
proof -
  have "plain (CHR 0x0A)" "plain (CHR '' '')" by code_simp+
  then show ?thesis by (simp add: line_break_def list_all_iff)
qed

lemma plain_join:
  "list_all plain sep \<Longrightarrow> list_all (list_all plain) ts \<Longrightarrow> list_all plain (join_with sep ts)"
  by (induction sep ts rule: join_with.induct) simp_all

lemma plain_bracket:
  assumes "list_all (list_all plain) ts" "plain l" "plain r"
  shows "list_all plain (bracket line_break n l ts r)"
proof -
  have "plain (CHR '','')" by code_simp
  then show ?thesis using assms plain_break plain_join by (simp add: bracket_def)
qed

lemma plain_members:
  assumes "res_map f xs = Inr ts" "\<And>x t. x \<in> set xs \<Longrightarrow> f x = Inr t \<Longrightarrow> list_all plain t"
  shows "list_all (list_all plain) ts"
  using assms
proof (induction xs arbitrary: ts)
  case (Cons x xs)
  then obtain u us where ts: "ts = u # us" "f x = Inr u" "res_map f xs = Inr us" by auto
  have "list_all plain u" using Cons.prems(2) [of x u] ts(2) by simp
  moreover have "list_all (list_all plain) us"
    by (rule Cons.IH [OF ts(3)], rule Cons.prems(2)) simp_all
  ultimately show ?case by (simp add: ts(1))
qed simp

lemma plain_layout:
  "writable v \<Longrightarrow> layout repr line_break '': '' n v = Inr t \<Longrightarrow> list_all plain t"
proof (induction repr "line_break" "'': ''" n v arbitrary: t rule: layout.induct)
  case (1 repr n)
  have "list_all plain ''null''" by code_simp
  with 1 show ?case by simp
next
  case (2 repr n x)
  have "list_all plain ''true''" "list_all plain ''false''" by code_simp+
  with 2 show ?case by (auto split: if_splits)
next
  case (3 repr n i)
  then show ?case using printable_plain [OF printable_int] by auto
next
  case (5 repr n xs)
  then obtain ts where ts: "res_map (layout repr line_break '': '' (Suc n)) xs = Inr ts"
    and t: "t = bracket line_break n CHR ''['' ts CHR '']''"
    by auto
  have "list_all (list_all plain) ts"
    by (rule plain_members [OF ts]) (use 5 in \<open>auto simp: list_all_iff\<close>)
  moreover have "plain (CHR ''['')" "plain (CHR '']'')" by code_simp+
  ultimately show ?case unfolding t by (rule plain_bracket)
next
  case (7 repr n d)
  then obtain ts where
    ts: "res_map (\<lambda>p. res_bind (layout repr line_break '': '' (Suc n) (snd p))
       (\<lambda>t. Inr (quote (fst p) @ '': '' @ t))) d = Inr ts"
    and t: "t = bracket line_break n CHR ''{'' ts CHR ''}''"
    by auto
  have colon: "list_all plain '': ''" by code_simp
  have "list_all (list_all plain) ts"
  proof (rule plain_members [OF ts])
    fix p u
    assume p: "p \<in> set d" and "res_bind (layout repr line_break '': '' (Suc n) (snd p))
       (\<lambda>t. Inr (quote (fst p) @ '': '' @ t)) = Inr u"
    then obtain w where w: "layout repr line_break '': '' (Suc n) (snd p) = Inr w"
      and u: "u = quote (fst p) @ '': '' @ w"
      by auto
    have "writable (snd p)" using 7 p by (auto simp: list_all_iff)
    then have "list_all plain w" using 7(1) p w by blast
    then show "list_all plain u"
      unfolding u list_all_append using colon printable_plain [OF printable_quote] by blast
  qed
  moreover have "plain (CHR ''{'')" "plain (CHR ''}'')" by code_simp+
  ultimately show ?case unfolding t by (rule plain_bracket)
qed (auto intro: printable_plain [OF printable_quote])

lemma inventory_read_back:
  assumes "valid_inventory v" "dumps_indented repr (inventory_to_payload label v) = Inr t"
  shows "res_bind (decode_json j (t @ [CHR 0x0A])) descriptor_from_payload = Inr v"
proof -
  note w = writable_canon [OF inventory_writable [OF assms(1), of label]]
  have "list_all plain t" using plain_layout [OF w] assms(2) by (simp add: dumps_indented_def)
  moreover have "plain (CHR 0x0A)" "is_space (CHR 0x0A)" by code_simp+
  ultimately have "decode_json j (t @ [CHR 0x0A]) = Inr (canon (inventory_to_payload label v))"
    using loads_indented [OF assms(2) w, of "[CHR 0x0A]" "jr_float j"]
    by (simp add: decode_json_def plain_text_plain)
  moreover have "descriptor_from_payload (canon (inventory_to_payload label v)) = Inr v"
    using assms(1) by (subst descriptor_decode_iff [OF json_canon [OF json_inventory]]) auto
  ultimately show ?thesis by simp
qed

end
