(* ===== verification/Artifact_Check.thy ===== *)
theory Artifact_Check
  imports Inventory_Codec
begin

text \<open>
  The checks of validation.py on whole artifacts: an event file written by the sink, and a
  directory of captured inventories held against the events.
\<close>

section \<open>The owners of transfers\<close>

definition owner_pairs ::
  "event_record list \<Rightarrow> (transfer_identity \<times> observation_identity \<times> transfer_direction option) list"
  where
  "owner_pairs rs =
     List.map_filter (\<lambda>r. case r of
        RecObservation ob \<Rightarrow> map_option (\<lambda>t. (t, ob_identity ob, ob_direction ob)) (ob_transfer ob)
      | _ \<Rightarrow> None) rs"

lemma owner_pairs_simps [simp]:
  "owner_pairs [] = []"
  "owner_pairs (RecFact f # rs) = owner_pairs rs"
  "owner_pairs (RecCorrelated c # rs) = owner_pairs rs"
  "owner_pairs (RecObservation ob # rs) =
     (case ob_transfer ob of None \<Rightarrow> owner_pairs rs
      | Some t \<Rightarrow> (t, ob_identity ob, ob_direction ob) # owner_pairs rs)"
  by (simp_all add: owner_pairs_def map_filter_simps split: option.split)

text \<open>No transfer has two owners, in the table or in the records.\<close>

definition one_owner :: "owners \<Rightarrow> event_record list \<Rightarrow> bool" where
  "one_owner ts rs \<longleftrightarrow>
     (\<forall>t k. (t, k) \<in> set (owner_pairs rs) \<longrightarrow> map_of ts t \<in> {None, Some k}) \<and>
     single_valued (set (owner_pairs rs))"

lemma owner_step:
  "(\<forall>t l. (t, l) \<in> insert (u, k) P \<longrightarrow> m t \<in> {None, Some l}) \<and> single_valued (insert (u, k) P) \<longleftrightarrow>
     m u \<in> {None, Some k} \<and>
     (\<forall>t l. (t, l) \<in> P \<longrightarrow> (m(u \<mapsto> k)) t \<in> {None, Some l}) \<and> single_valued P"
  (is "?l \<longleftrightarrow> ?r")
proof
  assume l: ?l
  then have same: "(u, l) \<in> P \<Longrightarrow> l = k" for l by (meson insertCI single_valuedD)
  have "single_valued P" using l by (meson single_valued_subset subset_insertI)
  moreover have "(m(u \<mapsto> k)) t \<in> {None, Some l}" if "(t, l) \<in> P" for t l
    using l same that by (cases "t = u") auto
  ultimately show ?r using l by blast
next
  assume r: ?r
  then have same: "(u, l) \<in> P \<Longrightarrow> l = k" for l by fastforce
  have "m t \<in> {None, Some l}" if "(t, l) \<in> insert (u, k) P" for t l
  proof (cases "t = u")
    case False
    with r that have "(m(u \<mapsto> k)) t \<in> {None, Some l}" by blast
    with False show ?thesis by simp
  next
    case True
    with that same have "l = k" by blast
    with r True show ?thesis by simp
  qed
  moreover have "single_valued (insert (u, k) P)"
    using r same unfolding single_valued_def by (metis insert_iff prod.inject)
  ultimately show ?l by blast
qed

lemma transfer_owners_iff:
  "(\<exists>ts'. transfer_owners ts rs = Inr ts') \<longleftrightarrow> one_owner ts rs"
  "transfer_owners ts rs = Inr ts' \<Longrightarrow>
     map_of ts' t = Some k \<longleftrightarrow> map_of ts t = Some k \<or> (t, k) \<in> set (owner_pairs rs)"
proof (induction rs arbitrary: ts)
  case Nil
  { case 1 show ?case by (simp add: one_owner_def)
  next case 2 then show ?case by simp }
next
  case (Cons r rs)
  note IH = Cons.IH
  { case 1
  show ?case
  proof (cases "\<exists>ob u. r = RecObservation ob \<and> ob_transfer ob = Some u")
    case True
    then obtain ob u where r: "r = RecObservation ob" "ob_transfer ob = Some u" by blast
    let ?k = "(ob_identity ob, ob_direction ob)"
    have "one_owner ts (r # rs) \<longleftrightarrow>
        map_of ts u \<in> {None, Some ?k} \<and> one_owner (AList.update u ?k ts) rs"
      unfolding one_owner_def r(1) owner_pairs_simps r(2) option.case list.set update_conv'
      by (rule owner_step)
    then show ?thesis using IH(1) by (cases "map_of ts u") (auto simp: r Let_def)
  next
    case False
    then have "transfer_owners ts (r # rs) = transfer_owners ts rs"
      "owner_pairs (r # rs) = owner_pairs rs"
      by (cases r; auto split: option.split)+
    then show ?thesis using IH(1) by (simp add: one_owner_def)
  qed
  next case 2
  note owners = 2
  show ?case
  proof (cases "\<exists>ob u. r = RecObservation ob \<and> ob_transfer ob = Some u")
    case True
    then obtain ob u where r: "r = RecObservation ob" "ob_transfer ob = Some u" by blast
    let ?k = "(ob_identity ob, ob_direction ob)"
    from owners have known: "map_of ts u \<in> {None, Some ?k}"
      and "transfer_owners (AList.update u ?k ts) rs = Inr ts'"
      by (cases "map_of ts u"; auto simp: r Let_def split: if_splits)+
    note result = IH(2) [OF this(2)]
    from known consider "map_of ts u = None" | "map_of ts u = Some ?k"
      by (metis insertE singletonD)
    then show ?thesis by cases (auto simp: result r update_conv')
  next
    case False
    then have "transfer_owners ts (r # rs) = transfer_owners ts rs"
      "owner_pairs (r # rs) = owner_pairs rs"
      by (cases r; auto split: option.split)+
    then show ?thesis using IH(2) owners by simp
  qed }
qed

lemma transfer_owners_error: "transfer_owners ts rs = Inl e \<Longrightarrow> e = ValueError"
  by (induction ts rs rule: transfer_owners.induct)
    (auto simp: Let_def split: event_record.splits option.splits if_splits)

section \<open>The directory\<close>

lemma layout_returns: "writable v \<Longrightarrow> \<exists>t. layout repr nl colon n v = Inr t"
proof (induction repr nl colon n v rule: layout.induct)
  case (5 repr nl colon n xs)
  then have "\<forall>x \<in> set xs. \<exists>t. layout repr nl colon (Suc n) x = Inr t" by (simp add: list_all_iff)
  then show ?case by (simp flip: res_map_unit)
next
  case (7 repr nl colon n d)
  then have "\<forall>p \<in> set d. \<exists>t. res_bind (layout repr nl colon (Suc n) (snd p))
      (\<lambda>t. Inr (quote (fst p) @ colon @ t)) = Inr t"
    by (auto simp: list_all_iff)
  then show ?case unfolding res_map_unit [symmetric] by simp
qed auto

lemma inventory_text_read:
  assumes "valid_inventory v"
  shows "res_bind (decode_json j (inventory_text repr label v)) descriptor_from_payload = Inr v"
proof -
  obtain t where t: "dumps_indented repr (inventory_to_payload label v) = Inr t"
    using layout_returns [OF writable_canon [OF inventory_writable [OF assms]]]
    unfolding dumps_indented_def by blast
  then show ?thesis using inventory_read_back [OF assms t] by (simp add: inventory_text_def)
qed

lemma check_files_written:
  fixes label j repr
  defines "contents \<equiv> inventory_text repr label"
  assumes "\<forall>v \<in> set vs. valid_inventory v \<and> length (contents v) \<le> MAX_RECORD_BYTES"
    "used + sum_list (map (\<lambda>v. length (contents v)) vs) \<le> MAX_ARTIFACT_BYTES"
    "count + length vs \<le> MAX_RECORDS"
  shows "check_files j ts count used seen (map (\<lambda>v. Inr (contents v)) vs) =
    (if distinct (map di_transfer vs) \<and> set (map di_transfer vs) \<inter> set seen = {} \<and>
        (\<forall>v \<in> set vs. map_of ts (di_transfer v) = Some (di_identity v, Some (di_direction v)))
     then Inr (count + length vs) else Inl ValueError)"
  using assms(2-)
proof (induction vs arbitrary: count used seen)
  case (Cons v vs)
  have "res_bind (decode_json j (contents v)) descriptor_from_payload = Inr v"
    unfolding contents_def by (rule inventory_text_read) (use Cons.prems in simp)
  then have read: "\<exists>p. decode_json j (contents v) = Inr p \<and> descriptor_from_payload p = Inr v" by simp
  then have step: "check_files j ts count used seen (map (\<lambda>v. Inr (contents v)) (v # vs)) =
    (if di_transfer v \<in> set seen then Inl ValueError
     else if map_of ts (di_transfer v) \<noteq> Some (di_identity v, Some (di_direction v))
     then Inl ValueError
     else check_files j ts (count + 1) (used + length (contents v)) (di_transfer v # seen)
       (map (\<lambda>v. Inr (contents v)) vs))"
    using Cons.prems by (auto simp: Let_def)
  have "check_files j ts (count + 1) (used + length (contents v)) (di_transfer v # seen)
      (map (\<lambda>v. Inr (contents v)) vs) =
    (if distinct (map di_transfer vs) \<and> set (map di_transfer vs) \<inter> set (di_transfer v # seen) = {} \<and>
        (\<forall>v \<in> set vs. map_of ts (di_transfer v) = Some (di_identity v, Some (di_direction v)))
     then Inr (count + 1 + length vs) else Inl ValueError)"
    by (rule Cons.IH) (use Cons.prems in simp_all)
  then show ?case unfolding step by auto
qed simp

section \<open>Concrete artifacts\<close>

definition demo_reader :: json_reader where
  "demo_reader = \<lparr>jr_float = (\<lambda>_. NotANumber), jr_loads_other = (\<lambda>_. Inl ValueError)\<rparr>"

definition demo_text :: string where
  "demo_text = projr (encode_record (\<lambda>_. []) (Event_Record wire_observation))"

lemma demo_text:
  "encode_record (\<lambda>_. []) (Event_Record wire_observation) = Inr demo_text" "length demo_text \<le> 2000"
proof -
  have "is_ok (encode_record (\<lambda>_. []) (Event_Record wire_observation))" by code_simp
  then show "encode_record (\<lambda>_. []) (Event_Record wire_observation) = Inr demo_text"
    by (cases "encode_record (\<lambda>_. []) (Event_Record wire_observation)")
      (simp_all add: demo_text_def)
  show "length demo_text \<le> 2000" by code_simp
qed

lemma demo_inventory_size: "length (inventory_text (\<lambda>_. []) REPLAY demo_inventory) \<le> 4096"
  by code_simp

text \<open>The start of the transfer the demo inventory describes.\<close>

definition demo_start :: kv_observation where
  "demo_start = embed (di_identity demo_inventory) 70 (Preserve_Started (di_transfer demo_inventory) 2)"

lemma demo_inventory_valid: "valid_inventory demo_inventory"
proof -
  have "observation_identity (PStr ''req-1'') (PInt 3) (PInt 0) (PInt 1) =
      Inr (ObservationIdentity ''req-1'' 3 0 (Some 1))"
    "transfer_identity (PStr ''00112233445566778899aabbccddeeff:t:1'') =
       Inr (TransferIdentity ''00112233445566778899aabbccddeeff:t:1'')"
    by code_simp+
  then have "valid_identity (di_identity demo_inventory)" "valid_transfer (di_transfer demo_inventory)"
    by (simp_all add: observation_identity_iff transfer_identity_iff demo_inventory_def)
  then show ?thesis
    by (simp add: valid_inventory_def demo_inventory_def region_ok_def MAX_DESCRIPTOR_REGIONS_def
        UINT64_MAX_def UINT32_MAX_def)
qed

section \<open>Properties of the checks\<close>

text \<open>
  What is written is read back. The lines the sink encodes for records built by their
  constructors, put into a file one after another, are read as exactly those records in that
  order, provided the reader's limits hold: a mebibyte a line, 64 mebibytes and 100000 records.
\<close>

theorem events_read_back:
  assumes "list_all2 (\<lambda>r line. stored_record r \<and> encode_record repr (typed_of r) = Inr line \<and>
      length line \<le> MAX_RECORD_BYTES) rs lines"
    "rs \<noteq> []" "length (concat lines) \<le> MAX_ARTIFACT_BYTES" "length rs \<le> MAX_RECORDS"
  shows "read_events j (Inr (concat lines)) = Inr rs"
  using read_lines_written [OF assms(1), of 0 "[]" j] assms(2-) by (simp add: read_events_def)

theorem events_read_back_witness:
  "read_events demo_reader (Inr (demo_text @ demo_text)) =
     Inr [RecObservation wire_observation, RecObservation wire_observation]"
  using events_read_back [of "\<lambda>_. []" "[RecObservation wire_observation, RecObservation wire_observation]"
      "[demo_text, demo_text]" demo_reader] demo_text wire_valid(1)
  by (simp add: MAX_RECORD_BYTES_def MAX_ARTIFACT_BYTES_def MAX_RECORDS_def)

text \<open>
  The descriptor reader is exact. A JSON value is decoded to an inventory exactly when the
  inventory is one its constructors accept and the value is its payload under one of the four
  evidence labels, up to the order of keys: no field missing, none extra, none of another type.
\<close>

theorem inventory_decoder_exact:
  assumes "json_value p"
  shows "descriptor_from_payload p = Inr v \<longleftrightarrow>
    valid_inventory v \<and> (\<exists>label. canon p = canon (inventory_to_payload label v))"
  by (rule descriptor_decode_iff [OF assms])

theorem inventory_decoder_exact_witness:
  "descriptor_from_payload (inventory_to_payload REPLAY demo_inventory) = Inr demo_inventory"
  using inventory_decoder_exact [OF json_inventory, of REPLAY demo_inventory demo_inventory]
    demo_inventory_valid by blast

text \<open>
  C29: a directory of captured files is accepted exactly when it matches the events. Given the
  texts the capture writes for valid inventories, within the limits, the check returns their
  number if there is one at least, their transfers differ, no transfer of the events has two
  owners, and each inventory's transfer is in the events with its identity and direction; it
  raises ValueError otherwise.
\<close>

theorem inventories_matched:
  assumes "\<forall>v \<in> set vs. valid_inventory v \<and> length (inventory_text repr label v) \<le> MAX_RECORD_BYTES"
    "sum_list (map (\<lambda>v. length (inventory_text repr label v)) vs) \<le> MAX_ARTIFACT_BYTES"
    "length vs \<le> MAX_RECORDS"
  shows "validate_descriptors j (Some (map (\<lambda>v. Inr (inventory_text repr label v)) vs)) rs =
    (if vs \<noteq> [] \<and> distinct (map di_transfer vs) \<and> single_valued (set (owner_pairs rs)) \<and>
        (\<forall>v \<in> set vs. (di_transfer v, di_identity v, Some (di_direction v)) \<in> set (owner_pairs rs))
     then Inr (length vs) else Inl ValueError)"
proof (cases "transfer_owners [] rs")
  case (Inl e)
  then have "\<not> one_owner [] rs" using transfer_owners_iff(1) [of "[]" rs] by simp
  moreover have "e = ValueError" by (rule transfer_owners_error [OF Inl])
  ultimately show ?thesis using Inl by (auto simp: validate_descriptors_def one_owner_def)
next
  case (Inr ts)
  then have "one_owner [] rs" using transfer_owners_iff(1) [of "[]" rs] by blast
  then have single: "single_valued (set (owner_pairs rs))" by (simp add: one_owner_def)
  have owned: "map_of ts t = Some k \<longleftrightarrow> (t, k) \<in> set (owner_pairs rs)" for t k
    using transfer_owners_iff(2) [OF Inr, of t k] by simp
  have "check_files j ts 0 0 [] (map (\<lambda>v. Inr (inventory_text repr label v)) vs) =
    (if distinct (map di_transfer vs) \<and>
        (\<forall>v \<in> set vs. (di_transfer v, di_identity v, Some (di_direction v)) \<in> set (owner_pairs rs))
     then Inr (length vs) else Inl ValueError)"
    using check_files_written [of vs repr label 0 0 j ts "[]"] assms by (simp add: owned)
  then show ?thesis using Inr single by (auto simp: validate_descriptors_def)
qed

theorem inventories_matched_witness:
  "validate_descriptors demo_reader
     (Some (map (\<lambda>v. Inr (inventory_text (\<lambda>_. []) REPLAY v)) [demo_inventory]))
     [RecObservation demo_start] = Inr 1"
  using inventories_matched [of "[demo_inventory]" "\<lambda>_. []" REPLAY demo_reader
      "[RecObservation demo_start]"] demo_inventory_valid demo_inventory_size
  by (simp add: MAX_RECORD_BYTES_def MAX_ARTIFACT_BYTES_def MAX_RECORDS_def demo_start_def bare_def
      demo_inventory_def single_valued_def)

end
