(* ===== verification/Sink_Read_Back.thy ===== *)
theory Sink_Read_Back
  imports Event_History Artifact_Check
begin

text \<open>
  From \<^verbatim>\<open>emit\<close> to the offline reader: what any history of the event sink leaves in its file is read
  back by validation.py as records that were emitted, in the order in which they were, after
  those an earlier process left there.
\<close>

section \<open>What was offered\<close>

primrec record_of :: "typed_record \<Rightarrow> event_record list" where
  "record_of (Event_Record ob) = [RecObservation ob]"
| "record_of (Fact_Record f) = [RecFact f]"
| "record_of (Correlated_Record c) = [RecCorrelated c]"
| "record_of Other_Record = []"

primrec offered_by :: "sink_action \<Rightarrow> event_record list" where
  "offered_by (Emit r) = record_of r"
| "offered_by Take = []"
| "offered_by (Finish io) = []"
| "offered_by (Begin_Close timeout) = []"
| "offered_by End_Close = []"

definition offered_records :: "sink_action list \<Rightarrow> event_record list" where
  "offered_records as = concat (map offered_by as)"

lemma offered_simps [simp]:
  "offered_records [] = []" "offered_records (a # as) = offered_by a @ offered_records as"
  "offered_records (as @ bs) = offered_records as @ offered_records bs"
  by (simp_all add: offered_records_def)

lemma record_of_encoded: "encode_record repr r = Inr l \<Longrightarrow> \<exists>e. r = typed_of e \<and> record_of r = [e]"
proof (cases r)
  case (Event_Record ob)
  then show ?thesis by (intro exI [of _ "RecObservation ob"]) simp
next
  case (Fact_Record f)
  then show ?thesis by (intro exI [of _ "RecFact f"]) simp
next
  case (Correlated_Record c)
  then show ?thesis by (intro exI [of _ "RecCorrelated c"]) simp
qed (simp add: encode_record_def record_payload_def)

definition line_of :: "(py_float \<Rightarrow> string) \<Rightarrow> event_record \<Rightarrow> string \<Rightarrow> bool" where
  "line_of repr r l \<longleftrightarrow> encode_record repr (typed_of r) = Inr l"

text \<open>Dropping some of the right-hand elements drops their partners.\<close>

lemma subseq_partner:
  assumes "subseq ls' ls" "list_all2 P rs ls"
  shows "\<exists>rs'. subseq rs' rs \<and> list_all2 P rs' ls'"
  using assms
proof (induction ls' ls arbitrary: rs rule: list_emb.induct)
  case (list_emb_Nil ls)
  then show ?case by (intro exI [of _ "[]"]) simp
next
  case (list_emb_Cons ls' ls l)
  then obtain r rs1 where "rs = r # rs1" "list_all2 P rs1 ls" by (auto simp: list_all2_Cons2)
  with list_emb_Cons.IH show ?case by blast
next
  case (list_emb_Cons2 l l' ls' ls)
  then obtain r rs1 where rs: "rs = r # rs1" "P r l'" "list_all2 P rs1 ls"
    by (auto simp: list_all2_Cons2)
  with list_emb_Cons2.IH obtain rs' where "subseq rs' rs1" "list_all2 P rs' ls'" by blast
  with rs list_emb_Cons2.hyps show ?case by (intro exI [of _ "r # rs'"]) simp
qed

section \<open>The lines accepted\<close>

lemma accepted_step:
  "\<exists>rs. subseq rs (offered_by a) \<and>
     (\<exists>ls. ru_accepted (sink_step repr w a) = ru_accepted w @ ls \<and> list_all2 (line_of repr) rs ls)"
proof (cases "\<exists>r l. a = Emit r \<and> encode_record repr r = Inr l \<and> accepted_line repr (ru_sink w) r = [l]")
  case True
  then obtain r l e where r: "a = Emit r" "accepted_line repr (ru_sink w) r = [l]"
    "encode_record repr r = Inr l" "r = typed_of e" "record_of r = [e]"
    using record_of_encoded by blast
  then show ?thesis by (intro exI [of _ "[e]"]) (simp add: line_of_def)
next
  case False
  then have "ru_accepted (sink_step repr w a) = ru_accepted w"
    by (cases a) (auto simp: accepted_line_def split: sum.splits bool.splits)
  then show ?thesis by (intro exI [of _ "[]"]) simp
qed

lemma accepted_lines:
  "\<exists>rs ls. subseq rs (offered_records as) \<and> list_all2 (line_of repr) rs ls \<and>
     ru_accepted (run (sink_step repr) as w) = ru_accepted w @ ls"
proof (induction as arbitrary: w)
  case Nil
  show ?case by (intro exI [of _ "[]"]) simp
next
  case (Cons a as)
  obtain rs ls where one: "subseq rs (offered_by a)" "list_all2 (line_of repr) rs ls"
    "ru_accepted (sink_step repr w a) = ru_accepted w @ ls"
    using accepted_step by blast
  obtain rs' ls' where more: "subseq rs' (offered_records as)" "list_all2 (line_of repr) rs' ls'"
    "ru_accepted (run (sink_step repr) as (sink_step repr w a)) =
       ru_accepted (sink_step repr w a) @ ls'"
    using Cons.IH by blast
  have "subseq (rs @ rs') (offered_records (a # as))"
    using one(1) more(1) by (simp add: list_emb_append_mono)
  moreover have "list_all2 (line_of repr) (rs @ rs') (ls @ ls')"
    using one(2) more(2) by (rule list_all2_appendI)
  ultimately show ?case using one(3) more(3) by auto
qed

definition written_lines :: "sink_run \<Rightarrow> string list" where
  "written_lines w = map fst (filter (\<lambda>p. snd p = Inr Written) (ru_handled w))"

lemma written_subseq:
  assumes "sink_inv w"
  shows "subseq (written_lines w) (ru_accepted w)"
proof -
  have "subseq (written_lines w) (map fst (ru_handled w))"
    unfolding written_lines_def by (intro subseq_map subseq_filter_left)
  then show ?thesis using assms by (simp add: sink_inv_def queue_inv_def subseq_rev_drop_many)
qed

lemma written_count: "sink_inv w \<Longrightarrow> length (written_lines w) = ec_written (sk_counters (ru_sink w))"
  by (simp add: sink_inv_def count_inv_def written_lines_def Let_def)

text \<open>The records behind the lines written, in order.\<close>

lemma written_records:
  assumes "jsonl_event_sink path a b c = Inr s"
    "w = run (sink_step repr) as (fresh_run s start)"
  obtains rs where "subseq rs (offered_records as)" "list_all2 (line_of repr) rs (written_lines w)"
proof -
  obtain rs ls where rs: "subseq rs (offered_records as)" "list_all2 (line_of repr) rs ls"
    "ru_accepted w = ls"
    using accepted_lines [of as repr "fresh_run s start"] assms(2) by (auto simp: fresh_run_def)
  have "subseq (written_lines w) ls"
    using written_subseq [OF reachable(1) [OF assms]] rs(3) by simp
  from subseq_partner [OF this rs(2)] obtain rs' where
    "subseq rs' rs" "list_all2 (line_of repr) rs' (written_lines w)" by blast
  with rs(1) that show ?thesis using subseq_order.order_trans by blast
qed

lemma written_short:
  assumes "jsonl_event_sink path a b c = Inr s"
    "w = run (sink_step repr) as (fresh_run s start)" "l \<in> set (written_lines w)"
  shows "int (length l) \<le> sk_max_record_bytes s"
proof -
  have "sk_max_record_bytes (ru_sink w) = sk_max_record_bytes s"
    using reachable(2) [OF assms(1,2)] by (simp add: sink_config_def)
  moreover have "queue_inv w" using reachable(1) [OF assms(1,2)] by (simp add: sink_inv_def)
  ultimately show ?thesis using assms(3)
    by (auto simp: queue_inv_def written_lines_def list_all_iff)
qed

lemma written_contents:
  assumes "jsonl_event_sink path a b c = Inr s"
    "w = run (sink_step repr) as (fresh_run s start)" "list_all clean_io as"
  shows "ru_contents w = start @ concat (written_lines w)"
    "int (length (ru_contents w)) \<le> max (sk_max_file_bytes s) (int (length start))"
proof -
  have "file_inv False (sk_max_file_bytes s) start w"
    unfolding assms(2) by (rule files.run_keeps [OF fresh_inv(2) [OF assms(1)]]) (simp add: assms(3))
  then obtain pieces where p: "ru_contents w = start @ concat pieces"
    "list_all2 (piece False) pieces (ru_handled w)"
    "int (length (ru_contents w)) \<le> max (sk_max_file_bytes s) (int (length start))"
    unfolding file_inv_def by blast
  have "list_all (\<lambda>p. snd p \<in> {Inr Written, Inr Capacity, Inl OSError}) (ru_handled w)"
    using reachable(1) [OF assms(1,2)] by (simp add: sink_inv_def)
  with p show "ru_contents w = start @ concat (written_lines w)"
    "int (length (ru_contents w)) \<le> max (sk_max_file_bytes s) (int (length start))"
    using clean_pieces unfolding written_lines_def by auto
qed

section \<open>Read back\<close>

text \<open>Lines an earlier process left: encodings of valid records.\<close>

definition left_by :: "(py_float \<Rightarrow> string) \<Rightarrow> event_record list \<Rightarrow> string \<Rightarrow> bool" where
  "left_by repr rs contents \<longleftrightarrow> (\<exists>lines. contents = concat lines \<and>
     list_all2 (\<lambda>r l. stored_record r \<and> line_of repr r l \<and> length l \<le> MAX_RECORD_BYTES) rs lines)"

lemma left_by_read:
  assumes "left_by repr rs contents" "length contents \<le> MAX_ARTIFACT_BYTES"
    "length rs \<le> MAX_RECORDS"
  shows "read_events j (Inr contents) = (if rs = [] then Inl ValueError else Inr rs)"
proof -
  obtain lines where lines: "contents = concat lines"
    "list_all2 (\<lambda>r l. stored_record r \<and> encode_record repr (typed_of r) = Inr l \<and>
       length l \<le> MAX_RECORD_BYTES) rs lines"
    using assms(1) by (auto simp: left_by_def line_of_def)
  have "read_lines j 0 [] contents = Inr rs"
    using read_lines_written [OF lines(2), of 0 "[]" j] assms(2,3) lines(1) by simp
  then show ?thesis by (simp add: read_events_def)
qed

lemma history_left:
  assumes new: "jsonl_event_sink path a b c = Inr s"
    and w: "w = run (sink_step repr) as (fresh_run s start)"
    and clean: "list_all clean_io as"
    and before: "left_by repr rs0 start"
    and stored: "list_all stored_record (offered_records as)"
    and small: "sk_max_record_bytes s \<le> int MAX_RECORD_BYTES"
  obtains rs where "left_by repr (rs0 @ rs) (ru_contents w)" "subseq rs (offered_records as)"
    "length rs = ec_written (sk_counters (ru_sink w))"
proof -
  obtain rs where rs: "subseq rs (offered_records as)" "list_all2 (line_of repr) rs (written_lines w)"
    by (rule written_records [OF new w])
  obtain lines where lines: "start = concat lines"
    "list_all2 (\<lambda>r l. stored_record r \<and> line_of repr r l \<and> length l \<le> MAX_RECORD_BYTES) rs0 lines"
    using before by (auto simp: left_by_def)
  have "list_all stored_record rs"
    using stored list_emb_set [OF rs(1)] by (metis list_all_iff)
  moreover have "list_all (\<lambda>l. length l \<le> MAX_RECORD_BYTES) (written_lines w)"
    using written_short [OF new w] small by (fastforce simp: list_all_iff)
  ultimately have "list_all2 (\<lambda>r l. stored_record r \<and> line_of repr r l \<and> length l \<le> MAX_RECORD_BYTES)
      rs (written_lines w)"
    using rs(2) by (auto simp: list_all2_conv_all_nth list_all_length)
  then have "left_by repr (rs0 @ rs) (ru_contents w)"
    unfolding left_by_def written_contents(1) [OF new w clean] lines(1)
    using lines(2) by (intro exI [of _ "lines @ written_lines w"]) (simp add: list_all2_appendI)
  moreover have "length rs = ec_written (sk_counters (ru_sink w))"
    using rs(2) written_count [OF reachable(1) [OF new w]] by (simp add: list_all2_lengthD)
  ultimately show ?thesis using rs(1) that by blast
qed

section \<open>What the reader makes of a history\<close>

lemma demo_fact_valid: "valid_fact demo_fact"
proof -
  have "make_host_fact (fact_args_of demo_fact) = Inr demo_fact" by code_simp
  then show ?thesis by (simp add: make_host_fact_iff)
qed

text \<open>
  C28: what was emitted is read back. Let an enabled sink append to a file an earlier process left,
  its limits within the reader's, and let truncating and unlocking succeed. After any
  interleaving of valid records emitted, worker steps and closes, the reader returns the
  earlier records followed by as many as were counted as written, which are records emitted, in
  the order in which they were; all of them, when none was dropped. If there is no record at all,
  it raises ValueError.
\<close>

theorem history_read_back:
  assumes "jsonl_event_sink (Some d) a b c = Inr s" "left_by repr rs0 start"
    "list_all clean_io as" "list_all stored_record (offered_records as)"
    "sk_max_record_bytes s \<le> int MAX_RECORD_BYTES"
    "max (sk_max_file_bytes s) (int (length start)) \<le> int MAX_ARTIFACT_BYTES"
    "length rs0 + length (offered_records as) \<le> MAX_RECORDS"
  defines "w \<equiv> run (sink_step repr) as (fresh_run s start)"
  shows "\<exists>rs. subseq rs (offered_records as) \<and> length rs = ec_written (sk_counters (ru_sink w)) \<and>
    (ec_written (sk_counters (ru_sink w)) = length (offered_records as) \<longrightarrow> rs = offered_records as) \<and>
    read_events j (Inr (ru_contents w)) =
      (if rs0 @ rs = [] then Inl ValueError else Inr (rs0 @ rs))"
proof -
  have w: "w = run (sink_step repr) as (fresh_run s start)" by (simp add: w_def)
  obtain rs where rs: "left_by repr (rs0 @ rs) (ru_contents w)" "subseq rs (offered_records as)"
    "length rs = ec_written (sk_counters (ru_sink w))"
    by (rule history_left [OF assms(1) w assms(3,2,4,5)])
  have "length (ru_contents w) \<le> MAX_ARTIFACT_BYTES"
    using written_contents(2) [OF assms(1) w assms(3)] assms(6) by linarith
  moreover have "length (rs0 @ rs) \<le> MAX_RECORDS"
    using list_emb_length [OF rs(2)] assms(7) by simp
  ultimately have "read_events j (Inr (ru_contents w)) =
      (if rs0 @ rs = [] then Inl ValueError else Inr (rs0 @ rs))"
    by (rule left_by_read [OF rs(1)])
  then show ?thesis using rs(2,3) subseq_same_length [OF rs(2)] by auto
qed

theorem history_read_back_witness:
  "read_events demo_reader (Inr (ru_contents demo_run_sink)) = Inr [RecFact demo_fact]"
proof -
  have "left_by (\<lambda>_. []) [] []" by (simp add: left_by_def)
  moreover have "list_all clean_io demo_actions"
    by (simp add: demo_actions_def clean_io_def demo_io_def)
  moreover have offered: "offered_records demo_actions = [RecFact demo_fact, RecFact demo_fact]"
    by (simp add: demo_actions_def)
  moreover have "sk_max_record_bytes demo_sink = 512" "sk_max_file_bytes demo_sink = 1024"
    by (simp_all add: demo_sink_def)
  moreover have "ec_written (sk_counters (ru_sink demo_run_sink)) = 1"
    using written_count [OF reachable(1) [OF demo_sink_new refl, of "\<lambda>_. []" demo_actions "[]"]]
      demo_history by (simp add: written_lines_def)
  ultimately obtain rs where "subseq rs [RecFact demo_fact, RecFact demo_fact]" "length rs = 1"
    "read_events demo_reader (Inr (ru_contents demo_run_sink)) = Inr rs"
    using history_read_back [OF demo_sink_new, of "\<lambda>_. []" "[]" "[]" demo_actions demo_reader]
      demo_fact_valid
    by (auto simp: MAX_RECORD_BYTES_def MAX_ARTIFACT_BYTES_def MAX_RECORDS_def split: if_splits)
  then show ?thesis by (cases rs) (auto simp: subseq_singleton_left split: if_splits)
qed

end
