(* ===== verification/Threads_File.thy ===== *)
theory Threads_File
  imports Threads_Progress Sink_Read_Back
begin

text \<open>
  The event file under every interleaving of the adapter's threads, restarts included: each sink
  that ever was holds only lines of valid records, so the file only ever grows by such lines.
\<close>

section \<open>Sound sets\<close>

definition sound_line :: "(py_float \<Rightarrow> string) \<Rightarrow> string \<Rightarrow> bool" where
  "sound_line repr l \<longleftrightarrow> (\<exists>r. stored_record r \<and> line_of repr r l \<and> length l \<le> MAX_RECORD_BYTES)"

definition sound_sink :: "(py_float \<Rightarrow> string) \<Rightarrow> event_sink \<Rightarrow> bool" where
  "sound_sink repr s \<longleftrightarrow>
     list_all (sound_line repr) (waiting s) \<and>
     sk_max_record_bytes s \<le> int MAX_RECORD_BYTES \<and>
     sk_max_file_bytes s \<le> int MAX_ARTIFACT_BYTES \<and>
     (sk_worker_alive s \<longrightarrow> sk_enabled s \<and> sk_directory_fd s)"

definition sound_set :: "(py_float \<Rightarrow> string) \<Rightarrow> resources \<Rightarrow> bool" where
  "sound_set repr r \<longleftrightarrow> norm_inv (rs_normalizer r) \<and> sound_sink repr (rs_sink r)"

definition sound_record :: "typed_record \<Rightarrow> bool" where
  "sound_record r = list_all stored_record (record_of r)"

fun sound_call :: "call \<Rightarrow> bool" where
  "sound_call (Normalizing g x) = valid_source x"
| "sound_call (Emitting_Observation g ob) = valid_observation ob"
| "sound_call (Emitting_Fact g r) = sound_record r"
| "sound_call (Emitting_Link g r) = sound_record r"
| "sound_call _ = True"

text \<open>Callbacks with records their constructors made, and I/O that leaves no torn line.\<close>

fun sound_busy :: "busy \<Rightarrow> bool" where
  "sound_busy (Observe x) = valid_source x"
| "sound_busy (Offer_Fact r) = sound_record r"
| "sound_busy (Offer_Correlated r) = sound_record r"
| "sound_busy _ = True"

fun sound_action :: "thread_action \<Rightarrow> bool" where
  "sound_action (Admit b) = sound_busy b"
| "sound_action (Sink_Finishes g io) = (io_truncate io \<and> io_unlock io)"
| "sound_action _ = True"

definition readable :: "(py_float \<Rightarrow> string) \<Rightarrow> event_record list \<Rightarrow> string \<Rightarrow> bool" where
  "readable repr rs0 contents \<longleftrightarrow>
     (\<exists>rs. left_by repr (rs0 @ rs) contents) \<and> length contents \<le> MAX_ARTIFACT_BYTES"

definition file_sound ::
  "(py_float \<Rightarrow> string) \<Rightarrow> event_record list \<Rightarrow> threads \<Rightarrow> bool" where
  "file_sound repr rs0 th \<longleftrightarrow>
     list_all (sound_set repr) (th_sets th) \<and> list_all sound_call (th_calls th) \<and>
     readable repr rs0 (aw_contents (th_world th)) \<and> valid_config (ad_config (th_adapter th))"

section \<open>Operations on a sink\<close>

lemma emit_sound:
  assumes "sound_sink repr s" "sound_record rec" "emit repr s rec = (s', y)"
  shows "sound_sink repr s'"
proof (cases "sk_enabled s")
  case True
  then show ?thesis
  proof (cases rule: emit_cases [where repr = repr and r = rec])
    case (taken l)
    then have "encode_record repr rec = Inr l"
      by (auto simp: accepted_line_def split: sum.splits bool.splits)
    with assms(2) have "sound_line repr l"
      using record_of_encoded [of repr rec l] assms(1) taken(3)
      by (auto simp: sound_record_def sound_line_def line_of_def sound_sink_def)
    with taken assms(1,3) show ?thesis
      by (auto simp: sound_sink_def) (auto simp: waiting_def)
  qed (use assms in \<open>auto simp: sound_sink_def\<close>)
qed (use assms in \<open>simp add: emit_disabled\<close>)

lemma take_sound: "sound_sink repr s \<Longrightarrow> sound_sink repr (worker_take s)"
  by (auto simp: worker_take_def sound_sink_def worker_exit_def waiting_def split: list.split option.splits)

lemma close_sound:
  "sound_sink repr s \<Longrightarrow> begin_close s t = (s', y) \<Longrightarrow> sound_sink repr s'"
  "sound_sink repr s \<Longrightarrow> end_close s = (s', b) \<Longrightarrow> sound_sink repr s'"
  by (auto simp: begin_close_def end_close_def sound_sink_def split: sum.splits if_splits)

lemma readable_append:
  assumes "readable repr rs0 contents" "sound_line repr l" "length (contents @ l) \<le> MAX_ARTIFACT_BYTES"
  shows "readable repr rs0 (contents @ l)"
proof -
  obtain rs lines where lines: "contents = concat lines"
    "list_all2 (\<lambda>r l. stored_record r \<and> line_of repr r l \<and> length l \<le> MAX_RECORD_BYTES)
      (rs0 @ rs) lines"
    using assms(1) by (auto simp: readable_def left_by_def)
  obtain r where "stored_record r" "line_of repr r l" "length l \<le> MAX_RECORD_BYTES"
    using assms(2) by (auto simp: sound_line_def)
  with lines have "left_by repr (rs0 @ rs @ [r]) (contents @ l)"
    unfolding left_by_def by (intro exI [of _ "lines @ [l]"]) (simp add: list_all2_appendI [of _ "rs0 @ rs", simplified])
  with assms(3) show ?thesis by (auto simp: readable_def)
qed

lemma finish_sound:
  assumes "sound_sink repr s" "readable repr rs0 contents" "io_truncate io \<and> io_unlock io"
    "worker_finish s contents io = (s', contents')"
  shows "sound_sink repr s' \<and> readable repr rs0 contents'"
proof (cases "sk_current s \<noteq> None \<and> sk_worker_alive s")
  case False
  with assms show ?thesis by (simp add: idle_worker)
next
  case True
  then obtain data where data: "sk_current s = Some data" "sk_worker_alive s" by auto
  obtain s1 contents1 r where wr: "write_record s contents data io = (s1, contents1, r)"
    by (rule prod_cases3)
  have "sk_enabled s" "sk_directory_fd s" using assms(1) data(2) by (simp_all add: sound_sink_def)
  note outcome = write_record_cases [OF wr this]
  then obtain fd where s1: "s1 = s\<lparr>sk_file_descriptor := fd\<rparr>" by blast
  have "False \<or> io_truncate io \<and> io_unlock io" using assms(3) by simp
  from write_record_piece(1) [OF wr this] obtain p where p: "contents1 = contents @ p"
    "piece False p (data, r)" "p = [] \<or> int (length contents1) \<le> sk_max_file_bytes s" by blast
  have "sound_line repr data" using assms(1) data(1) by (simp add: sound_sink_def waiting_def)
  moreover have "p = [] \<or> p = data" using p(2) outcome(2) by (auto simp: piece_def)
  moreover have "p = [] \<or> length contents1 \<le> MAX_ARTIFACT_BYTES"
    using p(3) assms(1) by (auto simp: sound_sink_def)
  ultimately have appended: "readable repr rs0 contents1"
    using readable_append [OF assms(2)] assms(2) p(1) by auto
  have "sound_sink repr (task_done s)"
    using assms(1) by (simp add: sound_sink_def waiting_def task_done_def)
  then have "sound_sink repr s'" "contents' = contents1"
    using outcome(2) assms(4) data wr
    by (auto simp: worker_finish_def s1 sound_sink_def) (auto simp: waiting_def task_done_def)
  with appended show ?thesis by simp
qed


section \<open>Callbacks and writers\<close>

lemma sound_at: "file_sound repr rs0 th \<Longrightarrow> resources_at g th = Some r \<Longrightarrow> sound_set repr r"
  by (auto simp: file_sound_def sets_at list_all_length split: if_splits)

lemma sound_put:
  assumes "file_sound repr rs0 th" "resources_at g th = Some r" "sound_set repr r'"
  shows "file_sound repr rs0 (put_resources g r' th)"
proof -
  have "g < length (th_sets th)" using assms(2) by (simp add: sets_at split: if_splits)
  then show ?thesis using assms(1,3)
    by (simp add: file_sound_def sets_put list_all_length nth_list_update)
qed

lemma sound_simps [simp]:
  "file_sound repr rs0 (th\<lparr>th_results := rs\<rparr>) = file_sound repr rs0 th"
  "file_sound repr rs0 (th\<lparr>th_phase := p\<rparr>) = file_sound repr rs0 th"
  "file_sound repr rs0 (th\<lparr>th_world := (th_world th)\<lparr>aw_directory := dir\<rparr>\<rparr>) = file_sound repr rs0 th"
  "file_sound repr rs0 (at_adapter (count_adapter f) th) = file_sound repr rs0 th"
  by (simp_all add: file_sound_def count_adapter_def)

lemma sound_sink_set:
  "sound_set repr r \<Longrightarrow> sound_sink repr s' \<Longrightarrow> sound_set repr (r\<lparr>rs_sink := s'\<rparr>)"
  by (simp add: sound_set_def)

lemma emit_at_sound:
  assumes "file_sound repr rs0 th" "resources_at g th = Some r" "sound_record rec"
    "emit_at repr g r rec th = (th', accepted)"
  shows "file_sound repr rs0 th'"
proof -
  obtain s' b where e: "th' = put_resources g (r\<lparr>rs_sink := s'\<rparr>) th"
    "emit repr (rs_sink r) rec = (s', Inr b)" using emit_at_moves [OF assms(4)] by metis
  have r: "sound_set repr r" by (rule sound_at [OF assms(1,2)])
  then have "sound_sink repr (rs_sink r)" by (simp add: sound_set_def)
  from emit_sound [OF this assms(3) e(2)] sound_sink_set [OF r]
  show ?thesis unfolding e(1) by (intro sound_put [OF assms(1,2)])
qed

lemma advance_sound:
  assumes "file_sound repr rs0 th" "sound_call c" "advance repr c th = (th', c')"
  shows "file_sound repr rs0 th' \<and> (\<forall>d. c' = Some d \<longrightarrow> sound_call d)"
proof (cases c)
  case (Normalizing g x)
  show ?thesis
  proof (cases "resources_at g th")
    case (Some r)
    obtain n' y where n: "normalize (rs_normalizer r) x = (n', y)" by fastforce
    have r: "sound_set repr r" by (rule sound_at [OF assms(1) Some])
    then have "norm_inv (rs_normalizer r)" "valid_source x"
      using assms(2) Normalizing by (simp_all add: sound_set_def)
    from normalize_good [OF this n] obtain z where z: "norm_inv n'" "y = Inr z"
      "\<forall>ob. z = Some ob \<longrightarrow> valid_observation ob" by blast
    have "sound_set repr (r\<lparr>rs_normalizer := n'\<rparr>)" using r z(1) by (simp add: sound_set_def)
    from sound_put [OF assms(1) Some this] show ?thesis
      using assms(3) Normalizing Some n z by (cases z) auto
  qed (use assms Normalizing in simp)
next
  case (Emitting_Observation g ob)
  have "sound_record (Event_Record ob)"
    using assms(2) Emitting_Observation by (simp add: sound_record_def)
  then show ?thesis using assms Emitting_Observation emit_at_sound
    by (auto simp: fate_def split: option.splits prod.splits)
next
  case (Capturing g v)
  have "sound_set repr r \<Longrightarrow> sound_set repr (r\<lparr>rs_capture := c\<rparr>)" for r c
    by (simp add: sound_set_def)
  with Capturing assms sound_at sound_put show ?thesis
    by (auto split: option.splits prod.splits)
next
  case (Counting ks b)
  then show ?thesis using assms by (cases ks) (auto split: if_splits)
qed (use assms emit_at_sound in \<open>auto simp: fate_def split: option.splits prod.splits\<close>)

lemma sound_calls:
  "file_sound repr rs0 th \<Longrightarrow> list_all sound_call cs \<Longrightarrow> file_sound repr rs0 (th\<lparr>th_calls := cs\<rparr>)"
  by (simp add: file_sound_def)

lemma advance_call_sound: "file_sound repr rs0 th \<Longrightarrow> file_sound repr rs0 (advance_call repr i th)"
proof (cases "i < length (th_calls th)")
  case True
  assume sound: "file_sound repr rs0 th"
  obtain th' c' where step: "advance repr (th_calls th ! i) th = (th', c')" by fastforce
  have "sound_call (th_calls th ! i)"
    using sound True by (simp add: file_sound_def list_all_length)
  from advance_sound [OF sound this step] have next_ok: "file_sound repr rs0 th'"
    "\<And>d. c' = Some d \<Longrightarrow> sound_call d" by auto
  have "list_all sound_call (th_calls th)" using sound by (simp add: file_sound_def)
  from replaced_ok [where c = c', OF this next_ok(2)] next_ok(1)
  show ?thesis using True step by (simp add: advance_call_def sound_calls)
qed (simp add: advance_call_def)

lemma admit_sound:
  assumes "file_sound repr rs0 th" "sound_busy b"
  shows "file_sound repr rs0 (admit b th)"
proof -
  have "at_adapter (\<lambda>a. fst (inactive a)) th =
      at_adapter (count_adapter (k_inactive_dropped_update Suc)) th"
    by (simp add: at_adapter_def in_adapter_def inactive_def)
  moreover have "sound_call (admitted g a b)" for g a using assms(2) by (cases b) auto
  ultimately show ?thesis using assms(1)
    by (simp add: admit_def) (simp add: file_sound_def count_adapter_def)
qed

lemma take_writes_sound:
  assumes "file_sound repr rs0 th"
  shows "file_sound repr rs0 (sink_writes g (\<lambda>s contents. (worker_take s, contents)) th)"
proof (cases "resources_at g th")
  case (Some r)
  have r: "sound_set repr r" by (rule sound_at [OF assms Some])
  have "th\<lparr>th_world := (th_world th)\<lparr>aw_contents := aw_contents (th_world th)\<rparr>\<rparr> = th" by simp
  moreover have "sound_set repr (r\<lparr>rs_sink := worker_take (rs_sink r)\<rparr>)"
    using r by (simp add: sound_set_def take_sound)
  ultimately show ?thesis using sound_put [OF assms Some] by (simp add: sink_writes_def Some)
qed (use assms in \<open>simp add: sink_writes_def\<close>)

lemma finish_writes_sound:
  assumes "file_sound repr rs0 th" "io_truncate io \<and> io_unlock io"
  shows "file_sound repr rs0 (sink_writes g (\<lambda>s contents. worker_finish s contents io) th)"
proof (cases "resources_at g th")
  case (Some r)
  obtain s' contents where f: "worker_finish (rs_sink r) (aw_contents (th_world th)) io = (s', contents)"
    by fastforce
  let ?th = "th\<lparr>th_world := (th_world th)\<lparr>aw_contents := contents\<rparr>\<rparr>"
  have r: "sound_set repr r" by (rule sound_at [OF assms(1) Some])
  have "sound_sink repr s' \<and> readable repr rs0 contents"
    using finish_sound [OF _ _ assms(2) f, of repr rs0] r assms(1) by (simp add: sound_set_def file_sound_def)
  then have "file_sound repr rs0 ?th" "sound_set repr (r\<lparr>rs_sink := s'\<rparr>)"
    using assms(1) sound_sink_set [OF r] by (simp_all add: file_sound_def)
  from sound_put [OF this(1) _ this(2), of g r] show ?thesis
    using Some f by (simp add: sink_writes_def)
qed (use assms in \<open>simp add: sink_writes_def\<close>)

lemma captures_sound:
  assumes "file_sound repr rs0 th"
  shows "file_sound repr rs0 (capture_takes g released th)" "file_sound repr rs0 (capture_finishes repr g io th)"
proof -
  have keep: "sound_set repr (r\<lparr>rs_capture := c\<rparr>)" if "resources_at g th = Some r" for r c
    using sound_at [OF assms that] by (simp add: sound_set_def)
  then show "file_sound repr rs0 (capture_takes g released th)"
    using assms sound_put [OF assms] by (simp add: capture_takes_def split: option.split)
  show "file_sound repr rs0 (capture_finishes repr g io th)"
    using assms keep
    by (auto simp: capture_finishes_def descriptor_result_def intro!: sound_put
        split: option.split prod.split)
qed


section \<open>Starting and stopping\<close>

text \<open>What the lifecycle steps do to a set: close parts of it.\<close>

definition closes_set :: "resources \<Rightarrow> resources \<Rightarrow> bool" where
  "closes_set r r' \<longleftrightarrow>
     rs_normalizer r' \<in> {rs_normalizer r, close_normalizer (rs_normalizer r)} \<and>
     (rs_sink r' = rs_sink r \<or> (\<exists>t y. begin_close (rs_sink r) t = (rs_sink r', y)) \<or>
        (\<exists>b. end_close (rs_sink r) = (rs_sink r', b)))"

lemma closes_set_refl [simp]: "closes_set r r"
  by (simp add: closes_set_def)

lemma closes_set_sound:
  assumes "closes_set r r'" "sound_set repr r"
  shows "sound_set repr r'"
proof -
  have "norm_inv (rs_normalizer r')"
    using assms norm_inv_close [of "rs_normalizer r"] by (auto simp: closes_set_def sound_set_def)
  moreover have sink: "sound_sink repr (rs_sink r)" using assms(2) by (simp add: sound_set_def)
  have "sound_sink repr (rs_sink r')"
    using assms(1) sink close_sound [OF sink] unfolding closes_set_def by metis
  ultimately show ?thesis by (simp add: sound_set_def)
qed

lemma closing_sound:
  assumes "file_sound repr rs0 th" "ad_config (f (th_adapter th)) = ad_config (th_adapter th)"
    "\<And>r'. held (f (th_adapter th)) = Some r' \<Longrightarrow> \<exists>r. held (th_adapter th) = Some r \<and> closes_set r r'"
  shows "file_sound repr rs0 (at_adapter f th)"
proof -
  have "sound_set repr r'" if new: "held (f (th_adapter th)) = Some r'" for r'
  proof -
    obtain r where "held (th_adapter th) = Some r" "closes_set r r'" using assms(3) [OF new] by blast
    then show ?thesis using assms(1) closes_set_sound by (auto simp: file_sound_def th_sets_def)
  qed
  then have "list_all (sound_set repr) (th_sets (at_adapter f th))"
    using assms(1) by (cases "held (f (th_adapter th))") (simp_all add: file_sound_def th_sets_def)
  with assms(1,2) show ?thesis by (simp add: file_sound_def)
qed

lemma retire_sound [simp]: "file_sound repr rs0 (retire th) = file_sound repr rs0 th"
  by (simp add: file_sound_def release_resources_def)

lemma closes_held:
  "held (ad_normalizer_update (map_option close_normalizer) a) = Some r' \<Longrightarrow>
     \<exists>r. held a = Some r \<and> closes_set r r'"
  "held (ad_capture_update f a) = Some r' \<Longrightarrow> \<exists>r. held a = Some r \<and> closes_set r r'"
  "ad_sink a = Some s \<Longrightarrow> begin_close s t = (s', y) \<Longrightarrow>
     held (ad_sink_update (\<lambda>_. Some s') a) = Some r' \<Longrightarrow> \<exists>r. held a = Some r \<and> closes_set r r'"
  "ad_sink a = Some s \<Longrightarrow> end_close s = (s', b) \<Longrightarrow>
     held (ad_sink_update (\<lambda>_. Some s') a) = Some r' \<Longrightarrow> \<exists>r. held a = Some r \<and> closes_set r r'"
  by (auto simp: held_def closes_set_def split: option.splits)

lemma count_config [simp]:
  "ad_config (count_adapter f a) = ad_config a" "ad_config (count_timeout a) = ad_config a"
  "ad_config (count_cleanup a) = ad_config a"
  by (simp_all add: count_adapter_def count_timeout_def count_cleanup_def)

lemma proceed_sound: "file_sound repr rs0 th \<Longrightarrow> file_sound repr rs0 (proceed an ph th)"
proof -
  assume sound: "file_sound repr rs0 th"
  note closing = closing_sound [OF sound]
  show ?thesis
  proof (cases ph)
    case Registering
    then show ?thesis using sound by (auto intro!: closing split: sum.split)
  next
    case Unregistering
    then show ?thesis using sound by (auto split: sum.split)
  next
    case (Closing_Normalizer p)
    then show ?thesis using sound closes_held(1) by (auto intro!: closing)
  next
    case (Closing_Capture p deadline)
    then show ?thesis using sound closes_held(2)
      by (auto intro!: closing split: option.split prod.split sum.split)
  next
    case (Joining_Capture p deadline)
    then show ?thesis using sound
      by (auto intro!: closing split: option.split sum.split bool.split)
  next
    case (Closing_Sink p ok deadline)
    then show ?thesis using sound closes_held(3)
      by (auto intro!: closing split: option.split prod.split sum.split)
  next
    case (Joining_Sink p ok)
    then show ?thesis using sound closes_held(4)
      by (auto intro!: closing split: option.split prod.split bool.split)
  next
    case (Settling p ok)
    have "file_sound repr rs0 (at_adapter (\<lambda>a. a\<lparr>ad_binding := False, ad_handle := None\<rparr>) th)"
      by (rule closing) simp_all
    with sound Settling show ?thesis
      by (cases p) (auto simp: Let_def intro!: closing_sound)
  qed (use sound in simp)
qed


lemma begin_stop_sound: "file_sound repr rs0 th \<Longrightarrow> file_sound repr rs0 (begin_stop th)"
  by (auto simp: begin_stop_def intro!: closing_sound)

text \<open>A set that was just made is sound.\<close>

lemma new_sink_sound:
  assumes "jsonl_event_sink path (PInt p) (PInt r) (PInt f) = Inr s"
    "r \<le> int MAX_RECORD_BYTES" "f \<le> int MAX_ARTIFACT_BYTES"
  shows "sound_sink repr s"
  using assms
  by (auto simp: jsonl_event_sink_def positive_int_def sound_sink_def waiting_def Let_def
      split: if_splits option.splits)

lemma config_limits:
  assumes "valid_config c"
  shows "oc_max_record_bytes c \<le> int MAX_RECORD_BYTES" "oc_max_file_bytes c \<le> int MAX_ARTIFACT_BYTES"
  using assms
  by (simp_all add: valid_config_def MAX_RECORD_BYTES_def MAX_ARTIFACT_BYTES_def
      DEFAULT_MAX_RECORD_BYTES_def DEFAULT_MAX_FILE_BYTES_def)

lemma installed_sound:
  assumes "file_sound repr rs0 th" "held (th_adapter th) = None" "norm_inv n" "sound_sink repr s"
  shows "file_sound repr rs0 (th\<lparr>th_world := in_adapter (\<lambda>a. a\<lparr>ad_state := STARTING,
    ad_normalizer := Some n, ad_sink := Some s, ad_capture := c\<rparr>) (th_world th)\<rparr>)"
proof -
  have "th_sets (th\<lparr>th_world := in_adapter (\<lambda>a. a\<lparr>ad_state := STARTING,
      ad_normalizer := Some n, ad_sink := Some s, ad_capture := c\<rparr>) (th_world th)\<rparr>) =
      th_sets th @ [\<lparr>rs_normalizer = n, rs_sink = s, rs_capture = c\<rparr>]"
    using assms(2) by (simp add: th_sets_def in_adapter_def held_def)
  with assms(1,3,4) show ?thesis
    by (simp add: file_sound_def sound_set_def) (simp add: in_adapter_def)
qed

lemma begin_start_sound:
  assumes "file_sound repr rs0 th" "threads_inv th"
  shows "file_sound repr rs0 (begin_start repr st th)"
proof (cases "ad_state (th_adapter th) = STOPPED")
  case True
  then have none: "ad_sink (th_adapter th) = None" "ad_normalizer (th_adapter th) = None"
    "ad_capture (th_adapter th) = None"
    using assms(2) by (auto simp: threads_inv_def owning_def)
  then have empty: "held (th_adapter th) = None" by (simp add: held_None)
  obtain w' r where p: "prepare_resources repr st (th_world th) = (w', r)" by fastforce
  show ?thesis
  proof (cases r)
    case (Inl e)
    have w': "idle (th_world th) w'" "ad_sink (aw_adapter w') = None"
      using idle_prepare [OF p True none(3,1,2)] by simp_all
    then have "held (aw_adapter w') = None" by (simp add: held_None)
    with assms(1) empty w'(1) have "file_sound repr rs0 (th\<lparr>th_world := w'\<rparr>)"
      by (simp add: file_sound_def th_sets_def idle_def)
    then show ?thesis using assms(1) p Inl
      by (auto simp: begin_start_def Let_def split: sum.split)
  next
    case (Inr res)
    obtain n s c where res: "res = (n, s, c)" by (rule prod_cases3)
    note new = prepared_new [OF p [unfolded Inr res]]
    note limits = config_limits [of "ad_config (th_adapter th)"]
    have "valid_config (ad_config (th_adapter th))" using assms(1) by (simp add: file_sound_def)
    from new_sink_sound [OF new(3) limits [OF this]] installed_sound [OF assms(1) empty norm_inv_new [OF new(2)]]
    show ?thesis using assms(1) p new(1)
      by (auto simp: begin_start_def Inr res Let_def split: sum.split)
  qed
qed (use assms(1) in \<open>auto simp: begin_start_def Let_def\<close>)

section \<open>Every interleaving\<close>

lemma thread_step_sound:
  assumes "threads_inv th \<and> file_sound repr rs0 th" "sound_action a"
  shows "threads_inv (thread_step repr th a) \<and> file_sound repr rs0 (thread_step repr th a)"
proof -
  have "file_sound repr rs0 (thread_step repr th a)"
    using assms
    by (cases a) (simp_all add: admit_sound advance_call_sound take_writes_sound
        finish_writes_sound captures_sound begin_start_sound begin_stop_sound proceed_sound)
  then show ?thesis using thread_step_inv assms(1) by blast
qed

interpretation sound: machine "thread_step repr" sound_action
  "\<lambda>th. threads_inv th \<and> file_sound repr rs0 th" for repr rs0
  by unfold_locales (rule thread_step_sound)


section \<open>Reading a file of any length\<close>

lemma read_lines_over:
  assumes "list_all2 (\<lambda>r line. stored_record r \<and> encode_record repr (typed_of r) = Inr line \<and>
      length line \<le> MAX_RECORD_BYTES) rs lines"
    "used + length (concat lines) \<le> MAX_ARTIFACT_BYTES" "length done \<le> MAX_RECORDS"
    "MAX_RECORDS < length done + length rs"
  shows "read_lines j used done (concat lines) = Inl ValueError"
  using assms
proof (induction rs lines arbitrary: used "done" rule: list_all2_induct)
  case (Cons r rs line lines)
  then have stored: "stored_record r" "encode_record repr (typed_of r) = Inr line"
    and len: "length line \<le> MAX_RECORD_BYTES" by simp_all
  note facts = decode_record_line [OF stored]
  then obtain t where t: "line = t @ [CHR 0x0A]" "CHR 0x0A \<notin> set t" by blast
  have line: "read_line (MAX_RECORD_BYTES + 1) (line @ concat lines) = (line, concat lines)"
    using read_line_break [OF t(2), of "MAX_RECORD_BYTES + 1" "concat lines"] len t(1) by simp
  have nonempty: "line @ concat lines \<noteq> []" using t(1) by simp
  show ?case
  proof (cases "MAX_RECORDS \<le> length done")
    case True
    then show ?thesis
      using line nonempty facts len Cons.prems by (subst read_lines.simps) simp
  next
    case False
    then have "read_lines j (used + length line) (done @ [r]) (concat lines) = Inl ValueError"
      by (intro Cons.IH) (use Cons.prems in simp_all)
    then show ?thesis
      using False line nonempty facts len Cons.prems by (subst read_lines.simps) simp
  qed
qed simp

lemma left_by_verdict:
  assumes "left_by repr rs contents" "length contents \<le> MAX_ARTIFACT_BYTES"
  shows "read_events j (Inr contents) =
    (if rs = [] \<or> MAX_RECORDS < length rs then Inl ValueError else Inr rs)"
proof (cases "length rs \<le> MAX_RECORDS")
  case True
  with left_by_read [OF assms] show ?thesis by simp
next
  case False
  obtain lines where lines: "contents = concat lines"
    "list_all2 (\<lambda>r l. stored_record r \<and> encode_record repr (typed_of r) = Inr l \<and>
       length l \<le> MAX_RECORD_BYTES) rs lines"
    using assms(1) by (auto simp: left_by_def line_of_def)
  have "read_lines j 0 [] contents = Inl ValueError"
    using read_lines_over [OF lines(2), of 0 "[]" j] False assms(2) lines(1) by simp
  then show ?thesis using False by (simp add: read_events_def)
qed

end
