(* ===== verification/Threads_Release.thy ===== *)
theory Threads_Release
  imports Threads_Progress
begin

text \<open>
  Writers and the sets they write for: a stop lets a resource set go only when its writers have ended,
  a failed start whether they have or not.
\<close>

section \<open>Sets whose writers have ended\<close>

definition quiet :: "resources \<Rightarrow> bool" where
  "quiet r \<longleftrightarrow> \<not> sink_is_alive (rs_sink r) \<and>
     (case rs_capture r of None \<Rightarrow> True | Some c \<Rightarrow> \<not> ac_writer_alive c)"

text \<open>A thread that starts the adapter and gets its handle.\<close>

fun registers :: "thread_action \<Rightarrow> bool" where
  "registers (Proceed an) = (case an_registered an of Inl _ \<Rightarrow> False | Inr handle \<Rightarrow> handle \<noteq> PNone)"
| "registers _ = True"

fun failing :: "phase \<Rightarrow> bool" where
  "failing (Closing_Normalizer p) = (p = Failed_Start)"
| "failing (Closing_Capture p deadline) = (p = Failed_Start)"
| "failing (Joining_Capture p deadline) = (p = Failed_Start)"
| "failing (Closing_Sink p ok deadline) = (p = Failed_Start)"
| "failing (Joining_Sink p ok) = (p = Failed_Start)"
| "failing (Settling p ok) = (p = Failed_Start)"
| "failing _ = False"

definition all_quiet :: "threads \<Rightarrow> bool" where
  "all_quiet th \<longleftrightarrow> list_all quiet (th_retired th) \<and> \<not> failing (th_phase th)"

lemma all_quiet_simps [simp]:
  "all_quiet (th\<lparr>th_calls := cs\<rparr>) = all_quiet th" "all_quiet (th\<lparr>th_results := rs\<rparr>) = all_quiet th"
  "all_quiet (th\<lparr>th_world := w\<rparr>) = all_quiet th" "all_quiet (at_adapter f th) = all_quiet th"
  by (simp_all add: all_quiet_def at_adapter_def)

lemma quiet_put:
  assumes "resources_at g th = Some r" "quiet r \<Longrightarrow> quiet r'" "all_quiet th"
  shows "all_quiet (put_resources g r' th)"
  using assms
  by (auto simp: all_quiet_def put_resources_def resources_at_def list_all_length nth_list_update
      at_adapter_def)

text \<open>Nothing revives a writer.\<close>

lemma writer_stays_dead:
  "emit repr s r = (s', y) \<Longrightarrow> sink_is_alive s' = sink_is_alive s"
  "sink_is_alive (worker_take s) \<Longrightarrow> sink_is_alive s"
  "sink_is_alive (fst (worker_finish s contents io)) \<Longrightarrow> sink_is_alive s"
proof -
  show "emit repr s r = (s', y) \<Longrightarrow> sink_is_alive s' = sink_is_alive s"
    by (auto simp: emit_def put_record_def sink_is_alive_def count_event_def Let_def
        split: if_splits sum.splits)
  show "sink_is_alive (worker_take s) \<Longrightarrow> sink_is_alive s"
    by (auto simp: worker_take_def worker_exit_def sink_is_alive_def split: if_splits list.splits)
  show "sink_is_alive (fst (worker_finish s contents io)) \<Longrightarrow> sink_is_alive s"
    by (auto simp: worker_finish_def write_record_def worker_exit_def task_done_def count_event_def
        sink_is_alive_def Let_def
        split: option.splits prod.splits sum.splits if_splits write_outcome.splits)
qed

lemma quiet_emit:
  assumes "resources_at g th = Some r" "emit_at repr g r rec th = (th', accepted)" "all_quiet th"
  shows "all_quiet th'"
proof -
  obtain s' b where e: "th' = put_resources g (r\<lparr>rs_sink := s'\<rparr>) th"
    "emit repr (rs_sink r) rec = (s', Inr b)" using emit_at_moves [OF assms(2)] by metis
  have "quiet (r\<lparr>rs_sink := s'\<rparr>) = quiet r" using writer_stays_dead(1) [OF e(2)] by (simp add: quiet_def)
  then show ?thesis unfolding e(1) using quiet_put [OF assms(1) _ assms(3)] by simp
qed

lemma advance_quiet:
  assumes "all_quiet th" "advance repr c th = (th', c')"
  shows "all_quiet th'"
proof (cases c)
  case (Normalizing g x)
  then show ?thesis using assms
    by (auto simp: quiet_def intro!: quiet_put split: option.splits prod.splits)
next
  case (Capturing g v)
  have "capture_async c v = (c', b) \<Longrightarrow> ac_writer_alive c' = ac_writer_alive c" for c c' b
    by (rule capture_async_pending(2))
  with Capturing assms show ?thesis
    by (auto simp: quiet_def intro!: quiet_put split: option.splits prod.splits)
next
  case (Counting ks b)
  then show ?thesis using assms by (cases ks) auto
qed (use assms quiet_emit in \<open>auto split: option.splits prod.splits\<close>)

lemma writers_quiet:
  assumes "all_quiet th"
  shows "(\<And>s c. sink_is_alive (fst (f s c)) \<Longrightarrow> sink_is_alive s) \<Longrightarrow> all_quiet (sink_writes g f th)"
    "all_quiet (capture_takes g released th)" "all_quiet (capture_finishes repr g io th)"
proof -
  assume f: "\<And>s c. sink_is_alive (fst (f s c)) \<Longrightarrow> sink_is_alive s"
  have "quiet (r\<lparr>rs_sink := fst (f (rs_sink r) c)\<rparr>)" if "quiet r" for r c
    using that f by (auto simp: quiet_def)
  then show "all_quiet (sink_writes g f th)"
    using assms by (auto simp: sink_writes_def intro!: quiet_put [of g _ r for r]
        split: option.split prod.split) (metis fst_conv)
next
  have "quiet (r\<lparr>rs_capture := map_option (writer_take released) (rs_capture r)\<rparr>)" if "quiet r" for r
    using that writer_take_pending(4) by (auto simp: quiet_def split: option.splits)
  then show "all_quiet (capture_takes g released th)"
    using quiet_put [OF _ _ assms] assms by (simp add: capture_takes_def split: option.split)
next
  show "all_quiet (capture_finishes repr g io th)"
    using assms
    by (auto simp: capture_finishes_def quiet_def dest: writer_finish_pending intro!: quiet_put
        split: option.split prod.split)
qed

lemma proceed_quiet:
  assumes "all_quiet th" "registers (Proceed an)"
  shows "all_quiet (proceed an (th_phase th) th)"
proof (cases "th_phase th")
  case (Settling p ok)
  then obtain u where p: "p = Stopping u" using assms(1) by (cases p) (auto simp: all_quiet_def)
  let ?th = "at_adapter (\<lambda>a. a\<lparr>ad_binding := False, ad_handle := None\<rparr>) th"
  have "quiet r" if "held (th_adapter ?th) = Some r" "\<not> writers_alive (th_adapter ?th)" for r
    using that by (auto simp: quiet_def writers_alive_def held_Some split: option.splits)
  then show ?thesis using assms(1) Settling
    by (auto simp: p all_quiet_def retire_def Let_def split: option.split)
qed (use assms in \<open>auto simp: all_quiet_def at_adapter_def split: sum.splits option.splits prod.splits bool.splits\<close>)

lemma thread_step_quiet:
  assumes "all_quiet th" "registers act"
  shows "all_quiet (thread_step repr th act)"
proof (cases act)
  case (Admit b)
  with assms(1) show ?thesis by (simp add: admit_def)
next
  case (Advance i)
  with assms(1) advance_quiet [OF assms(1), of repr] show ?thesis
    by (simp add: advance_call_def split: prod.split)
next
  case (Begin_Start st)
  with assms(1) show ?thesis
    by (auto simp: begin_start_def all_quiet_def Let_def split: sum.split prod.split)
next
  case Begin_Stop
  with assms(1) show ?thesis by (auto simp: begin_stop_def all_quiet_def)
next
  case (Proceed an)
  with assms proceed_quiet show ?thesis by simp
next
  case (Sink_Takes g)
  have "all_quiet (sink_writes g (\<lambda>s contents. (worker_take s, contents)) th)"
    by (rule writers_quiet(1) [OF assms(1)]) (simp add: writer_stays_dead(2))
  with Sink_Takes show ?thesis by simp
next
  case (Sink_Finishes g io)
  have "all_quiet (sink_writes g (\<lambda>s contents. worker_finish s contents io) th)"
    by (rule writers_quiet(1) [OF assms(1)]) (rule writer_stays_dead(3))
  with Sink_Finishes show ?thesis by simp
next
  case (Capture_Takes g released)
  then show ?thesis using writers_quiet(2) [OF assms(1)] by simp
next
  case (Capture_Finishes g io)
  then show ?thesis using writers_quiet(3) [OF assms(1)] by simp
qed

interpretation quietness: machine "thread_step repr" registers all_quiet for repr
  by unfold_locales (rule thread_step_quiet)

end
