(* ===== verification/Threads_Overlap.thy ===== *)
theory Threads_Overlap
  imports Threads_Progress
begin

text \<open>
  Two callbacks in flight at once: the steps of either while the other waits, and the schedule in
  which the one normalized first emits last.
\<close>

section \<open>Two callbacks in flight\<close>

definition inflight :: "threads \<Rightarrow> adapter \<Rightarrow> call list \<Rightarrow> threads" where
  "inflight th a cs =
     th\<lparr>th_world := in_adapter (\<lambda>_. a) (th_world th), th_calls := th_calls th @ cs\<rparr>"

lemma inflight_at [simp]:
  "held a = Some r \<Longrightarrow> resources_at (length (th_retired th)) (inflight th a cs) = Some r"
  "put_resources (length (th_retired th)) r' (inflight th a cs) = inflight th (hold r' a) cs"
  "at_adapter f (inflight th a cs) = inflight th (f a) cs"
  by (simp_all add: inflight_def resources_at_def put_resources_def at_adapter_def in_adapter_def)

lemma inflight_none: "th = inflight th (th_adapter th) []"
  by (cases th; cases "th_world th") (simp add: inflight_def in_adapter_def)

lemma inflight_step:
  assumes "i < length cs" "advance repr (cs ! i) (inflight th a cs) = (inflight th a' cs, c')"
  shows "thread_step repr (inflight th a cs) (Advance (length (th_calls th) + i)) =
    inflight th a' (take i cs @ (case c' of None \<Rightarrow> [] | Some d \<Rightarrow> [d]) @ drop (Suc i) cs)"
proof -
  have "th_calls (inflight th a cs) = th_calls th @ cs" by (simp add: inflight_def)
  with assms show ?thesis by (simp add: advance_call_def) (simp add: inflight_def)
qed

lemma inflight_admits:
  assumes "ad_state a = ACTIVE" "held a = Some r"
  shows "thread_step repr (inflight th a cs) (Admit (Observe x)) =
    inflight th (count_adapter (k_observations_received_update Suc) a)
      (cs @ [Normalizing (length (th_retired th)) x])"
  using assms hold_held(4,5) [OF assms(2)]
  by (simp add: admit_def inflight_def at_adapter_def in_adapter_def)

lemma inflight_normalizes:
  assumes "i < length cs" "cs ! i = Normalizing (length (th_retired th)) x" "held a = Some r"
    "normalize (rs_normalizer r) x = (n, Inr (Some ob))"
  shows "thread_step repr (inflight th a cs) (Advance (length (th_calls th) + i)) =
    inflight th (a\<lparr>ad_normalizer := Some n\<rparr>)
      (take i cs @ Emitting_Observation (length (th_retired th)) ob # drop (Suc i) cs)"
proof -
  have "advance repr (cs ! i) (inflight th a cs) = (inflight th (a\<lparr>ad_normalizer := Some n\<rparr>) cs,
      Some (Emitting_Observation (length (th_retired th)) ob))"
    by (simp add: assms hold_held)
  from inflight_step [OF assms(1) this] show ?thesis by simp
qed

lemma inflight_emits:
  assumes "i < length cs" "cs ! i = Emitting_Observation (length (th_retired th)) ob"
    "held a = Some r" "emit repr (rs_sink r) (Event_Record ob) = (s, Inr True)"
  shows "thread_step repr (inflight th a cs) (Advance (length (th_calls th) + i)) =
    inflight th (a\<lparr>ad_sink := Some s\<rparr>)
      (take i cs @ Counting [Observations_Emitted] True # drop (Suc i) cs)"
proof -
  have "advance repr (cs ! i) (inflight th a cs) = (inflight th (a\<lparr>ad_sink := Some s\<rparr>) cs,
      Some (Counting [Observations_Emitted] True))"
    by (simp add: assms hold_held emit_at_def fate_def)
  from inflight_step [OF assms(1) this] show ?thesis by simp
qed

lemma inflight_counts:
  assumes "i < length cs" "cs ! i = Counting [k] b"
  shows "thread_step repr (inflight th a cs) (Advance (length (th_calls th) + i)) =
    inflight th (count_adapter (increment k) a) (take i cs @ drop (Suc i) cs)"
proof -
  have "advance repr (cs ! i) (inflight th a cs) =
      (inflight th (count_adapter (increment k) a) cs, None)"
    by (simp add: assms)
  from inflight_step [OF assms(1) this] show ?thesis by simp
qed

lemma emit_queues:
  assumes "emit repr s r = (s', Inr True)"
  shows "\<exists>l. encode_record repr r = Inr l \<and> sk_records s' = sk_records s @ [l]"
  using assms
  by (auto simp: emit_def put_record_def count_event_def Let_def split: if_splits sum.splits)

text \<open>The schedule: \<open>x\<close> is normalized before \<open>y\<close> and emitted after it.\<close>

definition overlapped :: "nat \<Rightarrow> source_observation \<Rightarrow> source_observation \<Rightarrow> thread_action list" where
  "overlapped k x y =
     [Admit (Observe x), Advance k, Admit (Observe y), Advance (k + 1), Advance (k + 1), Advance k,
      Advance (k + 1), Advance k]"

lemma held_set_sink [simp]: "held a = Some r \<Longrightarrow> held (a\<lparr>ad_sink := Some s\<rparr>) = Some (r\<lparr>rs_sink := s\<rparr>)"
  by (cases r) (auto simp: held_def split: option.splits)

lemma overlapped_run:
  assumes "ad_state (th_adapter th) = ACTIVE" "held (th_adapter th) = Some r"
    "normalize (rs_normalizer r) x = (n1, Inr (Some ob1))" "normalize n1 y = (n2, Inr (Some ob2))"
    "emit repr (rs_sink r) (Event_Record ob2) = (s1, Inr True)"
    "emit repr s1 (Event_Record ob1) = (s2, Inr True)"
  shows "run (thread_step repr) (overlapped (length (th_calls th)) x y) th =
    inflight th (count_adapter (k_observations_emitted_update ((+) 2))
      ((count_adapter (k_observations_received_update ((+) 2)) (th_adapter th))
         \<lparr>ad_normalizer := Some n2, ad_sink := Some s2\<rparr>)) []"
proof -
  let ?k = "length (th_calls th)" and ?g = "length (th_retired th)"
  let ?rc = "count_adapter (k_observations_received_update Suc)"
  let ?em = "count_adapter (k_observations_emitted_update Suc)"
  define a where "a = th_adapter th"
  note at = assms(1,2) [folded a_def]
  define a1 where "a1 = (?rc a)\<lparr>ad_normalizer := Some n1\<rparr>"
  define a2 where "a2 = (?rc a1)\<lparr>ad_normalizer := Some n2\<rparr>"
  define a3 where "a3 = a2\<lparr>ad_sink := Some s1\<rparr>"
  define a4 where "a4 = a3\<lparr>ad_sink := Some s2\<rparr>"
  have h1: "held a1 = Some (r\<lparr>rs_normalizer := n1\<rparr>)" "ad_state a1 = ACTIVE"
    using at by (simp add: a1_def) (use at in \<open>simp add: a1_def count_adapter_def\<close>)
  have h2: "held a2 = Some (r\<lparr>rs_normalizer := n2\<rparr>)"
    using h1 by (simp add: a2_def)
  have h3: "held a3 = Some (r\<lparr>rs_normalizer := n2, rs_sink := s1\<rparr>)" using h2 by (simp add: a3_def)
  have rc: "held (?rc b) = held b" for b by simp
  have "thread_step repr th (Admit (Observe x)) = inflight th (?rc a) [Normalizing ?g x]"
    using inflight_admits [OF at, of repr th "[]" x] inflight_none [of th] by (simp add: a_def)
  moreover have "thread_step repr (inflight th (?rc a) [Normalizing ?g x]) (Advance ?k) =
      inflight th a1 [Emitting_Observation ?g ob1]"
    using inflight_normalizes [of 0 "[Normalizing ?g x]" th x "?rc a" r n1 ob1 repr] at(2) assms(3)
    by (simp add: a1_def del: thread_step.simps)
  moreover have "thread_step repr (inflight th a1 [Emitting_Observation ?g ob1]) (Admit (Observe y)) =
      inflight th (?rc a1) [Emitting_Observation ?g ob1, Normalizing ?g y]"
    using inflight_admits [OF h1(2,1)] by (simp del: thread_step.simps)
  moreover have "thread_step repr (inflight th (?rc a1) [Emitting_Observation ?g ob1, Normalizing ?g y])
        (Advance (?k + 1)) =
      inflight th a2 [Emitting_Observation ?g ob1, Emitting_Observation ?g ob2]"
    using inflight_normalizes [of 1 "[Emitting_Observation ?g ob1, Normalizing ?g y]" th y "?rc a1"
        "r\<lparr>rs_normalizer := n1\<rparr>" n2 ob2 repr] h1(1) assms(4)
    by (simp add: a2_def del: thread_step.simps)
  moreover have "thread_step repr (inflight th a2 [Emitting_Observation ?g ob1, Emitting_Observation ?g ob2])
        (Advance (?k + 1)) =
      inflight th a3 [Emitting_Observation ?g ob1, Counting [Observations_Emitted] True]"
    using inflight_emits [of 1 "[Emitting_Observation ?g ob1, Emitting_Observation ?g ob2]" th ob2 a2
        "r\<lparr>rs_normalizer := n2\<rparr>" repr s1] h2 assms(5)
    by (simp add: a3_def del: thread_step.simps)
  moreover have "thread_step repr (inflight th a3
        [Emitting_Observation ?g ob1, Counting [Observations_Emitted] True]) (Advance ?k) =
      inflight th a4 [Counting [Observations_Emitted] True, Counting [Observations_Emitted] True]"
    using inflight_emits [of 0 "[Emitting_Observation ?g ob1, Counting [Observations_Emitted] True]"
        th ob1 a3 "r\<lparr>rs_normalizer := n2, rs_sink := s1\<rparr>" repr s2] h3 assms(6)
    by (simp add: a4_def del: thread_step.simps)
  moreover have "thread_step repr (inflight th a4
        [Counting [Observations_Emitted] True, Counting [Observations_Emitted] True]) (Advance (?k + 1)) =
      inflight th (?em a4) [Counting [Observations_Emitted] True]"
    using inflight_counts [of 1 "[Counting [Observations_Emitted] True, Counting [Observations_Emitted] True]"]
    by (simp del: thread_step.simps)
  moreover have "thread_step repr (inflight th (?em a4) [Counting [Observations_Emitted] True]) (Advance ?k) =
      inflight th (?em (?em a4)) []"
    using inflight_counts [of 0 "[Counting [Observations_Emitted] True]"] by (simp del: thread_step.simps)
  moreover have "?em (?em a4) = count_adapter (k_observations_emitted_update ((+) 2))
      ((count_adapter (k_observations_received_update ((+) 2)) a)\<lparr>ad_normalizer := Some n2, ad_sink := Some s2\<rparr>)"
    by (cases a; cases "ad_counters a") (simp add: a4_def a3_def a2_def a1_def count_adapter_def)
  ultimately show ?thesis
    by (simp add: overlapped_def a_def del: thread_step.simps)
qed

end
