(* ===== verification/Threads_History.thy ===== *)
theory Threads_History
  imports Threads_File Threads_Release Threads_Overlap Chain_Validation
begin

text \<open>
  Properties of the adapter over every interleaving of its threads, and the interleaving that
  reorders the file.
\<close>

section \<open>Example runs\<close>

definition overlap_config :: observer_config where
  "overlap_config = demo_config\<lparr>oc_max_pending_records := 8\<rparr>"

definition overlap_adapter :: adapter where
  "overlap_adapter = demo_adapter\<lparr>ad_config := overlap_config\<rparr>"

definition demo_answer :: answer where
  "demo_answer = \<lparr>an_registered = Inr (PInt 1), an_unregistered = Inr (), an_now = 20\<rparr>"

definition started_actions :: "thread_action list" where
  "started_actions = [Begin_Start (demo_starting (Inr (PInt 1))), Proceed demo_answer]"

text \<open>A callback that a stop overtakes, and the whole of that stop.\<close>

definition overtaken_actions :: "thread_action list" where
  "overtaken_actions = started_actions @ [Admit (Offer_Fact Other_Record), Begin_Stop] @
     replicate 4 (Proceed demo_answer) @ [Sink_Takes 0] @ replicate 2 (Proceed demo_answer)"





definition written_actions :: "thread_action list" where
  "written_actions = started_actions @
     [Admit (Offer_Fact (Fact_Record demo_fact)), Advance 0, Advance 0, Sink_Takes 0,
      Sink_Finishes 0 demo_io]"

abbreviation demo_threads :: "thread_action list \<Rightarrow> threads" where
  "demo_threads acts \<equiv> run (thread_step (\<lambda>_. [])) acts (threads_start overlap_adapter [] (\<lambda>_. None))"

lemma overlap_new: "host_adapter (Some overlap_config) (PBool True) = Inr overlap_adapter"
  by (simp add: host_adapter_def overlap_adapter_def demo_adapter_def)

lemma overtaken_run:
  "length (th_retired (demo_threads overtaken_actions)) = 1"
  "k_host_facts_received (ad_counters (th_adapter (demo_threads overtaken_actions))) = 1"
  "ad_state (th_adapter (demo_threads started_actions)) = ACTIVE"
  by code_simp+

definition overlap_args :: config_args where
  "overlap_args =
     \<lparr>g_enabled = PBool True, g_event_path = Path_Of ''/var/tmp/events.jsonl'',
      g_descriptor_dir = No_Path, g_evidence_label = PNone, g_max_pending_records = PInt 8,
      g_max_record_bytes = PInt 1024, g_max_file_bytes = PInt 4096,
      g_max_correlated_transfers = PInt 4, g_max_recovery_admissions = PInt 4,
      g_max_descriptor_regions = PInt 8, g_max_pending_descriptors = PInt 2,
      g_max_descriptor_record_bytes = PInt 4096, g_shutdown_timeout_seconds = PInt 5\<rparr>"

lemma overlap_args: "make_config overlap_args = Inr overlap_config"
  by code_simp

lemma written_run:
  "aw_contents (th_world (demo_threads written_actions)) \<noteq> []" "list_all sound_action written_actions"
proof -
  show "aw_contents (th_world (demo_threads written_actions)) \<noteq> []" by code_simp
  show "list_all sound_action written_actions"
    using demo_fact_valid
    by (simp add: written_actions_def started_actions_def sound_record_def demo_io_def)
qed



section \<open>Properties\<close>

text \<open>
  C31: nothing is lost between threads. After any interleaving of callbacks in flight, writers,
  starts and stops, no callback has raised, and every received observation, host fact and
  correlated record was counted as emitted or dropped, or is still to be counted by a callback
  in flight; every received descriptor was written or dropped, waits in the capture of some
  resource set, or is in flight. The adapter holds a resource set exactly while it is not stopped,
  and a handle while it is active.
\<close>

theorem thread_accounts:
  assumes "host_adapter (Some c) keep = Inr a"
  defines "th \<equiv> \<lambda>repr acts contents dir. run (thread_step repr) acts (threads_start a contents dir)"
  shows "let x = th repr acts contents dir; k = ad_counters (th_adapter x) in
    k_callback_errors k = 0 \<and>
    k_observations_received k =
      k_observations_emitted k + k_normalization_dropped k + k_sink_dropped k +
      due observation_due x \<and>
    k_host_facts_received k = k_host_facts_emitted k + k_host_facts_dropped k + due fact_due x \<and>
    k_correlated_received k = k_correlated_emitted k + k_correlated_dropped k + due link_due x \<and>
    k_descriptors_received k =
      k_descriptors_written k + k_descriptors_dropped k + due descriptor_due x +
      waiting_anywhere x \<and>
    (ad_state (th_adapter x) = STOPPED \<longleftrightarrow> held (th_adapter x) = None) \<and>
    (ad_state (th_adapter x) = ACTIVE \<longrightarrow> ad_handle (th_adapter x) \<noteq> None)"
proof -
  have "threads_inv (th repr acts contents dir)" unfolding th_def by (rule reached_threads [OF assms(1)])
  then show ?thesis by (simp add: threads_inv_def balanced_def owning_def Let_def)
qed

theorem thread_accounts_witness:
  "k_host_facts_emitted (ad_counters (th_adapter (demo_threads overtaken_actions))) +
     k_host_facts_dropped (ad_counters (th_adapter (demo_threads overtaken_actions))) +
     due fact_due (demo_threads overtaken_actions) = 1"
  using thread_accounts [OF overlap_new, of "\<lambda>_. []" overtaken_actions "[]" "\<lambda>_. None"] overtaken_run(2)
  by (simp add: Let_def)

text \<open>
  C35: an undisturbed callback is atomic. In any reachable state, a callback admitted and then run
  alone finishes within three more steps, and has then done exactly what the one step of the
  coarser model does, whatever other callbacks are in flight.
\<close>

theorem undisturbed_callback:
  assumes "host_adapter (Some c) keep = Inr a" "is_callback b"
    "th = run (thread_step repr) acts (threads_start a contents dir)"
  shows "run (thread_step repr) (Admit b # replicate 3 (Advance (length (th_calls th)))) th =
    th\<lparr>th_world := busy_step repr (th_world th) b\<rparr>"
proof (cases "ad_state (th_adapter th) = ACTIVE")
  case True
  have "owning th" using reached_threads [OF assms(1)] unfolding assms(3) by (simp add: threads_inv_def)
  with True obtain r where "held (th_adapter th) = Some r" by (auto simp: owning_def)
  from alone_served [OF True this assms(2)] show ?thesis .
qed (rule alone_dropped [OF _ assms(2)])

theorem undisturbed_callback_witness:
  "run (thread_step (\<lambda>_. []))
     (Admit (Offer_Fact Other_Record) # replicate 3 (Advance (length (th_calls (demo_threads started_actions)))))
     (demo_threads started_actions) =
   (demo_threads started_actions)\<lparr>th_world :=
     busy_step (\<lambda>_. []) (th_world (demo_threads started_actions)) (Offer_Fact Other_Record)\<rparr>"
  by (rule undisturbed_callback [OF overlap_new _ refl]) simp

text \<open>
  C33: what the adapter let go accepts nothing. However the threads interleave, a resource set that
  a stop or a failed start has released publishes no observation, queues no record and no
  descriptor any more, so a callback that a stop overtook cannot add to the file or the directory.
\<close>

theorem released_sets_inert:
  assumes "host_adapter (Some c) keep = Inr a"
    "r \<in> set (th_retired (run (thread_step repr) acts (threads_start a contents dir)))"
  shows "snd (normalize (rs_normalizer r) x) = Inr None \<and>
    snd (emit repr (rs_sink r) rec) = Inr False \<and>
    (\<forall>capture. rs_capture r = Some capture \<longrightarrow> \<not> snd (capture_async capture v))"
proof -
  have "finality (threads_start a contents dir)"
    using assms(1) by (auto simp: host_adapter_def finality_def threads_start_def adapter_start_def
        held_def split: pyval.splits)
  then have "finality (run (thread_step repr) acts (threads_start a contents dir))"
    using final.run_keeps [of "threads_start a contents dir" acts repr] threads_start_inv [OF assms(1)]
    by (simp add: list.pred_True)
  then have r: "inert r" using assms(2) by (simp add: finality_def list_all_iff)
  then have "snd (normalize (rs_normalizer r) x) = Inr None"
    using normalize_closed [of "rs_normalizer r" x] by (metis inert_def prod.collapse)
  moreover have "snd (emit repr (rs_sink r) rec) = Inr False"
    using r emit_closed [of repr "rs_sink r" rec] by (metis inert_def prod.collapse)
  ultimately show ?thesis using r by (auto simp: inert_def capture_async_def)
qed

theorem released_sets_inert_witness:
  "snd (emit (\<lambda>_. []) (rs_sink (th_retired (demo_threads overtaken_actions) ! 0))
     (Fact_Record demo_fact)) = Inr False"
  using released_sets_inert [OF overlap_new nth_mem, where repr = "\<lambda>_. []" and acts = overtaken_actions]
    overtaken_run(1) by simp

text \<open>
  C32: the file can always be read. Let an accepted configuration append to a file of valid lines,
  let the host offer records built by their constructors, and let truncating and unlocking
  succeed. After any interleaving of threads, restarts and failed starts included, the file is
  the earlier records followed by whole lines of valid records, and validation.py reads exactly
  these; it refuses the file only when it has none or more than 100000.
\<close>

theorem file_always_readable:
  assumes "make_config g = Inr c" "host_adapter (Some c) keep = Inr a"
    "left_by repr rs0 old" "length old \<le> MAX_ARTIFACT_BYTES" "list_all sound_action acts"
  shows "\<exists>rs. left_by repr (rs0 @ rs)
      (aw_contents (th_world (run (thread_step repr) acts (threads_start a old dir)))) \<and>
    read_events j (Inr (aw_contents (th_world (run (thread_step repr) acts (threads_start a old dir))))) =
      (if rs0 @ rs = [] \<or> MAX_RECORDS < length (rs0 @ rs) then Inl ValueError else Inr (rs0 @ rs))"
proof -
  have "valid_config c" using assms(1) by (simp add: make_config_iff)
  moreover have "readable repr rs0 old"
    unfolding readable_def using assms(3,4) by (intro conjI exI [of _ "[]"]) simp_all
  ultimately have "file_sound repr rs0 (threads_start a old dir)"
    using assms(2)
    by (auto simp: host_adapter_def file_sound_def threads_start_def adapter_start_def th_sets_def
        held_def split: pyval.splits)
  then have "file_sound repr rs0 (run (thread_step repr) acts (threads_start a old dir))"
    using sound.run_keeps [of "threads_start a old dir" repr rs0 acts] threads_start_inv [OF assms(2)]
      assms(5) by simp
  then obtain rs where "left_by repr (rs0 @ rs)
      (aw_contents (th_world (run (thread_step repr) acts (threads_start a old dir))))"
    "length (aw_contents (th_world (run (thread_step repr) acts (threads_start a old dir)))) \<le>
       MAX_ARTIFACT_BYTES"
    by (auto simp: file_sound_def readable_def)
  with left_by_verdict [OF this] show ?thesis by blast
qed

theorem file_always_readable_witness:
  "\<exists>rs. rs \<noteq> [] \<and> left_by (\<lambda>_. []) rs (aw_contents (th_world (demo_threads written_actions))) \<and>
    (MAX_RECORDS < length rs \<or>
     read_events demo_reader (Inr (aw_contents (th_world (demo_threads written_actions)))) = Inr rs)"
proof -
  have "left_by (\<lambda>_. []) [] []" by (simp add: left_by_def)
  from file_always_readable [OF overlap_args overlap_new this _ written_run(2), of "\<lambda>_. None" demo_reader]
  obtain rs where rs: "left_by (\<lambda>_. []) rs (aw_contents (th_world (demo_threads written_actions)))"
    "read_events demo_reader (Inr (aw_contents (th_world (demo_threads written_actions)))) =
       (if rs = [] \<or> MAX_RECORDS < length rs then Inl ValueError else Inr rs)" by auto
  moreover have "rs \<noteq> []" using rs(1) written_run(1) by (auto simp: left_by_def)
  ultimately show ?thesis by auto
qed





end
