(* ===== verification/Verify_Events.thy ===== *)
theory Verify_Events
  imports Sink_Read_Back
begin

text \<open>
  tools/e2e_910b/verify_events.py: the checker of version-1 event files and descriptor captures.
  \<^verbatim>\<open>fail\<close> prints a message and raises SystemExit, which is no \<^verbatim>\<open>Exception\<close>; whatever the script does
  not foresee leaves it as the exception it is (\<open>Raised\<close>). A text is what \<^verbatim>\<open>Path.read_text\<close> returns, a value what \<^verbatim>\<open>json.loads\<close>
  makes of it without hooks: of equal keys the last one wins, and \<^verbatim>\<open>NaN\<close> is a number.
\<close>

section \<open>Vocabulary\<close>

definition EVENT_SCHEMA_V1 :: string where
  "EVENT_SCHEMA_V1 = ''vllm-hust.kv-transfer-event.v1''"

definition DESCRIPTOR_SCHEMA_V1 :: string where
  "DESCRIPTOR_SCHEMA_V1 = ''vllm-hust.kv-transfer-descriptor-layout.v1''"

definition RESTORE_EVENTS :: "string list" where
  "RESTORE_EVENTS = [''restore_start'', ''restore_done'']"

definition STORE_EVENTS :: "string list" where
  "STORE_EVENTS = [''cpu_store'', ''cpu_evict'', ''evict'']"

definition TRANSFER_EVENTS :: "string list" where
  "TRANSFER_EVENTS =
     [''transfer_submit'', ''swap_d2h_submit'', ''gather_h2d'', ''copy_observed_complete'',
      ''sched_step'']"

definition VOCABULARY :: "string list" where
  "VOCABULARY = RESTORE_EVENTS @ STORE_EVENTS @ TRANSFER_EVENTS"

definition DESCRIPTOR_KEYS_V1 :: "string list" where
  "DESCRIPTOR_KEYS_V1 = [''src_offset'', ''dst_offset'', ''size'', ''direction'']"

datatype script_end = SystemExit | Raised py_exc

type_synonym 'a script = "script_end + 'a"

definition fail :: "'a script" where "fail = Inl SystemExit"

text \<open>A call of the library, whose exceptions the script lets pass.\<close>

definition call_of :: "'a res \<Rightarrow> 'a script" where
  "call_of r = (case r of Inl e \<Rightarrow> Inl (Raised e) | Inr x \<Rightarrow> Inr x)"

lemma call_of_simps [simp]: "call_of (Inl e) = Inl (Raised e)" "call_of (Inr x) = Inr x"
  by (simp_all add: call_of_def)

section \<open>Python's text and JSON without hooks\<close>

text \<open>\<^verbatim>\<open>str.splitlines\<close>: the line so far, and the rest of the text.\<close>

definition line_end :: "char \<Rightarrow> bool" where
  "line_end c = (code c \<in> {10, 11, 12, 13, 28, 29, 30, 133})"

fun split_lines :: "string \<Rightarrow> string \<Rightarrow> string list" where
  "split_lines line [] = (if line = [] then [] else [line])"
| "split_lines line (c # cs) =
     (if line_end c
      then line # split_lines [] (if c = CHR 0x0D \<and> take 1 cs = [CHR 0x0A] then tl cs else cs)
      else split_lines (line @ [c]) cs)"

text \<open>\<^verbatim>\<open>not line.strip()\<close>, on characters rather than bytes\<close>

definition white_line :: "string \<Rightarrow> bool" where
  "white_line s = list_all (\<lambda>c. code c \<in> {9..13} \<union> {28..32} \<union> {133, 160}) s"

fun contains :: "string \<Rightarrow> string \<Rightarrow> bool" where
  "contains w [] = (w = [])"
| "contains w (c # cs) = (take (length w) (c # cs) = w \<or> contains w cs)"

definition dict_of_pairs :: "(string \<times> pyval) list \<Rightarrow> (string \<times> pyval) list" where
  "dict_of_pairs pairs = foldl (\<lambda>d p. AList.update (fst p) (snd p) d) [] pairs"

definition float_constant :: "string \<Rightarrow> pyval" where
  "float_constant t =
     PFloat (if t = ''NaN'' then NotANumber else if t = ''Infinity'' then PosInf else NegInf)"

definition plain_hooks :: "(string \<Rightarrow> py_float) \<Rightarrow> json_hooks" where
  "plain_hooks fl =
     \<lparr>jh_float = fl, jh_object = \<lambda>pairs. Inr (dict_of_pairs pairs),
      jh_constant = \<lambda>t. Inr (float_constant t), jh_error = JSONDecodeError\<rparr>"

text \<open>\<^verbatim>\<open>json.dumps(v)\<close> with its default separators.\<close>

fun dumps_default :: "(py_float \<Rightarrow> string) \<Rightarrow> pyval \<Rightarrow> string res" where
  "dumps_default repr PNone = Inr ''null''"
| "dumps_default repr (PBool x) = Inr (if x then ''true'' else ''false'')"
| "dumps_default repr (PInt i) = Inr (int_text i)"
| "dumps_default repr (PFloat q) = Inr (repr q)"
| "dumps_default repr (PList xs) =
     res_bind (res_map (dumps_default repr) xs)
       (\<lambda>ts. Inr (CHR ''['' # join_with '', '' ts @ '']''))"
| "dumps_default repr (PTuple xs) =
     res_bind (res_map (dumps_default repr) xs)
       (\<lambda>ts. Inr (CHR ''['' # join_with '', '' ts @ '']''))"
| "dumps_default repr (PDict d) =
     res_bind (res_map (\<lambda>p. res_bind (dumps_default repr (snd p))
         (\<lambda>t. Inr (quote (fst p) @ '': '' @ t))) d)
       (\<lambda>ts. Inr (CHR ''{'' # join_with '', '' ts @ ''}''))"
| "dumps_default repr v =
     (case str_of v of None \<Rightarrow> Inl TypeError | Some s \<Rightarrow> Inr (quote s))"

text \<open>\<^verbatim>\<open>rec.get(k)\<close>, \<^verbatim>\<open>not v\<close> and \<^verbatim>\<open>isinstance(v, int)\<close>, which bools pass.\<close>

definition get_item :: "pyval \<Rightarrow> string \<Rightarrow> pyval res" where
  "get_item v k =
     (case v of
        PDict d \<Rightarrow> Inr (case map_of d k of None \<Rightarrow> PNone | Some x \<Rightarrow> x)
      | _ \<Rightarrow> Inl AttributeError)"

fun falsy :: "pyval \<Rightarrow> bool" where
  "falsy PNone = True"
| "falsy (PBool x) = (\<not> x)"
| "falsy (PInt n) = (n = 0)"
| "falsy (PFloat q) = (q = Finite 0)"
| "falsy (PStr s) = (s = [])"
| "falsy (PList xs) = (xs = [])"
| "falsy (PTuple xs) = (xs = [])"
| "falsy (PDict d) = (d = [])"
| "falsy _ = False"

definition int_instance :: "pyval \<Rightarrow> bool" where
  "int_instance v = (case v of PInt _ \<Rightarrow> True | PBool _ \<Rightarrow> True | _ \<Rightarrow> False)"

section \<open>Event files\<close>

definition check_record :: "pyval \<Rightarrow> unit script" where
  "check_record rec =
     res_bind (call_of (get_item rec ''schema'')) (\<lambda>schema.
     if str_of schema \<noteq> Some EVENT_SCHEMA_V1 then fail else
     res_bind (call_of (get_item rec ''event'')) (\<lambda>event.
     res_bind (call_of (in_str_set event VOCABULARY)) (\<lambda>known.
     if \<not> known then fail else
     res_bind (call_of (get_item rec ''request_id'')) (\<lambda>request_id.
     if falsy request_id then fail else
     res_bind (call_of (get_item rec ''pid'')) (\<lambda>pid.
     if \<not> int_instance pid then fail else
     res_bind (call_of (get_item rec ''ts_monotonic_ns'')) (\<lambda>ts.
     if \<not> int_instance ts then fail else Inr ()))))))"

definition parse_line :: "(string \<Rightarrow> py_float) \<Rightarrow> string \<Rightarrow> pyval script" where
  "parse_line fl line =
     (case loads_with (plain_hooks fl) line of
        Inl e \<Rightarrow> if e = JSONDecodeError then fail else Inl (Raised e)
      | Inr rec \<Rightarrow> Inr rec)"

fun check_lines :: "(string \<Rightarrow> py_float) \<Rightarrow> string list \<Rightarrow> pyval list script" where
  "check_lines fl [] = Inr []"
| "check_lines fl (line # rest) =
     (if white_line line then check_lines fl rest
      else res_bind (parse_line fl line) (\<lambda>rec.
           res_bind (check_record rec) (\<lambda>_.
           res_bind (check_lines fl rest) (\<lambda>records. Inr (rec # records)))))"

definition text_at :: "pyval \<Rightarrow> string \<Rightarrow> string option" where
  "text_at rec k = (case get_item rec k of Inl _ \<Rightarrow> None | Inr v \<Rightarrow> str_of v)"

definition index_of :: "'a \<Rightarrow> 'a list \<Rightarrow> nat" where
  "index_of x xs = length (takeWhile (\<lambda>y. y \<noteq> x) xs)"

definition check_chain :: "(py_float \<Rightarrow> string) \<Rightarrow> pyval list \<Rightarrow> string \<Rightarrow> unit script" where
  "check_chain repr records request =
     (let req = filter (\<lambda>r. text_at r ''request_id'' = Some request) records;
          names = map (\<lambda>r. text_at r ''event'') req;
          first = Some ''restore_start''; last = Some ''restore_done''
      in if req = [] then fail
         else if first \<in> set names \<and> last \<in> set names \<and> index_of last names < index_of first names
         then fail
         else res_bind (call_of (res_map (dumps_default repr) req)) (\<lambda>texts.
              if list_ex (contains ''address'') texts then fail else Inr ()))"

text \<open>The file: None when it does not exist, else what reading it returns or raises.\<close>

definition verify_events ::
  "(string \<Rightarrow> py_float) \<Rightarrow> (py_float \<Rightarrow> string) \<Rightarrow> string res option \<Rightarrow> string option \<Rightarrow> unit script" where
  "verify_events fl repr file_text expect_chain =
     (case file_text of
        None \<Rightarrow> fail
      | Some contents \<Rightarrow>
          res_bind (call_of contents) (\<lambda>s.
          res_bind (check_lines fl (split_lines [] s)) (\<lambda>records.
          if records = [] then fail
          else case expect_chain of
            None \<Rightarrow> Inr ()
          | Some request \<Rightarrow> if request = [] then Inr () else check_chain repr records request)))"

section \<open>Descriptor captures\<close>

text \<open>\<^verbatim>\<open>v <= 0\<close> and \<^verbatim>\<open>v < 0\<close>: no comparison with NaN holds, a non-number raises TypeError.\<close>

definition not_positive :: "pyval \<Rightarrow> bool res" where
  "not_positive v =
     (case v of
        PInt n \<Rightarrow> Inr (n \<le> 0) | PBool x \<Rightarrow> Inr (\<not> x)
      | PFloat (Finite q) \<Rightarrow> Inr (q \<le> 0) | PFloat NegInf \<Rightarrow> Inr True | PFloat _ \<Rightarrow> Inr False
      | _ \<Rightarrow> Inl TypeError)"

definition is_negative :: "pyval \<Rightarrow> bool res" where
  "is_negative v =
     (case v of
        PInt n \<Rightarrow> Inr (n < 0) | PBool x \<Rightarrow> Inr False
      | PFloat (Finite q) \<Rightarrow> Inr (q < 0) | PFloat NegInf \<Rightarrow> Inr True | PFloat _ \<Rightarrow> Inr False
      | _ \<Rightarrow> Inl TypeError)"

text \<open>
  Whether \<^verbatim>\<open>sorted\<close> succeeds on hashable JSON values: sorting two or more compares each with
  another one, so they must be numbers or must be strings.
\<close>

definition sortable :: "pyval list \<Rightarrow> bool" where
  "sortable xs =
     (length xs \<le> 1 \<or> list_all (\<lambda>x. str_of x \<noteq> None) xs \<or>
      list_all (\<lambda>x. case x of PInt _ \<Rightarrow> True | PBool _ \<Rightarrow> True | PFloat _ \<Rightarrow> True | _ \<Rightarrow> False) xs)"

definition check_sizes :: "(string \<times> pyval) list \<Rightarrow> unit script" where
  "check_sizes d =
     res_bind (call_of (dict_item d ''size'')) (\<lambda>size.
     res_bind (call_of (not_positive size)) (\<lambda>bad.
     if bad then fail else
     res_bind (call_of (dict_item d ''src_offset'')) (\<lambda>src.
     res_bind (call_of (is_negative src)) (\<lambda>bad.
     if bad then fail else
     res_bind (call_of (dict_item d ''dst_offset'')) (\<lambda>dst.
     res_bind (call_of (is_negative dst)) (\<lambda>bad.
     if bad then fail else Inr ()))))))"

text \<open>
  \<^verbatim>\<open>set(desc) != DESCRIPTOR_KEYS\<close> ranges over keys, items or characters; the message of the
  failure sorts them. A list of the four keys passes and cannot be indexed by one.
\<close>

definition check_descriptor :: "string \<Rightarrow> pyval \<Rightarrow> unit script" where
  "check_descriptor direction desc =
     (case desc of
        PDict d \<Rightarrow>
          if fst ` set d \<noteq> set DESCRIPTOR_KEYS_V1 then fail
          else res_bind (call_of (dict_item d ''direction'')) (\<lambda>x.
               if str_of x \<noteq> Some direction then fail else check_sizes d)
      | PStr s \<Rightarrow> fail
      | PList xs \<Rightarrow>
          if \<not> list_all hashable xs then Inl (Raised TypeError)
          else if str_of ` set xs \<noteq> Some ` set DESCRIPTOR_KEYS_V1 \<and> sortable xs then fail
          else Inl (Raised TypeError)
      | _ \<Rightarrow> Inl (Raised TypeError))"

text \<open>\<^verbatim>\<open>for desc in v\<close>\<close>

definition iterate :: "pyval \<Rightarrow> pyval list res" where
  "iterate v =
     (case v of
        PList xs \<Rightarrow> Inr xs
      | PDict d \<Rightarrow> Inr (map (\<lambda>p. PStr (fst p)) d)
      | PStr s \<Rightarrow> Inr (map (\<lambda>c. PStr [c]) s)
      | _ \<Rightarrow> Inl TypeError)"

definition check_capture :: "(string \<Rightarrow> py_float) \<Rightarrow> string \<Rightarrow> unit script" where
  "check_capture fl s =
     (if contains ''address'' s then fail else
      res_bind (call_of (loads_with (plain_hooks fl) s)) (\<lambda>payload.
      res_bind (call_of (get_item payload ''schema'')) (\<lambda>schema.
      if str_of schema \<noteq> Some DESCRIPTOR_SCHEMA_V1 then fail else
      res_bind (call_of (get_item payload ''direction'')) (\<lambda>dir.
      res_bind (call_of (in_str_set dir [''d2h'', ''h2d''])) (\<lambda>known.
      if \<not> known then fail else
      res_bind (call_of (iterate (case payload of
          PDict d \<Rightarrow> (case map_of d ''descriptors'' of None \<Rightarrow> PList [] | Some x \<Rightarrow> x)
        | _ \<Rightarrow> PList []))) (\<lambda>descs.
      res_bind (res_map (check_descriptor (the (str_of dir))) descs) (\<lambda>_. Inr ())))))))"

text \<open>The directory: None when it is none, else the captures with their names.\<close>

definition verify_descriptors ::
  "(string \<Rightarrow> py_float) \<Rightarrow> (string \<times> string res) list option \<Rightarrow> unit script" where
  "verify_descriptors fl directory =
     (case directory of
        None \<Rightarrow> fail
      | Some files \<Rightarrow>
          if files = [] then fail
          else res_bind (res_map (\<lambda>f. res_bind (call_of (snd f)) (check_capture fl)) (sort_key fst files))
                 (\<lambda>_. Inr ()))"

text \<open>\<^verbatim>\<open>main\<close> on parsed arguments; returning is exit status 0.\<close>

definition verify_main ::
  "(string \<Rightarrow> py_float) \<Rightarrow> (py_float \<Rightarrow> string) \<Rightarrow> string res option \<Rightarrow> string option \<Rightarrow>
   (string \<times> string res) list option option \<Rightarrow> unit script" where
  "verify_main fl repr events expect_chain capture_dir =
     res_bind (verify_events fl repr events expect_chain) (\<lambda>_.
     case capture_dir of None \<Rightarrow> Inr () | Some directory \<Rightarrow> verify_descriptors fl directory)"


section \<open>Against the package's own files\<close>

lemma update_snoc: "k \<notin> fst ` set d \<Longrightarrow> AList.update k v d = d @ [(k, v)]"
  by (induction d) auto

lemma dict_of_pairs_snoc: "dict_of_pairs (ps @ [p]) = AList.update (fst p) (snd p) (dict_of_pairs ps)"
  by (simp add: dict_of_pairs_def)

lemma dict_of_pairs_ok: "dict_ok d \<Longrightarrow> dict_of_pairs d = d"
proof (induction d rule: rev_induct)
  case (snoc p d)
  then have "dict_of_pairs d = d" "fst p \<notin> fst ` set d" by simp_all
  then show ?case
    by (cases p) (simp add: dict_of_pairs_snoc update_snoc)
qed (simp add: dict_of_pairs_def)

interpretation plain: object_hook "plain_hooks fl" for fl
  by unfold_locales (simp add: plain_hooks_def dict_of_pairs_ok)

lemma printable_inside: "printable c \<Longrightarrow> \<not> line_end c"
  by (auto simp: printable_def line_end_def)

lemma line_feed: "line_end (CHR 0x0A)"
  by code_simp

lemma split_line:
  assumes "list_all printable t"
  shows "split_lines line (t @ CHR 0x0A # rest) = (line @ t) # split_lines [] rest"
  using assms
  by (induction t arbitrary: line) (simp_all add: printable_inside line_feed)

lemma schema_of_current:
  "record_schema r \<noteq> EVENT_SCHEMA_V1"
proof -
  have "EVENT_SCHEMA \<noteq> EVENT_SCHEMA_V1" "HOST_FACT_SCHEMA \<noteq> EVENT_SCHEMA_V1"
    "CORRELATED_SCHEMA \<noteq> EVENT_SCHEMA_V1"
    by code_simp+
  then show ?thesis by (cases r) simp_all
qed

lemma current_record_fails: "check_record (canon (record_json r)) = fail"
proof -
  obtain d where d: "record_json r = PDict d" "dict_ok d"
    "map_of d ''schema'' = Some (PStr (record_schema r))"
    by (rule record_dict)
  have "get_item (canon (record_json r)) ''schema'' = Inr (PStr (record_schema r))"
    unfolding d(1) using canon_lookup [OF d(2), of "''schema''"] d(3) by (simp add: get_item_def)
  then show ?thesis by (simp add: check_record_def schema_of_current)
qed

lemma written_line_fails:
  assumes "stored_record r" "line_of repr r line"
  obtains t where "line = t @ [CHR 0x0A]" "list_all printable t" "\<not> white_line t"
    "res_bind (parse_line fl t) check_record = fail"
proof -
  obtain t where t: "dumps repr (record_json r) = Inr t" "line = t @ [CHR 0x0A]"
    using assms(2) by (auto simp: line_of_def encode_record_def typed_payload)
  note w = writable_canon [OF stored_writable [OF assms(1)]]
  obtain d u where u: "record_json r = PDict d" "t = CHR ''{'' # u"
    using record_dict [of r] dumps_brace t(1) by metis
  have "\<not> code (CHR ''{'') \<in> {9..13} \<union> {28..32} \<union> {133, 160}" by code_simp
  then have "\<not> white_line t" by (simp add: u(2) white_line_def)
  moreover have "parse_line fl t = Inr (canon (record_json r))"
    using plain.loads_dumps [OF t(1) w, of "[]" fl] by (simp add: parse_line_def)
  ultimately show ?thesis
    using that [OF t(2) dumps_line [OF t(1) w]] current_record_fails by simp
qed

text \<open>A file of valid records, an empty one included, never passes.\<close>

lemma left_by_fails:
  assumes "left_by repr rs contents"
  shows "verify_events fl repr' (Some (Inr contents)) expect_chain = fail"
proof (cases rs)
  case Nil
  then have "contents = []" using assms by (auto simp: left_by_def)
  then show ?thesis by (simp add: verify_events_def fail_def)
next
  case (Cons r rs')
  then obtain line rest where c: "contents = line @ rest" "stored_record r" "line_of repr r line"
    using assms by (auto simp: left_by_def list_all2_Cons1)
  obtain t where t: "line = t @ [CHR 0x0A]" "list_all printable t" "\<not> white_line t"
    "res_bind (parse_line fl t) check_record = fail"
    by (rule written_line_fails [OF c(2,3)])
  have "res_bind (parse_line fl t) (\<lambda>rec. res_bind (check_record rec) (f rec)) = fail"
    for f :: "pyval \<Rightarrow> unit \<Rightarrow> pyval list script"
    using t(4) by (cases "parse_line fl t") (auto simp: fail_def)
  then have "check_lines fl (split_lines [] contents) = fail"
    using t(1-3) by (simp add: c(1) split_line)
  then show ?thesis by (simp add: verify_events_def fail_def)
qed

text \<open>Nor does a capture directory of published inventories.\<close>

lemma published_inventory_fails:
  assumes "valid_inventory v"
  shows "check_capture fl (inventory_text repr label v) = fail"
proof -
  note w = writable_canon [OF inventory_writable [OF assms, of label]]
  obtain t where t: "dumps_indented repr (inventory_to_payload label v) = Inr t"
    using layout_returns [OF w] unfolding dumps_indented_def by blast
  have "is_space (CHR 0x0A)" by code_simp
  then have "loads_with (plain_hooks fl) (inventory_text repr label v) =
      Inr (canon (inventory_to_payload label v))"
    using plain.loads_indented [OF t w, of "[CHR 0x0A]" fl] t by (simp add: inventory_text_def)
  moreover have "get_item (canon (inventory_to_payload label v)) ''schema'' =
      Inr (PStr DESCRIPTOR_SCHEMA)"
  proof -
    define d where "d = [(''descriptors'', PList (map region_to_payload (di_regions v))),
      (''direction'', PStr (direction_value (di_direction v))),
      (''evidence_label'', PStr (evidence_value label)),
      (''identity'', identity_to_payload (di_identity v)),
      (''job_id'', PInt (di_job_id v)), (''observed_at_ns'', PInt (di_observed_at_ns v)),
      (''schema'', PStr DESCRIPTOR_SCHEMA), (''transfer_id'', PStr (transfer_value (di_transfer v)))]"
    have "dict_ok d" by (simp add: d_def)
    moreover have "map_of d ''schema'' = Some (PStr DESCRIPTOR_SCHEMA)" by (simp add: d_def)
    moreover have "inventory_to_payload label v = PDict d" by (simp add: d_def inventory_to_payload_def)
    ultimately show ?thesis using canon_lookup [of d "''schema''"] by (simp add: get_item_def)
  qed
  moreover have "DESCRIPTOR_SCHEMA \<noteq> DESCRIPTOR_SCHEMA_V1" by code_simp
  ultimately show ?thesis by (simp add: check_capture_def)
qed

lemma published_files_fail:
  assumes "list_all (\<lambda>(name, label, v). valid_inventory v) vs"
  shows "verify_descriptors fl
    (Some (map (\<lambda>(name, label, v). (name, Inr (inventory_text repr label v))) vs)) = fail"
proof -
  define files where
    "files = map (\<lambda>(name, label, v). (name, Inr (inventory_text repr label v) :: string res)) vs"
  have each: "res_bind (call_of (snd f)) (check_capture fl) = fail" if "f \<in> set (sort_key fst files)" for f
    using that assms by (auto simp: files_def list_all_iff published_inventory_fails)
  show ?thesis
  proof (cases "sort_key fst files")
    case Nil
    then have "set files = {}" by (metis list.set(1) set_sort)
    then show ?thesis by (simp add: verify_descriptors_def files_def)
  next
    case (Cons f fs)
    then have "files \<noteq> []" by auto
    with Cons each [of f] show ?thesis
      by (simp add: verify_descriptors_def files_def fail_def)
  qed
qed

section \<open>A version-1 file\<close>

definition demo_v1 :: string where
  "demo_v1 =
     ''{'' @ quote ''schema'' @ '':'' @ quote EVENT_SCHEMA_V1 @ '','' @
     quote ''event'' @ '':'' @ quote ''sched_step'' @ '','' @ quote ''request_id'' @ '':'' @
     quote ''r'' @ '','' @ quote ''pid'' @ '':true,'' @ quote ''ts_monotonic_ns'' @ '':1}''"

definition demo_done :: string where
  "demo_done =
     ''{'' @ quote ''schema'' @ '':'' @ quote EVENT_SCHEMA_V1 @ '','' @
     quote ''event'' @ '':'' @ quote ''restore_done'' @ '','' @ quote ''request_id'' @ '':'' @
     quote ''r'' @ '','' @ quote ''pid'' @ '':1,'' @ quote ''ts_monotonic_ns'' @ '':2}''"

definition demo_capture :: string where
  "demo_capture =
     ''{'' @ quote ''schema'' @ '':'' @ quote DESCRIPTOR_SCHEMA_V1 @ '','' @
     quote ''direction'' @ '':'' @ quote ''h2d'' @ '','' @ quote ''descriptors'' @ '':[{'' @
     quote ''src_offset'' @ '':NaN,'' @ quote ''dst_offset'' @ '':0,'' @
     quote ''size'' @ '':true,'' @ quote ''direction'' @ '':'' @ quote ''h2d'' @ ''}]}''"

text \<open>
  What the checker lets pass: a bool for a process id, a restore chain of a single
  \<^verbatim>\<open>restore_done\<close>, a capture with \<^verbatim>\<open>NaN\<close> for an offset.
\<close>

lemma demo_v1_passes:
  "verify_events (\<lambda>_. Finite 0) (\<lambda>_. []) (Some (Inr demo_v1)) (Some ''r'') = Inr ()"
  by code_simp

lemma chain_check_gap:
  "verify_main (\<lambda>_. Finite 0) (\<lambda>_. []) (Some (Inr demo_done)) (Some ''r'')
     (Some (Some [(''a.json'', Inr demo_capture)])) = Inr ()"
  by code_simp

section \<open>What it makes of the package\<close>

text \<open>
  C30: the checker of version 1 refuses whatever the package writes now. Let an enabled sink append
  to a file an earlier process left, and let truncating and unlocking succeed: after any
  interleaving of valid records emitted, worker steps and closes, \<^verbatim>\<open>verify_events\<close> on the file
  raises SystemExit, whatever chain it is to expect; it never passes, and raises nothing else.
  So does \<^verbatim>\<open>verify_descriptors\<close> on a directory of published inventories.
\<close>

theorem retired_checker_rejects:
  assumes "jsonl_event_sink (Some d) a b c = Inr s" "left_by repr rs0 start"
    "list_all clean_io as" "list_all stored_record (offered_records as)"
    "sk_max_record_bytes s \<le> int MAX_RECORD_BYTES"
    "list_all (\<lambda>(name, label, v). valid_inventory v) vs"
  defines "w \<equiv> run (sink_step repr) as (fresh_run s start)"
  shows "verify_events fl repr' (Some (Inr (ru_contents w))) expect_chain = Inl SystemExit \<and>
    verify_descriptors fl
      (Some (map (\<lambda>(name, label, v). (name, Inr (inventory_text repr label v))) vs)) =
      Inl SystemExit"
proof -
  obtain rs where "left_by repr (rs0 @ rs) (ru_contents w)"
    by (rule history_left [OF assms(1) w_def [THEN meta_eq_to_obj_eq] assms(3,2,4,5)])
  then show ?thesis
    using left_by_fails published_files_fail [OF assms(6)] by (simp add: fail_def)
qed

theorem retired_checker_rejects_witness:
  "verify_events (\<lambda>_. Finite 0) (\<lambda>_. []) (Some (Inr (ru_contents demo_run_sink))) (Some ''req-1'') =
     Inl SystemExit \<and>
   verify_descriptors (\<lambda>_. Finite 0)
     (Some [(''a.json'', Inr (inventory_text (\<lambda>_. []) REPLAY demo_inventory))]) = Inl SystemExit"
proof -
  have "left_by (\<lambda>_. []) [] []" by (simp add: left_by_def)
  moreover have "list_all clean_io demo_actions"
    by (simp add: demo_actions_def clean_io_def demo_io_def)
  moreover have "offered_records demo_actions = [RecFact demo_fact, RecFact demo_fact]"
    by (simp add: demo_actions_def)
  moreover have "sk_max_record_bytes demo_sink = 512" by (simp add: demo_sink_def)
  ultimately show ?thesis
    using retired_checker_rejects [OF demo_sink_new, of "\<lambda>_. []" "[]" "[]" demo_actions
        "[(''a.json'', REPLAY, demo_inventory)]"] demo_fact_valid demo_inventory_valid
    by (simp add: MAX_RECORD_BYTES_def)
qed

end
