(* ===== verification/B134.thy ===== *)
theory B134
  imports Py_Values
begin

text \<open>
  b134.py: the closed inventory of the fourteen legacy event names, their owners, identities and
  fields, and the lifecycle events they correspond to.
\<close>

datatype b134_event =
    PREEMPT | WAKEUP | ADMISSION | SCHEDULED | RESTORE_START | RESTORE_DONE | CPU_STORE
  | CPU_EVICT | EVICT | SWAP_D2H_SUBMIT | GATHER_H2D | TRANSFER_SUBMIT | COPY_OBSERVED_COMPLETE
  | SCHED_STEP

primrec b134_event_value :: "b134_event \<Rightarrow> string" where
  "b134_event_value PREEMPT = ''preempt''"
| "b134_event_value WAKEUP = ''wakeup''"
| "b134_event_value ADMISSION = ''admission''"
| "b134_event_value SCHEDULED = ''scheduled''"
| "b134_event_value RESTORE_START = ''restore_start''"
| "b134_event_value RESTORE_DONE = ''restore_done''"
| "b134_event_value CPU_STORE = ''cpu_store''"
| "b134_event_value CPU_EVICT = ''cpu_evict''"
| "b134_event_value EVICT = ''evict''"
| "b134_event_value SWAP_D2H_SUBMIT = ''swap_d2h_submit''"
| "b134_event_value GATHER_H2D = ''gather_h2d''"
| "b134_event_value TRANSFER_SUBMIT = ''transfer_submit''"
| "b134_event_value COPY_OBSERVED_COMPLETE = ''copy_observed_complete''"
| "b134_event_value SCHED_STEP = ''sched_step''"

datatype b134_owner = SCHEDULER | KV_OFFLOAD

datatype b134_identity_kind = REQUEST | TRANSFER | SYSTEM

record b134_event_contract =
  bc_owner :: b134_owner
  bc_identity_kind :: b134_identity_kind
  bc_fields :: "string list"
  bc_canonical_event :: "observation_event option"

definition contract ::
  "b134_owner \<Rightarrow> b134_identity_kind \<Rightarrow> string list \<Rightarrow> observation_event option \<Rightarrow> b134_event_contract"
  where
  "contract owner kind names event = \<lparr>bc_owner = owner, bc_identity_kind = kind,
     bc_fields = names, bc_canonical_event = event\<rparr>"

primrec b134_contracts :: "b134_event \<Rightarrow> b134_event_contract" where
  "b134_contracts PREEMPT = contract SCHEDULER REQUEST [] None"
| "b134_contracts WAKEUP = contract SCHEDULER REQUEST [] None"
| "b134_contracts ADMISSION = contract SCHEDULER REQUEST [] None"
| "b134_contracts SCHEDULED = contract SCHEDULER REQUEST [] None"
| "b134_contracts RESTORE_START =
     contract KV_OFFLOAD REQUEST [''keys''] (Some RESTORE_STARTED)"
| "b134_contracts RESTORE_DONE =
     contract KV_OFFLOAD REQUEST [''keys''] (Some RESTORE_COMPLETED)"
| "b134_contracts CPU_STORE =
     contract KV_OFFLOAD REQUEST [''duration_us'', ''evicted_keys'', ''stored_keys''] None"
| "b134_contracts CPU_EVICT =
     contract KV_OFFLOAD SYSTEM [''duration_us'', ''evicted_keys''] None"
| "b134_contracts EVICT = contract KV_OFFLOAD REQUEST [''duration_us'', ''keys''] None"
| "b134_contracts SWAP_D2H_SUBMIT =
     contract KV_OFFLOAD TRANSFER [''descriptors'', ''duration_us''] None"
| "b134_contracts GATHER_H2D =
     contract KV_OFFLOAD TRANSFER [''dma_runs'', ''duration_us''] None"
| "b134_contracts TRANSFER_SUBMIT =
     contract KV_OFFLOAD TRANSFER
       [''bytes'', ''dependency_us'', ''descriptor_us'', ''descriptors'', ''direction'',
        ''submit_us''] (Some TRANSFER_STARTED)"
| "b134_contracts COPY_OBSERVED_COMPLETE =
     contract KV_OFFLOAD TRANSFER
       [''bytes'', ''completion_observed_ms'', ''device_event_ms'', ''direction'']
       (Some TRANSFER_COMPLETED)"
| "b134_contracts SCHED_STEP = contract KV_OFFLOAD SYSTEM [''duration_us''] None"

definition b134_events :: "b134_event list" where
  "b134_events =
     [PREEMPT, WAKEUP, ADMISSION, SCHEDULED, RESTORE_START, RESTORE_DONE, CPU_STORE, CPU_EVICT,
      EVICT, SWAP_D2H_SUBMIT, GATHER_H2D, TRANSFER_SUBMIT, COPY_OBSERVED_COMPLETE, SCHED_STEP]"

definition B134_EVENT_COUNT :: nat where "B134_EVENT_COUNT = 14"

definition UNIFIED_SOURCE_EVENT_COUNT_WITH_FIRST_COMPUTE :: nat where
  "UNIFIED_SOURCE_EVENT_COUNT_WITH_FIRST_COMPUTE = 15"

definition B134_RECOVERY_CHAIN :: "b134_event list" where
  "B134_RECOVERY_CHAIN = [PREEMPT, RESTORE_START, RESTORE_DONE, WAKEUP, ADMISSION, SCHEDULED]"

text \<open>None: an object that is no \<^verbatim>\<open>B134Event\<close>, a plain string for instance.\<close>

definition b134_event_contract_of :: "b134_event option \<Rightarrow> b134_event_contract res" where
  "b134_event_contract_of event =
     (case event of None \<Rightarrow> Inl ValueError | Some e \<Rightarrow> Inr (b134_contracts e))"

section \<open>The inventory is closed\<close>

lemma all_b134_events: "e \<in> set b134_events"
  by (cases e) (simp_all add: b134_events_def)

lemma b134_count:
  "length b134_events = B134_EVENT_COUNT" "distinct (map b134_event_value b134_events)"
  "UNIFIED_SOURCE_EVENT_COUNT_WITH_FIRST_COMPUTE = Suc B134_EVENT_COUNT"
  by code_simp+

text \<open>Only the scheduler's events carry no fields, and only offload events correspond to the
  lifecycle; a field list is sorted, so it is compared as a set.\<close>

lemma b134_contract_shape:
  "bc_fields (b134_contracts e) = [] \<longleftrightarrow> bc_owner (b134_contracts e) = SCHEDULER"
  "bc_canonical_event (b134_contracts e) \<noteq> None \<Longrightarrow> bc_owner (b134_contracts e) = KV_OFFLOAD"
  "sorted_wrt (<) (bc_fields (b134_contracts e))"
  by (cases e; simp add: contract_def; code_simp)+

lemma b134_correspondence:
  "bc_canonical_event (b134_contracts e) = Some x \<Longrightarrow> bc_canonical_event (b134_contracts f) = Some x \<Longrightarrow>
     e = f"
  by (cases e; cases f; simp add: contract_def)

end
