(* ===== verification/Plugin.thy ===== *)
theory Plugin
  imports Adapter_History
begin

text \<open>
  plugin.py: the process-wide activation of one adapter. The module's three globals are a record;
  the process id, the environment, the SHA-256 digest and the temporary directory are arguments.
\<close>

section \<open>Activation\<close>

definition EXTENSION_ID :: string where
  "EXTENSION_ID = ''org.vllm-hust.kv-transfer-observability''"

definition PLUGIN_NAME :: string where "PLUGIN_NAME = ''kv_transfer_observability''"

definition EVENT_PATH_ENV :: string where
  "EVENT_PATH_ENV = ''VLLM_HUST_KV_TRANSFER_OBSERVABILITY_EVENT_PATH''"

definition ENABLED_BUNDLES_ENV :: string where
  "ENABLED_BUNDLES_ENV = ''VLLMHUST_EXT_ENABLED_BUNDLES''"

definition VLLM_PLUGINS_ENV :: string where "VLLM_PLUGINS_ENV = ''VLLM_PLUGINS''"

text \<open>What \<^verbatim>\<open>str.strip\<close> takes for blank, below code 256.\<close>

definition blank :: "char \<Rightarrow> bool" where
  "blank c \<longleftrightarrow> 9 \<le> code c \<and> code c \<le> 13 \<or> 28 \<le> code c \<and> code c \<le> 32 \<or> code c = 133 \<or> code c = 160"

definition strip :: "string \<Rightarrow> string" where
  "strip s = rev (dropWhile blank (rev (dropWhile blank s)))"

fun split_commas :: "string \<Rightarrow> string list" where
  "split_commas [] = [[]]"
| "split_commas (c # s) =
     (if c = CHR '','' then [] # split_commas s
      else case split_commas s of [] \<Rightarrow> [[c]] | x # xs \<Rightarrow> (c # x) # xs)"

type_synonym environment = "string \<Rightarrow> string option"

definition activation_requested :: "environment \<Rightarrow> bool" where
  "activation_requested env =
     (case env ENABLED_BUNDLES_ENV of
        Some bundles \<Rightarrow> EXTENSION_ID \<in> set (map strip (split_commas bundles))
      | None \<Rightarrow>
          PLUGIN_NAME \<in> set (map strip (split_commas
            (case env VLLM_PLUGINS_ENV of None \<Rightarrow> [] | Some s \<Rightarrow> s))))"

record process =
  pr_pid :: int
  pr_environment :: environment
  pr_sha256_hex :: "string \<Rightarrow> string"
  pr_temporary_directory :: string

definition event_path :: "process \<Rightarrow> string" where
  "event_path p =
     (let configured =
            strip (case pr_environment p EVENT_PATH_ENV of None \<Rightarrow> [] | Some s \<Rightarrow> s)
      in if configured \<noteq> [] then configured
         else
           let launch = (case pr_environment p ''VLLM_ECPA_LAUNCH_ID'' of
                 None \<Rightarrow> ''unbound'' | Some s \<Rightarrow> s);
               digest = take 16 (pr_sha256_hex p launch)
           in pr_temporary_directory p @ ''/vllm-hust-kv-transfer-'' @ digest @ ''-'' @
                int_text (pr_pid p) @ ''.jsonl'')"

section \<open>The module's state\<close>

record plugin =
  pl_registered_pid :: "int option"
  pl_adapter :: "adapter_world option"
  pl_binding :: bool

definition plugin_config :: "string \<Rightarrow> config_args" where
  "plugin_config path =
     \<lparr>g_enabled = PBool True, g_event_path = Path_Of path, g_descriptor_dir = No_Path,
      g_evidence_label = PNone, g_max_pending_records = PInt DEFAULT_MAX_PENDING_RECORDS,
      g_max_record_bytes = PInt DEFAULT_MAX_RECORD_BYTES,
      g_max_file_bytes = PInt DEFAULT_MAX_FILE_BYTES,
      g_max_correlated_transfers = PInt (int DEFAULT_MAX_CORRELATED_TRANSFERS),
      g_max_recovery_admissions = PInt (int DEFAULT_MAX_RECOVERY_ADMISSIONS),
      g_max_descriptor_regions = PInt (int MAX_DESCRIPTOR_REGIONS),
      g_max_pending_descriptors = PInt DEFAULT_MAX_PENDING_DESCRIPTORS,
      g_max_descriptor_record_bytes = PInt DEFAULT_MAX_DESCRIPTOR_RECORD_BYTES,
      g_shutdown_timeout_seconds = PFloat (Finite DEFAULT_SHUTDOWN_TIMEOUT_SECONDS)\<rparr>"

text \<open>
  \<open>made\<close>: whether the binding could be constructed; \<open>contents\<close>: of the event file. The adapter
  keeps no restore receipts.
\<close>

definition register_plugin ::
  "(py_float \<Rightarrow> string) \<Rightarrow> process \<Rightarrow> unit res \<Rightarrow> starting \<Rightarrow> string \<Rightarrow> plugin \<Rightarrow> plugin \<times> unit res" where
  "register_plugin repr p made st contents pl =
     (if Some (pr_pid p) = pl_registered_pid pl \<or> \<not> activation_requested (pr_environment p)
      then (pl, Inr ())
      else
        (case make_config (plugin_config (event_path p)) of
           Inl e \<Rightarrow> (pl, Inl e)
         | Inr config \<Rightarrow>
             (case made of
                Inl e \<Rightarrow> (pl, Inl e)
              | Inr _ \<Rightarrow>
                  (case host_adapter (Some config) (PBool False) of
                     Inl e \<Rightarrow> (pl, Inl e)
                   | Inr a \<Rightarrow>
                       (case start repr (st\<lparr>st_contract := Inr (PStr HOST_OBSERVER_CONTRACT)\<rparr>)
                           (adapter_start a contents (\<lambda>_. None)) of
                          (w, Inl e) \<Rightarrow> (pl, Inl e)
                        | (w, Inr False) \<Rightarrow> (pl, Inl RuntimeError)
                        | (w, Inr True) \<Rightarrow>
                            (pl\<lparr>pl_adapter := Some w, pl_binding := True,
                                pl_registered_pid := Some (pr_pid p)\<rparr>, Inr ()))))))"

definition stop_plugin :: "(py_float \<Rightarrow> string) \<Rightarrow> stopping \<Rightarrow> plugin \<Rightarrow> plugin \<times> bool" where
  "stop_plugin repr sp pl =
     (case pl_adapter pl of
        None \<Rightarrow> (pl, True)
      | Some w \<Rightarrow>
          let (w', stopped) = stop repr sp w in
          (if stopped
           then pl\<lparr>pl_adapter := None, pl_binding := False, pl_registered_pid := None\<rparr>
           else pl\<lparr>pl_adapter := Some w'\<rparr>, stopped))"

text \<open>In a forked child; the inherited adapter is abandoned and forgotten.\<close>

definition after_fork_in_child :: "process \<Rightarrow> plugin \<Rightarrow> plugin \<times> adapter option" where
  "after_fork_in_child p pl =
     (if Some (pr_pid p) = pl_registered_pid pl then (pl, None)
      else (pl\<lparr>pl_adapter := None, pl_binding := False, pl_registered_pid := None\<rparr>,
            map_option (adapter_abandon_after_fork \<circ> aw_adapter) (pl_adapter pl)))"

section \<open>One adapter per process\<close>

definition plugin_ok :: "plugin \<Rightarrow> bool" where
  "plugin_ok pl \<longleftrightarrow>
     (pl_registered_pid pl \<noteq> None \<longleftrightarrow> pl_adapter pl \<noteq> None) \<and>
     (pl_binding pl \<longleftrightarrow> pl_adapter pl \<noteq> None) \<and>
     (case pl_adapter pl of None \<Rightarrow> True | Some w \<Rightarrow>
        adapter_inv (aw_adapter w))"

lemma plugin_config_accepted:
  "\<exists>c. make_config (plugin_config path) = Inr c \<and> oc_enabled c \<and> oc_event_path c = Some path"
  by (simp add: make_config_def plugin_config_def as_path_def as_label_def bounded_int_def
      timeout_seconds_def DEFAULT_MAX_PENDING_RECORDS_def MIN_RECORD_BYTES_def
      DEFAULT_MAX_RECORD_BYTES_def DEFAULT_MAX_FILE_BYTES_def
      DEFAULT_MAX_CORRELATED_TRANSFERS_def DEFAULT_MAX_RECOVERY_ADMISSIONS_def
      MAX_TRANSFER_ASSOCIATIONS_def DEFAULT_MAX_PENDING_DESCRIPTORS_def
      MAX_DESCRIPTOR_REGIONS_def DEFAULT_MAX_DESCRIPTOR_RECORD_BYTES_def
      DEFAULT_SHUTDOWN_TIMEOUT_SECONDS_def MAX_SHUTDOWN_TIMEOUT_SECONDS_def)

lemma register_ok:
  assumes "plugin_ok pl" "register_plugin repr p made st contents pl = (pl', r)"
  shows "plugin_ok pl'" "pl' = pl \<or> pl_registered_pid pl' = Some (pr_pid p)"
proof -
  obtain c where c: "make_config (plugin_config (event_path p)) = Inr c"
    using plugin_config_accepted by blast
  obtain a where a: "host_adapter (Some c) (PBool False) = Inr a" by (simp add: host_adapter_def)
  let ?w = "adapter_start a contents (\<lambda>_. None)"
  let ?st = "st\<lparr>st_contract := Inr (PStr HOST_OBSERVER_CONTRACT)\<rparr>"
  have "adapter_inv (aw_adapter ?w)" using new_adapter_inv [OF a] by (simp add: adapter_start_def)
  then have inv: "adapter_inv (aw_adapter (fst (start repr ?st ?w)))" by (rule start_inv)
  have "pl' = pl \<or> pl' = pl\<lparr>pl_adapter := Some (fst (start repr ?st ?w)), pl_binding := True,
      pl_registered_pid := Some (pr_pid p)\<rparr>"
    using assms(2) c a
    by (cases "start repr ?st ?w")
      (auto simp: register_plugin_def split: if_splits sum.splits bool.splits)
  then show "plugin_ok pl'" "pl' = pl \<or> pl_registered_pid pl' = Some (pr_pid p)"
    using assms(1) inv by (auto simp: plugin_ok_def)
qed

lemma stop_plugin_ok:
  assumes "plugin_ok pl"
  shows "plugin_ok (fst (stop_plugin repr sp pl))"
    "snd (stop_plugin repr sp pl) \<longleftrightarrow> pl_adapter (fst (stop_plugin repr sp pl)) = None"
proof (atomize (full), cases "pl_adapter pl")
  case (Some w)
  then have "adapter_inv (aw_adapter w)" using assms by (simp add: plugin_ok_def)
  from stop_inv [OF this, of repr sp] Some assms
  show "plugin_ok (fst (stop_plugin repr sp pl)) \<and>
      snd (stop_plugin repr sp pl) = (pl_adapter (fst (stop_plugin repr sp pl)) = None)"
    by (cases "stop repr sp w") (auto simp: stop_plugin_def plugin_ok_def)
qed (use assms in \<open>simp add: stop_plugin_def\<close>)

lemma fork_ok:
  assumes "plugin_ok pl"
  shows "plugin_ok (fst (after_fork_in_child p pl))"
    "pl_registered_pid pl \<noteq> Some (pr_pid p) \<Longrightarrow> pl_adapter (fst (after_fork_in_child p pl)) = None"
  using assms by (auto simp: after_fork_in_child_def plugin_ok_def)

text \<open>The life of a process image: its calls, its callbacks and writers, its forks.\<close>

datatype plugin_action =
    Register process "unit res" starting string
  | Stop_Plugin stopping
  | Serve busy
  | Fork process

primrec plugin_step :: "(py_float \<Rightarrow> string) \<Rightarrow> plugin \<Rightarrow> plugin_action \<Rightarrow> plugin" where
  "plugin_step repr pl (Register p made st contents) = fst (register_plugin repr p made st contents pl)"
| "plugin_step repr pl (Stop_Plugin sp) = fst (stop_plugin repr sp pl)"
| "plugin_step repr pl (Serve b) =
     pl\<lparr>pl_adapter := map_option (\<lambda>w. busy_step repr w b) (pl_adapter pl)\<rparr>"
| "plugin_step repr pl (Fork p) = fst (after_fork_in_child p pl)"

definition empty_plugin :: plugin where
  "empty_plugin = \<lparr>pl_registered_pid = None, pl_adapter = None, pl_binding = False\<rparr>"

interpretation plugin_life: machine "plugin_step repr" "\<lambda>_. True" plugin_ok
  for repr
proof unfold_locales
  fix pl e
  assume ok: "plugin_ok pl"
  show "plugin_ok (plugin_step repr pl e)"
  proof (cases e)
    case (Register p made st contents)
    with ok register_ok(1) [OF ok] show ?thesis by (metis plugin_step.simps(1) prod.collapse)
  next
    case (Serve b)
    with ok show ?thesis by (auto simp: plugin_ok_def busy_inv split: option.splits)
  qed (use ok in \<open>simp_all add: stop_plugin_ok fork_ok\<close>)
qed

lemma plugin_reached: "plugin_ok (run (plugin_step repr) acts empty_plugin)"
  by (rule plugin_life.run_keeps) (simp_all add: plugin_ok_def empty_plugin_def list_all_iff)

definition demo_process :: process where
  "demo_process = \<lparr>pr_pid = 7,
     pr_environment = [VLLM_PLUGINS_ENV \<mapsto> ''other, kv_transfer_observability'',
       EVENT_PATH_ENV \<mapsto> ''/var/tmp/events.jsonl''],
     pr_sha256_hex = (\<lambda>_. []), pr_temporary_directory = ''/tmp''\<rparr>"

definition demo_registration :: plugin_action where
  "demo_registration = Register demo_process (Inr ()) (demo_starting (Inr (PInt 1))) []"

lemma demo_plugin_registered:
  "pl_registered_pid (run (plugin_step (\<lambda>_. [])) [demo_registration] empty_plugin) = Some 7"
  by code_simp

section \<open>Properties of the plugin\<close>

text \<open>
  C39: a process has at most one adapter, and it is its own. After any life of registrations,
  stops, callbacks and forks, an adapter is held exactly if a process is registered, and it
  satisfies the adapter's invariant; a registration by the registered process changes nothing;
  a process of another id drops the inherited adapter after its fork; and a stop answers True
  exactly if it leaves no adapter.
\<close>

theorem one_adapter_per_process:
  assumes "pl = run (plugin_step repr) acts empty_plugin"
  shows "(pl_registered_pid pl = None \<longleftrightarrow> pl_adapter pl = None) \<and>
    (\<forall>w. pl_adapter pl = Some w \<longrightarrow> adapter_inv (aw_adapter w)) \<and>
    (pl_registered_pid pl = Some (pr_pid p) \<longrightarrow>
       register_plugin repr p made st contents pl = (pl, Inr ())) \<and>
    (pl_registered_pid pl \<noteq> Some (pr_pid p) \<longrightarrow>
       pl_adapter (fst (after_fork_in_child p pl)) = None) \<and>
    (snd (stop_plugin repr sp pl) \<longleftrightarrow> pl_adapter (fst (stop_plugin repr sp pl)) = None)"
proof -
  have ok: "plugin_ok pl" unfolding assms by (rule plugin_reached)
  then have "pl_registered_pid pl = None \<longleftrightarrow> pl_adapter pl = None"
    "\<forall>w. pl_adapter pl = Some w \<longrightarrow> adapter_inv (aw_adapter w)"
    by (auto simp: plugin_ok_def)
  moreover have "pl_registered_pid pl = Some (pr_pid p) \<longrightarrow>
      register_plugin repr p made st contents pl = (pl, Inr ())"
    by (simp add: register_plugin_def)
  ultimately show ?thesis using fork_ok(2) [OF ok] stop_plugin_ok(2) [OF ok] by blast
qed

theorem one_adapter_per_process_witness:
  "let pl = run (plugin_step (\<lambda>_. [])) [demo_registration] empty_plugin in
   pl_registered_pid pl = Some 7 \<and> pl_adapter pl \<noteq> None \<and>
   register_plugin (\<lambda>_. []) demo_process (Inr ()) (demo_starting (Inr (PInt 1))) [] pl = (pl, Inr ())"
proof -
  have pid: "pr_pid demo_process = 7" by (simp add: demo_process_def)
  show ?thesis
    using one_adapter_per_process [OF refl, of "\<lambda>_. []" "[demo_registration]" demo_process "Inr ()"
        "demo_starting (Inr (PInt 1))" "[]" demo_stopping] demo_plugin_registered
    unfolding Let_def pid by auto
qed

end
