(* ===== verification/Spec2Isabelle.thy ===== *)
theory Spec2Isabelle
  imports Chain_Validation Native Codec_Correlated Threads_History Verify_Events B134 Plugin
begin

text \<open>
  Verification of vllm-hust-kv-transfer-observability, the plugin that observes KV-cache transfers
  of a vLLM host: src/src/vllm_hust_kv_transfer_observability/.

  The program. A host calls the offloading binding (native.py) with its own transfer records.
  The binding turns them into typed source records and hands them to the adapter (adapter.py),
  which passes them through the lifecycle normalizer (normalization.py) and puts the observations
  it publishes (schema.py) into the event sink (events.py), a bounded queue whose worker appends
  JSON lines to one file. Host facts (host_facts.py) and correlated host records (correlated.py)
  go to the sink directly; descriptor inventories (descriptors.py) go to a second queue, whose
  writer publishes one file each. The plugin entry (plugin.py) makes one adapter per process
  from the environment and the closed configuration (config.py). The validator (validation.py)
  reads the files back offline and checks recovery chains and descriptors. b134.py is a fixed
  table of legacy event names.

  Theories and modules.
  \<^item> \<open>Prelude\<close>: exceptions and results, strings and decimals, sorting, and the locales \<open>machine\<close>
    (an invariant every call keeps) and \<open>tally\<close> (a counter every call advances). \<open>Py_Values\<close>:
    Python values, the package's enumerations, lookup of an enum member by its value.
  \<^item> \<open>Schema\<close>: schema.py. The observation constructor with its shape table against the sum type
    \<open>lifecycle\<close> of legal observations; scoped identifiers.
  \<^item> \<open>Normalization\<close>: normalization.py, source records and every handler. \<open>Normalizer_Invariant\<close>
    has the well-formedness of its three tables, \<open>Normalizer_Ledger\<close> an abstract ledger of starts,
    restores and admissions, \<open>Normalizer_History\<close> the properties of whole histories, most of them
    through the locale \<open>ledger_law\<close>.
  \<^item> \<open>HostFacts\<close>, \<open>Correlated\<close>: host_facts.py and correlated.py, constructors against the sum
    types of their claims and links.
  \<^item> \<open>Native\<close>: native.py, the binding's registration and its three observers on arbitrary host
    objects, and histories of calls.
  \<^item> \<open>Json\<close>, \<open>Json_Text\<close>: JSON values up to the order of keys, Python's equality on them, the
    compact and the indented writer, the reader for any choice of hooks, and their inversion for
    hooks that keep a dictionary (locale \<open>object_hook\<close>): the package's, and none at all.
  \<^item> \<open>Events\<close>, \<open>Event_History\<close>: events.py, with the worker's and the callers' atomic steps, and
    histories of every interleaving.
  \<^item> \<open>Descriptors\<close>, \<open>Descriptor_History\<close>: descriptors.py, the file operations of one publication
    in every outcome, and histories of the asynchronous capture.
  \<^item> \<open>Codec\<close>, \<open>Codec_Host\<close>, \<open>Codec_Correlated\<close>, \<open>Inventory_Codec\<close>: the four decoders of
    validation.py, each proved to accept exactly the payloads of valid records.
  \<^item> \<open>Restore_Chain\<close>, \<open>Correlated_Chain\<close>, \<open>Chain_Validation\<close>: the two chain checks of
    validation.py and their entry point, against \<open>complete_episode\<close> and the complete group.
  \<^item> \<open>Reader\<close>, \<open>Read_Back\<close>, \<open>Artifact_Check\<close>: reading event files and capture directories,
    main, and the agreement of readers and writers. \<open>Sink_Read_Back\<close> carries it to whole histories
    of the sink: what the reader gets from the file a history leaves. \<open>Verify_Events\<close> is the
    older checker tools/e2e_910b/verify_events.py, for version 1 of both schemas, and what it
    makes of the same files.
  \<^item> \<open>Config\<close>, \<open>Adapter\<close>, \<open>Adapter_History\<close>, \<open>Plugin\<close>, \<open>B134\<close>: the modules of these names;
    the adapter owns the models of the normalizer, the sink and the capture, and its histories
    interleave starts, stops, callbacks and writer steps.
  \<^item> \<open>Adapter_Threads\<close>: adapter.py once more, at the grain of its locks, for any number of host
    threads: every section of a callback, a stop and a start is a step of its own, and every set
    of resources (normalizer, sink, capture) ever installed keeps existing with its writers.
    \<open>Threads_Invariant\<close> has the invariant \<open>threads_inv\<close>, which balances every set's counters
    against the callbacks still inside it; \<open>Threads_Progress\<close> the life of one set and of one
    callback (\<open>finality\<close>, the \<open>midway_\<close> lemmas); \<open>Threads_Overlap\<close> two callbacks in flight at
    once; \<open>Threads_Release\<close> when the writers of a set let go have ended; \<open>Threads_File\<close> what the
    sets' files hold; \<open>Threads_History\<close> the properties of whole histories.

  Modelling. A class instance is a record, an enum a datatype, an exception an \<open>Inl\<close>;
  every raise and early return is a branch. Exceptions are subclasses of
  \<^verbatim>\<open>Exception\<close>: what the host, the binding or the system interrupt a call
  with beside them (KeyboardInterrupt, SystemExit) is not modelled. A mutating method returns the
  updated record. Python's integers are \<open>int\<close>, with the code's uint bounds written
  out. Values of unchecked type are \<open>pyval\<close>s, so a constructor's type checks are part
  of the model. Strings hold characters up to code 255; what a field accepts is restricted to
  ASCII by the code's own checks. Clocks, random tokens, process ids and digests are arguments,
  and so is every answer of the operating system, the host and the binding: a theorem holds
  whatever they answer.

  Concurrency. A call under a lock is one step. Threads that share a queue are separate atomic
  steps, and the histories are arbitrary lists of them: for the sink and the capture the admission,
  the worker's taking and its finishing of a record, and both halves of a close. In \<open>Adapter\<close> a
  callback is one step; in \<open>Adapter_Threads\<close> it is split wherever the code takes or releases a
  lock, so that two host threads are inside callbacks at once, a stop or a stop and a restart
  overtakes a callback between its state check and its emit, and writers of released sets go on.
  A callback that nothing overtakes is shown to do what the single step does. A fork is an event
  of \<open>Adapter\<close> and \<open>Plugin\<close>, not of the thread model.

  Bounds and fuel. The reader \<open>scan_value\<close> has fuel, twice the length of the text and
  two, and \<open>loads_fuel\<close> shows that more makes no difference; the write loop ends because each
  write consumes bytes, the line reader because each line does.

  What the lemmas show. Constructors and decoders are characterised by equivalences
  (\<open>observation_iff\<close>, \<open>make_host_fact_iff\<close>,
  \<open>make_correlated_iff\<close>, \<open>make_inventory_iff\<close>,
  \<open>make_config_iff\<close> and the \<open>_decode_iff\<close> lemmas); each stateful
  component has an invariant kept by every step (\<open>norm_inv\<close>,
  \<open>binding_inv\<close>, \<open>sink_inv\<close>, \<open>file_inv\<close>,
  \<open>adapter_inv\<close>, \<open>threads_inv\<close>, \<open>finality\<close>,
  \<open>file_sound\<close>, \<open>all_quiet\<close>, \<open>plugin_ok\<close>) and an
  interpretation of \<open>machine\<close> on its step function; the properties, each after its
  text with a claim number, rest on these.

  Not modelled. The interpreter's recursion limit and memory; non-ASCII bytes in the files read
  (\<open>jr_loads_other\<close> stands for what the decoder makes of them); conversion of number texts to
  floats (\<open>jr_float\<close>) and back (\<open>repr\<close>), which no record the package writes needs; argument
  parsing and printing of the two mains; \<^verbatim>\<open>Path\<close> objects beyond their string; the
  re-exports of \<^verbatim>\<open>__init__.py\<close>; the other tools, which check packaging or drive an installed
  host: their work is done by pip and by host classes that are not in this repository.
\<close>

end
